(* ===== verification/Prelude.thy ===== *)
theory Prelude
  imports Main "HOL-Library.Word" "HOL-Library.AList" "HOL-Library.Monad_Syntax"
    "HOL-Library.Char_ord" "HOL-Library.List_Lexorder"
begin

text \<open>
  Shared vocabulary of the limitador development.

  \<^item> Rust's \<^verbatim>\<open>u64\<close> is \<^typ>\<open>64 word\<close>: \<open>+\<close> wraps, as in the release profile of
    the workspace (which leaves overflow checks off), and the saturating and checked
    operations the source calls are defined below.
  \<^item> \<^verbatim>\<open>Duration\<close> is a number of nanoseconds, \<^verbatim>\<open>SystemTime\<close> a number of nanoseconds since
    the Unix epoch; adding a duration to an instant panics when the seconds leave
    \<^verbatim>\<open>i64\<close>, as the standard library does.
  \<^item> A function that may panic returns an option, \<open>None\<close> being the panic;
    \<^verbatim>\<open>Result<T, E>\<close> is the sum type \<open>'e + 't\<close>.
  \<^item> A hash map, tree map or cache is an association list without repeated keys.
\<close>

named_theorems u64_simps \<open>the unsigned reading of u64 operations\<close>
named_theorems assoc_simps \<open>lookups in association lists after an operation\<close>

section \<open>Machine integers\<close>

type_synonym u64 = "64 word"

abbreviation u64_max :: nat where
  "u64_max \<equiv> 2 ^ 64 - 1"

definition saturating_add :: "u64 \<Rightarrow> u64 \<Rightarrow> u64" where
  "saturating_add a b = (if unat a + unat b < 2 ^ 64 then a + b else - 1)"

definition saturating_sub :: "u64 \<Rightarrow> u64 \<Rightarrow> u64" where
  "saturating_sub a b = (if b \<le> a then a - b else 0)"

definition checked_sub :: "u64 \<Rightarrow> u64 \<Rightarrow> u64 option" where
  "checked_sub a b = (if b \<le> a then Some (a - b) else None)"

lemma unat_u64_less [simp]: "unat (a :: u64) < 18446744073709551616"
  using unsigned_less [of a] by simp

lemma unat_u64_le: "unat (a :: u64) \<le> 18446744073709551615"
  using unat_u64_less [of a] by linarith

lemma unat_max_word [u64_simps]: "unat (- 1 :: u64) = 2 ^ 64 - 1"
  by (simp add: unsigned_minus_1_eq_mask mask_eq_exp_minus_1)

lemma unat_saturating_add [u64_simps]:
  "unat (saturating_add a b) = min (unat a + unat b) (2 ^ 64 - 1)"
proof (cases "unat a + unat b < 2 ^ 64")
  case True
  then have "unat (a + b) = unat a + unat b"
    by (subst unat_add_lem [symmetric]) simp
  with True show ?thesis by (simp add: saturating_add_def)
next
  case False
  then show ?thesis by (simp add: saturating_add_def unat_max_word)
qed

lemma unat_saturating_sub [u64_simps]: "unat (saturating_sub a b) = unat a - unat b"
  by (auto simp: saturating_sub_def unat_sub word_le_nat_alt)

lemma checked_sub_eq_None [u64_simps]: "checked_sub a b = None \<longleftrightarrow> unat a < unat b"
  by (auto simp: checked_sub_def word_le_nat_alt)

lemma checked_sub_eq_Some [u64_simps]:
  "checked_sub a b = Some c \<longleftrightarrow> unat b \<le> unat a \<and> c = a - b"
  by (auto simp: checked_sub_def word_le_nat_alt)

lemma unat_add_no_overflow [u64_simps]:
  "unat a + unat b < 2 ^ 64 \<Longrightarrow> unat (a + b :: u64) = unat a + unat b"
  by (subst unat_add_lem [symmetric]) simp

lemma le_u64_iff [u64_simps]: "(a :: u64) \<le> b \<longleftrightarrow> unat a \<le> unat b"
  by (fact word_le_nat_alt)

lemma less_u64_iff [u64_simps]: "(a :: u64) < b \<longleftrightarrow> unat a < unat b"
  by (fact word_less_nat_alt)

lemma unat_of_nat_u64: "n < 2 ^ 64 \<Longrightarrow> unat (of_nat n :: u64) = n"
  by (simp add: unat_of_nat)

section \<open>Time\<close>

type_synonym duration = nat
type_synonym systime = nat

definition from_secs :: "u64 \<Rightarrow> duration" where
  "from_secs s = unat s * 10 ^ 9"

definition from_micros :: "u64 \<Rightarrow> duration" where
  "from_micros u = unat u * 1000"

definition from_millis :: "u64 \<Rightarrow> duration" where
  "from_millis u = unat u * 1000000"

definition as_secs :: "duration \<Rightarrow> u64" where
  "as_secs d = of_nat (d div 10 ^ 9)"

definition as_micros :: "duration \<Rightarrow> nat" where
  "as_micros d = d div 1000"

text \<open>\<^verbatim>\<open>SystemTime + Duration\<close>; the seconds of the sum must fit in an \<^verbatim>\<open>i64\<close>.\<close>

definition systime_add :: "systime \<Rightarrow> duration \<Rightarrow> systime option" where
  "systime_add t d = (if (t + d) div 10 ^ 9 < 2 ^ 63 then Some (t + d) else None)"

text \<open>\<^verbatim>\<open>t.duration_since(s).unwrap_or(Duration::ZERO)\<close> is truncated subtraction.\<close>

definition duration_since_or_zero :: "systime \<Rightarrow> systime \<Rightarrow> duration" where
  "duration_since_or_zero t s = t - s"

lemma systime_add_eq_Some:
  "systime_add t d = Some r \<longleftrightarrow> (t + d) div 10 ^ 9 < 2 ^ 63 \<and> r = t + d"
  by (auto simp: systime_add_def)

text \<open>An instant that went through whole seconds.\<close>

definition whole_secs :: "systime \<Rightarrow> systime" where
  "whole_secs t = t div 10 ^ 9 * 10 ^ 9"

lemma unat_as_secs: "t div 10 ^ 9 < 2 ^ 63 \<Longrightarrow> unat (as_secs t) = t div 10 ^ 9"
  by (simp add: as_secs_def unat_of_nat)

section \<open>Loops that may panic\<close>

primrec fold_panic :: "('a \<Rightarrow> 's \<Rightarrow> 's option) \<Rightarrow> 'a list \<Rightarrow> 's \<Rightarrow> 's option" where
  "fold_panic f [] s = Some s"
| "fold_panic f (x # xs) s = Option.bind (f x s) (fold_panic f xs)"

primrec map_panic :: "('a \<Rightarrow> 's \<Rightarrow> ('b \<times> 's) option) \<Rightarrow> 'a list \<Rightarrow> 's \<Rightarrow> ('b list \<times> 's) option" where
  "map_panic f [] s = Some ([], s)"
| "map_panic f (x # xs) s =
     Option.bind (f x s) (\<lambda>(y, s').
     Option.bind (map_panic f xs s') (\<lambda>(ys, s''). Some (y # ys, s'')))"

text \<open>\<^verbatim>\<open>iter().map(f).collect()\<close> when \<open>f\<close> may panic.\<close>

primrec traverse :: "('a \<Rightarrow> 'b option) \<Rightarrow> 'a list \<Rightarrow> 'b list option" where
  "traverse f [] = Some []"
| "traverse f (x # xs) =
     Option.bind (f x) (\<lambda>y. Option.bind (traverse f xs) (\<lambda>ys. Some (y # ys)))"

lemma traverse_eq_Some: "traverse f xs = Some ys \<longleftrightarrow> list_all2 (\<lambda>x y. f x = Some y) xs ys"
  by (induction xs arbitrary: ys) (auto simp: bind_eq_Some_conv list_all2_Cons1)

lemma traverse_total: "(\<And>x. x \<in> set xs \<Longrightarrow> f x = Some (g x)) \<Longrightarrow> traverse f xs = Some (map g xs)"
  by (induction xs) auto

text \<open>\<^verbatim>\<open>try_for_each\<close>, or a loop whose body ends in \<^verbatim>\<open>?\<close>: stops at the first error.\<close>

primrec try_each ::
  "('a \<Rightarrow> 's \<Rightarrow> (('err + unit) \<times> 's) option) \<Rightarrow> 'a list \<Rightarrow> 's \<Rightarrow> (('err + unit) \<times> 's) option" where
  "try_each f [] s = Some (Inr (), s)"
| "try_each f (x # xs) s =
     Option.bind (f x s) (\<lambda>(r, s').
       case r of Inl e \<Rightarrow> Some (Inl e, s') | Inr _ \<Rightarrow> try_each f xs s')"

lemma fold_panic_append [simp]:
  "fold_panic f (xs @ ys) s = Option.bind (fold_panic f xs s) (fold_panic f ys)"
proof (induction xs arbitrary: s)
  case (Cons x xs)
  then show ?case by (cases "f x s") simp_all
qed simp

lemma fold_panic_invariant:
  assumes "fold_panic f xs s = Some s'" and "P s"
    and "\<And>x t t'. x \<in> set xs \<Longrightarrow> P t \<Longrightarrow> f x t = Some t' \<Longrightarrow> P t'"
  shows "P s'"
  using assms
proof (induction xs arbitrary: s)
  case (Cons x xs)
  then obtain t where "f x s = Some t" "fold_panic f xs t = Some s'"
    by (auto split: bind_splits)
  with Cons show ?case by (metis list.set_intros(1) list.set_intros(2))
qed simp

lemma map_panic_length:
  "map_panic f xs s = Some (ys, s') \<Longrightarrow> length ys = length xs"
  by (induction xs arbitrary: s ys) (auto split: bind_splits prod.splits)

section \<open>Association lists\<close>

text \<open>\<open>alist_modify k f al\<close> changes the value stored under \<open>k\<close> in place: the effect of mutating a
  value that the map owns through a reference.\<close>

primrec alist_modify :: "'k \<Rightarrow> ('v \<Rightarrow> 'v) \<Rightarrow> ('k \<times> 'v) list \<Rightarrow> ('k \<times> 'v) list" where
  "alist_modify k f [] = []"
| "alist_modify k f (p # al) =
     (if fst p = k then (fst p, f (snd p)) # al else p # alist_modify k f al)"

lemma map_of_alist_modify [assoc_simps]:
  "map_of (alist_modify k f al) k' =
     (if k' = k then map_option f (map_of al k) else map_of al k')"
  by (induction al) auto

lemma map_of_alist_update [assoc_simps]:
  "map_of (AList.update k v al) k' = (if k' = k then Some v else map_of al k')"
  by (simp add: update_conv')

lemma map_of_alist_delete [assoc_simps]:
  "map_of (AList.delete k al) k' = (if k' = k then None else map_of al k')"
  by (simp add: delete_conv')

lemma keys_alist_modify [simp]: "map fst (alist_modify k f al) = map fst al"
  by (induction al) auto

lemma map_of_filter_key [assoc_simps]:
  "map_of (filter (\<lambda>p. P (fst p)) al) k = (if P k then map_of al k else None)"
  by (induction al) auto

lemma distinct_keys_filter:
  "distinct (map fst al) \<Longrightarrow> distinct (map fst (filter P al))"
  by (induction al) (auto simp: rev_image_eqI)

lemma set_alist_update: "set (AList.update k v al) \<subseteq> insert (k, v) (set al)"
  by (induction al) auto

lemma ball_alist_update:
  "P (k, v) \<Longrightarrow> \<forall>x\<in>set al. P x \<Longrightarrow> \<forall>x\<in>set (AList.update k v al). P x"
  using set_alist_update [of k v al] by blast

lemma ball_alist_delete: "\<forall>x\<in>set al. P x \<Longrightarrow> \<forall>x\<in>set (AList.delete k al). P x"
  by (auto simp: AList.delete_eq)

lemma filter_image_disjoint:
  assumes "distinct (map f xs)" "\<And>x. P x \<Longrightarrow> \<not> Q x"
  shows "f ` set (filter P xs) \<inter> f ` set (filter Q xs) = {}"
  using assms by (fastforce simp: distinct_map inj_on_def)

section \<open>Hash sets keyed by a projection\<close>

text \<open>A \<^verbatim>\<open>HashSet\<close> whose equality looks only at \<open>f\<close>: a list without two elements of the same key, in
  iteration order.  \<^verbatim>\<open>insert\<close> keeps the element that is already there and reports whether it added
  one.\<close>

definition hset_get :: "('a \<Rightarrow> 'k) \<Rightarrow> 'k \<Rightarrow> 'a list \<Rightarrow> 'a option" where
  "hset_get f k xs = List.find (\<lambda>x. f x = k) xs"

definition hset_insert :: "('a \<Rightarrow> 'k) \<Rightarrow> 'a \<Rightarrow> 'a list \<Rightarrow> bool \<times> 'a list" where
  "hset_insert f x xs =
     (if f x \<in> f ` set xs then (False, xs) else (True, xs @ [x]))"

definition hset_remove :: "('a \<Rightarrow> 'k) \<Rightarrow> 'k \<Rightarrow> 'a list \<Rightarrow> 'a list" where
  "hset_remove f k xs = filter (\<lambda>x. f x \<noteq> k) xs"

definition hset_collect :: "('a \<Rightarrow> 'k) \<Rightarrow> 'a list \<Rightarrow> 'a list" where
  "hset_collect f xs = fold (\<lambda>x s. snd (hset_insert f x s)) xs []"

text \<open>\<^verbatim>\<open>HashSet::difference\<close> and \<^verbatim>\<open>HashSet::union\<close>; the standard library's union iterates the larger set
  first and adds what only the smaller one has.\<close>

definition hset_difference :: "('a \<Rightarrow> 'k) \<Rightarrow> 'a list \<Rightarrow> 'a list \<Rightarrow> 'a list" where
  "hset_difference f xs ys = filter (\<lambda>x. f x \<notin> f ` set ys) xs"

definition hset_union :: "('a \<Rightarrow> 'k) \<Rightarrow> 'a list \<Rightarrow> 'a list \<Rightarrow> 'a list" where
  "hset_union f xs ys =
     (if length ys \<le> length xs then xs @ hset_difference f ys xs
      else ys @ hset_difference f xs ys)"

lemma hset_difference_keys: "f ` set (hset_difference f xs ys) = f ` set xs - f ` set ys"
  by (auto simp: hset_difference_def)

lemma hset_union_keys: "f ` set (hset_union f xs ys) = f ` set xs \<union> f ` set ys"
  by (auto simp: hset_union_def hset_difference_def)

lemma hset_union_distinct:
  assumes "distinct (map f xs)" "distinct (map f ys)"
  shows "distinct (map f (hset_union f xs ys))"
proof -
  have "distinct (map f (as @ hset_difference f bs as))"
    if "distinct (map f as)" "distinct (map f bs)" for as bs
    unfolding map_append distinct_append hset_difference_def
    using that distinct_map_filter [OF that(2)] by (auto, metis imageI)
  with assms show ?thesis by (simp add: hset_union_def)
qed

lemma hset_get_None: "hset_get f k xs = None \<longleftrightarrow> k \<notin> f ` set xs"
  by (auto simp: hset_get_def find_None_iff)

lemma hset_get_SomeD: "hset_get f k xs = Some x \<Longrightarrow> x \<in> set xs \<and> f x = k"
  by (auto simp: hset_get_def find_Some_iff)

lemma hset_get_member:
  assumes "distinct (map f xs)" "x \<in> set xs"
  shows "hset_get f (f x) xs = Some x"
  using assms by (induction xs) (auto simp: hset_get_def)

lemma hset_insert_keys:
  "f ` set (snd (hset_insert f x xs)) = insert (f x) (f ` set xs)"
  "distinct (map f xs) \<Longrightarrow> distinct (map f (snd (hset_insert f x xs)))"
  by (auto simp: hset_insert_def)

lemma hset_insert_mono: "set xs \<subseteq> set (snd (hset_insert f x xs))"
  by (auto simp: hset_insert_def)

lemma hset_insert_subset: "set (snd (hset_insert f x xs)) \<subseteq> insert x (set xs)"
  by (auto simp: hset_insert_def)

lemma hset_remove_simps:
  "set (hset_remove f k xs) = {x \<in> set xs. f x \<noteq> k}"
  "distinct (map f xs) \<Longrightarrow> distinct (map f (hset_remove f k xs))"
  by (auto simp: hset_remove_def distinct_map inj_on_def)

lemma hset_fold_insert:
  assumes "distinct (map f s)"
  shows "f ` set (fold (\<lambda>x s. snd (hset_insert f x s)) xs s) = f ` set s \<union> f ` set xs"
    "distinct (map f (fold (\<lambda>x s. snd (hset_insert f x s)) xs s))"
    "set (fold (\<lambda>x s. snd (hset_insert f x s)) xs s) \<subseteq> set s \<union> set xs"
  using assms
proof (induction xs arbitrary: s)
  case (Cons x xs)
  {
    case 1
    then show ?case
      using Cons(1) [of "snd (hset_insert f x s)"] hset_insert_keys [where f = f and x = x and xs = s] by auto
  next
    case 2
    then show ?case
      using Cons(2) [of "snd (hset_insert f x s)"] hset_insert_keys(2) [where f = f and x = x and xs = s] by auto
  next
    case 3
    then show ?case
      using Cons(3) [of "snd (hset_insert f x s)"] hset_insert_keys(2) [where f = f and x = x and xs = s]
        hset_insert_subset [of f x s] by fastforce
  }
qed auto

lemma hset_collect_keys:
  "f ` set (hset_collect f xs) = f ` set xs" "distinct (map f (hset_collect f xs))"
  "set (hset_collect f xs) \<subseteq> set xs"
  using hset_fold_insert [of f "[]" xs] by (simp_all add: hset_collect_def)

lemma hset_collect_id:
  assumes "distinct (map f xs)"
  shows "hset_collect f xs = xs"
proof -
  have "fold (\<lambda>x s. snd (hset_insert f x s)) xs s = s @ xs"
    if "distinct (map f (s @ xs))" for s
    using that
  proof (induction xs arbitrary: s)
    case (Cons x xs)
    then have "f x \<notin> f ` set s" by auto
    with Cons show ?case by (simp add: hset_insert_def)
  qed simp
  from this [of "[]"] assms show ?thesis by (simp add: hset_collect_def)
qed

section \<open>Caches\<close>

text \<open>The \<^verbatim>\<open>moka\<close> caches are external.  Their documented behaviour is that of a map that may drop
  entries on its own; which keys it drops during an operation is the parameter \<open>ev\<close>.\<close>

definition cache_insert :: "('k \<Rightarrow> bool) \<Rightarrow> 'k \<Rightarrow> 'v \<Rightarrow> ('k \<times> 'v) list \<Rightarrow> ('k \<times> 'v) list" where
  "cache_insert ev k v c = filter (\<lambda>p. \<not> ev (fst p)) (AList.update k v c)"

lemma map_of_cache_insert [assoc_simps]:
  "map_of (cache_insert ev k v c) k' =
     (if ev k' then None else if k' = k then Some v else map_of c k')"
  by (simp add: cache_insert_def assoc_simps map_of_filter_key [of "\<lambda>k. \<not> ev k"])

lemma distinct_cache_insert [simp]:
  "distinct (map fst c) \<Longrightarrow> distinct (map fst (cache_insert ev k v c))"
  by (simp add: cache_insert_def distinct_keys_filter distinct_update)

lemma ball_cache_insert:
  "P (k, v) \<Longrightarrow> \<forall>x\<in>set c. P x \<Longrightarrow> \<forall>x\<in>set (cache_insert ev k v c). P x"
  using ball_alist_update [of P k v c] by (auto simp: cache_insert_def)

text \<open>The surroundings of one call: the clock reading and the keys the cache drops.\<close>

record 'k env =
  env_now :: systime
  env_evicts :: "'k \<Rightarrow> bool"

end
