(* ===== verification/Limits.thy ===== *)
theory Limits
  imports Prelude "HOL-Library.Product_Lexorder"
begin

text \<open>
  Limits, and the conditions and variables they are made of: \<^verbatim>\<open>limitador/src/limit.rs\<close> and
  \<^verbatim>\<open>limitador/src/limit/cel.rs\<close>.

  The CEL interpreter is the external crate \<^verbatim>\<open>cel\<close>.  It enters as the parameter \<open>cel\<close>, a record
  of the four things the source asks of it: parsing a text, the variables an expression refers
  to, resolving an expression in a set of bindings, and the debug text of a value.  A
  \<^verbatim>\<open>cel::Context\<close> is the list of bindings added to it, the latest first, so that an inner scope
  is a longer list.  The values of the crate are those the source matches on; a float, duration,
  timestamp, function or opaque value is represented by its printed text, which is all the
  source uses.
\<close>

section \<open>Values, contexts and errors\<close>

datatype cel_key = KInt int | KUint u64 | KBool bool | KString string

datatype cel_value =
    VInt int
  | VUInt u64
  | VFloat string
  | VString string
  | VNull
  | VBool bool
  | VBytes "8 word list"
  | VList "cel_value list"
  | VMap "(cel_key \<times> cel_value) list"
  | VFunction string
  | VDuration string
  | VTimestamp string
  | VOpaque string

datatype execution_error = NoSuchKey string | OtherExecutionError string

datatype evaluation_error = UnexpectedValueType string | ExecutionError execution_error

datatype parse_error = ParseError string string

type_synonym bindings = "(string \<times> cel_value) list"

record 'e cel =
  cel_parse :: "string \<Rightarrow> string + 'e"
  cel_references :: "'e \<Rightarrow> string list"
  cel_resolve :: "'e \<Rightarrow> bindings \<Rightarrow> execution_error + cel_value"
  cel_debug :: "cel_value \<Rightarrow> string"

record cel_context =
  ctx_variables :: "string set"
  ctx_bindings :: bindings

record 'e expression =
  source :: string
  expression :: 'e

record 'e predicate =
  pred_variables :: "string set"
  pred_expression :: "'e expression"

record 'e limit =
  limit_id :: "string option"
  namespace :: string
  max_value :: u64
  seconds :: u64
  limit_name :: "string option"
  conditions :: "'e predicate list"
  variables :: "'e expression list"

section \<open>Contexts\<close>

definition string_map :: "(string \<times> string) list \<Rightarrow> cel_value" where
  "string_map values = VMap (map (\<lambda>(k, v). (KString k, VString v)) values)"

definition add_variable_from_value :: "string \<Rightarrow> cel_value \<Rightarrow> bindings \<Rightarrow> bindings" where
  "add_variable_from_value name v bs = (name, v) # bs"

definition context_new :: "string \<Rightarrow> (string \<times> string) list \<Rightarrow> cel_context" where
  "context_new root values =
     (if root = [] then
        fold (\<lambda>(binding, v) c.
            c\<lparr>ctx_bindings := add_variable_from_value binding (VString v) (ctx_bindings c),
              ctx_variables := insert binding (ctx_variables c)\<rparr>)
          values \<lparr>ctx_variables = {}, ctx_bindings = []\<rparr>
      else \<lparr>ctx_variables = {},
             ctx_bindings = add_variable_from_value root (string_map values) []\<rparr>)"

definition context_default :: cel_context where
  "context_default = context_new [] []"

definition context_from :: "(string \<times> string) list \<Rightarrow> cel_context" where
  "context_from values = context_new [] values"

definition list_binding ::
  "string \<Rightarrow> (string \<times> string) list list \<Rightarrow> cel_context \<Rightarrow> cel_context" where
  "list_binding name values c =
     c\<lparr>ctx_variables := insert name (ctx_variables c),
       ctx_bindings :=
         add_variable_from_value name (VList (map string_map values)) (ctx_bindings c)\<rparr>"

definition opt_string_value :: "string option \<Rightarrow> cel_value" where
  "opt_string_value s = (case s of Some n \<Rightarrow> VString n | None \<Rightarrow> VNull)"

definition for_limit :: "cel_context \<Rightarrow> 'e limit \<Rightarrow> cel_context" where
  "for_limit c l =
     \<lparr>ctx_variables = ctx_variables c,
      ctx_bindings =
        add_variable_from_value ''limit''
          (VMap [(KString ''name'', opt_string_value (limit_name l)),
                 (KString ''id'', opt_string_value (limit_id l))]) (ctx_bindings c)\<rparr>"

definition has_variables :: "cel_context \<Rightarrow> string list \<Rightarrow> bool" where
  "has_variables c names = list_all (\<lambda>n. n \<in> ctx_variables c) names"

section \<open>Expressions and predicates\<close>

definition expression_parse :: "'e cel \<Rightarrow> string \<Rightarrow> parse_error + 'e expression" where
  "expression_parse cel src =
     (case cel_parse cel src of
        Inr e \<Rightarrow> Inr \<lparr>source = src, expression = e\<rparr>
      | Inl err \<Rightarrow> Inl (ParseError err src))"

definition resolve ::
  "'e cel \<Rightarrow> 'e expression \<Rightarrow> cel_context \<Rightarrow> execution_error + cel_value" where
  "resolve cel e c = cel_resolve cel (expression e) (ctx_bindings c)"

definition expression_variables :: "'e cel \<Rightarrow> 'e expression \<Rightarrow> string list" where
  "expression_variables cel e = cel_references cel (expression e)"

fun show_nat :: "nat \<Rightarrow> string" where
  "show_nat n = (if n < 10 then [char_of (48 + n)] else show_nat (n div 10) @ [char_of (48 + n mod 10)])"

declare show_nat.simps [simp del]

definition show_int :: "int \<Rightarrow> string" where
  "show_int i = (if i < 0 then ''-'' @ show_nat (nat (- i)) else show_nat (nat i))"

definition show_bool :: "bool \<Rightarrow> string" where
  "show_bool b = (if b then ''true'' else ''false'')"

definition quoted :: "string \<Rightarrow> string \<Rightarrow> evaluation_error" where
  "quoted kind txt = UnexpectedValueType (kind @ '': `'' @ txt @ ''`'')"

definition err_on_value :: "'e cel \<Rightarrow> cel_value \<Rightarrow> evaluation_error" where
  "err_on_value cel v =
     (case v of
        VList _ \<Rightarrow> quoted ''list'' (cel_debug cel v)
      | VMap _ \<Rightarrow> quoted ''map'' (cel_debug cel v)
      | VFunction ident \<Rightarrow> quoted ''function'' ident
      | VBytes _ \<Rightarrow> quoted ''function'' (cel_debug cel v)
      | VDuration d \<Rightarrow> quoted ''duration'' d
      | VTimestamp ts \<Rightarrow> quoted ''timestamp'' ts
      | VInt i \<Rightarrow> quoted ''integer'' (show_int i)
      | VUInt u \<Rightarrow> quoted ''unsigned integer'' (show_nat (unat u))
      | VFloat f \<Rightarrow> quoted ''float'' f
      | VString s \<Rightarrow> quoted ''string'' s
      | VBool b \<Rightarrow> quoted ''bool'' (show_bool b)
      | VNull \<Rightarrow> UnexpectedValueType ''null''
      | VOpaque o' \<Rightarrow> quoted ''opaque'' o')"

definition eval :: "'e cel \<Rightarrow> 'e expression \<Rightarrow> cel_context \<Rightarrow> evaluation_error + string option" where
  "eval cel e c =
     (case resolve cel e c of
        Inr v \<Rightarrow>
          (case v of
             VInt i \<Rightarrow> Inr (Some (show_int i))
           | VUInt u \<Rightarrow> Inr (Some (show_nat (unat u)))
           | VFloat f \<Rightarrow> Inr (Some f)
           | VString s \<Rightarrow> Inr (Some s)
           | VNull \<Rightarrow> Inr (Some ''null'')
           | VBool b \<Rightarrow> Inr (Some (show_bool b))
           | _ \<Rightarrow> Inl (err_on_value cel v))
      | Inl (NoSuchKey _) \<Rightarrow> Inr None
      | Inl err \<Rightarrow> Inl (ExecutionError err))"

definition eval_map ::
  "'e cel \<Rightarrow> 'e expression \<Rightarrow> cel_context \<Rightarrow> evaluation_error + (string \<times> string) list" where
  "eval_map cel e c =
     (case resolve cel e c of
        Inl err \<Rightarrow> Inl (ExecutionError err)
      | Inr (VMap m) \<Rightarrow>
          Inr (List.map_filter
                 (\<lambda>p. case p of (KString k, VString v) \<Rightarrow> Some (k, v) | _ \<Rightarrow> None) m)
      | Inr _ \<Rightarrow> Inr [])"

definition predicate_parse :: "'e cel \<Rightarrow> string \<Rightarrow> parse_error + 'e predicate" where
  "predicate_parse cel src =
     (case expression_parse cel src of
        Inl err \<Rightarrow> Inl err
      | Inr e \<Rightarrow> Inr \<lparr>pred_variables = set (cel_references cel (expression e)),
                      pred_expression = e\<rparr>)"

definition predicate_test :: "'e cel \<Rightarrow> 'e predicate \<Rightarrow> cel_context \<Rightarrow> evaluation_error + bool" where
  "predicate_test cel p c =
     (if \<not> (pred_variables p - {''limit''} \<subseteq> ctx_variables c) then Inr False
      else case resolve cel (pred_expression p) c of
             Inr v \<Rightarrow> (case v of VBool b \<Rightarrow> Inr b | _ \<Rightarrow> Inl (err_on_value cel v))
           | Inl (NoSuchKey _) \<Rightarrow> Inr False
           | Inl err \<Rightarrow> Inl (ExecutionError err))"

definition predicate_source :: "'e predicate \<Rightarrow> string" where
  "predicate_source p = source (pred_expression p)"

section \<open>Limits\<close>

text \<open>Collecting into a \<^verbatim>\<open>BTreeSet\<close> ordered by the source text.\<close>

definition btree_set :: "('a \<Rightarrow> string) \<Rightarrow> 'a list \<Rightarrow> 'a list" where
  "btree_set f xs = foldr (insort_insert_key f) xs []"

definition limit_new ::
  "string \<Rightarrow> u64 \<Rightarrow> u64 \<Rightarrow> 'e predicate list \<Rightarrow> 'e expression list \<Rightarrow> 'e limit" where
  "limit_new ns mx secs conds vars =
     \<lparr>limit_id = None, namespace = ns, max_value = mx, seconds = secs, limit_name = None,
      conditions = btree_set predicate_source conds, variables = btree_set source vars\<rparr>"

definition limit_with_id ::
  "string \<Rightarrow> string \<Rightarrow> u64 \<Rightarrow> u64 \<Rightarrow> 'e predicate list \<Rightarrow> 'e expression list \<Rightarrow> 'e limit" where
  "limit_with_id i ns mx secs conds vars =
     \<lparr>limit_id = Some i, namespace = ns, max_value = mx, seconds = secs, limit_name = None,
      conditions = btree_set predicate_source conds, variables = btree_set source vars\<rparr>"

definition set_name :: "string \<Rightarrow> 'e limit \<Rightarrow> 'e limit" where
  "set_name n l = l\<lparr>limit_name := Some n\<rparr>"

definition set_max_value :: "u64 \<Rightarrow> 'e limit \<Rightarrow> 'e limit" where
  "set_max_value v l = l\<lparr>max_value := v\<rparr>"

definition conditions_set :: "'e limit \<Rightarrow> string set" where
  "conditions_set l = set (map predicate_source (conditions l))"

definition variables_set :: "'e limit \<Rightarrow> string set" where
  "variables_set l = set (map source (variables l))"

text \<open>Insertion into a \<^verbatim>\<open>BTreeMap\<close>: the entries stay sorted by key.\<close>

primrec btree_insert :: "'k :: linorder \<Rightarrow> 'v \<Rightarrow> ('k \<times> 'v) list \<Rightarrow> ('k \<times> 'v) list" where
  "btree_insert k v [] = [(k, v)]"
| "btree_insert k v (p # m) =
     (if k < fst p then (k, v) # p # m
      else if k = fst p then (k, v) # m
      else p # btree_insert k v m)"

primrec resolve_variables_loop ::
  "'e cel \<Rightarrow> cel_context \<Rightarrow> 'e expression list \<Rightarrow> (string \<times> string) list \<Rightarrow>
   evaluation_error + (string \<times> string) list option" where
  "resolve_variables_loop cel c [] m = Inr (Some m)"
| "resolve_variables_loop cel c (v # vs) m =
     (case eval cel v c of
        Inl err \<Rightarrow> Inl err
      | Inr None \<Rightarrow> Inr None
      | Inr (Some x) \<Rightarrow> resolve_variables_loop cel c vs (btree_insert (source v) x m))"

definition resolve_variables ::
  "'e cel \<Rightarrow> 'e limit \<Rightarrow> cel_context \<Rightarrow> evaluation_error + (string \<times> string) list option" where
  "resolve_variables cel l c = resolve_variables_loop cel c (variables l) []"

definition has_variable :: "'e cel \<Rightarrow> 'e limit \<Rightarrow> string \<Rightarrow> bool" where
  "has_variable cel l var =
     list_ex (\<lambda>v. v = var) (concat (map (expression_variables cel) (variables l)))"

text \<open>\<^verbatim>\<open>iter().all(|p| p.test(..).unwrap())\<close>: stops at the first \<open>False\<close>, panics on an error.\<close>

primrec all_unwrap :: "('a \<Rightarrow> 'b + bool) \<Rightarrow> 'a list \<Rightarrow> bool option" where
  "all_unwrap f [] = Some True"
| "all_unwrap f (x # xs) =
     (case f x of
        Inl _ \<Rightarrow> None
      | Inr False \<Rightarrow> Some False
      | Inr True \<Rightarrow> all_unwrap f xs)"

definition applies :: "'e cel \<Rightarrow> 'e limit \<Rightarrow> cel_context \<Rightarrow> bool option" where
  "applies cel l c0 = do {
     let c = for_limit c0 l;
     all_conditions_apply \<leftarrow>
       all_unwrap (\<lambda>p. predicate_test cel p (for_limit c l)) (conditions l);
     let all_vars_are_set =
       list_all (\<lambda>var. has_variables c (expression_variables cel var)) (variables l);
     Some (all_conditions_apply \<and> all_vars_are_set)
   }"

section \<open>Identity and order of limits\<close>

datatype ordering = Less | Equal | Greater

definition cmp :: "'a :: linorder \<Rightarrow> 'a \<Rightarrow> ordering" where
  "cmp a b = (if a < b then Less else if a = b then Equal else Greater)"

definition expression_cmp :: "'e expression \<Rightarrow> 'e expression \<Rightarrow> ordering" where
  "expression_cmp a b = cmp (source a) (source b)"

definition expression_eq :: "'e expression \<Rightarrow> 'e expression \<Rightarrow> bool" where
  "expression_eq a b = (expression_cmp a b = Equal)"

definition predicate_cmp :: "'e predicate \<Rightarrow> 'e predicate \<Rightarrow> ordering" where
  "predicate_cmp a b = expression_cmp (pred_expression a) (pred_expression b)"

definition predicate_eq :: "'e predicate \<Rightarrow> 'e predicate \<Rightarrow> bool" where
  "predicate_eq a b = (source (pred_expression a) = source (pred_expression b))"

text \<open>\<^verbatim>\<open>BTreeSet\<close>'s comparison and equality: element by element, in order.\<close>

fun set_cmp :: "('a \<Rightarrow> 'a \<Rightarrow> ordering) \<Rightarrow> 'a list \<Rightarrow> 'a list \<Rightarrow> ordering" where
  "set_cmp f [] [] = Equal"
| "set_cmp f [] (_ # _) = Less"
| "set_cmp f (_ # _) [] = Greater"
| "set_cmp f (x # xs) (y # ys) = (case f x y of Equal \<Rightarrow> set_cmp f xs ys | r \<Rightarrow> r)"

definition limit_cmp :: "'e limit \<Rightarrow> 'e limit \<Rightarrow> ordering" where
  "limit_cmp a b =
     (case cmp (namespace a) (namespace b) of
        Equal \<Rightarrow>
          (case cmp (seconds a) (seconds b) of
             Equal \<Rightarrow>
               (case set_cmp predicate_cmp (conditions a) (conditions b) of
                  Equal \<Rightarrow> set_cmp expression_cmp (variables a) (variables b)
                | r \<Rightarrow> r)
           | r \<Rightarrow> r)
      | r \<Rightarrow> r)"

definition limit_eq :: "'e limit \<Rightarrow> 'e limit \<Rightarrow> bool" where
  "limit_eq a b \<longleftrightarrow>
     namespace a = namespace b \<and> seconds a = seconds b \<and>
     list_all2 predicate_eq (conditions a) (conditions b) \<and>
     list_all2 expression_eq (variables a) (variables b)"

datatype hash_item = HStr string | HU64 u64

definition limit_hash :: "'e limit \<Rightarrow> hash_item list" where
  "limit_hash l =
     [HStr (namespace l), HU64 (seconds l)]
     @ map (\<lambda>e. HStr (source (pred_expression e))) (conditions l)
     @ map (\<lambda>e. HStr (source e)) (variables l)"

text \<open>The part of a limit that \<^verbatim>\<open>PartialEq\<close>, \<^verbatim>\<open>Ord\<close> and \<^verbatim>\<open>Hash\<close> look at; the maps keyed by limits are
  association lists over it.\<close>

datatype limit_key =
  LimitKey (lk_namespace: string) (lk_seconds: u64) (lk_conditions: "string list")
    (lk_variables: "string list")

definition lk_tuple :: "limit_key \<Rightarrow> string \<times> u64 \<times> string list \<times> string list" where
  "lk_tuple k = (lk_namespace k, lk_seconds k, lk_conditions k, lk_variables k)"

lemma lk_tuple_inject [simp]: "lk_tuple a = lk_tuple b \<longleftrightarrow> a = b"
  by (cases a; cases b) (simp add: lk_tuple_def)

instantiation limit_key :: linorder
begin

definition less_eq_limit_key :: "limit_key \<Rightarrow> limit_key \<Rightarrow> bool" where
  "less_eq_limit_key a b \<longleftrightarrow> lk_tuple a \<le> lk_tuple b"

definition less_limit_key :: "limit_key \<Rightarrow> limit_key \<Rightarrow> bool" where
  "less_limit_key a b \<longleftrightarrow> lk_tuple a < lk_tuple b"

instance
  by standard (auto simp: less_eq_limit_key_def less_limit_key_def less_le_not_le linear
      dest: antisym)

end

definition limit_key :: "'e limit \<Rightarrow> limit_key" where
  "limit_key l =
     LimitKey (namespace l) (seconds l) (map predicate_source (conditions l))
       (map source (variables l))"

section \<open>Order and identity agree\<close>

lemma cmp_simps [simp]:
  "cmp a b = Equal \<longleftrightarrow> a = b"
  "cmp a b = Less \<longleftrightarrow> a < b"
  "cmp a b = Greater \<longleftrightarrow> b < a"
  by (auto simp: cmp_def)

lemma cmp_Cons:
  "cmp (x # xs) (y # ys) = (case cmp x y of Equal \<Rightarrow> cmp xs ys | r \<Rightarrow> r)"
  by (auto simp: cmp_def)

lemma cmp_Pair:
  "cmp (a, b) (c, d) = (case cmp a c of Equal \<Rightarrow> cmp b d | r \<Rightarrow> r)"
  by (auto simp: cmp_def less_prod_def)

lemma set_cmp_map:
  "set_cmp (\<lambda>a b. cmp (f a) (f b)) xs ys = cmp (map f xs) (map f ys)"
proof (induction "\<lambda>a b. cmp (f a) (f b)" xs ys rule: set_cmp.induct)
  case (4 x xs y ys)
  then show ?case by (auto simp: cmp_Cons split: ordering.split)
qed (auto simp: cmp_def)

lemma predicate_cmp_source: "predicate_cmp = (\<lambda>a b. cmp (predicate_source a) (predicate_source b))"
  by (simp add: fun_eq_iff predicate_cmp_def expression_cmp_def predicate_source_def)

lemma expression_cmp_source: "expression_cmp = (\<lambda>a b. cmp (source a) (source b))"
  by (simp add: fun_eq_iff expression_cmp_def)

lemma set_cmp_predicate:
  "set_cmp predicate_cmp xs ys = cmp (map predicate_source xs) (map predicate_source ys)"
  unfolding predicate_cmp_source by (rule set_cmp_map)

lemma set_cmp_expression:
  "set_cmp expression_cmp xs ys = cmp (map source xs) (map source ys)"
  unfolding expression_cmp_source by (rule set_cmp_map)

lemma cmp_limit_key: "cmp a b = cmp (lk_tuple a) (lk_tuple b)" for a b :: limit_key
  by (simp add: cmp_def less_limit_key_def)

lemma limit_cmp_key: "limit_cmp a b = cmp (limit_key a) (limit_key b)"
  by (simp add: limit_cmp_def limit_key_def cmp_limit_key lk_tuple_def cmp_Pair set_cmp_predicate set_cmp_expression
      cong: ordering.case_cong)

lemma list_all2_same_key:
  "list_all2 (\<lambda>a b. f a = f b) xs ys \<longleftrightarrow> map f xs = map f ys"
proof
  assume "list_all2 (\<lambda>a b. f a = f b) xs ys"
  then show "map f xs = map f ys" by (induction rule: list_all2_induct) auto
next
  assume "map f xs = map f ys"
  then show "list_all2 (\<lambda>a b. f a = f b) xs ys"
    by (auto simp: list_all2_conv_all_nth list_eq_iff_nth_eq)
qed

lemma list_all2_predicate_eq:
  "list_all2 predicate_eq xs ys \<longleftrightarrow> map predicate_source xs = map predicate_source ys"
  unfolding list_all2_same_key [symmetric]
  by (auto simp: predicate_eq_def predicate_source_def elim!: list_all2_mono)

lemma list_all2_expression_eq:
  "list_all2 expression_eq xs ys \<longleftrightarrow> map source xs = map source ys"
  unfolding list_all2_same_key [symmetric]
  by (auto simp: expression_eq_def expression_cmp_def elim!: list_all2_mono)

lemma limit_eq_key: "limit_eq a b \<longleftrightarrow> limit_key a = limit_key b"
  by (simp add: limit_eq_def limit_key_def list_all2_predicate_eq list_all2_expression_eq)

lemma limit_hash_key:
  "limit_hash l = (case limit_key l of LimitKey ns secs conds vars \<Rightarrow>
     [HStr ns, HU64 secs] @ map HStr conds @ map HStr vars)"
  by (simp add: limit_hash_def limit_key_def predicate_source_def)

lemma limit_key_set [simp]:
  "limit_key (set_name n l) = limit_key l"
  "limit_key (set_max_value v l) = limit_key l"
  "limit_key (l\<lparr>limit_id := i\<rparr>) = limit_key l"
  by (simp_all add: limit_key_def set_name_def set_max_value_def)

lemma limit_key_fields:
  assumes "limit_key a = limit_key b"
  shows "namespace a = namespace b" "seconds a = seconds b"
    "map source (variables a) = map source (variables b)"
    "map predicate_source (conditions a) = map predicate_source (conditions b)"
  using assms by (simp_all add: limit_key_def)

section \<open>When a limit applies\<close>

lemma all_unwrap_True: "all_unwrap f xs = Some True \<longleftrightarrow> (\<forall>x\<in>set xs. f x = Inr True)"
  by (induction xs) (auto split: sum.split bool.split)

lemma all_unwrap_None:
  "all_unwrap f xs = None \<longleftrightarrow>
     (\<exists>ys x zs e. xs = ys @ x # zs \<and> (\<forall>y\<in>set ys. f y = Inr True) \<and> f x = Inl e)"
proof (induction xs)
  case (Cons x xs)
  show ?case
  proof (cases "f x")
    case (Inl e)
    then show ?thesis by (auto intro: exI [of _ "[]"])
  next
    case (Inr b)
    show ?thesis
    proof (cases b)
      case True
      have "(\<exists>ys u zs e. x # xs = ys @ u # zs \<and> (\<forall>y\<in>set ys. f y = Inr True) \<and> f u = Inl e)
        \<longleftrightarrow> (\<exists>ys u zs e. xs = ys @ u # zs \<and> (\<forall>y\<in>set ys. f y = Inr True) \<and> f u = Inl e)"
        (is "?L \<longleftrightarrow> ?R")
      proof
        assume ?L
        then obtain ys u zs e where
          d: "x # xs = ys @ u # zs" "\<forall>y\<in>set ys. f y = Inr True" "f u = Inl e"
          by blast
        with Inr obtain ys' where "ys = x # ys'" by (cases ys) auto
        with d show ?R by auto
      next
        assume ?R
        then obtain ys u zs e where
          "xs = ys @ u # zs" "\<forall>y\<in>set ys. f y = Inr True" "f u = Inl e"
          by blast
        with Inr True show ?L by (intro exI [of _ "x # ys"]) auto
      qed
      with Cons Inr True show ?thesis by simp
    next
      case False
      with Inr have "\<not> (\<exists>ys u zs e. x # xs = ys @ u # zs \<and> (\<forall>y\<in>set ys. f y = Inr True) \<and> f u = Inl e)"
        by (auto simp: Cons_eq_append_conv)
      with Inr False show ?thesis by simp
    qed
  qed
qed simp

lemma ctx_variables_for_limit [simp]: "ctx_variables (for_limit c l) = ctx_variables c"
  by (simp add: for_limit_def)

lemma predicate_test_missing_variable:
  "v \<in> pred_variables p \<Longrightarrow> v \<noteq> ''limit'' \<Longrightarrow> v \<notin> ctx_variables c \<Longrightarrow>
   predicate_test cel p c = Inr False"
  by (auto simp: predicate_test_def)

lemma applies_iff:
  "applies cel l c = Some True \<longleftrightarrow>
     (\<forall>p\<in>set (conditions l). predicate_test cel p (for_limit (for_limit c l) l) = Inr True) \<and>
     (\<forall>v\<in>set (variables l). set (expression_variables cel v) \<subseteq> ctx_variables c)"
  by (auto simp: applies_def all_unwrap_True [symmetric] has_variables_def list_all_iff
      subset_iff Let_def bind_eq_Some_conv)

lemma applies_panics_iff:
  "applies cel l c = None \<longleftrightarrow>
     (\<exists>ps p qs e. conditions l = ps @ p # qs \<and>
        (\<forall>q\<in>set ps. predicate_test cel q (for_limit (for_limit c l) l) = Inr True) \<and>
        predicate_test cel p (for_limit (for_limit c l) l) = Inl e)"
  by (simp add: applies_def Let_def bind_eq_None_conv all_unwrap_None)

section \<open>Resolving the variables of a limit\<close>

lemma map_of_btree_insert [assoc_simps]:
  "map_of (btree_insert k v m) k' = (if k' = k then Some v else map_of m k')"
  by (induction m) auto

lemma btree_insert_above:
  "\<forall>k'\<in>set (map fst m). k' < k \<Longrightarrow> btree_insert k v m = m @ [(k, v)]"
  by (induction m) auto

lemma map_insort_key: "map f (insort_key f x xs) = insort (f x) (map f xs)"
  by (induction xs) auto

lemma btree_set_invariant:
  "sorted (map f (btree_set f xs)) \<and> distinct (map f (btree_set f xs))"
proof (induction xs)
  case (Cons x xs)
  then show ?case
    by (simp add: btree_set_def insort_insert_key_def map_insort_key sorted_insort distinct_insort)
qed (simp add: btree_set_def)

lemma set_map_btree_set: "set (map f (btree_set f xs)) = set (map f xs)"
  by (induction xs) (auto simp: btree_set_def insort_insert_key_def set_insort_key)

text \<open>The two \<^verbatim>\<open>BTreeSet\<close>s of a limit are sorted and without repetitions.\<close>

definition limit_wf :: "'e limit \<Rightarrow> bool" where
  "limit_wf l \<longleftrightarrow>
     sorted (map source (variables l)) \<and> distinct (map source (variables l)) \<and>
     sorted (map predicate_source (conditions l)) \<and> distinct (map predicate_source (conditions l))"

lemma limit_wf_new [simp]: "limit_wf (limit_new ns mx secs conds vars)"
  by (simp add: limit_wf_def limit_new_def btree_set_invariant)

lemma limit_wf_with_id [simp]: "limit_wf (limit_with_id i ns mx secs conds vars)"
  by (simp add: limit_wf_def limit_with_id_def btree_set_invariant)

lemma resolve_variables_loop_sound:
  assumes "resolve_variables_loop cel c vs m = Inr (Some r)"
    and "sorted (map source vs)" "distinct (map source vs)"
    and "\<forall>k\<in>set (map fst m). \<forall>v\<in>set vs. k < source v"
  shows "map fst r = map fst m @ map source vs \<and>
         (\<forall>v\<in>set vs. \<exists>x. eval cel v c = Inr (Some x) \<and> map_of r (source v) = Some x) \<and>
         (\<forall>k. k \<notin> source ` set vs \<longrightarrow> map_of r k = map_of m k)"
  using assms
proof (induction vs arbitrary: m)
  case (Cons v vs)
  from Cons.prems(1) obtain x where x: "eval cel v c = Inr (Some x)"
    and rest: "resolve_variables_loop cel c vs (btree_insert (source v) x m) = Inr (Some r)"
    by (auto split: sum.splits option.splits)
  let ?m = "btree_insert (source v) x m"
  have m: "?m = m @ [(source v, x)]"
    using Cons.prems(4) by (intro btree_insert_above) auto
  have "\<forall>k\<in>set (map fst ?m). \<forall>w\<in>set vs. k < source w"
  proof -
    have "\<forall>w\<in>set vs. source v < source w"
      using Cons.prems(2,3) by (auto simp: less_le)
    with Cons.prems(4) show ?thesis by (auto simp: m)
  qed
  with Cons.IH [OF rest] Cons.prems(2,3) have
    ih: "map fst r = map fst ?m @ map source vs"
      "\<forall>v\<in>set vs. \<exists>x. eval cel v c = Inr (Some x) \<and> map_of r (source v) = Some x"
      "\<forall>k. k \<notin> source ` set vs \<longrightarrow> map_of r k = map_of ?m k"
    by auto
  have "source v \<notin> source ` set vs" using Cons.prems(3) by auto
  with ih(3) have "map_of r (source v) = Some x" by (simp add: assoc_simps)
  moreover from ih(3) have "\<forall>k. k \<notin> source ` set (v # vs) \<longrightarrow> map_of r k = map_of m k"
    by (simp add: assoc_simps)
  moreover from ih(1) have "map fst r = map fst m @ map source (v # vs)" by (simp add: m)
  ultimately show ?case using ih(2) x by simp
qed simp

lemma resolve_variables_keys:
  assumes "limit_wf l" "resolve_variables cel l c = Inr (Some m)"
  shows "map fst m = map source (variables l)"
    "v \<in> set (variables l) \<Longrightarrow> \<exists>x. eval cel v c = Inr (Some x) \<and> map_of m (source v) = Some x"
  using resolve_variables_loop_sound [of cel c "variables l" "[]" m] assms
  by (auto simp: resolve_variables_def limit_wf_def)

lemma resolve_variables_no_variables [simp]:
  "variables l = [] \<Longrightarrow> resolve_variables cel l c = Inr (Some [])"
  by (simp add: resolve_variables_def)

end
