(* ===== verification/Counters.thy ===== *)
theory Counters
  imports Limits
begin

text \<open>
  Counters (\<^verbatim>\<open>limitador/src/counter.rs\<close>), the errors of the library
  (\<^verbatim>\<open>limitador/src/errors.rs\<close>, \<^verbatim>\<open>StorageErr\<close> of \<^verbatim>\<open>limitador/src/storage/mod.rs\<close>) and the plain
  data of reservations (\<^verbatim>\<open>limitador/src/reservation.rs\<close>).
\<close>

section \<open>Errors and authorizations\<close>

record storage_err =
  err_msg :: string
  err_source :: "string option"
  transient :: bool

definition storage_err_unsupported :: "string \<Rightarrow> storage_err" where
  "storage_err_unsupported m = \<lparr>err_msg = m, err_source = None, transient = False\<rparr>"

definition is_transient :: "storage_err \<Rightarrow> bool" where
  "is_transient e = transient e"

datatype limitador_error = StorageError storage_err | InterpreterError evaluation_error

datatype authorization = AuthOk | Limited "string option"

section \<open>Counters\<close>

record 'e counter =
  limit :: "'e limit"
  set_variables :: "(string \<times> string) list"
  remaining :: "u64 option"
  expires_in :: "duration option"

definition counter_new ::
  "'e cel \<Rightarrow> 'e limit \<Rightarrow> cel_context \<Rightarrow> limitador_error + 'e counter option" where
  "counter_new cel l c =
     (case resolve_variables cel l c of
        Inl err \<Rightarrow> Inl (InterpreterError err)
      | Inr None \<Rightarrow> Inr None
      | Inr (Some vars) \<Rightarrow>
          Inr (Some \<lparr>limit = l, set_variables = vars, remaining = None, expires_in = None\<rparr>))"

definition btree_map :: "('k :: linorder \<times> 'v) list \<Rightarrow> ('k \<times> 'v) list" where
  "btree_map kvs = fold (\<lambda>(k, v). btree_insert k v) kvs []"

definition resolved_vars ::
  "'e cel \<Rightarrow> 'e limit \<Rightarrow> (string \<times> string) list \<Rightarrow> 'e counter" where
  "resolved_vars cel l vars =
     \<lparr>limit = l,
      set_variables = btree_map (filter (\<lambda>(var, _). has_variable cel l var) vars),
      remaining = None, expires_in = None\<rparr>"

definition key :: "'e counter \<Rightarrow> 'e counter" where
  "key c = c\<lparr>remaining := None, expires_in := None\<rparr>"

definition counter_max_value :: "'e counter \<Rightarrow> u64" where
  "counter_max_value c = max_value (limit c)"

definition window :: "'e counter \<Rightarrow> duration" where
  "window c = from_secs (seconds (limit c))"

definition counter_id :: "'e counter \<Rightarrow> string option" where
  "counter_id c = limit_id (limit c)"

definition counter_namespace :: "'e counter \<Rightarrow> string" where
  "counter_namespace c = namespace (limit c)"

definition update_to_limit :: "'e limit \<Rightarrow> 'e counter \<Rightarrow> bool \<times> 'e counter" where
  "update_to_limit l c = (if limit_eq l (limit c) then (True, c\<lparr>limit := l\<rparr>) else (False, c))"

definition set_remaining :: "u64 \<Rightarrow> 'e counter \<Rightarrow> 'e counter" where
  "set_remaining r c = c\<lparr>remaining := Some r\<rparr>"

definition set_expires_in :: "duration \<Rightarrow> 'e counter \<Rightarrow> 'e counter" where
  "set_expires_in d c = c\<lparr>expires_in := Some d\<rparr>"

definition is_qualified :: "'e counter \<Rightarrow> bool" where
  "is_qualified c = (set_variables c \<noteq> [])"

definition variables_for_key :: "'e counter \<Rightarrow> (string \<times> string) list" where
  "variables_for_key c = sort_key fst (set_variables c)"

definition counter_eq :: "'e counter \<Rightarrow> 'e counter \<Rightarrow> bool" where
  "counter_eq a b \<longleftrightarrow> limit_eq (limit a) (limit b) \<and> set_variables a = set_variables b"

definition counter_hash :: "'e counter \<Rightarrow> hash_item list" where
  "counter_hash c =
     limit_hash (limit c) @ concat (map (\<lambda>(k, v). [HStr k, HStr v]) (set_variables c))"

text \<open>What \<^verbatim>\<open>Eq\<close> and \<^verbatim>\<open>Hash\<close> of a counter look at: the key of every map over counters.\<close>

datatype counter_key = CounterKey (ck_limit: limit_key) (ck_variables: "(string \<times> string) list")

definition counter_key :: "'e counter \<Rightarrow> counter_key" where
  "counter_key c = CounterKey (limit_key (limit c)) (set_variables c)"

text \<open>The loops that keep the first counter found over its limit
  (\<^verbatim>\<open>if first_limited.is_none() && ...\<close>).\<close>

definition first_limited :: "('a \<Rightarrow> bool) \<Rightarrow> ('a \<Rightarrow> 'e counter) \<Rightarrow> 'a list \<Rightarrow> authorization option" where
  "first_limited over c xs =
     fold (\<lambda>x acc. if acc = None \<and> over x then Some (Limited (limit_name (limit (c x)))) else acc)
       xs None"

section \<open>Reservations\<close>

type_synonym reservation_id = string

record reservation_entry =
  reservation_id :: reservation_id
  amount :: u64
  expires_at :: systime

definition is_live_at :: "reservation_entry \<Rightarrow> systime \<Rightarrow> bool" where
  "is_live_at e w = (w < expires_at e)"

record 'e reserve_result =
  rr_limited :: bool
  rr_reservation_id :: "reservation_id option"
  rr_amount :: u64
  rr_counters :: "'e counter list"
  rr_limit_name :: "string option"

record commit_result =
  reservation_released :: bool

text \<open>A finite non-negative \<^verbatim>\<open>f64\<close> is \<open>mantissa / 2 ^ scale\<close>.\<close>

type_synonym f64 = "nat \<times> nat"

record reservation_limits =
  max_fraction :: f64
  max_ttl :: duration

definition reservation_limits_default :: reservation_limits where
  "reservation_limits_default = \<lparr>max_fraction = (1, 0), max_ttl = from_secs 60\<rparr>"

section \<open>Lemmas\<close>

lemma first_limited_fold_Some:
  "fold (\<lambda>x acc. if acc = None \<and> over x then Some (Limited (limit_name (limit (c x)))) else acc)
     xs (Some a) = Some a"
  by (induction xs) auto

lemma first_limited_find:
  "first_limited over c xs = map_option (\<lambda>x. Limited (limit_name (limit (c x)))) (List.find over xs)"
  by (induction xs) (auto simp: first_limited_def first_limited_fold_Some)

lemma first_limited_None: "first_limited over c xs = None \<longleftrightarrow> (\<forall>x\<in>set xs. \<not> over x)"
  by (auto simp: first_limited_find find_None_iff)

lemma first_limited_SomeD:
  "first_limited over c xs = Some a \<Longrightarrow>
     \<exists>x\<in>set xs. over x \<and> a = Limited (limit_name (limit (c x)))"
  by (auto simp: first_limited_find find_Some_iff)

lemma counter_eq_key: "counter_eq a b \<longleftrightarrow> counter_key a = counter_key b"
  by (simp add: counter_eq_def counter_key_def limit_eq_key)

lemma counter_hash_key:
  "counter_key a = counter_key b \<Longrightarrow> counter_hash a = counter_hash b"
  by (simp add: counter_key_def counter_hash_def limit_hash_key)

lemma counter_key_set [simp]:
  "counter_key (set_remaining r c) = counter_key c"
  "counter_key (set_expires_in d c) = counter_key c"
  "counter_key (key c) = counter_key c"
  by (simp_all add: counter_key_def set_remaining_def set_expires_in_def key_def)

lemma counter_fields_set [simp]:
  "limit (set_remaining r c) = limit c" "limit (set_expires_in d c) = limit c"
  "set_variables (set_remaining r c) = set_variables c"
  "set_variables (set_expires_in d c) = set_variables c"
  "remaining (set_remaining r c) = Some r" "expires_in (set_remaining r c) = expires_in c"
  "remaining (set_expires_in d c) = remaining c" "expires_in (set_expires_in d c) = Some d"
  by (simp_all add: set_remaining_def set_expires_in_def)

lemma counter_derived_set [simp]:
  "counter_max_value (set_remaining r c) = counter_max_value c"
  "counter_max_value (set_expires_in d c) = counter_max_value c"
  "window (set_remaining r c) = window c" "window (set_expires_in d c) = window c"
  "is_qualified (set_remaining r c) = is_qualified c"
  "is_qualified (set_expires_in d c) = is_qualified c"
  by (simp_all add: counter_max_value_def window_def is_qualified_def)

lemma is_qualified_key: "is_qualified c \<longleftrightarrow> ck_variables (counter_key c) \<noteq> []"
  by (simp add: is_qualified_def counter_key_def)

lemma window_key: "counter_key a = counter_key b \<Longrightarrow> window a = window b"
  by (simp add: counter_key_def window_def limit_key_def)

lemma update_to_limit_iff:
  "update_to_limit l c = (r, c') \<Longrightarrow>
     counter_key c' = counter_key c \<and> (r \<longleftrightarrow> limit_key l = limit_key (limit c)) \<and>
     (r \<longrightarrow> limit c' = l) \<and> (\<not> r \<longrightarrow> c' = c)"
  by (auto simp: update_to_limit_def limit_eq_key counter_key_def split: if_splits)

lemma counter_new_Some:
  assumes "limit_wf l" "counter_new cel l ctx = Inr (Some c)"
  shows "limit c = l" "map fst (set_variables c) = map source (variables l)"
    "remaining c = None" "expires_in c = None"
  using assms resolve_variables_keys(1) [of l cel ctx]
  by (auto simp: counter_new_def split: sum.splits option.splits)

lemma counter_new_qualified:
  assumes "limit_wf l" "counter_new cel l ctx = Inr (Some c)"
  shows "is_qualified c \<longleftrightarrow> variables l \<noteq> []"
  using counter_new_Some(2) [OF assms]
  by (metis Nil_is_map_conv is_qualified_def)

lemma fold_btree_insert_sorted:
  assumes "sorted (map fst kvs)" "distinct (map fst kvs)"
    and "\<forall>k\<in>set (map fst m). \<forall>k'\<in>set (map fst kvs). k < k'"
  shows "fold (\<lambda>(k, v). btree_insert k v) kvs m = m @ kvs"
  using assms
proof (induction kvs arbitrary: m)
  case (Cons kv kvs)
  obtain k v where kv: "kv = (k, v)" by (cases kv)
  have "btree_insert k v m = m @ [(k, v)]"
    using Cons.prems(3) by (intro btree_insert_above) (auto simp: kv)
  moreover have "\<forall>k1\<in>set (map fst (m @ [(k, v)])). \<forall>k2\<in>set (map fst kvs). k1 < k2"
    using Cons.prems by (fastforce simp: kv less_le)
  ultimately show ?case using Cons.IH [of "m @ [(k, v)]"] Cons.prems(1,2) by (simp add: kv)
qed simp

lemma btree_map_sorted:
  "sorted (map fst kvs) \<Longrightarrow> distinct (map fst kvs) \<Longrightarrow> btree_map kvs = kvs"
  by (simp add: btree_map_def fold_btree_insert_sorted)

lemma has_variable_iff:
  "has_variable cel l var \<longleftrightarrow>
     (\<exists>v\<in>set (variables l). var \<in> set (expression_variables cel v))"
  by (auto simp: has_variable_def list_ex_iff)

lemma resolved_vars_of_counter:
  assumes wf: "limit_wf l" and new: "counter_new cel l ctx = Inr (Some c)"
    and plain: "\<forall>v\<in>set (variables l). has_variable cel l (source v)"
  shows "resolved_vars cel l (set_variables c) = c"
proof -
  have keys: "map fst (set_variables c) = map source (variables l)"
    by (rule counter_new_Some(2) [OF wf new])
  have "\<forall>p\<in>set (set_variables c). has_variable cel l (fst p)"
  proof
    fix p assume "p \<in> set (set_variables c)"
    then have "fst p \<in> set (map source (variables l))" by (simp flip: keys)
    with plain show "has_variable cel l (fst p)" by auto
  qed
  then have "filter (\<lambda>(var, _). has_variable cel l var) (set_variables c) = set_variables c"
    by (simp add: filter_id_conv case_prod_unfold)
  moreover have "btree_map (set_variables c) = set_variables c"
    using wf keys by (intro btree_map_sorted) (simp_all add: limit_wf_def)
  ultimately show ?thesis
    using counter_new_Some [OF wf new] by (simp add: resolved_vars_def)
qed

end
