(* ===== verification/Reservations.thy ===== *)
theory Reservations
  imports Counters
begin

text \<open>
  The local reservation registry: \<^verbatim>\<open>limitador/src/storage/local_reservations.rs\<close>.

  The registry is a cache from counters to their outstanding reservations.  An entry carries the
  instant at which the cache's per-entry expiry (\<^verbatim>\<open>ReservationExpiry\<close>) drops it; a lookup after
  that instant finds nothing.  \<open>reserve\<close> and \<open>release\<close> each run under \<^verbatim>\<open>admission_lock\<close>, so a
  concurrent execution is a sequence of them, which theory \<open>System\<close> describes.
\<close>

section \<open>State\<close>

record counter_reservations =
  window_ttl :: duration
  entries :: "reservation_entry list"

type_synonym registry = "(counter_key \<times> (systime option \<times> counter_reservations)) list"

record reservation_request =
  req_id :: reservation_id
  check_amount :: u64
  hold_amount :: u64
  req_ttl :: duration
  req_now :: systime

definition expire_after_create :: "counter_reservations \<Rightarrow> duration option" where
  "expire_after_create cr = Some (window_ttl cr)"

definition expire_after_update :: "counter_reservations \<Rightarrow> duration option" where
  "expire_after_update cr = Some (window_ttl cr)"

definition registry_new :: registry where
  "registry_new = []"

definition registry_get :: "registry \<Rightarrow> counter_key \<Rightarrow> systime \<Rightarrow> counter_reservations option" where
  "registry_get reg k now =
     (case map_of reg k of
        None \<Rightarrow> None
      | Some (None, cr) \<Rightarrow> Some cr
      | Some (Some d, cr) \<Rightarrow> if d \<le> now then None else Some cr)"

definition registry_insert ::
  "(counter_key \<Rightarrow> bool) \<Rightarrow> systime \<Rightarrow> counter_key \<Rightarrow> counter_reservations \<Rightarrow> registry \<Rightarrow> registry" where
  "registry_insert ev now k cr reg =
     cache_insert ev k (map_option ((+) now) (expire_after_update cr), cr) reg"

section \<open>Operations\<close>

definition outstanding :: "registry \<Rightarrow> counter_key \<Rightarrow> systime \<Rightarrow> u64" where
  "outstanding reg k now =
     (case registry_get reg k now of
        None \<Rightarrow> 0
      | Some cr \<Rightarrow> sum_list (map amount (filter (\<lambda>e. is_live_at e now) (entries cr))))"

definition store_hold ::
  "(counter_key \<Rightarrow> bool) \<Rightarrow> reservation_request \<Rightarrow> 'e counter \<times> systime \<times> duration \<Rightarrow>
   registry \<Rightarrow> registry" where
  "store_hold ev req = (\<lambda>(c, exp, wttl) reg.
     let cr = (case registry_get reg (counter_key c) (req_now req) of
                 Some cr \<Rightarrow> cr
               | None \<Rightarrow> \<lparr>window_ttl = wttl, entries = []\<rparr>);
         cr' = \<lparr>window_ttl = wttl,
                entries = filter (\<lambda>e. is_live_at e (req_now req)) (entries cr)
                  @ [\<lparr>reservation_id = req_id req, amount = hold_amount req, expires_at = exp\<rparr>]\<rparr>
     in registry_insert ev (req_now req) (counter_key c) cr' reg)"

definition registry_reserve ::
  "(counter_key \<Rightarrow> bool) \<Rightarrow> 'e counter list \<Rightarrow> (u64 \<times> duration) list \<Rightarrow> reservation_request \<Rightarrow>
   registry \<Rightarrow> (authorization \<times> 'e counter list \<times> registry) option" where
  "registry_reserve ev counters vts req reg = do {
     let now = req_now req;
     let rows = map (\<lambda>(c, v, w). (c, v, w, outstanding reg (counter_key c) now)) (zip counters vts);
     let limited =
       first_limited (\<lambda>(c, v, w, out). v + out + check_amount req > counter_max_value c) fst rows;
     let granted_hold = (if limited = None then hold_amount req else 0);
     expires \<leftarrow> traverse (\<lambda>(c, v, w, out). do {
         a \<leftarrow> systime_add now (req_ttl req);
         b \<leftarrow> systime_add now w;
         Some (min a b)
       }) rows;
     let counters' =
       map (\<lambda>(c, v, w, out).
           set_expires_in w (set_remaining
             (case checked_sub (counter_max_value c) (v + out + granted_hold) of
                Some r \<Rightarrow> r | None \<Rightarrow> 0) c)) rows
       @ drop (length rows) counters;
     (case limited of
        Some l \<Rightarrow> Some (l, counters', reg)
      | None \<Rightarrow>
          if hold_amount req = 0 then Some (AuthOk, counters', reg)
          else Some (AuthOk, counters',
            fold (store_hold ev req)
              (map (\<lambda>((c, exp), (v, w)). (c, exp, w)) (zip (zip counters' expires) vts)) reg))
   }"

definition release_one ::
  "systime \<Rightarrow> reservation_id \<Rightarrow> 'e counter \<Rightarrow> bool \<times> registry \<Rightarrow> bool \<times> registry" where
  "release_one now rid c = (\<lambda>(released, reg).
     case registry_get reg (counter_key c) now of
       None \<Rightarrow> (released, reg)
     | Some cr \<Rightarrow>
         let kept = filter (\<lambda>e. reservation_id e \<noteq> rid) (entries cr);
             released' = (released \<or> length kept \<noteq> length (entries cr))
         in if kept = [] then (released', AList.delete (counter_key c) reg)
            else (released',
                  alist_modify (counter_key c) (\<lambda>(d, cr). (d, cr\<lparr>entries := kept\<rparr>)) reg))"

definition registry_release ::
  "systime \<Rightarrow> 'e counter list \<Rightarrow> reservation_id \<Rightarrow> registry \<Rightarrow> bool \<times> registry" where
  "registry_release now counters rid reg = fold (release_one now rid) counters (False, reg)"

section \<open>What is held\<close>

text \<open>The amount held against a counter at an instant, as a natural number.\<close>

definition live_entries :: "registry \<Rightarrow> counter_key \<Rightarrow> systime \<Rightarrow> reservation_entry list" where
  "live_entries reg k now =
     (case registry_get reg k now of
        None \<Rightarrow> []
      | Some cr \<Rightarrow> filter (\<lambda>e. is_live_at e now) (entries cr))"

definition held :: "registry \<Rightarrow> counter_key \<Rightarrow> systime \<Rightarrow> nat" where
  "held reg k now = sum_list (map (\<lambda>e. unat (amount e)) (live_entries reg k now))"

lemma unat_sum_list:
  "sum_list (map (\<lambda>e. unat (f e)) es) < 2 ^ 64 \<Longrightarrow>
   unat (sum_list (map f es) :: u64) = sum_list (map (\<lambda>e. unat (f e)) es)"
proof (induction es)
  case (Cons e es)
  then have ih: "unat (sum_list (map f es)) = sum_list (map (\<lambda>e. unat (f e)) es)" by simp
  show ?case using Cons.prems unat_add_no_overflow [of "f e" "sum_list (map f es)"] by (simp add: ih)
qed simp

lemma outstanding_live: "outstanding reg k now = sum_list (map amount (live_entries reg k now))"
  by (simp add: outstanding_def live_entries_def split: option.split)

lemma unat_outstanding:
  "held reg k now < 2 ^ 64 \<Longrightarrow> unat (outstanding reg k now) = held reg k now"
  unfolding outstanding_live held_def by (rule unat_sum_list)

lemma registry_get_mono:
  "t \<le> t' \<Longrightarrow> registry_get reg k t' = Some cr \<Longrightarrow> registry_get reg k t = Some cr"
  by (auto simp: registry_get_def split: option.splits if_splits)

lemma filter_mono_sum:
  "(\<And>x. P x \<Longrightarrow> Q x) \<Longrightarrow>
   sum_list (map (f :: 'a \<Rightarrow> nat) (filter P xs)) \<le> sum_list (map f (filter Q xs))"
  by (induction xs) (auto simp: trans_le_add2)

lemma held_mono_time:
  assumes "t \<le> t'" shows "held reg k t' \<le> held reg k t"
proof (cases "registry_get reg k t'")
  case (Some cr)
  with registry_get_mono [OF assms] have "registry_get reg k t = Some cr" by blast
  with Some assms show ?thesis
    by (auto simp: held_def live_entries_def is_live_at_def intro!: filter_mono_sum)
qed (simp add: held_def live_entries_def)

lemma held_filter:
  "held (filter (\<lambda>p. P (fst p)) reg) k t = (if P k then held reg k t else 0)"
  by (simp add: held_def live_entries_def registry_get_def assoc_simps)

section \<open>Effects of the operations\<close>

lemma registry_get_insert:
  "registry_get (registry_insert ev now k cr reg) k' now =
     (if ev k' then None
      else if k' = k then (if window_ttl cr = 0 then None else Some cr)
      else registry_get reg k' now)"
  by (simp add: registry_get_def registry_insert_def expire_after_update_def assoc_simps)

lemma live_entries_store_hold:
  "live_entries (store_hold ev req (c, exp, w) reg) k (req_now req) =
     (if ev k then []
      else if k = counter_key c then
        if w = 0 then []
        else live_entries reg k (req_now req)
          @ (if req_now req < exp
             then [\<lparr>reservation_id = req_id req, amount = hold_amount req, expires_at = exp\<rparr>]
             else [])
      else live_entries reg k (req_now req))"
  by (simp add: live_entries_def store_hold_def Let_def registry_get_insert is_live_at_def
      split: option.split)

lemma held_store_hold_le:
  "held (store_hold ev req (c, exp, w) reg) k (req_now req)
     \<le> held reg k (req_now req) + (if k = counter_key c then unat (hold_amount req) else 0)"
  by (simp add: held_def live_entries_store_hold)

lemma held_store_hold:
  assumes "\<not> ev k" "0 < w" "req_now req < exp"
  shows "held (store_hold ev req (c, exp, w) reg) k (req_now req)
     = held reg k (req_now req) + (if k = counter_key c then unat (hold_amount req) else 0)"
  using assms by (simp add: held_def live_entries_store_hold)

lemma held_fold_store_hold_le:
  assumes "distinct (map (\<lambda>r. counter_key (fst r)) rows)"
  shows "held (fold (store_hold ev req) rows reg) k (req_now req)
     \<le> held reg k (req_now req)
        + (if k \<in> counter_key ` fst ` set rows then unat (hold_amount req) else 0)"
  using assms
proof (induction rows arbitrary: reg)
  case (Cons row rows)
  obtain c exp w where row: "row = (c, exp, w)" by (cases row)
  let ?reg = "store_hold ev req row reg"
  have "held (fold (store_hold ev req) rows ?reg) k (req_now req)
      \<le> held ?reg k (req_now req)
        + (if k \<in> counter_key ` fst ` set rows then unat (hold_amount req) else 0)"
    using Cons by simp
  moreover have "held ?reg k (req_now req)
      \<le> held reg k (req_now req) + (if k = counter_key c then unat (hold_amount req) else 0)"
    unfolding row by (rule held_store_hold_le)
  moreover have "counter_key c \<notin> counter_key ` fst ` set rows"
    using Cons.prems by (auto simp: row)
  ultimately show ?case by (simp add: row split: if_splits)
qed simp

lemma held_fold_store_hold:
  assumes "distinct (map (\<lambda>r. counter_key (fst r)) rows)"
    and "\<forall>(c, exp, w)\<in>set rows. 0 < w \<and> req_now req < exp"
    and "\<not> ev k"
  shows "held (fold (store_hold ev req) rows reg) k (req_now req)
     = held reg k (req_now req)
        + (if k \<in> counter_key ` fst ` set rows then unat (hold_amount req) else 0)"
  using assms
proof (induction rows arbitrary: reg)
  case (Cons row rows)
  obtain c exp w where row: "row = (c, exp, w)" by (cases row)
  let ?reg = "store_hold ev req row reg"
  have "held (fold (store_hold ev req) rows ?reg) k (req_now req)
      = held ?reg k (req_now req)
        + (if k \<in> counter_key ` fst ` set rows then unat (hold_amount req) else 0)"
    using Cons by simp
  moreover have "held ?reg k (req_now req)
      = held reg k (req_now req) + (if k = counter_key c then unat (hold_amount req) else 0)"
    using Cons.prems unfolding row by (intro held_store_hold) auto
  moreover have "counter_key c \<notin> counter_key ` fst ` set rows"
    using Cons.prems by (auto simp: row)
  ultimately show ?case by (simp add: row split: if_splits)
qed simp

section \<open>Reserving\<close>

text \<open>The requests the callers make: one value per counter, no counter twice, a hold no larger than
  the amount checked, and sums that stay within a \<^verbatim>\<open>u64\<close>.\<close>

definition request_ok ::
  "'e counter list \<Rightarrow> (u64 \<times> duration) list \<Rightarrow> reservation_request \<Rightarrow> registry \<Rightarrow> bool" where
  "request_ok counters vts req reg \<longleftrightarrow>
     length vts = length counters \<and> distinct (map counter_key counters) \<and>
     hold_amount req \<le> check_amount req \<and>
     (\<forall>(c, v, w)\<in>set (zip counters vts).
        unat v + held reg (counter_key c) (req_now req) + unat (check_amount req) < 2 ^ 64)"

definition admissible ::
  "'e counter list \<Rightarrow> (u64 \<times> duration) list \<Rightarrow> reservation_request \<Rightarrow> registry \<Rightarrow> bool" where
  "admissible counters vts req reg \<longleftrightarrow>
     (\<forall>(c, v, w)\<in>set (zip counters vts).
        unat v + held reg (counter_key c) (req_now req) + unat (check_amount req)
          \<le> unat (counter_max_value c))"

text \<open>The instants a reservation adds to stay within \<^verbatim>\<open>SystemTime\<close>.\<close>

definition request_in_time :: "(u64 \<times> duration) list \<Rightarrow> reservation_request \<Rightarrow> bool" where
  "request_in_time vts req \<longleftrightarrow>
     systime_add (req_now req) (req_ttl req) \<noteq> None \<and>
     (\<forall>(v, w)\<in>set vts. systime_add (req_now req) w \<noteq> None)"

lemma unat_total:
  assumes "unat v + held reg k t + unat a < 2 ^ 64"
  shows "unat (v + outstanding reg k t + a) = unat v + held reg k t + unat a"
proof -
  have "unat (outstanding reg k t) = held reg k t" using assms by (intro unat_outstanding) simp
  with assms show ?thesis by (simp add: unat_add_no_overflow)
qed

lemma over_iff:
  assumes "request_ok counters vts req reg" "(c, v, w) \<in> set (zip counters vts)"
  shows "counter_max_value c < v + outstanding reg (counter_key c) (req_now req) + check_amount req
    \<longleftrightarrow> unat (counter_max_value c)
          < unat v + held reg (counter_key c) (req_now req) + unat (check_amount req)"
  using assms by (auto simp: less_u64_iff request_ok_def unat_total)

definition reserve_limited ::
  "'e counter list \<Rightarrow> (u64 \<times> duration) list \<Rightarrow> reservation_request \<Rightarrow> registry \<Rightarrow> authorization option" where
  "reserve_limited counters vts req reg =
     first_limited (\<lambda>(c, v, w, out). v + out + check_amount req > counter_max_value c) fst
       (map (\<lambda>(c, v, w). (c, v, w, outstanding reg (counter_key c) (req_now req)))
         (zip counters vts))"

lemma reserve_limited_None:
  assumes "request_ok counters vts req reg"
  shows "reserve_limited counters vts req reg = None \<longleftrightarrow> admissible counters vts req reg"
  using over_iff [OF assms]
  by (fastforce simp: reserve_limited_def first_limited_None admissible_def)

lemma reserve_limited_Some:
  assumes "reserve_limited counters vts req reg = Some a"
  shows "\<exists>c\<in>set counters. a = Limited (limit_name (limit c))"
  using first_limited_SomeD [OF assms [unfolded reserve_limited_def]]
  by (auto dest: set_zip_leftD)

definition annotate_reserved ::
  "u64 \<Rightarrow> systime \<Rightarrow> registry \<Rightarrow> 'e counter \<times> u64 \<times> duration \<Rightarrow> 'e counter" where
  "annotate_reserved granted now reg = (\<lambda>(c, v, w).
     set_expires_in w (set_remaining
       (case checked_sub (counter_max_value c) (v + outstanding reg (counter_key c) now + granted) of
          Some r \<Rightarrow> r | None \<Rightarrow> 0) c))"

lemma counter_key_annotate_reserved [simp]:
  "counter_key (annotate_reserved g now reg r) = counter_key (fst r)"
  by (simp add: annotate_reserved_def split: prod.split)

definition hold_rows ::
  "reservation_request \<Rightarrow> 'e counter list \<Rightarrow> (u64 \<times> duration) list \<Rightarrow>
   ('e counter \<times> systime \<times> duration) list" where
  "hold_rows req counters vts =
     map (\<lambda>(c, v, w). (c, min (req_now req + req_ttl req) (req_now req + w), w)) (zip counters vts)"

lemma hold_rows_keys:
  assumes "length vts = length counters"
  shows "map (\<lambda>r. counter_key (fst r)) (hold_rows req counters vts) = map counter_key counters"
  using assms by (intro nth_equalityI) (auto simp: hold_rows_def case_prod_unfold)

lemma hold_rows_image:
  assumes "length vts = length counters"
  shows "counter_key ` fst ` set (hold_rows req counters vts) = counter_key ` set counters"
  using arg_cong [OF hold_rows_keys [OF assms], of set] by (simp add: image_image)

text \<open>The result of \<open>reserve\<close> on a well-formed request, branch by branch.\<close>

lemma registry_reserve_result:
  fixes counters :: "'e counter list" and reg :: registry
  assumes len: "length vts = length counters" and time: "request_in_time vts req"
  defines "limited \<equiv> reserve_limited counters vts req reg"
  defines "counters' \<equiv> map (annotate_reserved (if limited = None then hold_amount req else 0)
    (req_now req) reg) (zip counters vts)"
  shows "registry_reserve ev counters vts req reg =
    Some (case limited of
            Some l \<Rightarrow> (l, counters', reg)
          | None \<Rightarrow> (AuthOk, counters',
              if hold_amount req = 0 then reg
              else fold (store_hold ev req) (hold_rows req counters' vts) reg))"
proof -
  let ?row = "\<lambda>(c :: 'e counter, v, w). (c, v, w, outstanding reg (counter_key c) (req_now req))"
  let ?exp = "\<lambda>(c :: 'e counter, v :: u64, w, out :: u64).
    min (req_now req + req_ttl req) (req_now req + w)"
  have exps: "traverse (\<lambda>(c, v, w, out). do {
         a \<leftarrow> systime_add (req_now req) (req_ttl req);
         b \<leftarrow> systime_add (req_now req) w;
         Some (min a b)
       }) (map ?row (zip counters vts)) = Some (map ?exp (map ?row (zip counters vts)))"
    using time
    by (intro traverse_total)
      (fastforce simp: request_in_time_def systime_add_def dest: set_zip_rightD split: if_splits)
  have exps': "map ?exp (map ?row (zip counters vts))
      = map (\<lambda>(v, w). min (req_now req + req_ttl req) (req_now req + w)) vts"
    using len by (intro nth_equalityI) (auto simp: case_prod_unfold)
  have rows: "map (\<lambda>((c, exp), (v, w)). (c, exp, w))
       (zip (zip counters' (map (\<lambda>(v, w). min (req_now req + req_ttl req) (req_now req + w)) vts)) vts)
      = hold_rows req counters' vts"
    using len by (intro nth_equalityI) (auto simp: hold_rows_def counters'_def case_prod_unfold)
  have cs: "map (\<lambda>(c, v, w, out).
           set_expires_in w (set_remaining
             (case checked_sub (counter_max_value c)
                 (v + out + (if limited = None then hold_amount req else 0)) of
                Some r \<Rightarrow> r | None \<Rightarrow> 0) c)) (map ?row (zip counters vts)) = counters'"
    by (simp add: counters'_def annotate_reserved_def case_prod_unfold)
  show ?thesis
    unfolding registry_reserve_def Let_def exps bind.bind_lunit
      limited_def [unfolded reserve_limited_def, symmetric] cs exps'
    using len rows by (simp add: split: option.split)
qed

lemma annotate_reserved_keys:
  assumes "length vts = length counters"
  shows "map counter_key (map (annotate_reserved g t reg) (zip counters vts))
    = map counter_key counters"
  using assms by (intro nth_equalityI) auto

lemma registry_reserve_Limited:
  assumes "request_ok counters vts req reg" "request_in_time vts req"
    and "\<not> admissible counters vts req reg"
  shows "\<exists>nm. registry_reserve ev counters vts req reg =
      Some (Limited nm, map (annotate_reserved 0 (req_now req) reg) (zip counters vts), reg) \<and>
    (\<exists>c\<in>set counters. nm = limit_name (limit c))"
proof -
  from assms obtain l where l: "reserve_limited counters vts req reg = Some l"
    using reserve_limited_None by blast
  with reserve_limited_Some obtain c where "c \<in> set counters" "l = Limited (limit_name (limit c))"
    by blast
  moreover have "length vts = length counters" using assms(1) by (simp add: request_ok_def)
  ultimately show ?thesis
    using registry_reserve_result [OF _ assms(2), of counters ev reg] l by auto
qed

lemma registry_reserve_Ok:
  assumes "request_ok counters vts req reg" "request_in_time vts req"
    and "admissible counters vts req reg"
  defines "cs \<equiv> map (annotate_reserved (hold_amount req) (req_now req) reg) (zip counters vts)"
  shows "registry_reserve ev counters vts req reg =
      Some (AuthOk, cs, if hold_amount req = 0 then reg
                        else fold (store_hold ev req) (hold_rows req cs vts) reg)"
proof -
  from assms have "reserve_limited counters vts req reg = None"
    using reserve_limited_None by blast
  moreover have "length vts = length counters" using assms(1) by (simp add: request_ok_def)
  ultimately show ?thesis
    using registry_reserve_result [OF _ assms(2), of counters ev reg] by (simp add: cs_def)
qed

lemma registry_reserve_sound:
  assumes ok: "request_ok counters vts req reg" and time: "request_in_time vts req"
    and run: "registry_reserve ev counters vts req reg = Some (a, cs', reg')"
  shows "a = AuthOk \<longleftrightarrow> admissible counters vts req reg"
    and "a \<noteq> AuthOk \<Longrightarrow> reg' = reg"
    and "map counter_key cs' = map counter_key counters"
    and "held reg' k (req_now req) \<le> held reg k (req_now req)
      + (if a = AuthOk \<and> k \<in> counter_key ` set counters then unat (hold_amount req) else 0)"
proof -
  have len: "length vts = length counters" and dist: "distinct (map counter_key counters)"
    using ok by (simp_all add: request_ok_def)
  have "(a = AuthOk \<longleftrightarrow> admissible counters vts req reg) \<and> (a \<noteq> AuthOk \<longrightarrow> reg' = reg) \<and>
    map counter_key cs' = map counter_key counters \<and>
    held reg' k (req_now req) \<le> held reg k (req_now req)
      + (if a = AuthOk \<and> k \<in> counter_key ` set counters then unat (hold_amount req) else 0)"
  proof (cases "admissible counters vts req reg")
    case False
    from registry_reserve_Limited [OF ok time this, of ev] run obtain nm where
      "a = Limited nm" "cs' = map (annotate_reserved 0 (req_now req) reg) (zip counters vts)"
      "reg' = reg"
      by auto
    with False show ?thesis by (simp only: annotate_reserved_keys [OF len]) simp
  next
    case True
    define cs where "cs = map (annotate_reserved (hold_amount req) (req_now req) reg) (zip counters vts)"
    have keys: "map counter_key cs = map counter_key counters"
      by (simp only: cs_def annotate_reserved_keys [OF len])
    have lcs: "length vts = length cs" using len by (simp add: cs_def)
    from registry_reserve_Ok [OF ok time True, of ev] run have
      res: "a = AuthOk" "cs' = cs"
        "reg' = (if hold_amount req = 0 then reg
                 else fold (store_hold ev req) (hold_rows req cs vts) reg)"
      by (auto simp: cs_def)
    have "distinct (map (\<lambda>r. counter_key (fst r)) (hold_rows req cs vts))"
      by (simp only: hold_rows_keys [OF lcs] keys dist)
    from held_fold_store_hold_le [OF this, of ev req reg k]
    have "held reg' k (req_now req) \<le> held reg k (req_now req)
      + (if k \<in> counter_key ` set counters then unat (hold_amount req) else 0)"
      using arg_cong [OF keys, of set] by (simp add: res(3) hold_rows_image [OF lcs] split: if_splits)
    with True keys res(1,2) show ?thesis by simp
  qed
  then show "a = AuthOk \<longleftrightarrow> admissible counters vts req reg"
    and "a \<noteq> AuthOk \<Longrightarrow> reg' = reg"
    and "map counter_key cs' = map counter_key counters"
    and "held reg' k (req_now req) \<le> held reg k (req_now req)
      + (if a = AuthOk \<and> k \<in> counter_key ` set counters then unat (hold_amount req) else 0)"
    by blast+
qed

text \<open>After an admitted reservation the value and everything held still fit in the limit.\<close>

lemma registry_reserve_within_limit:
  assumes ok: "request_ok counters vts req reg" and time: "request_in_time vts req"
    and run: "registry_reserve ev counters vts req reg = Some (AuthOk, cs', reg')"
    and c: "(c, v, w) \<in> set (zip counters vts)"
  shows "unat v + held reg' (counter_key c) (req_now req) \<le> unat (counter_max_value c)"
proof -
  from registry_reserve_sound(1) [OF ok time run] have "admissible counters vts req reg" by simp
  with c have "unat v + held reg (counter_key c) (req_now req) + unat (check_amount req)
      \<le> unat (counter_max_value c)"
    by (auto simp: admissible_def)
  moreover have "unat (hold_amount req) \<le> unat (check_amount req)"
    using ok by (simp add: request_ok_def le_u64_iff)
  moreover have "held reg' (counter_key c) (req_now req)
      \<le> held reg (counter_key c) (req_now req) + unat (hold_amount req)"
    using registry_reserve_sound(4) [OF ok time run, of "counter_key c"] c
    by (simp split: if_splits)
  ultimately show ?thesis by simp
qed

section \<open>Releasing\<close>

lemma live_entries_eqI: "registry_get r k t = registry_get r' k t \<Longrightarrow> live_entries r k t = live_entries r' k t"
  by (simp add: live_entries_def)

lemma registry_get_delete:
  "registry_get (AList.delete k' reg) k t = (if k = k' then None else registry_get reg k t)"
  by (simp add: registry_get_def assoc_simps)

lemma registry_get_modify:
  "registry_get (alist_modify k' (\<lambda>(d, cr). (d, f cr)) reg) k t =
     (if k = k' then map_option f (registry_get reg k t) else registry_get reg k t)"
  by (auto simp: registry_get_def assoc_simps split: option.split)

lemma live_entries_release_one:
  assumes "now \<le> t"
  shows "live_entries (snd (release_one now rid c (b, reg))) k t =
    (if k = counter_key c then filter (\<lambda>e. reservation_id e \<noteq> rid) (live_entries reg k t)
     else live_entries reg k t)"
proof (cases "registry_get reg (counter_key c) now")
  case None
  with assms registry_get_mono have "registry_get reg (counter_key c) t = None"
    by (metis option.exhaust)
  with None show ?thesis by (simp add: release_one_def live_entries_def)
next
  case (Some cr)
  let ?kept = "filter (\<lambda>e. reservation_id e \<noteq> rid) (entries cr)"
  have at_t: "registry_get reg (counter_key c) t \<in> {None, Some cr}"
    using Some registry_get_mono [OF assms, of reg "counter_key c"]
    by (cases "registry_get reg (counter_key c) t") auto
  show ?thesis
  proof (cases "?kept = []")
    case True
    then have "snd (release_one now rid c (b, reg)) = AList.delete (counter_key c) reg"
      using Some by (simp add: release_one_def)
    moreover have "filter (\<lambda>e. reservation_id e \<noteq> rid) (live_entries reg (counter_key c) t) = []"
      using True at_t by (auto simp: live_entries_def filter_empty_conv)
    ultimately show ?thesis by (simp add: live_entries_def registry_get_delete)
  next
    case False
    then have "snd (release_one now rid c (b, reg)) =
        alist_modify (counter_key c) (\<lambda>(d, cr). (d, cr\<lparr>entries := ?kept\<rparr>)) reg"
      using Some by (simp add: release_one_def Let_def)
    with at_t show ?thesis
      by (auto simp: live_entries_def registry_get_modify conj_commute)
  qed
qed

lemma live_entries_release_fold:
  assumes "now \<le> t"
  shows "live_entries (snd (fold (release_one now rid) cs br)) k t =
    (if k \<in> counter_key ` set cs then filter (\<lambda>e. reservation_id e \<noteq> rid) (live_entries (snd br) k t)
     else live_entries (snd br) k t)"
proof (induction cs arbitrary: br)
  case (Cons c cs)
  obtain b reg where "br = (b, reg)" by (cases br)
  with Cons [of "release_one now rid c br"] show ?case
    by (auto simp: live_entries_release_one [OF assms])
qed simp

lemma live_entries_release:
  assumes "now \<le> t"
  shows "live_entries (snd (registry_release now cs rid reg)) k t =
    (if k \<in> counter_key ` set cs then filter (\<lambda>e. reservation_id e \<noteq> rid) (live_entries reg k t)
     else live_entries reg k t)"
  by (simp add: registry_release_def live_entries_release_fold [OF assms])

lemma sum_filter_le: "sum_list (map f (filter P xs)) \<le> sum_list (map (f :: 'a \<Rightarrow> nat) xs)"
  using filter_mono_sum [of P "\<lambda>_. True" f xs] by simp

lemma held_release_le: "held (snd (registry_release now cs rid reg)) k now \<le> held reg k now"
  by (simp add: held_def live_entries_release sum_filter_le)

text \<open>The flag \<open>release\<close> returns: some counter physically had an entry of that reservation.\<close>

definition entry_ids :: "registry \<Rightarrow> counter_key \<Rightarrow> systime \<Rightarrow> reservation_id set" where
  "entry_ids reg k now =
     (case registry_get reg k now of None \<Rightarrow> {} | Some cr \<Rightarrow> reservation_id ` set (entries cr))"

lemma length_filter_same: "length (filter P xs) = length xs \<longleftrightarrow> (\<forall>x\<in>set xs. P x)"
  by (metis filter_True length_filter_less less_irrefl)

lemma release_one_flag:
  "fst (release_one now rid c (b, reg)) \<longleftrightarrow> b \<or> rid \<in> entry_ids reg (counter_key c) now"
proof (cases "registry_get reg (counter_key c) now")
  case (Some cr)
  then have "fst (release_one now rid c (b, reg)) \<longleftrightarrow>
      b \<or> length (filter (\<lambda>e. reservation_id e \<noteq> rid) (entries cr)) \<noteq> length (entries cr)"
    by (simp add: release_one_def Let_def)
  with Some show ?thesis by (auto simp: length_filter_same entry_ids_def)
qed (simp add: release_one_def entry_ids_def)

lemma entry_ids_release_one:
  "entry_ids (snd (release_one now rid c (b, reg))) k now =
     (if k = counter_key c then entry_ids reg k now - {rid} else entry_ids reg k now)"
proof (cases "registry_get reg (counter_key c) now")
  case None
  then show ?thesis by (simp add: release_one_def entry_ids_def)
next
  case (Some cr)
  then show ?thesis
    by (auto simp: release_one_def entry_ids_def Let_def registry_get_delete registry_get_modify
        filter_empty_conv split: option.split)
qed

lemma release_fold_flag:
  "fst (fold (release_one now rid) cs br) \<longleftrightarrow>
     fst br \<or> (\<exists>c\<in>set cs. rid \<in> entry_ids (snd br) (counter_key c) now)"
proof (induction cs arbitrary: br)
  case (Cons c cs)
  obtain b reg where br: "br = (b, reg)" by (cases br)
  have "fst (fold (release_one now rid) (c # cs) br) \<longleftrightarrow> fst (release_one now rid c br) \<or>
      (\<exists>d\<in>set cs. rid \<in> entry_ids (snd (release_one now rid c br)) (counter_key d) now)"
    by (simp add: Cons)
  also have "\<dots> \<longleftrightarrow> b \<or> rid \<in> entry_ids reg (counter_key c) now \<or>
      (\<exists>d\<in>set cs. counter_key d \<noteq> counter_key c \<and> rid \<in> entry_ids reg (counter_key d) now)"
    by (simp add: br release_one_flag entry_ids_release_one cong: conj_cong)
  also have "\<dots> \<longleftrightarrow> fst br \<or> (\<exists>d\<in>set (c # cs). rid \<in> entry_ids (snd br) (counter_key d) now)"
    by (simp add: br) metis
  finally show ?case .
qed simp

lemma registry_release_flag:
  "fst (registry_release now cs rid reg) \<longleftrightarrow>
     (\<exists>c\<in>set cs. rid \<in> entry_ids reg (counter_key c) now)"
  by (simp add: registry_release_def release_fold_flag)

lemma entry_ids_release_fold:
  "entry_ids (snd (fold (release_one now rid) cs br)) k now =
     (if k \<in> counter_key ` set cs then entry_ids (snd br) k now - {rid}
      else entry_ids (snd br) k now)"
proof (induction cs arbitrary: br)
  case (Cons c cs)
  obtain b reg where "br = (b, reg)" by (cases br)
  with Cons [of "release_one now rid c br"] show ?case by (auto simp: entry_ids_release_one)
qed simp

lemma entry_ids_release:
  "entry_ids (snd (registry_release now cs rid reg)) k now =
     (if k \<in> counter_key ` set cs then entry_ids reg k now - {rid} else entry_ids reg k now)"
  by (simp add: registry_release_def entry_ids_release_fold)

lemma live_entry_ids: "reservation_id ` set (live_entries reg k now) \<subseteq> entry_ids reg k now"
  by (auto simp: live_entries_def entry_ids_def split: option.splits)

section \<open>Reserving and releasing again\<close>

lemma others_fold_store_hold:
  assumes "\<forall>(c, exp, w)\<in>set rows. 0 < w" "\<not> ev k"
  shows "filter (\<lambda>e. reservation_id e \<noteq> req_id req)
      (live_entries (fold (store_hold ev req) rows reg) k (req_now req))
    = filter (\<lambda>e. reservation_id e \<noteq> req_id req) (live_entries reg k (req_now req))"
  using assms(1)
proof (induction rows arbitrary: reg)
  case (Cons row rows)
  obtain c exp w where "row = (c, exp, w)" by (cases row)
  with Cons assms(2) show ?case by (simp add: live_entries_store_hold)
qed simp

lemma untouched_fold_store_hold:
  "k \<notin> counter_key ` fst ` set rows \<Longrightarrow> \<not> ev k \<Longrightarrow>
   live_entries (fold (store_hold ev req) rows reg) k (req_now req) = live_entries reg k (req_now req)"
  by (induction rows arbitrary: reg) (auto simp: live_entries_store_hold)

lemma reserve_release_restores:
  assumes ok: "request_ok counters vts req reg" and time: "request_in_time vts req"
    and open_windows: "\<forall>(v, w)\<in>set vts. 0 < w"
    and fresh: "\<forall>k. req_id req \<notin> entry_ids reg k (req_now req)"
    and kept: "\<forall>k. \<not> ev k"
    and run: "registry_reserve ev counters vts req reg = Some (a, cs', reg')"
  shows "live_entries (snd (registry_release (req_now req) counters (req_id req) reg')) k (req_now req)
    = live_entries reg k (req_now req)"
proof -
  have id_filter: "filter (\<lambda>e. reservation_id e \<noteq> req_id req) (live_entries reg k (req_now req))
      = live_entries reg k (req_now req)" for k
  proof -
    have "reservation_id e \<noteq> req_id req" if "e \<in> set (live_entries reg k (req_now req))" for e
      using subsetD [OF live_entry_ids imageI [OF that]] fresh [THEN spec, of k] by fastforce
    then show ?thesis by simp
  qed
  show ?thesis
  proof (cases "admissible counters vts req reg \<and> hold_amount req \<noteq> 0")
    case False
    have "reg' = reg"
    proof (cases "admissible counters vts req reg")
      case True
      with False registry_reserve_Ok [OF ok time True, of ev] run show ?thesis by simp
    next
      case False
      from registry_reserve_Limited [OF ok time False, of ev] run show ?thesis by auto
    qed
    then show ?thesis by (simp add: live_entries_release id_filter)
  next
    case True
    define cs where "cs = map (annotate_reserved (hold_amount req) (req_now req) reg) (zip counters vts)"
    from True have adm: "admissible counters vts req reg" by simp
    from registry_reserve_Ok [OF ok time adm, of ev] run True have
      reg': "reg' = fold (store_hold ev req) (hold_rows req cs vts) reg"
      by (simp add: cs_def)
    have len: "length vts = length counters" "length vts = length cs"
      using ok by (simp_all add: cs_def request_ok_def)
    have keys: "map counter_key cs = map counter_key counters"
      unfolding cs_def by (rule annotate_reserved_keys [OF len(1)])
    have image: "counter_key ` fst ` set (hold_rows req cs vts) = counter_key ` set counters"
      using hold_rows_image [OF len(2), of req] arg_cong [OF keys, of set] by simp
    have "\<forall>(c, exp, w)\<in>set (hold_rows req cs vts). 0 < w"
      using open_windows by (auto simp: hold_rows_def dest: set_zip_rightD)
    then have others: "filter (\<lambda>e. reservation_id e \<noteq> req_id req) (live_entries reg' k (req_now req))
        = live_entries reg k (req_now req)"
      using others_fold_store_hold [of "hold_rows req cs vts" ev k req reg] kept
      by (simp only: reg' id_filter simp_thms)
    show ?thesis
    proof (cases "k \<in> counter_key ` set counters")
      case True
      then show ?thesis by (simp only: live_entries_release [OF order_refl] others if_True)
    next
      case False
      then have "live_entries reg' k (req_now req) = live_entries reg k (req_now req)"
        using kept image by (simp only: reg' untouched_fold_store_hold simp_thms not_True_eq_False)
      with False show ?thesis by (simp only: live_entries_release [OF order_refl] if_False)
    qed
  qed
qed

end
