(* ===== verification/Windows.thy ===== *)
theory Windows
  imports Prelude
begin

text \<open>
  The contract of an expiring counter: a fixed window.  A window is open until its deadline; an
  addition inside the window accumulates and leaves the deadline where it is, an addition after
  it opens a new window that starts at that addition.  The atomic counter of the in-memory
  storage and the counter of the disk storage both implement it.
\<close>

section \<open>Specification\<close>

record window_state =
  ws_deadline :: nat
  ws_total :: nat

definition ws_step :: "nat \<Rightarrow> nat \<times> nat \<Rightarrow> window_state \<Rightarrow> window_state" where
  "ws_step span = (\<lambda>(t, d) w.
     if ws_deadline w \<le> t then \<lparr>ws_deadline = t + span, ws_total = d\<rparr>
     else w\<lparr>ws_total := ws_total w + d\<rparr>)"

definition ws_read :: "nat \<Rightarrow> window_state \<Rightarrow> nat" where
  "ws_read t w = (if ws_deadline w \<le> t then 0 else ws_total w)"

lemma ws_step_total_bound:
  "ws_total (fold (ws_step span) evs w) \<le> ws_total w + sum_list (map snd evs)"
proof (induction evs arbitrary: w)
  case (Cons ev evs)
  have "ws_total (ws_step span ev w) \<le> ws_total w + snd ev"
    by (simp add: ws_step_def split: prod.split)
  with Cons [of "ws_step span ev w"] show ?case by simp
qed simp

lemma ws_run_inside:
  assumes "\<forall>ev\<in>set evs. fst ev < ws_deadline w"
  shows "fold (ws_step span) evs w = w\<lparr>ws_total := ws_total w + sum_list (map snd evs)\<rparr>"
  using assms
proof (induction evs arbitrary: w)
  case (Cons ev evs)
  obtain t d where ev: "ev = (t, d)" by (cases ev)
  have "ws_step span ev w = w\<lparr>ws_total := ws_total w + d\<rparr>"
    using Cons.prems by (simp add: ev ws_step_def)
  with Cons show ?case by (simp add: ev add.assoc)
qed simp

definition delta_total :: "(systime \<times> u64) list \<Rightarrow> nat" where
  "delta_total evs = sum_list (map (\<lambda>(t, d). unat d) evs)"

lemma delta_total_simps [simp]:
  "delta_total [] = 0" "delta_total ((t, d) # evs) = unat d + delta_total evs"
  by (simp_all add: delta_total_def)

section \<open>Implementations\<close>

locale fixed_window =
  fixes val :: "'v \<Rightarrow> u64"
    and deadline :: "'v \<Rightarrow> nat"
    and tick :: "systime \<Rightarrow> nat"
    and span :: "duration \<Rightarrow> nat"
    and fits :: "duration \<Rightarrow> systime \<Rightarrow> bool"
    and value_at :: "'v \<Rightarrow> systime \<Rightarrow> u64"
    and update :: "u64 \<Rightarrow> duration \<Rightarrow> systime \<Rightarrow> 'v \<Rightarrow> 'v option"
  assumes value_at_law: "value_at v t = (if deadline v \<le> tick t then 0 else val v)"
    and update_law: "fits ttl t \<Longrightarrow>
      \<exists>v'. update d ttl t v = Some v' \<and>
        (if deadline v \<le> tick t then val v' = d \<and> deadline v' = tick t + span ttl
         else val v' = val v + d \<and> deadline v' = deadline v)"
begin

definition abs :: "'v \<Rightarrow> window_state" where
  "abs v = \<lparr>ws_deadline = deadline v, ws_total = unat (val v)\<rparr>"

definition events :: "(systime \<times> u64) list \<Rightarrow> (nat \<times> nat) list" where
  "events evs = map (\<lambda>(t, d). (tick t, unat d)) evs"

lemma events_Cons: "events ((t, d) # evs) = (tick t, unat d) # events evs"
  by (simp add: events_def)

lemma read_refines: "unat (value_at v t) = ws_read (tick t) (abs v)"
  by (simp add: value_at_law ws_read_def abs_def)

lemma update_refines:
  assumes "fits ttl t" "unat (val v) + unat d < 2 ^ 64"
  shows "\<exists>v'. update d ttl t v = Some v' \<and> abs v' = ws_step (span ttl) (tick t, unat d) (abs v)"
proof -
  from update_law [OF assms(1)] obtain v' where
    v': "update d ttl t v = Some v'"
      "if deadline v \<le> tick t then val v' = d \<and> deadline v' = tick t + span ttl
       else val v' = val v + d \<and> deadline v' = deadline v"
    by blast
  with assms(2) show ?thesis
    by (intro exI [of _ v']) (auto simp: abs_def ws_step_def unat_add_no_overflow split: if_splits)
qed

lemma run_refines:
  assumes "\<forall>(t, d)\<in>set evs. fits ttl t"
    and "unat (val v) + delta_total evs < 2 ^ 64"
  shows "\<exists>v'. fold_panic (\<lambda>(t, d). update d ttl t) evs v = Some v' \<and>
           abs v' = fold (ws_step (span ttl)) (events evs) (abs v)"
  using assms
proof (induction evs arbitrary: v)
  case Nil
  then show ?case by (simp add: events_def)
next
  case (Cons ev evs)
  obtain t d where ev: "ev = (t, d)" by (cases ev)
  with Cons.prems have "fits ttl t" "unat (val v) + unat d < 2 ^ 64" by simp_all
  then obtain u where u: "update d ttl t v = Some u"
    "abs u = ws_step (span ttl) (tick t, unat d) (abs v)"
    using update_refines by blast
  have "unat (val u) \<le> unat (val v) + unat d"
    using arg_cong [OF u(2), of ws_total] by (simp add: abs_def ws_step_def split: if_splits)
  with Cons.prems ev have "unat (val u) + delta_total evs < 2 ^ 64" by simp
  with Cons.IH [of u] Cons.prems(1) obtain v' where
    "fold_panic (\<lambda>(t, d). update d ttl t) evs u = Some v'" "abs v' = fold (ws_step (span ttl)) (events evs) (abs u)"
    by auto
  with u show ?case by (auto simp: events_def ev)
qed

text \<open>A run of additions whose first one opens a window and whose others fall inside it counts
  every one of them, and the window still ends one period after it was opened.\<close>

lemma run_one_window:
  assumes "\<forall>(t, d)\<in>set ((t0, d0) # evs). fits ttl t"
    and "unat (val v) + delta_total ((t0, d0) # evs) < 2 ^ 64"
    and "deadline v \<le> tick t0" "\<forall>(t, d)\<in>set evs. tick t < tick t0 + span ttl"
  shows "\<exists>v'. fold_panic (\<lambda>(t, d). update d ttl t) ((t0, d0) # evs) v = Some v' \<and>
           deadline v' = tick t0 + span ttl \<and>
           unat (val v') = delta_total ((t0, d0) # evs)"
proof -
  from run_refines [OF assms(1,2)] obtain v' where
    v': "fold_panic (\<lambda>(t, d). update d ttl t) ((t0, d0) # evs) v = Some v'"
      "abs v' = fold (ws_step (span ttl)) (events ((t0, d0) # evs)) (abs v)"
    by blast
  let ?w = "\<lparr>ws_deadline = tick t0 + span ttl, ws_total = unat d0\<rparr>"
  have "ws_step (span ttl) (tick t0, unat d0) (abs v) = ?w"
    using assms(3) by (simp add: ws_step_def abs_def)
  moreover have "fold (ws_step (span ttl)) (events evs) ?w
      = ?w\<lparr>ws_total := ws_total ?w + sum_list (map snd (events evs))\<rparr>"
    using assms(4) by (intro ws_run_inside) (auto simp: events_def)
  moreover have "sum_list (map snd (events evs)) = delta_total evs"
    by (induction evs) (auto simp: events_def)
  ultimately have "abs v' = ?w\<lparr>ws_total := unat d0 + delta_total evs\<rparr>"
    using v'(2) by (simp add: events_Cons)
  with v'(1) show ?thesis by (auto simp: abs_def)
qed

end

end
