(* ===== verification/Expiring.thy ===== *)
theory Expiring
  imports Windows
begin

text \<open>
  \<^verbatim>\<open>AtomicExpiryTime\<close> and \<^verbatim>\<open>AtomicExpiringValue\<close> of
  \<^verbatim>\<open>limitador/src/storage/atomic_expiring_value.rs\<close>, run by one thread at a time: each atomic
  access is an access to a field, a compare-exchange is \<open>compare_exchange\<close> below.  The clock
  readings a call takes (\<^verbatim>\<open>SystemTime::now()\<close>) are arguments.  The interleavings of several threads
  are the subject of the theory \<open>Races\<close>.
\<close>

section \<open>Expiry times\<close>

record atomic_expiry_time =
  expiry :: u64

definition compare_exchange :: "u64 \<Rightarrow> u64 \<Rightarrow> u64 \<Rightarrow> bool \<times> u64" where
  "compare_exchange expected new cell = (if cell = expected then (True, new) else (False, cell))"

definition since_epoch :: "systime \<Rightarrow> u64" where
  "since_epoch w = of_nat (as_micros w)"

definition expiry_new :: "systime \<Rightarrow> atomic_expiry_time" where
  "expiry_new w = \<lparr>expiry = since_epoch w\<rparr>"

definition expiry_expires_at :: "atomic_expiry_time \<Rightarrow> systime" where
  "expiry_expires_at e = from_micros (expiry e)"

definition expiry_ttl :: "systime \<Rightarrow> atomic_expiry_time \<Rightarrow> duration" where
  "expiry_ttl now e = duration_since_or_zero (from_micros (expiry e)) now"

definition expired_at :: "atomic_expiry_time \<Rightarrow> systime \<Rightarrow> bool" where
  "expired_at e w = (expiry e \<le> since_epoch w)"

definition expiry_store :: "systime \<Rightarrow> atomic_expiry_time \<Rightarrow> atomic_expiry_time" where
  "expiry_store w e = e\<lparr>expiry := since_epoch w\<rparr>"

definition update_if_expired ::
  "duration \<Rightarrow> systime \<Rightarrow> atomic_expiry_time \<Rightarrow> (bool \<times> atomic_expiry_time) option" where
  "update_if_expired ttl w e =
     (if as_micros ttl < 2 ^ 64 then
        let ttl_micros = of_nat (as_micros ttl);
            when_micros = since_epoch w;
            exp = expiry e
        in if exp \<le> when_micros then
             let (ok, cell) = compare_exchange exp (when_micros + ttl_micros) (expiry e)
             in Some (ok, e\<lparr>expiry := cell\<rparr>)
           else Some (False, e)
      else None)"

text \<open>\<^verbatim>\<open>merge_at\<close> tries once: \<open>meanwhile\<close> is what other threads do to the cell between the load and
  the exchange, and an exchange that finds another value than the one loaded hands \<open>other\<close> back.\<close>

definition merge_at ::
  "(u64 \<Rightarrow> u64) \<Rightarrow> atomic_expiry_time \<Rightarrow> systime \<Rightarrow> atomic_expiry_time \<Rightarrow>
   (atomic_expiry_time + unit) \<times> atomic_expiry_time" where
  "merge_at meanwhile other w e =
     (let other_exp = expiry other; exp = expiry e
      in if other_exp < exp \<and> other_exp > since_epoch w then
           let (ok, cell) = compare_exchange exp other_exp (meanwhile (expiry e))
           in (if ok then Inr () else Inl other, e\<lparr>expiry := cell\<rparr>)
         else (Inr (), e))"

text \<open>The retry loop of \<^verbatim>\<open>merge\<close>; the \<open>n\<close>-th iteration reads \<open>clock n\<close>, starts from the cell as
  \<open>before n\<close> leaves it and is disturbed by \<open>meanwhile n\<close>.\<close>

partial_function (option) merge ::
  "(nat \<Rightarrow> systime) \<Rightarrow> (nat \<Rightarrow> u64 \<Rightarrow> u64) \<Rightarrow> (nat \<Rightarrow> u64 \<Rightarrow> u64) \<Rightarrow> nat \<Rightarrow> atomic_expiry_time \<Rightarrow>
   atomic_expiry_time \<Rightarrow> atomic_expiry_time option"
  where
  "merge clock before meanwhile n other e =
     (case merge_at (meanwhile n) other (clock n) (e\<lparr>expiry := before n (expiry e)\<rparr>) of
        (Inr _, e') \<Rightarrow> Some e'
      | (Inl other', e') \<Rightarrow> merge clock before meanwhile (Suc n) other' e')"

section \<open>Expiring values\<close>

record atomic_value =
  av_value :: u64
  av_expiry :: atomic_expiry_time

definition value_new :: "u64 \<Rightarrow> systime \<Rightarrow> atomic_value" where
  "value_new v exp = \<lparr>av_value = v, av_expiry = expiry_new exp\<rparr>"

definition value_default :: atomic_value where
  "value_default = \<lparr>av_value = 0, av_expiry = expiry_new 0\<rparr>"

definition value_at :: "atomic_value \<Rightarrow> systime \<Rightarrow> u64" where
  "value_at v w = (if expired_at (av_expiry v) w then 0 else av_value v)"

definition value_now :: "systime \<Rightarrow> atomic_value \<Rightarrow> u64" where
  "value_now now v = value_at v now"

definition add_and_set_expiry :: "u64 \<Rightarrow> systime \<Rightarrow> atomic_value \<Rightarrow> u64 \<times> atomic_value" where
  "add_and_set_expiry delta exp v =
     (av_value v + delta,
      v\<lparr>av_expiry := expiry_store exp (av_expiry v), av_value := av_value v + delta\<rparr>)"

definition value_update ::
  "u64 \<Rightarrow> duration \<Rightarrow> systime \<Rightarrow> atomic_value \<Rightarrow> (u64 \<times> atomic_value) option" where
  "value_update delta ttl w v = do {
     (reset, e) \<leftarrow> update_if_expired ttl w (av_expiry v);
     let v = v\<lparr>av_expiry := e\<rparr>;
     if reset then Some (delta, v\<lparr>av_value := delta\<rparr>)
     else Some (av_value v + delta, v\<lparr>av_value := av_value v + delta\<rparr>)
   }"

definition value_ttl :: "systime \<Rightarrow> atomic_value \<Rightarrow> duration" where
  "value_ttl now v = expiry_ttl now (av_expiry v)"

section \<open>The fixed window of an expiring value\<close>

text \<open>The instants at which a period of length \<open>ttl\<close> can start without leaving the \<^verbatim>\<open>u64\<close>
  microsecond range.\<close>

definition window_fits :: "duration \<Rightarrow> systime \<Rightarrow> bool" where
  "window_fits ttl t \<longleftrightarrow> unat (since_epoch t) + as_micros ttl < 2 ^ 64"

lemma unat_window_end:
  "window_fits ttl t \<Longrightarrow>
     unat (since_epoch t + of_nat (as_micros ttl)) = unat (since_epoch t) + as_micros ttl"
  by (simp add: window_fits_def unat_add_no_overflow unat_of_nat_u64)

lemma update_if_expired_fits:
  assumes "window_fits ttl t"
  shows "update_if_expired ttl t e =
    Some (expired_at e t,
          if expired_at e t then e\<lparr>expiry := since_epoch t + of_nat (as_micros ttl)\<rparr> else e)"
  using assms
  by (simp add: update_if_expired_def expired_at_def compare_exchange_def window_fits_def)

lemma value_update_fits:
  assumes "window_fits ttl t"
  shows "value_update d ttl t v =
    Some (if expired_at (av_expiry v) t
          then (d, \<lparr>av_value = d, av_expiry = \<lparr>expiry = since_epoch t + of_nat (as_micros ttl)\<rparr>\<rparr>)
          else (av_value v + d, v\<lparr>av_value := av_value v + d\<rparr>))"
  by (simp add: value_update_def update_if_expired_fits [OF assms])

lemma value_update_panics_iff:
  "value_update d ttl t v = None \<longleftrightarrow> 2 ^ 64 \<le> as_micros ttl"
  by (auto simp: value_update_def update_if_expired_def compare_exchange_def Let_def
      split: if_splits)

interpretation aw: fixed_window
  av_value "\<lambda>v. unat (expiry (av_expiry v))" "\<lambda>t. unat (since_epoch t)" as_micros window_fits
  value_at "\<lambda>d ttl t v. map_option snd (value_update d ttl t v)"
proof unfold_locales
  fix v t
  show "value_at v t =
    (if unat (expiry (av_expiry v)) \<le> unat (since_epoch t) then 0 else av_value v)"
    by (simp add: value_at_def expired_at_def word_le_nat_alt)
next
  fix ttl t d v
  assume fits: "window_fits ttl t"
  show "\<exists>v'. map_option snd (value_update d ttl t v) = Some v' \<and>
    (if unat (expiry (av_expiry v)) \<le> unat (since_epoch t)
     then av_value v' = d \<and> unat (expiry (av_expiry v')) = unat (since_epoch t) + as_micros ttl
     else av_value v' = av_value v + d \<and>
          unat (expiry (av_expiry v')) = unat (expiry (av_expiry v)))"
    using unat_window_end [OF fits]
    by (simp add: value_update_fits [OF fits] expired_at_def word_le_nat_alt)
qed

text \<open>Reading back right after an update.\<close>

lemma value_at_update:
  assumes "window_fits ttl t" "0 < as_micros ttl" "value_update d ttl t v = Some (r, v')"
  shows "value_at v' t = value_at v t + d" "r = value_at v t + d"
  using assms unat_window_end [OF assms(1)]
  by (auto simp: value_update_fits value_at_def expired_at_def word_le_nat_alt split: if_splits)

lemma value_update_zero_live:
  "window_fits ttl t \<Longrightarrow> \<not> expired_at (av_expiry v) t \<Longrightarrow> value_update 0 ttl t v = Some (av_value v, v)"
  by (simp add: value_update_fits)

lemma value_at_new:
  "value_at (value_new x e) t = (if since_epoch e \<le> since_epoch t then 0 else x)"
  by (simp add: value_at_def value_new_def expired_at_def expiry_new_def)

lemma as_micros_add_mono: "as_micros a \<le> as_micros (a + b)"
  by (simp add: as_micros_def div_le_mono)

section \<open>Merging expiry times\<close>

lemma merge_at_result:
  "merge_at (\<lambda>x. x) other w e =
     (Inr (), if expiry other < expiry e \<and> since_epoch w < expiry other
              then e\<lparr>expiry := expiry other\<rparr> else e)"
  by (simp add: merge_at_def compare_exchange_def Let_def)

lemma merge_at_hands_back: "fst (merge_at meanwhile other w e) \<in> {Inr (), Inl other}"
  by (simp add: merge_at_def Let_def case_prod_unfold)

text \<open>The loop ends with the first iteration that no other thread disturbs, if not before.\<close>

lemma merge_returns:
  assumes "meanwhile m = (\<lambda>x. x)" and "n \<le> m"
  shows "\<exists>e'. merge clock before meanwhile n other e = Some e'"
  using assms
proof (induction "m - n" arbitrary: n e)
  case 0
  then have "n = m" by simp
  then show ?case using 0(2) by (subst merge.simps) (simp add: merge_at_result)
next
  case (Suc d)
  let ?r = "merge_at (meanwhile n) other (clock n) (e\<lparr>expiry := before n (expiry e)\<rparr>)"
  obtain a e' where r: "?r = (a, e')" by (cases ?r)
  have "a = Inr () \<or> a = Inl other"
    using merge_at_hands_back [of "meanwhile n" other "clock n" "e\<lparr>expiry := before n (expiry e)\<rparr>"] r
    by simp
  moreover have "\<exists>x. merge clock before meanwhile (Suc n) other e' = Some x"
    by (rule Suc(1)) (use Suc in simp_all)
  ultimately show ?case using r by (subst merge.simps) auto
qed

end
