(* ===== verification/InMemory.thy ===== *)
theory InMemory
  imports Reservations Expiring
begin

text \<open>
  The in-memory counter storage: \<^verbatim>\<open>limitador/src/storage/in_memory.rs\<close>.

  A counter of a limit without variables lives in \<open>simple_limits\<close>, keyed by the identity of its
  limit; a counter with variables lives in the cache \<open>qualified_counters\<close>, keyed by the identity
  of the counter.  An operation takes the surroundings of its call as an \<open>env\<close>: the clock reading,
  one for the whole call, and the keys the caches drop while it runs.  Values held through an
  \<^verbatim>\<open>Arc\<close> are updated in place under their key; if the cache dropped the entry meanwhile, the update
  is lost, as it is for the code.
\<close>

section \<open>State\<close>

type_synonym mem_env = "counter_key env"

record 'e in_memory =
  simple_limits :: "(limit_key \<times> ('e limit \<times> atomic_value)) list"
  qualified_counters :: "(counter_key \<times> ('e counter \<times> atomic_value)) list"
  reservations :: registry

definition in_memory_new :: "'e in_memory" where
  "in_memory_new =
     \<lparr>simple_limits = [], qualified_counters = [], reservations = registry_new\<rparr>"

definition stored :: "'e in_memory \<Rightarrow> counter_key \<Rightarrow> atomic_value option" where
  "stored s k =
     (if ck_variables k = [] then map_option snd (map_of (simple_limits s) (ck_limit k))
      else map_option snd (map_of (qualified_counters s) k))"

section \<open>Reading\<close>

definition is_within_limits :: "mem_env \<Rightarrow> 'e counter \<Rightarrow> u64 \<Rightarrow> 'e in_memory \<Rightarrow> bool" where
  "is_within_limits env c delta s =
     (let value =
        (if is_qualified c then
           (case map_of (qualified_counters s) (counter_key c) of
              Some (_, v) \<Rightarrow> value_now (env_now env) v | None \<Rightarrow> 0)
         else
           (case map_of (simple_limits s) (limit_key (limit c)) of
              Some (_, v) \<Rightarrow> value_now (env_now env) v | None \<Rightarrow> 0))
      in counter_max_value c \<ge> saturating_add value delta)"

text \<open>The closure \<^verbatim>\<open>annotate\<close> of \<^verbatim>\<open>check_and_update\<close> and \<^verbatim>\<open>record\<close> of \<^verbatim>\<open>evaluate\<close>.\<close>

definition annotate :: "u64 \<Rightarrow> duration \<Rightarrow> 'e counter \<Rightarrow> 'e counter" where
  "annotate value ttl c =
     (let ttl = (if ttl = 0 then window c else ttl)
      in set_expires_in ttl (set_remaining (saturating_sub (counter_max_value c) value) c))"

definition over_limit :: "u64 \<Rightarrow> u64 \<Rightarrow> 'e counter \<Rightarrow> bool" where
  "over_limit delta value c =
     (checked_sub (counter_max_value c) (saturating_add value delta) = None)"

definition read_simple :: "systime \<Rightarrow> 'e in_memory \<Rightarrow> 'e counter \<Rightarrow> u64 \<times> duration" where
  "read_simple now s c =
     (case map_of (simple_limits s) (limit_key (limit c)) of
        Some (_, v) \<Rightarrow> (value_now now v, value_ttl now v)
      | None \<Rightarrow> (0, window c))"

definition read_qualified :: "systime \<Rightarrow> 'e in_memory \<Rightarrow> 'e counter \<Rightarrow> u64 \<times> duration" where
  "read_qualified now s c =
     (case map_of (qualified_counters s) (counter_key c) of
        Some (_, v) \<Rightarrow> (value_now now v, value_ttl now v)
      | None \<Rightarrow> (0, window c))"

text \<open>\<^verbatim>\<open>evaluate\<close> visits the unqualified counters first, then the qualified ones.\<close>

definition evaluate ::
  "mem_env \<Rightarrow> 'e counter list \<Rightarrow> u64 \<Rightarrow> 'e in_memory \<Rightarrow> authorization \<times> 'e counter list" where
  "evaluate env counters delta s =
     (let now = env_now env;
          read = (\<lambda>c. if is_qualified c then read_qualified now s c else read_simple now s c);
          visit = filter (\<lambda>c. \<not> is_qualified c) counters @ filter is_qualified counters;
          limited = first_limited (\<lambda>c. over_limit delta (fst (read c)) c) (\<lambda>c. c) visit
      in (case limited of Some l \<Rightarrow> l | None \<Rightarrow> AuthOk,
          map (\<lambda>c. annotate (fst (read c)) (snd (read c)) c) counters))"

definition check ::
  "mem_env \<Rightarrow> 'e counter list \<Rightarrow> u64 \<Rightarrow> 'e in_memory \<Rightarrow>
   ((storage_err + authorization) \<times> 'e counter list) \<times> 'e in_memory" where
  "check env counters delta s =
     (let (a, cs) = evaluate env counters delta s in ((Inr a, cs), s))"

section \<open>Writing\<close>

definition add_counter :: "'e limit \<Rightarrow> 'e in_memory \<Rightarrow> 'e in_memory" where
  "add_counter l s =
     (if variables_set l = {} then
        (case map_of (simple_limits s) (limit_key l) of
           Some _ \<Rightarrow> s
         | None \<Rightarrow>
             s\<lparr>simple_limits := AList.update (limit_key l) (l, value_default) (simple_limits s)\<rparr>)
      else s)"

text \<open>The value of a qualified counter, created at zero for a new window when missing.\<close>

definition get_or_create ::
  "mem_env \<Rightarrow> 'e counter \<Rightarrow> 'e in_memory \<Rightarrow> (atomic_value \<times> 'e in_memory) option" where
  "get_or_create env c s =
     (case map_of (qualified_counters s) (counter_key c) of
        Some (_, v) \<Rightarrow> Some (v, s)
      | None \<Rightarrow> do {
          exp \<leftarrow> systime_add (env_now env) (window c);
          let v = value_new 0 exp;
          Some (v, s\<lparr>qualified_counters :=
            cache_insert (env_evicts env) (counter_key c) (c, v) (qualified_counters s)\<rparr>)
        })"

text \<open>Updating a value through a handle: in place when the map still has it; the call can panic
  either way.\<close>

definition update_handle ::
  "systime \<Rightarrow> u64 \<Rightarrow> duration \<Rightarrow> 'k \<Rightarrow> ('k \<times> ('c \<times> atomic_value)) list \<Rightarrow>
   ('k \<times> ('c \<times> atomic_value)) list option" where
  "update_handle now delta ttl k al =
     (case map_of al k of
        None \<Rightarrow> map_option (\<lambda>_. al) (value_update delta ttl now value_default)
      | Some (c, v) \<Rightarrow> do {
          (_, v') \<leftarrow> value_update delta ttl now v;
          Some (AList.update k (c, v') al)
        })"

definition update_counter ::
  "mem_env \<Rightarrow> 'e counter \<Rightarrow> u64 \<Rightarrow> 'e in_memory \<Rightarrow> 'e in_memory option" where
  "update_counter env c delta s =
     (let now = env_now env in
      if is_qualified c then do {
        (_, s) \<leftarrow> get_or_create env c s;
        qs \<leftarrow> update_handle now delta (window c) (counter_key c) (qualified_counters s);
        Some (s\<lparr>qualified_counters := qs\<rparr>)
      } else
        (case map_of (simple_limits s) (limit_key (limit c)) of
           None \<Rightarrow> do {
             exp \<leftarrow> systime_add now (window c);
             Some (s\<lparr>simple_limits :=
               AList.update (limit_key (limit c)) (limit c, value_new delta exp)
                 (simple_limits s)\<rparr>)
           }
         | Some _ \<Rightarrow> do {
             ls \<leftarrow> update_handle now delta (window c) (limit_key (limit c)) (simple_limits s);
             Some (s\<lparr>simple_limits := ls\<rparr>)
           }))"

text \<open>One iteration of the first loop of \<^verbatim>\<open>check_and_update\<close>: the value and ttl to annotate with, and
  whether a handle to the value was found.\<close>

definition visit ::
  "mem_env \<Rightarrow> 'e counter \<Rightarrow> 'e in_memory \<Rightarrow> (('e counter \<times> u64 \<times> duration \<times> bool) \<times> 'e in_memory) option"
  where
  "visit env c s =
     (let now = env_now env in
      if is_qualified c then do {
        (v, s) \<leftarrow> get_or_create env c s;
        Some ((c, value_now now v, value_ttl now v, True), s)
      } else
        (case map_of (simple_limits s) (limit_key (limit c)) of
           Some (_, v) \<Rightarrow> Some ((c, value_now now v, value_ttl now v, True), s)
         | None \<Rightarrow> Some ((c, 0, window c, False), s)))"

definition update_simple ::
  "systime \<Rightarrow> u64 \<Rightarrow> 'e counter \<Rightarrow> 'e in_memory \<Rightarrow> 'e in_memory option" where
  "update_simple now delta c s = do {
     ls \<leftarrow> update_handle now delta (window c) (limit_key (limit c)) (simple_limits s);
     Some (s\<lparr>simple_limits := ls\<rparr>)
   }"

definition update_qualified ::
  "systime \<Rightarrow> u64 \<Rightarrow> 'e counter \<Rightarrow> 'e in_memory \<Rightarrow> 'e in_memory option" where
  "update_qualified now delta c s = do {
     qs \<leftarrow> update_handle now delta (window c) (counter_key c) (qualified_counters s);
     Some (s\<lparr>qualified_counters := qs\<rparr>)
   }"

definition check_and_update ::
  "mem_env \<Rightarrow> 'e counter list \<Rightarrow> u64 \<Rightarrow> 'e in_memory \<Rightarrow>
   (((storage_err + authorization) \<times> 'e counter list) \<times> 'e in_memory) option" where
  "check_and_update env counters delta s = do {
     let now = env_now env;
     (rows, s) \<leftarrow> map_panic (visit env) counters s;
     let counters' = map (\<lambda>(c, v, ttl, _). annotate v ttl c) rows;
     let limited = first_limited (\<lambda>(c, v, ttl, _). over_limit delta v c) fst rows;
     (case limited of
        Some l \<Rightarrow> Some ((Inr l, counters'), s)
      | None \<Rightarrow> do {
          s \<leftarrow> fold_panic (update_simple now delta)
            (map fst (filter (\<lambda>(c, _, _, found). found \<and> \<not> is_qualified c) rows)) s;
          s \<leftarrow> fold_panic (update_qualified now delta)
            (map fst (filter (\<lambda>(c, _, _, found). found \<and> is_qualified c) rows)) s;
          s \<leftarrow> fold_panic (\<lambda>c. update_counter env c delta)
            (map (\<lambda>(c, v, ttl, _). annotate v ttl c) (filter (\<lambda>(_, _, _, found). \<not> found) rows)) s;
          Some ((Inr AuthOk, counters'), s)
        })
   }"

definition delete_counters_of_limit :: "'e limit \<Rightarrow> 'e in_memory \<Rightarrow> 'e in_memory" where
  "delete_counters_of_limit l s =
     (if variables_set l = {} then
        s\<lparr>simple_limits := AList.delete (limit_key l) (simple_limits s)\<rparr>
      else
        s\<lparr>qualified_counters :=
          filter (\<lambda>(_, c, _). \<not> limit_eq (limit c) l) (qualified_counters s)\<rparr>)"

definition delete_counters :: "'e limit list \<Rightarrow> 'e in_memory \<Rightarrow> 'e in_memory" where
  "delete_counters limits s = fold delete_counters_of_limit limits s"

definition clear :: "'e in_memory \<Rightarrow> 'e in_memory" where
  "clear s = s\<lparr>simple_limits := []\<rparr>"

section \<open>Listing the counters\<close>

text \<open>\<^verbatim>\<open>HashMap::insert\<close> keeps the key that is already there and replaces its value.\<close>

definition hmap_insert ::
  "'e counter \<Rightarrow> atomic_value \<Rightarrow> (counter_key \<times> ('e counter \<times> atomic_value)) list \<Rightarrow>
   (counter_key \<times> ('e counter \<times> atomic_value)) list" where
  "hmap_insert c v m =
     (case map_of m (counter_key c) of
        Some (c0, _) \<Rightarrow> AList.update (counter_key c) (c0, v) m
      | None \<Rightarrow> AList.update (counter_key c) (c, v) m)"

definition counters_in_namespace ::
  "'e cel \<Rightarrow> string \<Rightarrow> 'e in_memory \<Rightarrow> (counter_key \<times> ('e counter \<times> atomic_value)) list option" where
  "counters_in_namespace cel ns s = do {
     res \<leftarrow> fold_panic (\<lambda>(_, l, v) res.
         if namespace l = ns then
           (case counter_new cel l context_default of
              Inr (Some c) \<Rightarrow> Some (hmap_insert c v res)
            | _ \<Rightarrow> None)
         else Some res) (simple_limits s) [];
     Some (fold (\<lambda>(_, c, v) res.
         if counter_namespace c = ns then hmap_insert c v res else res) (qualified_counters s) res)
   }"

definition report_counter ::
  "systime \<Rightarrow> atomic_value \<Rightarrow> 'e counter \<Rightarrow> 'e counter list \<Rightarrow> 'e counter list" where
  "report_counter now v c res =
     (let c = set_remaining (saturating_sub (counter_max_value c) (value_now now v)) c;
          c = set_expires_in (value_ttl now v) c
      in if value_ttl now v > 0 then snd (hset_insert counter_key c res) else res)"

definition get_counters ::
  "'e cel \<Rightarrow> mem_env \<Rightarrow> 'e limit list \<Rightarrow> 'e in_memory \<Rightarrow> 'e counter list option" where
  "get_counters cel env limits s = do {
     let now = env_now env;
     res \<leftarrow> fold_panic (\<lambda>l res. do {
         cs \<leftarrow> counters_in_namespace cel (namespace l) s;
         Some (fold (\<lambda>(_, c, v).
             report_counter now v
               (case hset_get limit_key (limit_key (limit c)) limits of
                  Some live \<Rightarrow> snd (update_to_limit live c) | None \<Rightarrow> c)) cs res)
       }) limits [];
     Some (fold (\<lambda>(_, c, v) res.
         (case hset_get limit_key (limit_key (limit c)) limits of
            Some live \<Rightarrow> report_counter now v (snd (update_to_limit live c)) res
          | None \<Rightarrow> res)) (qualified_counters s) res)
   }"

section \<open>Reservations\<close>

definition touch ::
  "mem_env \<Rightarrow> 'e counter \<Rightarrow> 'e in_memory \<Rightarrow> ((u64 \<times> duration) \<times> 'e in_memory) option" where
  "touch env c s =
     (let now = env_now env in
      if is_qualified c then do {
        (v, s) \<leftarrow> get_or_create env c s;
        (current, v') \<leftarrow> value_update 0 (window c) now v;
        qs \<leftarrow> update_handle now 0 (window c) (counter_key c) (qualified_counters s);
        Some ((current, value_ttl now v'), s\<lparr>qualified_counters := qs\<rparr>)
      } else do {
        (l, v) \<leftarrow> (case map_of (simple_limits s) (limit_key (limit c)) of
            Some lv \<Rightarrow> Some lv
          | None \<Rightarrow> do {
              exp \<leftarrow> systime_add now (window c);
              Some (limit c, value_new 0 exp)
            });
        (current, v') \<leftarrow> value_update 0 (window c) now v;
        Some ((current, value_ttl now v'),
              s\<lparr>simple_limits := AList.update (limit_key (limit c)) (l, v') (simple_limits s)\<rparr>)
      })"

definition reserve ::
  "mem_env \<Rightarrow> 'e counter list \<Rightarrow> reservation_id \<Rightarrow> u64 \<Rightarrow> u64 \<Rightarrow> duration \<Rightarrow> 'e in_memory \<Rightarrow>
   (((storage_err + authorization) \<times> 'e counter list) \<times> 'e in_memory) option" where
  "reserve env counters rid check_amt hold_amt ttl s = do {
     (vts, s) \<leftarrow> map_panic (touch env) counters s;
     (a, counters', reg) \<leftarrow> registry_reserve (env_evicts env) counters vts
        \<lparr>req_id = rid, check_amount = check_amt, hold_amount = hold_amt, req_ttl = ttl,
         req_now = env_now env\<rparr> (reservations s);
     Some ((Inr a, counters'), s\<lparr>reservations := reg\<rparr>)
   }"

definition release_reservation ::
  "mem_env \<Rightarrow> 'e counter list \<Rightarrow> reservation_id \<Rightarrow> 'e in_memory \<Rightarrow>
   (storage_err + bool) \<times> 'e in_memory" where
  "release_reservation env counters rid s =
     (let (b, reg) = registry_release (env_now env) counters rid (reservations s)
      in (Inr b, s\<lparr>reservations := reg\<rparr>))"

end
