(* ===== verification/Admission.thy ===== *)
theory Admission
  imports InMemory
begin

text \<open>
  What the in-memory storage does to the usage of a counter: reading, checking, checking and
  updating, reporting.  The usage of a counter at an instant is the value stored for it, zero when
  nothing is stored or its window is over.
\<close>

section \<open>Usage\<close>

definition usage :: "'e in_memory \<Rightarrow> systime \<Rightarrow> counter_key \<Rightarrow> u64" where
  "usage s now k = (case stored s k of Some v \<Rightarrow> value_at v now | None \<Rightarrow> 0)"

text \<open>The calls the theorems speak of: a window of at least a second whose end is within the
  microsecond range, and a cache that keeps the counters of the call while it runs.\<close>

definition in_time :: "systime \<Rightarrow> 'e counter \<Rightarrow> bool" where
  "in_time now c \<longleftrightarrow>
     0 < seconds (limit c) \<and> as_micros now + as_micros (window c) < 2 ^ 64"

definition call_ok :: "mem_env \<Rightarrow> 'e counter list \<Rightarrow> bool" where
  "call_ok env cs \<longleftrightarrow>
     (\<forall>c\<in>set cs. in_time (env_now env) c \<and> \<not> env_evicts env (counter_key c)) \<and>
     distinct (map counter_key cs)"

lemma as_micros_window: "as_micros (window c) = unat (seconds (limit c)) * 10 ^ 6"
  by (simp add: as_micros_def window_def from_secs_def)

lemma as_micros_add_window: "as_micros (now + window c) = as_micros now + as_micros (window c)"
proof -
  have "window c = unat (seconds (limit c)) * 10 ^ 6 * 1000"
    by (simp add: window_def from_secs_def)
  then show ?thesis by (simp add: as_micros_def)
qed

lemma in_time_facts:
  assumes "in_time now c"
  shows "window_fits (window c) now" "0 < as_micros (window c)"
    "systime_add now (window c) = Some (now + window c)"
    "unat (since_epoch now) = as_micros now"
    "unat (since_epoch (now + window c)) = as_micros now + as_micros (window c)"
proof -
  from assms have lt: "as_micros now + as_micros (window c) < 2 ^ 64"
    and pos: "0 < unat (seconds (limit c))"
    by (simp_all add: in_time_def word_less_nat_alt)
  from lt show now: "unat (since_epoch now) = as_micros now"
    by (simp add: since_epoch_def unat_of_nat_u64)
  with lt show "window_fits (window c) now" by (simp add: window_fits_def)
  from pos show "0 < as_micros (window c)" by (simp add: as_micros_window)
  have "(now + window c) div 10 ^ 9 = as_micros (now + window c) div 10 ^ 6"
    unfolding as_micros_def by (subst div_mult2_eq [symmetric]) simp
  moreover have "as_micros (now + window c) div 10 ^ 6 < 2 ^ 63"
    using lt by (simp add: as_micros_add_window div_less_iff_less_mult)
  ultimately show "systime_add now (window c) = Some (now + window c)"
    by (simp add: systime_add_def)
  from lt show "unat (since_epoch (now + window c)) = as_micros now + as_micros (window c)"
    by (simp add: since_epoch_def as_micros_add_window unat_of_nat_u64 del: of_nat_add)
qed

lemma value_at_fresh:
  assumes "in_time now c"
  shows "value_at (value_new x (now + window c)) now = x"
  using in_time_facts [OF assms] by (simp add: value_at_new word_le_nat_alt)

lemma stored_counter:
  "stored s (counter_key c) =
     (if is_qualified c then map_option snd (map_of (qualified_counters s) (counter_key c))
      else map_option snd (map_of (simple_limits s) (limit_key (limit c))))"
  by (simp add: stored_def is_qualified_key) (simp add: counter_key_def)

lemma is_within_limits_usage:
  "is_within_limits env c delta s \<longleftrightarrow>
     unat (usage s (env_now env) (counter_key c)) + unat delta \<le> unat (counter_max_value c) \<or>
     unat (counter_max_value c) = 2 ^ 64 - 1"
proof -
  have "is_within_limits env c delta s \<longleftrightarrow>
      saturating_add (usage s (env_now env) (counter_key c)) delta \<le> counter_max_value c"
    by (simp add: is_within_limits_def usage_def stored_counter value_now_def case_prod_unfold
        split: option.split)
  then show ?thesis
    using unat_u64_le [of "counter_max_value c"]
    by (auto simp: word_le_nat_alt unat_saturating_add min_def)
qed

section \<open>Admission\<close>

text \<open>What every check tests: \<open>delta\<close> more would keep the counter within its limit, where a sum above
  the \<^verbatim>\<open>u64\<close> range counts as the largest \<^verbatim>\<open>u64\<close>.\<close>

definition fits :: "'e in_memory \<Rightarrow> systime \<Rightarrow> u64 \<Rightarrow> 'e counter \<Rightarrow> bool" where
  "fits s now delta c \<longleftrightarrow>
     saturating_add (usage s now (counter_key c)) delta \<le> counter_max_value c"

lemma over_limit_fits:
  "over_limit delta (usage s now (counter_key c)) c \<longleftrightarrow> \<not> fits s now delta c"
  by (auto simp: over_limit_def fits_def checked_sub_eq_None word_le_nat_alt)

lemma fits_sum:
  "fits s now delta c \<Longrightarrow> unat (usage s now (counter_key c)) + unat delta < 2 ^ 64 \<Longrightarrow>
   unat (usage s now (counter_key c)) + unat delta \<le> unat (counter_max_value c)"
  by (simp add: fits_def word_le_nat_alt unat_saturating_add)

lemma read_usage:
  "fst (if is_qualified c then read_qualified now s c else read_simple now s c)
     = usage s now (counter_key c)"
  by (auto simp: read_qualified_def read_simple_def usage_def stored_counter value_now_def
      split: option.split)

definition annotated :: "'e in_memory \<Rightarrow> systime \<Rightarrow> 'e counter \<Rightarrow> 'e counter \<Rightarrow> bool" where
  "annotated s now c c' \<longleftrightarrow>
     limit c' = limit c \<and> set_variables c' = set_variables c \<and>
     remaining c' = Some (saturating_sub (counter_max_value c) (usage s now (counter_key c))) \<and>
     expires_in c' \<noteq> None \<and> (0 < seconds (limit c) \<longrightarrow> expires_in c' \<noteq> Some 0)"

lemma annotated_annotate:
  "v = usage s now (counter_key c) \<Longrightarrow> annotated s now c (annotate v ttl c)"
  by (auto simp: annotated_def annotate_def Let_def window_def from_secs_def
      counter_max_value_def word_less_nat_alt unsigned_eq_0_iff)

lemma evaluate_result:
  "fst (evaluate env cs delta s) = AuthOk \<longleftrightarrow> (\<forall>c\<in>set cs. fits s (env_now env) delta c)"
  "list_all2 (annotated s (env_now env)) cs (snd (evaluate env cs delta s))"
  "fst (evaluate env cs delta s) = Limited nm \<Longrightarrow>
     \<exists>c\<in>set cs. \<not> fits s (env_now env) delta c \<and> nm = limit_name (limit c)"
proof -
  let ?read = "\<lambda>c. if is_qualified c then read_qualified (env_now env) s c
    else read_simple (env_now env) s c"
  let ?visit = "filter (\<lambda>c. \<not> is_qualified c) cs @ filter is_qualified cs"
  let ?lim = "first_limited (\<lambda>c. over_limit delta (fst (?read c)) c) (\<lambda>c. c) ?visit"
  have fst_ev: "fst (evaluate env cs delta s) = (case ?lim of Some l \<Rightarrow> l | None \<Rightarrow> AuthOk)"
    by (simp add: evaluate_def Let_def)
  have None_iff: "?lim = None \<longleftrightarrow> (\<forall>c\<in>set cs. fits s (env_now env) delta c)"
    by (auto simp: first_limited_None read_usage over_limit_fits)
  show "fst (evaluate env cs delta s) = AuthOk \<longleftrightarrow> (\<forall>c\<in>set cs. fits s (env_now env) delta c)"
    unfolding fst_ev None_iff [symmetric]
    by (cases ?lim) (auto dest: first_limited_SomeD)
  show "list_all2 (annotated s (env_now env)) cs (snd (evaluate env cs delta s))"
    by (simp add: evaluate_def Let_def list_all2_map2 list_all2_same annotated_annotate read_usage)
  show "\<exists>c\<in>set cs. \<not> fits s (env_now env) delta c \<and> nm = limit_name (limit c)"
    if "fst (evaluate env cs delta s) = Limited nm"
    using that unfolding fst_ev
    by (cases ?lim) (auto simp: read_usage over_limit_fits dest!: first_limited_SomeD)
qed

section \<open>One counter of a call\<close>

text \<open>\<open>bumped env delta K s s'\<close>: the usage of the counters in \<open>K\<close> grew by \<open>delta\<close>, nothing else
  changed, as far as the entries the cache keeps are concerned.\<close>

definition bumped ::
  "mem_env \<Rightarrow> u64 \<Rightarrow> counter_key set \<Rightarrow> 'e in_memory \<Rightarrow> 'e in_memory \<Rightarrow> bool" where
  "bumped env delta K s s' \<longleftrightarrow>
     (\<forall>k. \<not> env_evicts env k \<longrightarrow>
        usage s' (env_now env) k = usage s (env_now env) k + (if k \<in> K then delta else 0) \<and>
        (stored s' k = None \<longrightarrow> stored s k = None)) \<and>
     reservations s' = reservations s"

lemma bumped_trans:
  assumes "bumped env delta K s t" "bumped env delta L t u" "K \<inter> L = {}"
  shows "bumped env delta (K \<union> L) s u"
  using assms unfolding bumped_def by (auto simp: disjoint_iff)

lemma bumped_empty [simp]: "bumped env delta {} s s"
  by (simp add: bumped_def)

lemma bumped_usage:
  "bumped env delta K s s' \<Longrightarrow> \<not> env_evicts env k \<Longrightarrow>
   usage s' (env_now env) k = usage s (env_now env) k + (if k \<in> K then delta else 0)"
  by (simp add: bumped_def)

lemma value_update_in_time:
  assumes "in_time now c"
  shows "\<exists>r v'. value_update d (window c) now v = Some (r, v') \<and>
    value_at v' now = value_at v now + d \<and> r = value_at v now + d \<and>
    now < from_micros (expiry (av_expiry v')) + 1000"
proof -
  note f = in_time_facts [OF assms]
  obtain r v' where u: "value_update d (window c) now v = Some (r, v')"
    using value_update_fits [OF f(1)] by (metis surj_pair)
  have "as_micros now < unat (expiry (av_expiry v'))"
    using u f(2,4) unat_window_end [OF f(1)]
    by (auto simp: value_update_fits [OF f(1)] expired_at_def word_le_nat_alt split: if_splits)
  then have "now < unat (expiry (av_expiry v')) * 1000"
    unfolding as_micros_def by (metis div_less_iff_less_mult zero_less_numeral)
  with value_at_update [OF f(1,2) u] u show ?thesis by (auto simp: from_micros_def)
qed

lemma update_handle_present:
  assumes "in_time now c" "map_of al k = Some (x, v)"
  shows "\<exists>v'. update_handle now d (window c) k al = Some (AList.update k (x, v') al) \<and>
    value_at v' now = value_at v now + d"
  using value_update_in_time [OF assms(1), of d v] assms(2)
  by (auto simp: update_handle_def)

lemma stored_qualified_update:
  "stored (s\<lparr>qualified_counters := AList.update (counter_key c) (x, v) (qualified_counters s)\<rparr>) k =
     (if k = counter_key c \<and> is_qualified c then Some v else stored s k)"
  by (auto simp: stored_def assoc_simps is_qualified_key)

lemma stored_simple_update:
  "\<not> is_qualified c \<Longrightarrow>
   stored (s\<lparr>simple_limits := AList.update (limit_key (limit c)) (x, v) (simple_limits s)\<rparr>) k =
     (if k = counter_key c then Some v else stored s k)"
  by (cases k) (auto simp: stored_def assoc_simps is_qualified_def counter_key_def)

lemma stored_cache_insert:
  "is_qualified c \<Longrightarrow> \<not> ev k \<Longrightarrow>
   stored (s\<lparr>qualified_counters := cache_insert ev (counter_key c) (x, v) (qualified_counters s)\<rparr>) k =
     (if k = counter_key c then Some v else stored s k)"
  by (auto simp: stored_def assoc_simps is_qualified_key)

lemma update_simple_bumped:
  assumes "in_time (env_now env) c" "\<not> is_qualified c" "stored s (counter_key c) \<noteq> None"
  shows "\<exists>s'. update_simple (env_now env) delta c s = Some s' \<and>
    bumped env delta {counter_key c} s s'"
proof -
  from assms(2,3) obtain x v where v: "map_of (simple_limits s) (limit_key (limit c)) = Some (x, v)"
    by (auto simp: stored_counter)
  from update_handle_present [OF assms(1) v, of delta] obtain v' where
    v': "update_handle (env_now env) delta (window c) (limit_key (limit c)) (simple_limits s)
        = Some (AList.update (limit_key (limit c)) (x, v') (simple_limits s))"
      "value_at v' (env_now env) = value_at v (env_now env) + delta"
    by blast
  let ?s' = "s\<lparr>simple_limits := AList.update (limit_key (limit c)) (x, v') (simple_limits s)\<rparr>"
  have "stored s (counter_key c) = Some v" using assms(2) v by (simp add: stored_counter)
  then have "bumped env delta {counter_key c} s ?s'"
    using v'(2) by (simp add: bumped_def usage_def stored_simple_update [OF assms(2)])
  with v'(1) show ?thesis by (auto simp: update_simple_def)
qed

lemma update_qualified_bumped:
  assumes "in_time (env_now env) c" "is_qualified c" "stored s (counter_key c) \<noteq> None"
  shows "\<exists>s'. update_qualified (env_now env) delta c s = Some s' \<and>
    bumped env delta {counter_key c} s s'"
proof -
  from assms(2,3) obtain x v where v: "map_of (qualified_counters s) (counter_key c) = Some (x, v)"
    by (auto simp: stored_counter)
  from update_handle_present [OF assms(1) v, of delta] obtain v' where
    v': "update_handle (env_now env) delta (window c) (counter_key c) (qualified_counters s)
        = Some (AList.update (counter_key c) (x, v') (qualified_counters s))"
      "value_at v' (env_now env) = value_at v (env_now env) + delta"
    by blast
  let ?s' = "s\<lparr>qualified_counters := AList.update (counter_key c) (x, v') (qualified_counters s)\<rparr>"
  have "stored s (counter_key c) = Some v" using assms(2) v by (simp add: stored_counter)
  then have "bumped env delta {counter_key c} s ?s'"
    using v'(2) assms(2) by (simp add: bumped_def usage_def stored_qualified_update)
  with v'(1) show ?thesis by (auto simp: update_qualified_def)
qed

lemma get_or_create_spec:
  assumes "in_time (env_now env) c" "is_qualified c" "\<not> env_evicts env (counter_key c)"
  shows "\<exists>v s'. get_or_create env c s = Some (v, s') \<and> stored s' (counter_key c) = Some v \<and>
    (\<forall>k. \<not> env_evicts env k \<longrightarrow> k \<noteq> counter_key c \<longrightarrow> stored s' k = stored s k) \<and>
    (stored s (counter_key c) = None \<longrightarrow> v = value_new 0 (env_now env + window c)) \<and>
    (stored s (counter_key c) \<noteq> None \<longrightarrow> s' = s) \<and>
    simple_limits s' = simple_limits s \<and> reservations s' = reservations s"
proof (cases "map_of (qualified_counters s) (counter_key c)")
  case None
  then have "stored s (counter_key c) = None" using assms(2) by (simp add: stored_counter)
  with None assms in_time_facts(3) [OF assms(1)] show ?thesis
    by (simp add: get_or_create_def Let_def stored_cache_insert)
next
  case (Some xv)
  with assms(2) show ?thesis by (cases xv) (auto simp: get_or_create_def stored_counter)
qed

lemma get_or_create_bumped:
  assumes "in_time (env_now env) c" "is_qualified c" "\<not> env_evicts env (counter_key c)"
    and "get_or_create env c s = Some (v, s')"
  shows "bumped env 0 {} s s'" "value_at v (env_now env) = usage s (env_now env) (counter_key c)"
    "stored s' (counter_key c) = Some v"
proof -
  from get_or_create_spec [OF assms(1-3), of s] assms(4) have
    st: "stored s' (counter_key c) = Some v"
      "\<And>k. \<not> env_evicts env k \<Longrightarrow> k \<noteq> counter_key c \<Longrightarrow> stored s' k = stored s k"
      "stored s (counter_key c) = None \<Longrightarrow> v = value_new 0 (env_now env + window c)"
      "stored s (counter_key c) \<noteq> None \<Longrightarrow> s' = s" "reservations s' = reservations s"
    by auto
  show "stored s' (counter_key c) = Some v" by (rule st(1))
  show val: "value_at v (env_now env) = usage s (env_now env) (counter_key c)"
    using st value_at_fresh [OF assms(1), of 0]
    by (cases "stored s (counter_key c)") (auto simp: usage_def)
  show "bumped env 0 {} s s'"
    unfolding bumped_def
  proof (intro conjI allI impI)
    fix k assume k: "\<not> env_evicts env k"
    show "usage s' (env_now env) k = usage s (env_now env) k + (if k \<in> {} then 0 else 0)"
      using st(1) st(2) [OF k] val by (cases "k = counter_key c") (auto simp: usage_def)
    show "stored s k = None" if "stored s' k = None"
      using that st(1) st(2) [OF k] by (cases "k = counter_key c") auto
  qed (rule st(5))
qed

lemma bumped_none: "bumped env d {} s s' \<Longrightarrow> bumped env d' {} s s'"
  by (simp add: bumped_def)

lemma update_counter_bumped:
  assumes "in_time (env_now env) c" "\<not> env_evicts env (counter_key c)"
  shows "\<exists>s'. update_counter env c delta s = Some s' \<and> bumped env delta {counter_key c} s s'"
proof (cases "is_qualified c")
  case True
  from get_or_create_spec [OF assms(1) True assms(2), of s] obtain v s1 where
    g: "get_or_create env c s = Some (v, s1)" by blast
  note b = get_or_create_bumped [OF assms(1) True assms(2) g]
  from update_qualified_bumped [OF assms(1) True, of s1 delta] b(3) obtain s2 where
    s2: "update_qualified (env_now env) delta c s1 = Some s2"
      "bumped env delta {counter_key c} s1 s2"
    by auto
  have "update_counter env c delta s = update_qualified (env_now env) delta c s1"
    using True g by (simp add: update_counter_def update_qualified_def Let_def)
  with s2 bumped_trans [OF bumped_none [OF b(1)] s2(2)] show ?thesis by simp
next
  case False
  show ?thesis
  proof (cases "map_of (simple_limits s) (limit_key (limit c))")
    case None
    have "stored s (counter_key c) = None" using False None by (simp add: stored_counter)
    with False None in_time_facts(3) [OF assms(1)] value_at_fresh [OF assms(1), of delta] show ?thesis
      by (simp add: update_counter_def Let_def bumped_def usage_def stored_simple_update)
  next
    case (Some x)
    have "update_counter env c delta s = update_simple (env_now env) delta c s"
      using False Some by (simp add: update_counter_def update_simple_def Let_def)
    moreover have "stored s (counter_key c) \<noteq> None" using False Some by (simp add: stored_counter)
    ultimately show ?thesis using update_simple_bumped [OF assms(1) False] by simp
  qed
qed

section \<open>Whole calls\<close>

lemma fold_bumped:
  assumes step: "\<And>c s. c \<in> set cs \<Longrightarrow> pre c s \<Longrightarrow>
      \<exists>s'. f c s = Some s' \<and> bumped env delta {counter_key c} s s'"
    and keep: "\<And>c s s' K. c \<in> set cs \<Longrightarrow> pre c s \<Longrightarrow> bumped env delta K s s' \<Longrightarrow> pre c s'"
    and start: "\<forall>c\<in>set cs. pre c s" and dist: "distinct (map counter_key cs)"
  shows "\<exists>s'. fold_panic f cs s = Some s' \<and> bumped env delta (counter_key ` set cs) s s'"
  using assms
proof (induction cs arbitrary: s)
  case (Cons c cs)
  from Cons.prems(1) [of c s] Cons.prems(3) obtain t where
    t: "f c s = Some t" "bumped env delta {counter_key c} s t" by auto
  have pre_t: "\<forall>d\<in>set cs. pre d t" using Cons.prems(2) [OF _ _ t(2)] Cons.prems(3) by simp
  have "\<exists>s'. fold_panic f cs t = Some s' \<and> bumped env delta (counter_key ` set cs) t s'"
  proof (rule Cons.IH)
    show "\<exists>s'. f d s = Some s' \<and> bumped env delta {counter_key d} s s'"
      if "d \<in> set cs" "pre d s" for d s
      by (rule Cons.prems(1)) (use that in simp_all)
    show "pre d s'" if "d \<in> set cs" "pre d s" "bumped env delta K s s'" for d s s' K
      by (rule Cons.prems(2)) (use that in simp_all)
  qed (use Cons.prems(4) pre_t in simp_all)
  then obtain s' where
    s': "fold_panic f cs t = Some s'" "bumped env delta (counter_key ` set cs) t s'"
    by blast
  have "{counter_key c} \<inter> counter_key ` set cs = {}" using Cons.prems(4) by auto
  with bumped_trans [OF t(2) s'(2)] s'(1) t(1) show ?case by simp
qed simp

lemma fold_simple_bumped:
  assumes "\<forall>c\<in>set cs. in_time (env_now env) c \<and> \<not> env_evicts env (counter_key c) \<and>
      \<not> is_qualified c \<and> stored s (counter_key c) \<noteq> None"
    and "distinct (map counter_key cs)"
  shows "\<exists>s'. fold_panic (update_simple (env_now env) delta) cs s = Some s' \<and>
    bumped env delta (counter_key ` set cs) s s'"
proof (rule fold_bumped [where pre = "\<lambda>c s. stored s (counter_key c) \<noteq> None"])
  show "\<exists>s'. update_simple (env_now env) delta c s = Some s' \<and> bumped env delta {counter_key c} s s'"
    if "c \<in> set cs" "stored s (counter_key c) \<noteq> None" for c s
    using that assms(1) by (intro update_simple_bumped) auto
  show "stored t (counter_key c) \<noteq> None"
    if "c \<in> set cs" "stored s (counter_key c) \<noteq> None" "bumped env delta K s t" for c s t K
    using that assms(1) by (auto simp: bumped_def)
qed (use assms in auto)

lemma fold_qualified_bumped:
  assumes "\<forall>c\<in>set cs. in_time (env_now env) c \<and> \<not> env_evicts env (counter_key c) \<and>
      is_qualified c \<and> stored s (counter_key c) \<noteq> None"
    and "distinct (map counter_key cs)"
  shows "\<exists>s'. fold_panic (update_qualified (env_now env) delta) cs s = Some s' \<and>
    bumped env delta (counter_key ` set cs) s s'"
proof (rule fold_bumped [where pre = "\<lambda>c s. stored s (counter_key c) \<noteq> None"])
  show "\<exists>s'. update_qualified (env_now env) delta c s = Some s' \<and> bumped env delta {counter_key c} s s'"
    if "c \<in> set cs" "stored s (counter_key c) \<noteq> None" for c s
    using that assms(1) by (intro update_qualified_bumped) auto
  show "stored t (counter_key c) \<noteq> None"
    if "c \<in> set cs" "stored s (counter_key c) \<noteq> None" "bumped env delta K s t" for c s t K
    using that assms(1) by (auto simp: bumped_def)
qed (use assms in auto)

lemma fold_update_counter_bumped:
  assumes "\<forall>c\<in>set cs. in_time (env_now env) c \<and> \<not> env_evicts env (counter_key c)"
    and "distinct (map counter_key cs)"
  shows "\<exists>s'. fold_panic (\<lambda>c. update_counter env c delta) cs s = Some s' \<and>
    bumped env delta (counter_key ` set cs) s s'"
proof (rule fold_bumped [where pre = "\<lambda>c s. True"])
  show "\<exists>s'. update_counter env c delta s = Some s' \<and> bumped env delta {counter_key c} s s'"
    if "c \<in> set cs" for c s
    using that assms(1) by (intro update_counter_bumped) auto
qed (use assms in auto)

definition row_ok :: "mem_env \<Rightarrow> 'e in_memory \<Rightarrow> 'e in_memory \<Rightarrow> 'e counter \<Rightarrow>
    'e counter \<times> u64 \<times> duration \<times> bool \<Rightarrow> bool" where
  "row_ok env s s' c row \<longleftrightarrow>
     (\<exists>ttl found. row = (c, usage s (env_now env) (counter_key c), ttl, found) \<and>
        (found \<or> \<not> is_qualified c) \<and> (found \<longrightarrow> stored s' (counter_key c) \<noteq> None))"

lemma visit_spec:
  assumes "in_time (env_now env) c" "\<not> env_evicts env (counter_key c)"
  shows "\<exists>row s'. visit env c s = Some (row, s') \<and> row_ok env s s' c row \<and> bumped env 0 {} s s'"
proof (cases "is_qualified c")
  case True
  from get_or_create_spec [OF assms(1) True assms(2), of s] obtain v s1 where
    g: "get_or_create env c s = Some (v, s1)" by blast
  note b = get_or_create_bumped [OF assms(1) True assms(2) g]
  have "visit env c s = Some ((c, value_at v (env_now env), value_ttl (env_now env) v, True), s1)"
    using True g by (simp add: visit_def value_now_def Let_def)
  with b True show ?thesis by (auto simp: row_ok_def)
next
  case False
  show ?thesis
  proof (cases "map_of (simple_limits s) (limit_key (limit c))")
    case None
    with False show ?thesis
      by (auto simp: visit_def row_ok_def usage_def stored_counter)
  next
    case (Some x)
    with False show ?thesis
      by (cases x) (auto simp: visit_def row_ok_def usage_def stored_counter value_now_def Let_def)
  qed
qed

lemma row_ok_mono:
  assumes "row_ok env s t c row" "bumped env 0 {} t u" "\<not> env_evicts env (counter_key c)"
  shows "row_ok env s u c row"
proof -
  have "stored u (counter_key c) = None \<longrightarrow> stored t (counter_key c) = None"
    using assms(2,3) by (simp add: bumped_def)
  with assms(1) show ?thesis by (auto simp: row_ok_def)
qed

lemma row_ok_start:
  assumes "row_ok env t u c row" "bumped env 0 {} s t" "\<not> env_evicts env (counter_key c)"
  shows "row_ok env s u c row"
  using assms bumped_usage [OF assms(2,3)] unfolding row_ok_def by simp

lemma map_panic_visit:
  assumes "\<forall>c\<in>set cs. in_time (env_now env) c \<and> \<not> env_evicts env (counter_key c)"
  shows "\<exists>rows s'. map_panic (visit env) cs s = Some (rows, s') \<and>
    list_all2 (row_ok env s s') cs rows \<and> bumped env 0 {} s s'"
  using assms
proof (induction cs arbitrary: s)
  case (Cons c cs)
  then obtain row t where
    t: "visit env c s = Some (row, t)" "row_ok env s t c row" "bumped env 0 {} s t"
    using visit_spec [of env c s] by auto
  from Cons.prems obtain rows u where
    u: "map_panic (visit env) cs t = Some (rows, u)" "list_all2 (row_ok env t u) cs rows"
      "bumped env 0 {} t u"
    using Cons.IH [of t] by auto
  have "list_all2 (row_ok env s u) cs rows"
    using u(2) by (rule list.rel_mono_strong) (rule row_ok_start [OF _ t(3)], simp_all add: Cons.prems)
  moreover have "row_ok env s u c row" using row_ok_mono [OF t(2) u(3)] Cons.prems by simp
  moreover have "bumped env 0 {} s u" using bumped_trans [OF t(3) u(3)] by simp
  ultimately show ?case using t(1) u(1) by simp
qed simp

lemma rows_annotated:
  assumes "list_all2 (row_ok env s s') cs rows"
  shows "list_all2 (annotated s (env_now env)) cs (map (\<lambda>(c, v, ttl, _). annotate v ttl c) rows)"
    and "map fst rows = cs"
    and "(\<forall>row\<in>set rows. \<not> (case row of (c, v, ttl, _) \<Rightarrow> over_limit delta v c)) \<longleftrightarrow>
      (\<forall>c\<in>set cs. fits s (env_now env) delta c)"
  using assms
  by (induction rule: list_all2_induct)
    (auto simp: row_ok_def annotated_annotate over_limit_fits)

lemma find_over_rows:
  assumes "list_all2 (row_ok env s s') cs rows"
  shows "map_option fst (List.find (\<lambda>(c, v, ttl, _). over_limit delta v c) rows)
    = List.find (\<lambda>c. \<not> fits s (env_now env) delta c) cs"
  using assms
  by (induction rule: list_all2_induct) (auto simp: row_ok_def over_limit_fits)

text \<open>Denied: the first counter in order without room is named, every counter is annotated with its
  current state, and no usage changes.\<close>

lemma check_and_update_denied:
  assumes ok: "call_ok env cs" and full: "\<exists>c\<in>set cs. \<not> fits s (env_now env) delta c"
  shows "\<exists>c cs' s'. List.find (\<lambda>c. \<not> fits s (env_now env) delta c) cs = Some c \<and>
    check_and_update env cs delta s = Some ((Inr (Limited (limit_name (limit c))), cs'), s') \<and>
    list_all2 (annotated s (env_now env)) cs cs' \<and> bumped env delta {} s s'"
proof -
  from ok obtain rows s' where
    rows: "map_panic (visit env) cs s = Some (rows, s')" "list_all2 (row_ok env s s') cs rows"
      "bumped env 0 {} s s'"
    using map_panic_visit [of cs env s] by (auto simp: call_ok_def)
  obtain c where c: "List.find (\<lambda>c. \<not> fits s (env_now env) delta c) cs = Some c"
    using full by (metis find_None_iff option.exhaust)
  with find_over_rows [OF rows(2), of delta] obtain row where
    "List.find (\<lambda>(c, v, ttl, _). over_limit delta v c) rows = Some row" "fst row = c"
    by auto
  then have "first_limited (\<lambda>(c, v, ttl, _). over_limit delta v c) fst rows
      = Some (Limited (limit_name (limit c)))"
    by (simp add: first_limited_find)
  then have "check_and_update env cs delta s = Some ((Inr (Limited (limit_name (limit c))),
      map (\<lambda>(c, v, ttl, _). annotate v ttl c) rows), s')"
    by (simp add: check_and_update_def rows(1))
  with c rows_annotated(1) [OF rows(2)] bumped_none [OF rows(3)] show ?thesis by blast
qed

lemma in_time_annotate [simp]:
  "in_time now (annotate v ttl c) = in_time now c" "counter_key (annotate v ttl c) = counter_key c"
  by (simp_all add: annotate_def in_time_def Let_def)

lemma rows_facts:
  assumes "list_all2 (row_ok env s s') cs rows" "call_ok env cs" "r \<in> set rows"
  shows "row_ok env s s' (fst r) r" "in_time (env_now env) (fst r)"
    "\<not> env_evicts env (counter_key (fst r))"
proof -
  from assms(3) have "fst r \<in> set cs"
    unfolding rows_annotated(2) [OF assms(1), symmetric] by simp
  with assms(2) show "in_time (env_now env) (fst r)" "\<not> env_evicts env (counter_key (fst r))"
    by (auto simp: call_ok_def)
  from assms(1,3) obtain c where "row_ok env s s' c r"
    by (metis in_set_conv_nth list_all2_conv_all_nth)
  then show "row_ok env s s' (fst r) r" by (auto simp: row_ok_def)
qed

lemma rows_distinct:
  assumes "list_all2 (row_ok env s s') cs rows" "call_ok env cs"
  shows "distinct (map (\<lambda>r. counter_key (fst r)) rows)"
proof -
  have "map (\<lambda>r. counter_key (fst r)) rows = map counter_key cs"
    unfolding rows_annotated(2) [OF assms(1), symmetric] by simp
  then show ?thesis using assms(2) by (simp add: call_ok_def)
qed

text \<open>The second pass of \<open>check_and_update\<close> over the three groups of counters.\<close>

lemma second_pass_bumped:
  fixes rows :: "('e counter \<times> u64 \<times> duration \<times> bool) list"
  assumes rows: "list_all2 (row_ok env s0 s) cs rows" and ok: "call_ok env cs"
  shows "\<exists>s1 s2 s3.
    fold_panic (update_simple (env_now env) delta)
      (map fst (filter (\<lambda>(c, _, _, found). found \<and> \<not> is_qualified c) rows)) s = Some s1 \<and>
    fold_panic (update_qualified (env_now env) delta)
      (map fst (filter (\<lambda>(c, _, _, found). found \<and> is_qualified c) rows)) s1 = Some s2 \<and>
    fold_panic (\<lambda>c. update_counter env c delta)
      (map (\<lambda>(c, v, ttl, _). annotate v ttl c) (filter (\<lambda>(_, _, _, found). \<not> found) rows)) s2 = Some s3 \<and>
    bumped env delta (counter_key ` set cs) s s3"
proof -
  define kf :: "'e counter \<times> u64 \<times> duration \<times> bool \<Rightarrow> counter_key" where "kf = (\<lambda>r. counter_key (fst r))"
  let ?F = "filter (\<lambda>(c, _, _, found). found \<and> \<not> is_qualified c) rows"
  let ?Q = "filter (\<lambda>(c, _, _, found). found \<and> is_qualified c) rows"
  let ?M = "filter (\<lambda>(_, _, _, found). \<not> found) rows"
  let ?Ms = "map (\<lambda>(c, v, ttl, _). annotate v ttl c) ?M"
  have dist: "distinct (map kf rows)" using rows_distinct [OF rows ok] by (simp add: kf_def)
  note facts = rows_facts [OF rows ok]
  have keys: "map counter_key (map fst xs) = map kf xs"
    "map counter_key (map (\<lambda>(c, v, ttl, _). annotate v ttl c) xs) = map kf xs"
    for xs :: "('e counter \<times> u64 \<times> duration \<times> bool) list"
    by (simp_all add: kf_def case_prod_unfold)
  have sets: "counter_key ` set (map fst xs) = kf ` set xs"
    "counter_key ` set (map (\<lambda>(c, v, ttl, _). annotate v ttl c) xs) = kf ` set xs"
    for xs :: "('e counter \<times> u64 \<times> duration \<times> bool) list"
    using arg_cong [OF keys(1), of set xs] arg_cong [OF keys(2), of set xs]
    by (simp_all add: image_image)
  have found: "in_time (env_now env) c \<and> \<not> env_evicts env (counter_key c) \<and>
      stored s (counter_key c) \<noteq> None" if "(c, v, ttl, True) \<in> set rows" for c v ttl
    using facts [OF that] by (auto simp: row_ok_def)
  have "\<forall>c\<in>set (map fst ?F). in_time (env_now env) c \<and> \<not> env_evicts env (counter_key c) \<and>
      \<not> is_qualified c \<and> stored s (counter_key c) \<noteq> None"
    by (auto dest: found)
  then obtain s1 where s1: "fold_panic (update_simple (env_now env) delta) (map fst ?F) s = Some s1"
    "bumped env delta (kf ` set ?F) s s1"
    using fold_simple_bumped [of "map fst ?F" env s delta] distinct_map_filter [OF dist]
    by (auto simp only: keys sets)
  have "stored s1 (counter_key c) \<noteq> None"
    if "(c, v, ttl, True) \<in> set rows" for c v ttl
    using found [OF that] s1(2) by (auto simp: bumped_def)
  then have "\<forall>c\<in>set (map fst ?Q). in_time (env_now env) c \<and> \<not> env_evicts env (counter_key c) \<and>
      is_qualified c \<and> stored s1 (counter_key c) \<noteq> None"
    by (auto dest: found)
  then obtain s2 where s2: "fold_panic (update_qualified (env_now env) delta) (map fst ?Q) s1 = Some s2"
    "bumped env delta (kf ` set ?Q) s1 s2"
    using fold_qualified_bumped [of "map fst ?Q" env s1 delta] distinct_map_filter [OF dist]
    by (auto simp only: keys sets)
  have "\<forall>c\<in>set ?Ms. in_time (env_now env) c \<and> \<not> env_evicts env (counter_key c)"
    by (auto dest: facts(2,3))
  then obtain s3 where s3: "fold_panic (\<lambda>c. update_counter env c delta) ?Ms s2 = Some s3"
    "bumped env delta (kf ` set ?M) s2 s3"
    using fold_update_counter_bumped [of ?Ms env delta s2] distinct_map_filter [OF dist]
    by (auto simp only: keys sets)
  have b12: "bumped env delta (kf ` set ?F \<union> kf ` set ?Q) s s2"
    using s1(2) s2(2) by (rule bumped_trans) (rule filter_image_disjoint [OF dist], auto)
  have fm: "kf ` set ?F \<inter> kf ` set ?M = {}"
    by (rule filter_image_disjoint [OF dist]) auto
  have qm: "kf ` set ?Q \<inter> kf ` set ?M = {}"
    by (rule filter_image_disjoint [OF dist]) auto
  have "(kf ` set ?F \<union> kf ` set ?Q) \<inter> kf ` set ?M = {}"
    by (simp only: Int_Un_distrib2 fm qm Un_empty)
  then have "bumped env delta (kf ` set ?F \<union> kf ` set ?Q \<union> kf ` set ?M) s s3"
    by (rule bumped_trans [OF b12 s3(2)])
  moreover have "kf ` set ?F \<union> kf ` set ?Q \<union> kf ` set ?M = counter_key ` set cs"
    unfolding rows_annotated(2) [OF rows, symmetric] sets by (auto simp: kf_def)
  ultimately show ?thesis using s1(1) s2(1) s3(1) by auto
qed

text \<open>Admitted: every counter of the call grows by \<open>delta\<close>, no other usage changes.\<close>

lemma check_and_update_admitted:
  assumes ok: "call_ok env cs" and room: "\<forall>c\<in>set cs. fits s (env_now env) delta c"
  shows "\<exists>cs' s'. check_and_update env cs delta s = Some ((Inr AuthOk, cs'), s') \<and>
    list_all2 (annotated s (env_now env)) cs cs' \<and>
    bumped env delta (counter_key ` set cs) s s'"
proof -
  from ok obtain rows s0 where
    rows: "map_panic (visit env) cs s = Some (rows, s0)" "list_all2 (row_ok env s s0) cs rows"
      "bumped env 0 {} s s0"
    using map_panic_visit [of cs env s] by (auto simp: call_ok_def)
  have none: "first_limited (\<lambda>(c, v, ttl, _). over_limit delta v c) fst rows = None"
    unfolding first_limited_None rows_annotated(3) [OF rows(2)] by (rule room)
  from second_pass_bumped [OF rows(2) ok, of delta] obtain s3 where
    "check_and_update env cs delta s =
      Some ((Inr AuthOk, map (\<lambda>(c, v, ttl, _). annotate v ttl c) rows), s3)"
    "bumped env delta (counter_key ` set cs) s0 s3"
    using none by (auto simp: check_and_update_def rows(1))
  with bumped_trans [OF bumped_none [OF rows(3)]] rows_annotated(1) [OF rows(2)] show ?thesis
    by fastforce
qed

end
