(* ===== verification/Storage.thy ===== *)
theory Storage
  imports Counters
begin

text \<open>
  \<^verbatim>\<open>Storage\<close> of \<^verbatim>\<open>limitador/src/storage/mod.rs\<close>: the registered limits, by
  namespace, in front of a counter storage.

  The trait objects \<^verbatim>\<open>Box<dyn CounterStorage>\<close> and \<^verbatim>\<open>Box<dyn AsyncCounterStorage>\<close> are records of
  operations, the method table, over an abstract state; \<open>None\<close> is a panic of the backend.  An
  operation takes the surroundings \<open>'env\<close> of its call, whatever the backend reads there (its
  clock, its caches).
\<close>

section \<open>The method table of a counter storage\<close>

type_synonym ('s, 'a) outcome = "((storage_err + 'a) \<times> 's) option"

record ('env, 's, 'e) counter_storage =
  cs_is_within_limits :: "'env \<Rightarrow> 'e counter \<Rightarrow> u64 \<Rightarrow> 's \<Rightarrow> ('s, bool) outcome"
  cs_add_counter :: "'env \<Rightarrow> 'e limit \<Rightarrow> 's \<Rightarrow> ('s, unit) outcome"
  cs_update_counter :: "'env \<Rightarrow> 'e counter \<Rightarrow> u64 \<Rightarrow> 's \<Rightarrow> ('s, unit) outcome"
  cs_check :: "'env \<Rightarrow> 'e counter list \<Rightarrow> u64 \<Rightarrow> 's \<Rightarrow>
    (((storage_err + authorization) \<times> 'e counter list) \<times> 's) option"
  cs_check_and_update :: "'env \<Rightarrow> 'e counter list \<Rightarrow> u64 \<Rightarrow> 's \<Rightarrow>
    (((storage_err + authorization) \<times> 'e counter list) \<times> 's) option"
  cs_get_counters :: "'env \<Rightarrow> 'e limit list \<Rightarrow> 's \<Rightarrow> ('s, 'e counter list) outcome"
  cs_delete_counters :: "'env \<Rightarrow> 'e limit list \<Rightarrow> 's \<Rightarrow> ('s, unit) outcome"
  cs_clear :: "'env \<Rightarrow> 's \<Rightarrow> ('s, unit) outcome"
  cs_reserve :: "'env \<Rightarrow> 'e counter list \<Rightarrow> reservation_id \<Rightarrow> u64 \<Rightarrow> u64 \<Rightarrow> duration \<Rightarrow> 's \<Rightarrow>
    (((storage_err + authorization) \<times> 'e counter list) \<times> 's) option"
  cs_release_reservation :: "'env \<Rightarrow> 'e counter list \<Rightarrow> reservation_id \<Rightarrow> 's \<Rightarrow> ('s, bool) outcome"

text \<open>The trait's default bodies for backends without reservations.\<close>

definition reservations_unsupported :: storage_err where
  "reservations_unsupported =
     storage_err_unsupported ''reservations are not supported by this storage backend''"

definition default_reserve ::
  "'env \<Rightarrow> 'e counter list \<Rightarrow> reservation_id \<Rightarrow> u64 \<Rightarrow> u64 \<Rightarrow> duration \<Rightarrow> 's \<Rightarrow>
   (((storage_err + authorization) \<times> 'e counter list) \<times> 's) option" where
  "default_reserve env cs rid check_amt hold_amt ttl s =
     Some ((Inl reservations_unsupported, cs), s)"

definition default_release_reservation ::
  "'env \<Rightarrow> 'e counter list \<Rightarrow> reservation_id \<Rightarrow> 's \<Rightarrow> ('s, bool) outcome" where
  "default_release_reservation env cs rid s = Some (Inl reservations_unsupported, s)"

section \<open>Storage\<close>

record ('s, 'e) storage =
  limits :: "(string \<times> 'e limit list) list"
  counters :: 's

definition with_counter_storage :: "'s \<Rightarrow> ('s, 'e) storage" where
  "with_counter_storage c = \<lparr>limits = [], counters = c\<rparr>"

definition get_namespaces :: "('s, 'e) storage \<Rightarrow> string list" where
  "get_namespaces s = map fst (limits s)"

definition add_limit ::
  "('env, 's, 'e) counter_storage \<Rightarrow> 'env \<Rightarrow> 'e limit \<Rightarrow> ('s, 'e) storage \<Rightarrow>
   (bool \<times> ('s, 'e) storage) option" where
  "add_limit cs env l s = do {
     (r, c) \<leftarrow> cs_add_counter cs env l (counters s);
     (case r of
        Inl _ \<Rightarrow> None
      | Inr _ \<Rightarrow>
          let (b, ls) = hset_insert limit_key l
                (case map_of (limits s) (namespace l) of Some ls \<Rightarrow> ls | None \<Rightarrow> [])
          in Some (b, \<lparr>limits = AList.update (namespace l) ls (limits s), counters = c\<rparr>))
   }"

definition update_limit :: "'e limit \<Rightarrow> ('s, 'e) storage \<Rightarrow> bool \<times> ('s, 'e) storage" where
  "update_limit u s =
     (case map_of (limits s) (namespace u) of
        None \<Rightarrow> (False, s)
      | Some ls \<Rightarrow>
          let req_update =
            (case hset_get limit_key (limit_key u) ls of
               Some l \<Rightarrow> max_value l \<noteq> max_value u \<or> limit_name l \<noteq> limit_name u
             | None \<Rightarrow> False)
          in if req_update then
               (True, s\<lparr>limits := AList.update (namespace u)
                  (snd (hset_insert limit_key u (hset_remove limit_key (limit_key u) ls)))
                  (limits s)\<rparr>)
             else (False, s))"

definition get_limits :: "string \<Rightarrow> ('s, 'e) storage \<Rightarrow> 'e limit list" where
  "get_limits ns s = (case map_of (limits s) ns of Some ls \<Rightarrow> ls | None \<Rightarrow> [])"

definition remove_limit :: "'e limit \<Rightarrow> ('s, 'e) storage \<Rightarrow> ('s, 'e) storage" where
  "remove_limit l s =
     (case map_of (limits s) (namespace l) of
        None \<Rightarrow> s
      | Some ls \<Rightarrow>
          let ls' = hset_remove limit_key (limit_key l) ls
          in if ls' = [] then s\<lparr>limits := AList.delete (namespace l) (limits s)\<rparr>
             else s\<lparr>limits := AList.update (namespace l) ls' (limits s)\<rparr>)"

definition delete_limit ::
  "('env, 's, 'e) counter_storage \<Rightarrow> 'env \<Rightarrow> 'e limit \<Rightarrow> ('s, 'e) storage \<Rightarrow>
   (('s, 'e) storage, unit) outcome" where
  "delete_limit cs env l s = do {
     let arc = (case map_of (limits s) (namespace l) of
         None \<Rightarrow> l
       | Some ls \<Rightarrow> (case List.find (\<lambda>x. limit_eq x l) ls of Some x \<Rightarrow> x | None \<Rightarrow> l));
     (r, c) \<leftarrow> cs_delete_counters cs env [arc] (counters s);
     (case r of
        Inl e \<Rightarrow> Some (Inl e, s\<lparr>counters := c\<rparr>)
      | Inr _ \<Rightarrow> Some (Inr (), remove_limit l (s\<lparr>counters := c\<rparr>)))
   }"

definition delete_limits ::
  "('env, 's, 'e) counter_storage \<Rightarrow> 'env \<Rightarrow> string \<Rightarrow> ('s, 'e) storage \<Rightarrow>
   (('s, 'e) storage, unit) outcome" where
  "delete_limits cs env ns s =
     (case map_of (limits s) ns of
        None \<Rightarrow> Some (Inr (), s)
      | Some data \<Rightarrow> do {
          (r, c) \<leftarrow> cs_delete_counters cs env data (counters s);
          Some (r, \<lparr>limits = AList.delete ns (limits s), counters = c\<rparr>)
        })"

definition storage_is_within_limits ::
  "('env, 's, 'e) counter_storage \<Rightarrow> 'env \<Rightarrow> 'e counter \<Rightarrow> u64 \<Rightarrow> ('s, 'e) storage \<Rightarrow>
   (('s, 'e) storage, bool) outcome" where
  "storage_is_within_limits cs env c delta s = do {
     (r, st) \<leftarrow> cs_is_within_limits cs env c delta (counters s);
     Some (r, s\<lparr>counters := st\<rparr>)
   }"

definition storage_update_counter ::
  "('env, 's, 'e) counter_storage \<Rightarrow> 'env \<Rightarrow> 'e counter \<Rightarrow> u64 \<Rightarrow> ('s, 'e) storage \<Rightarrow>
   (('s, 'e) storage, unit) outcome" where
  "storage_update_counter cs env c delta s = do {
     (r, st) \<leftarrow> cs_update_counter cs env c delta (counters s);
     Some (r, s\<lparr>counters := st\<rparr>)
   }"

definition storage_check ::
  "('env, 's, 'e) counter_storage \<Rightarrow> 'env \<Rightarrow> 'e counter list \<Rightarrow> u64 \<Rightarrow> ('s, 'e) storage \<Rightarrow>
   (((storage_err + authorization) \<times> 'e counter list) \<times> ('s, 'e) storage) option" where
  "storage_check cs env ctrs delta s = do {
     (r, st) \<leftarrow> cs_check cs env ctrs delta (counters s);
     Some (r, s\<lparr>counters := st\<rparr>)
   }"

definition storage_check_and_update ::
  "('env, 's, 'e) counter_storage \<Rightarrow> 'env \<Rightarrow> 'e counter list \<Rightarrow> u64 \<Rightarrow> ('s, 'e) storage \<Rightarrow>
   (((storage_err + authorization) \<times> 'e counter list) \<times> ('s, 'e) storage) option" where
  "storage_check_and_update cs env ctrs delta s = do {
     (r, st) \<leftarrow> cs_check_and_update cs env ctrs delta (counters s);
     Some (r, s\<lparr>counters := st\<rparr>)
   }"

definition storage_get_counters ::
  "('env, 's, 'e) counter_storage \<Rightarrow> 'env \<Rightarrow> string \<Rightarrow> ('s, 'e) storage \<Rightarrow>
   (('s, 'e) storage, 'e counter list) outcome" where
  "storage_get_counters cs env ns s =
     (case map_of (limits s) ns of
        Some ls \<Rightarrow> do {
          (r, st) \<leftarrow> cs_get_counters cs env ls (counters s);
          Some (r, s\<lparr>counters := st\<rparr>)
        }
      | None \<Rightarrow> Some (Inr [], s))"

definition storage_reserve ::
  "('env, 's, 'e) counter_storage \<Rightarrow> 'env \<Rightarrow> 'e counter list \<Rightarrow> reservation_id \<Rightarrow> u64 \<Rightarrow> u64 \<Rightarrow>
   duration \<Rightarrow> ('s, 'e) storage \<Rightarrow>
   (((storage_err + authorization) \<times> 'e counter list) \<times> ('s, 'e) storage) option" where
  "storage_reserve cs env ctrs rid check_amt hold_amt ttl s = do {
     (r, st) \<leftarrow> cs_reserve cs env ctrs rid check_amt hold_amt ttl (counters s);
     Some (r, s\<lparr>counters := st\<rparr>)
   }"

definition storage_release_reservation ::
  "('env, 's, 'e) counter_storage \<Rightarrow> 'env \<Rightarrow> 'e counter list \<Rightarrow> reservation_id \<Rightarrow>
   ('s, 'e) storage \<Rightarrow> (('s, 'e) storage, bool) outcome" where
  "storage_release_reservation cs env ctrs rid s = do {
     (r, st) \<leftarrow> cs_release_reservation cs env ctrs rid (counters s);
     Some (r, s\<lparr>counters := st\<rparr>)
   }"

definition storage_clear ::
  "('env, 's, 'e) counter_storage \<Rightarrow> 'env \<Rightarrow> ('s, 'e) storage \<Rightarrow> (('s, 'e) storage, unit) outcome" where
  "storage_clear cs env s = do {
     (r, st) \<leftarrow> cs_clear cs env (counters s);
     Some (r, \<lparr>limits = [], counters = st\<rparr>)
   }"

section \<open>The invariant of the limits\<close>

text \<open>Every namespace is listed once, has at least one limit, and its limits carry its name and are
  pairwise different.\<close>

definition limits_wf :: "('s, 'e) storage \<Rightarrow> bool" where
  "limits_wf s \<longleftrightarrow>
     distinct (map fst (limits s)) \<and>
     (\<forall>ns ls. map_of (limits s) ns = Some ls \<longrightarrow>
        ls \<noteq> [] \<and> distinct (map limit_key ls) \<and> (\<forall>l\<in>set ls. namespace l = ns))"

lemma limits_wf_empty: "limits_wf (with_counter_storage c)"
  by (simp add: limits_wf_def with_counter_storage_def)

lemma limits_wf_get:
  assumes "limits_wf s"
  shows "distinct (map limit_key (get_limits ns s))" "l \<in> set (get_limits ns s) \<Longrightarrow> namespace l = ns"
  using assms by (auto simp: limits_wf_def get_limits_def split: option.splits)

lemma get_namespaces_iff:
  assumes "limits_wf s"
  shows "ns \<in> set (get_namespaces s) \<longleftrightarrow> get_limits ns s \<noteq> []"
proof -
  have "ns \<in> set (get_namespaces s) \<longleftrightarrow> map_of (limits s) ns \<noteq> None"
    by (simp add: get_namespaces_def map_of_eq_None_iff)
  with assms show ?thesis by (auto simp: limits_wf_def get_limits_def split: option.splits)
qed

lemma limits_wf_update:
  assumes "limits_wf s" "ls \<noteq> []" "distinct (map limit_key ls)" "\<forall>l\<in>set ls. namespace l = ns"
    and "limits s' = AList.update ns ls (limits s)"
  shows "limits_wf s'"
  using assms by (auto simp: limits_wf_def assoc_simps distinct_update)

lemma limits_wf_delete:
  assumes "limits_wf s" "limits s' = AList.delete ns (limits s)"
  shows "limits_wf s'"
  using assms by (auto simp: limits_wf_def assoc_simps distinct_delete)

lemma get_limits_update:
  "limits s' = AList.update ns ls (limits s) \<Longrightarrow>
   get_limits ns' s' = (if ns' = ns then ls else get_limits ns' s)"
  by (simp add: get_limits_def assoc_simps)

lemma get_limits_delete:
  "limits s' = AList.delete ns (limits s) \<Longrightarrow>
   get_limits ns' s' = (if ns' = ns then [] else get_limits ns' s)"
  by (simp add: get_limits_def assoc_simps)

lemma get_limits_counters [simp]: "get_limits ns (s\<lparr>counters := c\<rparr>) = get_limits ns s"
  by (simp add: get_limits_def)

lemma limits_wf_counters [simp]: "limits_wf (s\<lparr>counters := c\<rparr>) = limits_wf s"
  by (simp add: limits_wf_def)

section \<open>What the operations do to the limits\<close>

lemma add_limit_result:
  assumes "cs_add_counter cs env l (counters s) = Some (Inr u, c)"
  shows "\<exists>s'. add_limit cs env l s =
      Some (limit_key l \<notin> limit_key ` set (get_limits (namespace l) s), s') \<and>
    counters s' = c \<and>
    limits s' = AList.update (namespace l)
      (snd (hset_insert limit_key l (get_limits (namespace l) s))) (limits s)"
  using assms
  by (auto simp: add_limit_def get_limits_def hset_insert_def Let_def split: option.split)

lemma add_limit_wf:
  assumes "limits_wf s"
    and "limits s' = AList.update (namespace l)
      (snd (hset_insert limit_key l (get_limits (namespace l) s))) (limits s)"
  shows "limits_wf s'"
proof (rule limits_wf_update [OF assms(1) _ _ _ assms(2)])
  let ?ls = "get_limits (namespace l) s"
  show "snd (hset_insert limit_key l ?ls) \<noteq> []" by (auto simp: hset_insert_def)
  show "distinct (map limit_key (snd (hset_insert limit_key l ?ls)))"
    using limits_wf_get(1) [OF assms(1)] by (rule hset_insert_keys(2))
  show "\<forall>x\<in>set (snd (hset_insert limit_key l ?ls)). namespace x = namespace l"
    using hset_insert_subset [of limit_key l ?ls] limits_wf_get(2) [OF assms(1)] by blast
qed

lemma remove_limit_result:
  assumes "limits_wf s"
  shows "limits_wf (remove_limit l s)"
    "get_limits ns (remove_limit l s) =
       (if ns = namespace l then hset_remove limit_key (limit_key l) (get_limits ns s)
        else get_limits ns s)"
    "counters (remove_limit l s) = counters s"
proof -
  have "limits_wf (remove_limit l s) \<and> get_limits ns (remove_limit l s) =
      (if ns = namespace l then hset_remove limit_key (limit_key l) (get_limits ns s)
       else get_limits ns s) \<and> counters (remove_limit l s) = counters s"
  proof (cases "map_of (limits s) (namespace l)")
    case None
    then show ?thesis using assms by (simp add: remove_limit_def get_limits_def hset_remove_def)
  next
    case (Some ls)
    let ?ls = "hset_remove limit_key (limit_key l) ls"
    from assms Some have "distinct (map limit_key ls)" "\<forall>x\<in>set ls. namespace x = namespace l"
      by (auto simp: limits_wf_def)
    then have "distinct (map limit_key ?ls)" "\<forall>x\<in>set ?ls. namespace x = namespace l"
      by (simp_all add: hset_remove_simps)
    with Some assms show ?thesis
      by (auto simp: remove_limit_def Let_def get_limits_def assoc_simps
          intro: limits_wf_delete limits_wf_update)
  qed
  then show "limits_wf (remove_limit l s)"
    "get_limits ns (remove_limit l s) =
       (if ns = namespace l then hset_remove limit_key (limit_key l) (get_limits ns s)
        else get_limits ns s)"
    "counters (remove_limit l s) = counters s"
    by blast+
qed

lemma delete_limit_result:
  assumes "limits_wf s"
    and "cs_delete_counters cs env
      [case hset_get limit_key (limit_key l) (get_limits (namespace l) s) of Some x \<Rightarrow> x | None \<Rightarrow> l]
      (counters s) = Some (Inr u, c)"
  shows "delete_limit cs env l s = Some (Inr (), remove_limit l (s\<lparr>counters := c\<rparr>))"
proof -
  have "(case map_of (limits s) (namespace l) of
         None \<Rightarrow> l
       | Some ls \<Rightarrow> (case List.find (\<lambda>x. limit_eq x l) ls of Some x \<Rightarrow> x | None \<Rightarrow> l))
     = (case hset_get limit_key (limit_key l) (get_limits (namespace l) s) of Some x \<Rightarrow> x | None \<Rightarrow> l)"
    by (simp add: get_limits_def hset_get_def limit_eq_key split: option.split)
  with assms(2) show ?thesis by (simp add: delete_limit_def)
qed

text \<open>Updating a limit: identities never change; a registered limit takes over the new maximum and
  name.\<close>

lemma same_key_namespace:
  assumes "limits_wf s" "l \<in> set (get_limits ns s)" "limit_key l = limit_key u"
  shows "ns = namespace u"
  using limits_wf_get(2) [OF assms(1,2)] limit_key_fields(1) [OF assms(3)] by simp

lemma update_limit_cases:
  assumes wf: "limits_wf s"
  obtains (same) "update_limit u s = (False, s)"
      "\<And>l. l \<in> set (get_limits (namespace u) s) \<Longrightarrow> limit_key l = limit_key u \<Longrightarrow>
        max_value l = max_value u \<and> limit_name l = limit_name u"
    | (changed) "update_limit u s = (True, s\<lparr>limits := AList.update (namespace u)
          (hset_remove limit_key (limit_key u) (get_limits (namespace u) s) @ [u]) (limits s)\<rparr>)"
      "limit_key u \<in> limit_key ` set (get_limits (namespace u) s)"
proof (cases "hset_get limit_key (limit_key u) (get_limits (namespace u) s)")
  case None
  then have "update_limit u s = (False, s)"
    by (auto simp: update_limit_def get_limits_def split: option.splits)
  moreover have "limit_key l \<noteq> limit_key u" if "l \<in> set (get_limits (namespace u) s)" for l
    using None that by (metis hset_get_None imageI)
  ultimately show thesis by (intro same) auto
next
  case (Some x)
  then obtain ls where ls: "map_of (limits s) (namespace u) = Some ls"
    by (auto simp: get_limits_def hset_get_def split: option.splits)
  have get: "get_limits (namespace u) s = ls" using ls by (simp add: get_limits_def)
  from Some get have x: "hset_get limit_key (limit_key u) ls = Some x" "x \<in> set ls"
    "limit_key x = limit_key u"
    using hset_get_SomeD [of limit_key "limit_key u" ls x] by auto
  show thesis
  proof (cases "max_value x \<noteq> max_value u \<or> limit_name x \<noteq> limit_name u")
    case True
    have "snd (hset_insert limit_key u (hset_remove limit_key (limit_key u) ls))
        = hset_remove limit_key (limit_key u) ls @ [u]"
      by (auto simp: hset_insert_def hset_remove_def)
    with True ls x show thesis
      by (intro changed) (auto simp: update_limit_def get intro: rev_image_eqI)
  next
    case False
    then have "update_limit u s = (False, s)" using ls x(1) by (simp add: update_limit_def)
    moreover have "l = x" if "l \<in> set ls" "limit_key l = limit_key u" for l
      using limits_wf_get(1) [OF wf, of "namespace u"] that x(1)
      by (metis get hset_get_member option.inject)
    ultimately show thesis using False by (intro same) (auto simp: get)
  qed
qed

lemma update_limit_wf:
  assumes "limits_wf s"
  shows "limits_wf (snd (update_limit u s))" "counters (snd (update_limit u s)) = counters s"
proof -
  let ?ls = "hset_remove limit_key (limit_key u) (get_limits (namespace u) s) @ [u]"
  have dist: "distinct (map limit_key ?ls)"
    using limits_wf_get(1) [OF assms, of "namespace u"]
    by (auto simp: hset_remove_simps(1) dest: hset_remove_simps(2) [of _ _ "limit_key u"])
  have ns: "\<forall>l\<in>set ?ls. namespace l = namespace u"
    using limits_wf_get(2) [OF assms] by (simp add: hset_remove_simps(1))
  have "limits_wf (snd (update_limit u s)) \<and> counters (snd (update_limit u s)) = counters s"
    using assms
  proof (cases rule: update_limit_cases [where u = u])
    case same
    with assms show ?thesis by simp
  next
    case changed
    have "limits_wf (snd (update_limit u s))"
      by (rule limits_wf_update [OF assms _ dist ns]) (simp_all add: changed(1))
    then show ?thesis by (simp add: changed(1))
  qed
  then show "limits_wf (snd (update_limit u s))" "counters (snd (update_limit u s)) = counters s"
    by simp_all
qed

lemma update_limit_keys:
  assumes "limits_wf s"
  shows "limit_key ` set (get_limits ns (snd (update_limit u s))) = limit_key ` set (get_limits ns s)"
  using assms
proof (cases rule: update_limit_cases [where u = u])
  case changed
  then show ?thesis by (auto simp: get_limits_def assoc_simps hset_remove_simps)
qed simp

lemma update_limit_members:
  assumes wf: "limits_wf s" and l: "l \<in> set (get_limits ns (snd (update_limit u s)))"
  shows "if limit_key l = limit_key u then max_value l = max_value u \<and> limit_name l = limit_name u
    else l \<in> set (get_limits ns s)"
  using wf
proof (cases rule: update_limit_cases [where u = u])
  case same
  with l have "l \<in> set (get_limits ns s)" by simp
  with same_key_namespace [OF wf this] same(2) [of l] show ?thesis by auto
next
  case changed
  with l have "ns = namespace u \<and> (l \<in> set (get_limits ns s) \<and> limit_key l \<noteq> limit_key u \<or> l = u) \<or>
      ns \<noteq> namespace u \<and> l \<in> set (get_limits ns s)"
    by (auto simp: get_limits_def assoc_simps hset_remove_simps split: if_splits)
  with same_key_namespace [OF wf, of l ns u] show ?thesis by auto
qed

lemma update_limit_elsewhere:
  "ns \<noteq> namespace u \<Longrightarrow> get_limits ns (snd (update_limit u s)) = get_limits ns s"
  by (auto simp: update_limit_def Let_def get_limits_def assoc_simps split: option.split)

end
