(* ===== verification/Limiter.thy ===== *)
theory Limiter
  imports Storage
begin

text \<open>
  \<^verbatim>\<open>RateLimiter\<close> and \<^verbatim>\<open>AsyncRateLimiter\<close> of \<^verbatim>\<open>limitador/src/lib.rs\<close>, over any counter storage:
  resolving the counters of a request, checking, reporting, reserving and committing, configuring,
  and the rate-limit response headers.

  The identifier of a new reservation (a random UUID) is an argument of \<open>reserve\<close>.
\<close>

section \<open>State and results\<close>

record ('s, 'e) rate_limiter =
  storage :: "('s, 'e) storage"
  reservation_limits :: reservation_limits

record 'e check_result =
  limited :: bool
  result_counters :: "'e counter list"
  result_limit_name :: "string option"

definition new_with_storage :: "'s \<Rightarrow> ('s, 'e) rate_limiter" where
  "new_with_storage c =
     \<lparr>storage = with_counter_storage c, reservation_limits = reservation_limits_default\<rparr>"

definition build_limiter :: "('s, 'e) storage \<Rightarrow> reservation_limits \<Rightarrow> ('s, 'e) rate_limiter" where
  "build_limiter s rl = \<lparr>storage = s, reservation_limits = rl\<rparr>"

text \<open>An operation of the limiter: a panic, an error or a result, and the new state.\<close>

type_synonym ('s, 'e, 'a) limiter_op =
  "('s, 'e) rate_limiter \<Rightarrow> ((limitador_error + 'a) \<times> ('s, 'e) rate_limiter) option"

section \<open>Response headers\<close>

definition effective_remaining :: "'e counter \<Rightarrow> u64" where
  "effective_remaining c = (case remaining c of Some r \<Rightarrow> r | None \<Rightarrow> counter_max_value c)"

definition replace_char :: "char \<Rightarrow> char \<Rightarrow> string \<Rightarrow> string" where
  "replace_char a b s = map (\<lambda>c. if c = a then b else c) s"

definition show_u64 :: "u64 \<Rightarrow> string" where
  "show_u64 u = show_nat (unat u)"

definition limit_text :: "'e counter \<Rightarrow> string" where
  "limit_text c =
     '', '' @ show_u64 (counter_max_value c) @ '';w='' @ show_u64 (as_secs (window c))
     @ (case limit_name (limit c) of
          Some n \<Rightarrow> '';name='' @ [CHR 0x22] @ replace_char (CHR 0x22) (CHR 0x27) n @ [CHR 0x22]
        | None \<Rightarrow> [])"

definition response_headers_for :: "'e counter list \<Rightarrow> 'e counter list \<times> (string \<times> string) list" where
  "response_headers_for cs =
     (let cs = sort_key effective_remaining cs;
          all_limits_text = concat (map limit_text cs)
      in (cs,
          case cs of
            [] \<Rightarrow> []
          | c # _ \<Rightarrow>
              [(''X-RateLimit-Limit'', show_u64 (counter_max_value c) @ all_limits_text),
               (''X-RateLimit-Remaining'', show_u64 (effective_remaining c))]
              @ (case expires_in c of
                   Some d \<Rightarrow> [(''X-RateLimit-Reset'', show_u64 (as_secs d))] | None \<Rightarrow> [])))"

definition check_response_header :: "'e check_result \<Rightarrow> (string \<times> string) list" where
  "check_response_header r = snd (response_headers_for (result_counters r))"

definition reserve_response_header :: "'e reserve_result \<Rightarrow> (string \<times> string) list" where
  "reserve_response_header r = snd (response_headers_for (rr_counters r))"

section \<open>Resolving the counters of a request\<close>

primrec collect_counters ::
  "'e cel \<Rightarrow> cel_context \<Rightarrow> 'e limit list \<Rightarrow> (limitador_error + 'e counter list) option" where
  "collect_counters cel ctx [] = Some (Inr [])"
| "collect_counters cel ctx (l # ls) = do {
     a \<leftarrow> applies cel l ctx;
     if \<not> a then collect_counters cel ctx ls
     else (case counter_new cel l ctx of
         Inl e \<Rightarrow> Some (Inl e)
       | Inr None \<Rightarrow> collect_counters cel ctx ls
       | Inr (Some c) \<Rightarrow> do {
           r \<leftarrow> collect_counters cel ctx ls;
           Some (case r of Inl e \<Rightarrow> Inl e | Inr cs \<Rightarrow> Inr (c # cs))
         })
   }"

definition counters_that_apply ::
  "'e cel \<Rightarrow> string \<Rightarrow> cel_context \<Rightarrow> ('s, 'e) rate_limiter \<Rightarrow>
   (limitador_error + 'e counter list) option" where
  "counters_that_apply cel ns ctx rl = collect_counters cel ctx (get_limits ns (storage rl))"

section \<open>Checking and reporting\<close>

definition result_of_auth :: "authorization \<Rightarrow> 'e counter list \<Rightarrow> 'e check_result" where
  "result_of_auth a cs =
     (case a of
        AuthOk \<Rightarrow> \<lparr>limited = False, result_counters = cs, result_limit_name = None\<rparr>
      | Limited n \<Rightarrow> \<lparr>limited = True, result_counters = cs, result_limit_name = n\<rparr>)"

definition is_rate_limited ::
  "('env, 's, 'e) counter_storage \<Rightarrow> 'e cel \<Rightarrow> 'env \<Rightarrow> string \<Rightarrow> cel_context \<Rightarrow> u64 \<Rightarrow>
   ('s, 'e, 'e check_result) limiter_op" where
  "is_rate_limited cs cel env ns ctx delta rl = do {
     r \<leftarrow> counters_that_apply cel ns ctx rl;
     (case r of
        Inl e \<Rightarrow> Some (Inl e, rl)
      | Inr ctrs \<Rightarrow>
          if ctrs = [] then
            Some (Inr \<lparr>limited = False, result_counters = ctrs, result_limit_name = None\<rparr>, rl)
          else do {
            ((a, ctrs), st) \<leftarrow> storage_check cs env ctrs delta (storage rl);
            Some (case a of Inl e \<Rightarrow> Inl (StorageError e) | Inr a \<Rightarrow> Inr (result_of_auth a ctrs),
                  rl\<lparr>storage := st\<rparr>)
          })
   }"

definition update_each ::
  "('env, 's, 'e) counter_storage \<Rightarrow> 'env \<Rightarrow> 'e counter list \<Rightarrow> u64 \<Rightarrow>
   ('s, 'e) storage \<Rightarrow> (('s, 'e) storage, unit) outcome" where
  "update_each cs env ctrs delta s =
     try_each (\<lambda>c. storage_update_counter cs env c delta) ctrs s"

definition update_counters ::
  "('env, 's, 'e) counter_storage \<Rightarrow> 'e cel \<Rightarrow> 'env \<Rightarrow> string \<Rightarrow> cel_context \<Rightarrow> u64 \<Rightarrow>
   ('s, 'e, unit) limiter_op" where
  "update_counters cs cel env ns ctx delta rl = do {
     r \<leftarrow> counters_that_apply cel ns ctx rl;
     (case r of
        Inl e \<Rightarrow> Some (Inl e, rl)
      | Inr ctrs \<Rightarrow> do {
          (r, st) \<leftarrow> update_each cs env ctrs delta (storage rl);
          Some (case r of Inl e \<Rightarrow> Inl (StorageError e) | Inr _ \<Rightarrow> Inr (), rl\<lparr>storage := st\<rparr>)
        })
   }"

definition subtract_delta :: "u64 \<Rightarrow> 'e counter \<Rightarrow> 'e counter" where
  "subtract_delta delta c =
     (case remaining c of Some r \<Rightarrow> set_remaining (saturating_sub r delta) c | None \<Rightarrow> c)"

definition check_rate_limited_and_update ::
  "('env, 's, 'e) counter_storage \<Rightarrow> 'e cel \<Rightarrow> 'env \<Rightarrow> string \<Rightarrow> cel_context \<Rightarrow> u64 \<Rightarrow>
   ('s, 'e, 'e check_result) limiter_op" where
  "check_rate_limited_and_update cs cel env ns ctx delta rl = do {
     r \<leftarrow> counters_that_apply cel ns ctx rl;
     (case r of
        Inl e \<Rightarrow> Some (Inl e, rl)
      | Inr ctrs \<Rightarrow>
          if ctrs = [] then
            Some (Inr \<lparr>limited = False, result_counters = ctrs, result_limit_name = None\<rparr>, rl)
          else do {
            ((a, ctrs), st) \<leftarrow> storage_check_and_update cs env ctrs delta (storage rl);
            let rl = rl\<lparr>storage := st\<rparr>;
            (case a of
               Inl e \<Rightarrow> Some (Inl (StorageError e), rl)
             | Inr a \<Rightarrow>
                 let ctrs = (if a = AuthOk then map (subtract_delta delta) ctrs else ctrs)
                 in Some (Inr (result_of_auth a ctrs), rl))
          })
   }"

definition limiter_get_counters ::
  "('env, 's, 'e) counter_storage \<Rightarrow> 'env \<Rightarrow> string \<Rightarrow> ('s, 'e, 'e counter list) limiter_op" where
  "limiter_get_counters cs env ns rl = do {
     (r, st) \<leftarrow> storage_get_counters cs env ns (storage rl);
     Some (case r of Inl e \<Rightarrow> Inl (StorageError e) | Inr x \<Rightarrow> Inr x, rl\<lparr>storage := st\<rparr>)
   }"

section \<open>Reserving and committing\<close>

text \<open>\<^verbatim>\<open>f64\<close> arithmetic on non-negative numbers: rounding to 53 significant bits, ties to even.\<close>

fun bit_length :: "nat \<Rightarrow> nat" where
  "bit_length n = (if n = 0 then 0 else Suc (bit_length (n div 2)))"

declare bit_length.simps [simp del]

definition round53 :: "nat \<Rightarrow> nat" where
  "round53 n =
     (let b = bit_length n in
      if b \<le> 53 then n
      else let s = b - 53; q = n div 2 ^ s; r = n mod 2 ^ s; half = 2 ^ (s - 1);
               q' = (if r > half \<or> r = half \<and> odd q then q + 1 else q)
           in q' * 2 ^ s)"

definition f64_of_u64 :: "u64 \<Rightarrow> f64" where
  "f64_of_u64 x = (round53 (unat x), 0)"

definition f64_mul :: "f64 \<Rightarrow> f64 \<Rightarrow> f64" where
  "f64_mul = (\<lambda>(m, e) (m', e'). (round53 (m * m'), e + e'))"

definition u64_of_f64 :: "f64 \<Rightarrow> u64" where
  "u64_of_f64 = (\<lambda>(m, e). if 2 ^ 64 \<le> m div 2 ^ e then - 1 else of_nat (m div 2 ^ e))"

definition hold_cap :: "f64 \<Rightarrow> 'e counter \<Rightarrow> u64" where
  "hold_cap frac c = u64_of_f64 (f64_mul (f64_of_u64 (counter_max_value c)) frac)"

definition clamp_hold :: "f64 \<Rightarrow> 'e counter list \<Rightarrow> u64 \<Rightarrow> u64" where
  "clamp_hold frac cs amt =
     (case map (hold_cap frac) cs of
        [] \<Rightarrow> amt
      | m # ms \<Rightarrow> min amt (fold min ms m))"

definition clamp_ttl :: "duration \<Rightarrow> duration option \<Rightarrow> duration" where
  "clamp_ttl mx ttl = (case ttl of None \<Rightarrow> mx | Some t \<Rightarrow> min t mx)"

definition reserve_result_of ::
  "reservation_id \<Rightarrow> u64 \<Rightarrow> authorization \<Rightarrow> 'e counter list \<Rightarrow> 'e reserve_result" where
  "reserve_result_of rid hold a cs =
     (case a of
        AuthOk \<Rightarrow>
          \<lparr>rr_limited = False, rr_reservation_id = (if hold > 0 then Some rid else None),
           rr_amount = hold, rr_counters = cs, rr_limit_name = None\<rparr>
      | Limited n \<Rightarrow>
          \<lparr>rr_limited = True, rr_reservation_id = None, rr_amount = 0, rr_counters = cs,
           rr_limit_name = n\<rparr>)"

definition limiter_reserve ::
  "('env, 's, 'e) counter_storage \<Rightarrow> 'e cel \<Rightarrow> 'env \<Rightarrow> reservation_id \<Rightarrow> string \<Rightarrow> cel_context \<Rightarrow>
   u64 \<Rightarrow> duration option \<Rightarrow> ('s, 'e, 'e reserve_result) limiter_op" where
  "limiter_reserve cs cel env rid ns ctx amt ttl rl = do {
     r \<leftarrow> counters_that_apply cel ns ctx rl;
     (case r of
        Inl e \<Rightarrow> Some (Inl e, rl)
      | Inr ctrs \<Rightarrow>
          if ctrs = [] then
            Some (Inr \<lparr>rr_limited = False, rr_reservation_id = None, rr_amount = 0,
                       rr_counters = ctrs, rr_limit_name = None\<rparr>, rl)
          else do {
            let hold = clamp_hold (max_fraction (reservation_limits rl)) ctrs amt;
            let ttl = clamp_ttl (max_ttl (reservation_limits rl)) ttl;
            ((a, ctrs), st) \<leftarrow> storage_reserve cs env ctrs rid amt hold ttl (storage rl);
            Some (case a of
                    Inl e \<Rightarrow> Inl (StorageError e)
                  | Inr a \<Rightarrow> Inr (reserve_result_of rid hold a ctrs), rl\<lparr>storage := st\<rparr>)
          })
   }"

definition commit_reservation ::
  "('env, 's, 'e) counter_storage \<Rightarrow> 'e cel \<Rightarrow> 'env \<Rightarrow> string \<Rightarrow> cel_context \<Rightarrow>
   reservation_id option \<Rightarrow> u64 \<Rightarrow> ('s, 'e, commit_result) limiter_op" where
  "commit_reservation cs cel env ns ctx rid actual rl = do {
     r \<leftarrow> counters_that_apply cel ns ctx rl;
     (case r of
        Inl e \<Rightarrow> Some (Inl e, rl)
      | Inr ctrs \<Rightarrow> do {
          (r, st) \<leftarrow> update_each cs env ctrs actual (storage rl);
          (case r of
             Inl e \<Rightarrow> Some (Inl (StorageError e), rl\<lparr>storage := st\<rparr>)
           | Inr _ \<Rightarrow>
               (case rid of
                  None \<Rightarrow> Some (Inr \<lparr>reservation_released = False\<rparr>, rl\<lparr>storage := st\<rparr>)
                | Some rid \<Rightarrow>
                    if ctrs = [] then
                      Some (Inr \<lparr>reservation_released = False\<rparr>, rl\<lparr>storage := st\<rparr>)
                    else do {
                      (r, st) \<leftarrow> storage_release_reservation cs env ctrs rid st;
                      Some (case r of
                              Inl e \<Rightarrow> Inl (StorageError e)
                            | Inr b \<Rightarrow> Inr \<lparr>reservation_released = b\<rparr>, rl\<lparr>storage := st\<rparr>)
                    }))
        })
   }"

section \<open>Managing the limits\<close>

definition limiter_add_limit ::
  "('env, 's, 'e) counter_storage \<Rightarrow> 'env \<Rightarrow> 'e limit \<Rightarrow> ('s, 'e) rate_limiter \<Rightarrow>
   (bool \<times> ('s, 'e) rate_limiter) option" where
  "limiter_add_limit cs env l rl = do {
     (b, st) \<leftarrow> add_limit cs env l (storage rl);
     Some (b, rl\<lparr>storage := st\<rparr>)
   }"

definition limiter_delete_limit ::
  "('env, 's, 'e) counter_storage \<Rightarrow> 'env \<Rightarrow> 'e limit \<Rightarrow> ('s, 'e, unit) limiter_op" where
  "limiter_delete_limit cs env l rl = do {
     (r, st) \<leftarrow> delete_limit cs env l (storage rl);
     Some (case r of Inl e \<Rightarrow> Inl (StorageError e) | Inr _ \<Rightarrow> Inr (), rl\<lparr>storage := st\<rparr>)
   }"

definition limiter_get_limits :: "string \<Rightarrow> ('s, 'e) rate_limiter \<Rightarrow> 'e limit list" where
  "limiter_get_limits ns rl = hset_collect limit_key (get_limits ns (storage rl))"

definition limiter_delete_limits ::
  "('env, 's, 'e) counter_storage \<Rightarrow> 'env \<Rightarrow> string \<Rightarrow> ('s, 'e, unit) limiter_op" where
  "limiter_delete_limits cs env ns rl = do {
     (r, st) \<leftarrow> delete_limits cs env ns (storage rl);
     Some (case r of Inl e \<Rightarrow> Inl (StorageError e) | Inr _ \<Rightarrow> Inr (), rl\<lparr>storage := st\<rparr>)
   }"

definition classify_one ::
  "'e limit \<Rightarrow> (string \<times> 'e limit list) list \<Rightarrow> (string \<times> 'e limit list) list" where
  "classify_one l res =
     (case map_of res (namespace l) of
        Some xs \<Rightarrow> AList.update (namespace l) (snd (hset_insert limit_key l xs)) res
      | None \<Rightarrow> AList.update (namespace l) (snd (hset_insert limit_key l [])) res)"

definition classify_limits_by_namespace :: "'e limit list \<Rightarrow> (string \<times> 'e limit list) list" where
  "classify_limits_by_namespace ls = fold classify_one ls []"

definition configure_namespace ::
  "('env, 's, 'e) counter_storage \<Rightarrow> 'env \<Rightarrow> (string \<times> 'e limit list) list \<Rightarrow> string \<Rightarrow>
   ('s, 'e, unit) limiter_op" where
  "configure_namespace cs env keep ns rl = do {
     let in_ns = limiter_get_limits ns rl;
     let keep_ns = (case map_of keep ns of Some ls \<Rightarrow> ls | None \<Rightarrow> []);
     (r, rl) \<leftarrow> try_each (limiter_delete_limit cs env) (hset_difference limit_key in_ns keep_ns) rl;
     (case r of
        Inl e \<Rightarrow> Some (Inl e, rl)
      | Inr _ \<Rightarrow> do {
          rl \<leftarrow> fold_panic (\<lambda>l rl. map_option snd (limiter_add_limit cs env l rl))
            (hset_difference limit_key keep_ns in_ns) rl;
          Some (Inr (),
            rl\<lparr>storage := fold (\<lambda>l st. snd (update_limit l st))
              (hset_union limit_key keep_ns in_ns) (storage rl)\<rparr>)
        })
   }"

definition configure_with ::
  "('env, 's, 'e) counter_storage \<Rightarrow> 'env \<Rightarrow> 'e limit list \<Rightarrow> ('s, 'e, unit) limiter_op" where
  "configure_with cs env ls rl =
     (let keep = classify_limits_by_namespace ls
      in try_each (configure_namespace cs env keep)
           (hset_union id (get_namespaces (storage rl)) (map fst keep)) rl)"

end
