(* ===== verification/Backend.thy ===== *)
theory Backend
  imports Limiter
begin

text \<open>
  What the rate limiter relies on: the contract of a counter storage, and the behaviour of the
  limiter over any storage that satisfies it.

  A storage is seen through the usage it reports for a counter.  \<open>ready\<close> says that a call is within
  the ranges the backend handles (its clock, its integers), \<open>keeps\<close> which counters it does not drop
  on its own during the call.
\<close>

section \<open>Counters of a request\<close>

lemma counter_new_limit: "counter_new cel l ctx = Inr (Some c) \<Longrightarrow> limit c = l"
  by (auto simp: counter_new_def split: sum.splits option.splits)

lemma collect_counters_ConsE:
  assumes "collect_counters cel ctx (l # ls) = Some (Inr cs)"
  obtains (skip) "\<not> (applies cel l ctx = Some True \<and> counter_new cel l ctx \<noteq> Inr None)"
      "collect_counters cel ctx ls = Some (Inr cs)"
    | (take) c cs' where "applies cel l ctx = Some True" "counter_new cel l ctx = Inr (Some c)"
      "cs = c # cs'" "collect_counters cel ctx ls = Some (Inr cs')"
proof -
  from assms obtain a where a: "applies cel l ctx = Some a" by (auto simp: bind_eq_Some_conv)
  show thesis
  proof (cases "counter_new cel l ctx")
    case (Inl e)
    with a assms show thesis by (intro skip) (auto split: if_splits)
  next
    case (Inr oc)
    with a assms show thesis
      by (cases oc; cases a; cases "collect_counters cel ctx ls")
        (auto intro: skip take split: sum.splits)
  qed
qed

lemma collect_counters_set:
  assumes "collect_counters cel ctx ls = Some (Inr cs)"
  shows "c \<in> set cs \<longleftrightarrow>
    (\<exists>l\<in>set ls. applies cel l ctx = Some True \<and> counter_new cel l ctx = Inr (Some c))"
  using assms
proof (induction ls arbitrary: cs)
  case (Cons l ls)
  from Cons.prems show ?case
  proof (cases rule: collect_counters_ConsE)
    case skip
    with Cons.IH show ?thesis by auto
  next
    case (take d cs')
    with Cons.IH show ?thesis by auto
  qed
qed simp

lemma collect_counters_limits:
  assumes "collect_counters cel ctx ls = Some (Inr cs)"
  shows "map limit cs =
    filter (\<lambda>l. applies cel l ctx = Some True \<and> counter_new cel l ctx \<noteq> Inr None) ls"
  using assms
proof (induction ls arbitrary: cs)
  case (Cons l ls)
  from Cons.prems show ?case
  proof (cases rule: collect_counters_ConsE)
    case skip
    with Cons.IH show ?thesis by auto
  next
    case (take d cs')
    with Cons.IH show ?thesis by (auto simp: counter_new_limit)
  qed
qed simp

lemma collect_counters_distinct:
  assumes "collect_counters cel ctx ls = Some (Inr cs)" "distinct (map limit_key ls)"
  shows "distinct (map counter_key cs)"
proof -
  have "distinct (map limit_key (map limit cs))"
    unfolding collect_counters_limits [OF assms(1)] by (rule distinct_map_filter [OF assms(2)])
  then show ?thesis by (simp add: distinct_map inj_on_def counter_key_def)
qed

lemma counters_that_apply_facts:
  assumes "limits_wf (storage rl)" "counters_that_apply cel ns ctx rl = Some (Inr cs)"
  shows "distinct (map counter_key cs)"
    "c \<in> set cs \<Longrightarrow> limit c \<in> set (get_limits ns (storage rl)) \<and> applies cel (limit c) ctx = Some True"
    "c \<in> set cs \<Longrightarrow> counter_namespace c = ns"
proof -
  note col = assms(2) [unfolded counters_that_apply_def]
  show "distinct (map counter_key cs)"
    using collect_counters_distinct [OF col] limits_wf_get(1) [OF assms(1)] by blast
  show facts: "limit c \<in> set (get_limits ns (storage rl)) \<and> applies cel (limit c) ctx = Some True"
    if "c \<in> set cs" for c
    using that counter_new_limit by (auto simp: collect_counters_set [OF col])
  show "counter_namespace c = ns" if "c \<in> set cs"
    using facts [OF that] limits_wf_get(2) [OF assms(1)] by (simp add: counter_namespace_def)
qed

section \<open>The contract\<close>

definition admits :: "(counter_key \<Rightarrow> u64) \<Rightarrow> u64 \<Rightarrow> 'e counter \<Rightarrow> bool" where
  "admits u delta c \<longleftrightarrow> saturating_add (u (counter_key c)) delta \<le> counter_max_value c"

definition annotates :: "(counter_key \<Rightarrow> u64) \<Rightarrow> 'e counter \<Rightarrow> 'e counter \<Rightarrow> bool" where
  "annotates u c c' \<longleftrightarrow>
     limit c' = limit c \<and> set_variables c' = set_variables c \<and>
     remaining c' = Some (saturating_sub (counter_max_value c) (u (counter_key c)))"

locale counter_store =
  fixes cs :: "('env, 's, 'e) counter_storage"
    and used :: "'env \<Rightarrow> 's \<Rightarrow> counter_key \<Rightarrow> u64"
    and ready :: "'env \<Rightarrow> 'e counter list \<Rightarrow> u64 \<Rightarrow> 's \<Rightarrow> bool"
    and keeps :: "'env \<Rightarrow> counter_key \<Rightarrow> bool"
  assumes check_law: "ready env ctrs delta s \<Longrightarrow>
      \<exists>a ctrs' s'. cs_check cs env ctrs delta s = Some ((Inr a, ctrs'), s') \<and>
        (a = AuthOk \<longleftrightarrow> (\<forall>c\<in>set ctrs. admits (used env s) delta c)) \<and>
        list_all2 (annotates (used env s)) ctrs ctrs' \<and>
        (\<forall>k. keeps env k \<longrightarrow> used env s' k = used env s k)"
    and check_and_update_law: "ready env ctrs delta s \<Longrightarrow>
      \<exists>a ctrs' s'. cs_check_and_update cs env ctrs delta s = Some ((Inr a, ctrs'), s') \<and>
        (a = AuthOk \<longleftrightarrow> (\<forall>c\<in>set ctrs. admits (used env s) delta c)) \<and>
        list_all2 (annotates (used env s)) ctrs ctrs' \<and>
        (\<forall>k. keeps env k \<longrightarrow> used env s' k =
           used env s k + (if a = AuthOk \<and> k \<in> counter_key ` set ctrs then delta else 0))"
    and ready_keeps: "ready env ctrs delta s \<Longrightarrow> c \<in> set ctrs \<Longrightarrow> keeps env (counter_key c)"
begin

text \<open>A check answers whether every counter has room, and moves no usage.\<close>

lemma limiter_check:
  assumes "counters_that_apply cel ns ctx rl = Some (Inr ctrs)"
    and "ready env ctrs delta (counters (storage rl))"
  shows "\<exists>r rl'. is_rate_limited cs cel env ns ctx delta rl = Some (Inr r, rl') \<and>
    (limited r \<longleftrightarrow> (\<exists>c\<in>set ctrs. \<not> admits (used env (counters (storage rl))) delta c)) \<and>
    list_all2 (\<lambda>c c'. annotates (used env (counters (storage rl))) c c' \<or> ctrs = [])
      ctrs (result_counters r) \<and>
    (\<forall>k. keeps env k \<longrightarrow>
       used env (counters (storage rl')) k = used env (counters (storage rl)) k) \<and>
    limits (storage rl') = limits (storage rl)"
proof (cases "ctrs = []")
  case True
  with assms(1) show ?thesis by (simp add: is_rate_limited_def)
next
  case False
  from check_law [OF assms(2)] obtain a ctrs' s' where
    a: "cs_check cs env ctrs delta (counters (storage rl)) = Some ((Inr a, ctrs'), s')"
      "a = AuthOk \<longleftrightarrow> (\<forall>c\<in>set ctrs. admits (used env (counters (storage rl))) delta c)"
      "list_all2 (annotates (used env (counters (storage rl)))) ctrs ctrs'"
      "\<forall>k. keeps env k \<longrightarrow> used env s' k = used env (counters (storage rl)) k"
    by blast
  have "limited (result_of_auth a ctrs') \<longleftrightarrow> a \<noteq> AuthOk"
    "result_counters (result_of_auth a ctrs') = ctrs'"
    by (simp_all add: result_of_auth_def split: authorization.split)
  with a False assms(1) show ?thesis
    by (simp add: is_rate_limited_def storage_check_def)
qed

text \<open>Checking and updating: the same answer, and exactly on admission every counter of the request
  grows by \<open>delta\<close>, with nothing persisted otherwise.\<close>

lemma limiter_check_and_update:
  assumes "counters_that_apply cel ns ctx rl = Some (Inr ctrs)"
    and "ready env ctrs delta (counters (storage rl))"
  shows "\<exists>r rl'. check_rate_limited_and_update cs cel env ns ctx delta rl = Some (Inr r, rl') \<and>
    (limited r \<longleftrightarrow> (\<exists>c\<in>set ctrs. \<not> admits (used env (counters (storage rl))) delta c)) \<and>
    (\<forall>k. keeps env k \<longrightarrow> used env (counters (storage rl')) k =
       used env (counters (storage rl)) k
       + (if \<not> limited r \<and> k \<in> counter_key ` set ctrs then delta else 0)) \<and>
    limits (storage rl') = limits (storage rl)"
proof (cases "ctrs = []")
  case True
  with assms(1) show ?thesis by (simp add: check_rate_limited_and_update_def)
next
  case False
  from check_and_update_law [OF assms(2)] obtain a ctrs' s' where
    a: "cs_check_and_update cs env ctrs delta (counters (storage rl)) = Some ((Inr a, ctrs'), s')"
      "a = AuthOk \<longleftrightarrow> (\<forall>c\<in>set ctrs. admits (used env (counters (storage rl))) delta c)"
      "\<forall>k. keeps env k \<longrightarrow> used env s' k = used env (counters (storage rl)) k
         + (if a = AuthOk \<and> k \<in> counter_key ` set ctrs then delta else 0)"
    by blast
  have "limited (result_of_auth a x) \<longleftrightarrow> a \<noteq> AuthOk" for x :: "'c counter list"
    by (simp add: result_of_auth_def split: authorization.split)
  with a False assms(1) show ?thesis
    by (auto simp: check_rate_limited_and_update_def storage_check_and_update_def Let_def)
qed

text \<open>On admission the remaining budget reported to the client is what is left after the update.\<close>

lemma limiter_remaining_after_update:
  assumes "counters_that_apply cel ns ctx rl = Some (Inr ctrs)"
    and "ready env ctrs delta (counters (storage rl))"
    and "check_rate_limited_and_update cs cel env ns ctx delta rl = Some (Inr r, rl')"
    and "\<not> limited r"
    and "\<forall>c\<in>set ctrs. unat (used env (counters (storage rl)) (counter_key c)) + unat delta < 2 ^ 64"
  shows "list_all2 (\<lambda>c c'. counter_key c' = counter_key c \<and> remaining c' =
      Some (saturating_sub (counter_max_value c) (used env (counters (storage rl')) (counter_key c))))
    ctrs (result_counters r)"
proof (cases "ctrs = []")
  case True
  with assms(1,3) show ?thesis by (auto simp: check_rate_limited_and_update_def)
next
  case False
  let ?u = "used env (counters (storage rl))"
  from check_and_update_law [OF assms(2)] obtain a ctrs' s' where
    a: "cs_check_and_update cs env ctrs delta (counters (storage rl)) = Some ((Inr a, ctrs'), s')"
      "list_all2 (annotates ?u) ctrs ctrs'"
      "\<forall>k. keeps env k \<longrightarrow> used env s' k = ?u k
         + (if a = AuthOk \<and> k \<in> counter_key ` set ctrs then delta else 0)"
    by blast
  have ok: "a = AuthOk" and r: "result_counters r = map (subtract_delta delta) ctrs'"
    and s': "counters (storage rl') = s'"
    using assms(1,3,4) a(1) False
    by (auto simp: check_rate_limited_and_update_def storage_check_and_update_def result_of_auth_def
        Let_def split: authorization.splits)
  have "counter_key (subtract_delta delta c') = counter_key c \<and>
      remaining (subtract_delta delta c') =
        Some (saturating_sub (counter_max_value c) (used env s' (counter_key c)))"
    if c: "c \<in> set ctrs" and ann: "annotates ?u c c'" for c c'
  proof -
    have "used env s' (counter_key c) = ?u (counter_key c) + delta"
      using a(3) ready_keeps [OF assms(2) c] ok c by auto
    moreover have "unat (?u (counter_key c) + delta) = unat (?u (counter_key c)) + unat delta"
      using assms(5) c by (simp add: unat_add_no_overflow)
    moreover have "saturating_sub (saturating_sub x y) z = saturating_sub x w"
      if "unat w = unat y + unat z" for x y z w
    proof -
      have "unat (saturating_sub (saturating_sub x y) z) = unat (saturating_sub x w)"
        by (simp add: unat_saturating_sub that)
      then show ?thesis by (rule unsigned_word_eqI)
    qed
    ultimately show ?thesis
      using ann by (simp add: annotates_def subtract_delta_def counter_key_def)
  qed
  then show ?thesis
    unfolding r s' list_all2_map2 using a(2) by (rule list.rel_mono_strong [rotated])
qed

end

text \<open>A storage that also counts every report, whatever the limit.\<close>

locale reporting_store = counter_store +
  assumes update_law: "ready env (c # ctrs) delta s \<Longrightarrow>
      \<exists>s'. cs_update_counter cs env c delta s = Some (Inr (), s') \<and> ready env ctrs delta s' \<and>
        (\<forall>k. keeps env k \<longrightarrow>
           used env s' k = used env s k + (if k = counter_key c then delta else 0))"
begin

lemma update_each_result:
  assumes "ready env ctrs delta (counters st)" "distinct (map counter_key ctrs)"
  shows "\<exists>st'. update_each cs env ctrs delta st = Some (Inr (), st') \<and> limits st' = limits st \<and>
    (\<forall>k. keeps env k \<longrightarrow> used env (counters st') k =
       used env (counters st) k + (if k \<in> counter_key ` set ctrs then delta else 0))"
  using assms
proof (induction ctrs arbitrary: st)
  case (Cons c ctrs)
  from update_law [OF Cons.prems(1)] obtain s' where
    s': "cs_update_counter cs env c delta (counters st) = Some (Inr (), s')" "ready env ctrs delta s'"
      "\<forall>k. keeps env k \<longrightarrow>
         used env s' k = used env (counters st) k + (if k = counter_key c then delta else 0)"
    by blast
  with Cons.IH [of "st\<lparr>counters := s'\<rparr>"] Cons.prems(2) obtain st' where
    "update_each cs env ctrs delta (st\<lparr>counters := s'\<rparr>) = Some (Inr (), st')"
    "limits st' = limits st"
    "\<forall>k. keeps env k \<longrightarrow> used env (counters st') k =
       used env s' k + (if k \<in> counter_key ` set ctrs then delta else 0)"
    by auto
  with s' Cons.prems(2) show ?case
    by (auto simp: update_each_def storage_update_counter_def)
qed (simp add: update_each_def)

text \<open>A report adds its delta to every counter of the request, even past the limit.\<close>

lemma limiter_report:
  assumes "limits_wf (storage rl)" "counters_that_apply cel ns ctx rl = Some (Inr ctrs)"
    and "ready env ctrs delta (counters (storage rl))"
  shows "\<exists>rl'. update_counters cs cel env ns ctx delta rl = Some (Inr (), rl') \<and>
    limits (storage rl') = limits (storage rl) \<and>
    (\<forall>k. keeps env k \<longrightarrow> used env (counters (storage rl')) k =
       used env (counters (storage rl)) k + (if k \<in> counter_key ` set ctrs then delta else 0))"
  using update_each_result [OF assms(3) counters_that_apply_facts(1) [OF assms(1,2)]] assms(2)
  by (auto simp: update_counters_def)

end

end
