(* ===== verification/Configure.thy ===== *)
theory Configure
  imports Limiter
begin

text \<open>
  Managing limits over any counter storage whose \<^verbatim>\<open>add_counter\<close> and \<^verbatim>\<open>delete_counters\<close> succeed: adding,
  deleting, and \<open>configure_with\<close>, the reconfiguration that a reload of the limits file runs.
\<close>

section \<open>Classifying limits\<close>

definition classified :: "(string \<times> 'e limit list) list \<Rightarrow> string \<Rightarrow> 'e limit list" where
  "classified keep ns = (case map_of keep ns of Some ls \<Rightarrow> ls | None \<Rightarrow> [])"

lemma classify_one_update:
  "classify_one l res =
     AList.update (namespace l) (snd (hset_insert limit_key l (classified res (namespace l)))) res"
  by (simp add: classify_one_def classified_def split: option.split)

lemma classified_one:
  "classified (classify_one l res) ns =
     (if ns = namespace l then snd (hset_insert limit_key l (classified res ns))
      else classified res ns)"
  by (simp add: classify_one_update) (simp add: classified_def assoc_simps)

definition classify_inv :: "'e limit list \<Rightarrow> (string \<times> 'e limit list) list \<Rightarrow> bool" where
  "classify_inv ls res \<longleftrightarrow>
     (\<forall>ns. limit_key ` set (classified res ns) = limit_key ` {l \<in> set ls. namespace l = ns} \<and>
        distinct (map limit_key (classified res ns)) \<and>
        set (classified res ns) \<subseteq> {l \<in> set ls. namespace l = ns}) \<and>
     fst ` set res = namespace ` set ls \<and> distinct (map fst res)"

lemma classify_inv_one:
  assumes "classify_inv ls res"
  shows "classify_inv (ls @ [l]) (classify_one l res)"
  unfolding classify_inv_def
proof (intro conjI allI)
  fix ns
  note keys = hset_insert_keys [where f = limit_key and x = l and xs = "classified res ns"]
  from assms have inv: "limit_key ` set (classified res ns) = limit_key ` {l \<in> set ls. namespace l = ns}"
    "distinct (map limit_key (classified res ns))"
    "set (classified res ns) \<subseteq> {l \<in> set ls. namespace l = ns}"
    by (auto simp: classify_inv_def)
  show "limit_key ` set (classified (classify_one l res) ns)
      = limit_key ` {x \<in> set (ls @ [l]). namespace x = ns}"
    using keys(1) inv(1) by (auto simp: classified_one)
  show "distinct (map limit_key (classified (classify_one l res) ns))"
    using keys(2) inv(2) by (auto simp: classified_one)
  show "set (classified (classify_one l res) ns) \<subseteq> {x \<in> set (ls @ [l]). namespace x = ns}"
    using hset_insert_subset [of limit_key l "classified res ns"] inv(3)
    by (auto simp: classified_one split: if_splits)
next
  show "fst ` set (classify_one l res) = namespace ` set (ls @ [l])"
    using assms by (simp add: classify_inv_def classify_one_update dom_update)
  show "distinct (map fst (classify_one l res))"
    using assms by (simp add: classify_inv_def classify_one_update distinct_update)
qed

lemma classify_limits: "classify_inv ls (classify_limits_by_namespace ls)"
proof (induction ls rule: rev_induct)
  case Nil
  show ?case by (simp add: classify_inv_def classify_limits_by_namespace_def classified_def)
next
  case (snoc l ls)
  then show ?case using classify_inv_one by (simp add: classify_limits_by_namespace_def)
qed

lemma classified_given:
  "classified (classify_limits_by_namespace ls) ns = hset_collect limit_key (filter (\<lambda>l. namespace l = ns) ls)"
proof (induction ls rule: rev_induct)
  case Nil
  show ?case by (simp add: classify_limits_by_namespace_def classified_def hset_collect_def)
next
  case (snoc l ls)
  then show ?case
    by (simp add: classify_limits_by_namespace_def classified_one) (auto simp: hset_collect_def)
qed

section \<open>A storage that can be administered\<close>

text \<open>\<open>content s k\<close> is what the storage holds for a counter; \<open>inv\<close> its invariant.\<close>

locale administered_store =
  fixes cs :: "('env, 's, 'e) counter_storage"
    and inv :: "'s \<Rightarrow> bool"
    and content :: "'s \<Rightarrow> counter_key \<Rightarrow> 'v option"
  assumes add_law: "inv s \<Longrightarrow> \<exists>s'. cs_add_counter cs env l s = Some (Inr (), s') \<and> inv s' \<and>
      (\<forall>k. content s k \<noteq> None \<longrightarrow> content s' k = content s k) \<and>
      (\<forall>k. ck_limit k \<noteq> limit_key l \<longrightarrow> content s' k = content s k)"
    and delete_law: "inv s \<Longrightarrow> \<exists>s'. cs_delete_counters cs env ls s = Some (Inr (), s') \<and> inv s' \<and>
      (\<forall>k. content s' k = (if ck_limit k \<in> limit_key ` set ls then None else content s k))"
begin

definition sound :: "('s, 'e) rate_limiter \<Rightarrow> bool" where
  "sound rl \<longleftrightarrow> limits_wf (storage rl) \<and> inv (counters (storage rl))"

definition registered :: "('s, 'e) rate_limiter \<Rightarrow> string \<Rightarrow> limit_key set" where
  "registered rl ns = limit_key ` set (get_limits ns (storage rl))"

lemma delete_one:
  assumes "sound rl"
  shows "\<exists>rl'. limiter_delete_limit cs env l rl = Some (Inr (), rl') \<and> sound rl' \<and>
    (\<forall>ns. set (get_limits ns (storage rl')) =
       {x \<in> set (get_limits ns (storage rl)). limit_key x \<noteq> limit_key l}) \<and>
    (\<forall>k. content (counters (storage rl')) k =
       (if ck_limit k = limit_key l then None else content (counters (storage rl)) k))"
proof -
  let ?st = "storage rl"
  let ?arc = "case hset_get limit_key (limit_key l) (get_limits (namespace l) ?st) of
    Some x \<Rightarrow> x | None \<Rightarrow> l"
  have wf: "limits_wf ?st" "inv (counters ?st)" using assms by (simp_all add: sound_def)
  have arc: "limit_key ?arc = limit_key l"
    by (auto split: option.split dest: hset_get_SomeD)
  from delete_law [OF wf(2), of env "[?arc]"] arc obtain c where
    c: "cs_delete_counters cs env [?arc] (counters ?st) = Some (Inr (), c)" "inv c"
      "\<forall>k. content c k = (if ck_limit k = limit_key l then None else content (counters ?st) k)"
    by auto
  let ?st' = "remove_limit l (?st\<lparr>counters := c\<rparr>)"
  have wf': "limits_wf (?st\<lparr>counters := c\<rparr>)" using wf by simp
  note rem = remove_limit_result [OF wf', where l = l]
  have "set (get_limits ns ?st') = {x \<in> set (get_limits ns ?st). limit_key x \<noteq> limit_key l}" for ns
    using rem(2) [of ns] same_key_namespace [OF wf(1), of _ ns l]
    by (auto simp: hset_remove_simps)
  moreover have "limiter_delete_limit cs env l rl = Some (Inr (), rl\<lparr>storage := ?st'\<rparr>)"
    using delete_limit_result [OF wf(1) c(1)] by (simp add: limiter_delete_limit_def)
  ultimately show ?thesis using rem(1,3) c(2,3) by (auto simp: sound_def)
qed

lemma delete_many:
  assumes "sound rl"
  shows "\<exists>rl'. try_each (limiter_delete_limit cs env) ds rl = Some (Inr (), rl') \<and> sound rl' \<and>
    (\<forall>ns. set (get_limits ns (storage rl')) =
       {x \<in> set (get_limits ns (storage rl)). limit_key x \<notin> limit_key ` set ds}) \<and>
    (\<forall>k. content (counters (storage rl')) k =
       (if ck_limit k \<in> limit_key ` set ds then None else content (counters (storage rl)) k))"
  using assms
proof (induction ds arbitrary: rl)
  case (Cons d ds)
  from delete_one [OF Cons.prems, of env d] obtain r1 where
    r1: "limiter_delete_limit cs env d rl = Some (Inr (), r1)" "sound r1"
      "\<forall>ns. set (get_limits ns (storage r1)) =
         {x \<in> set (get_limits ns (storage rl)). limit_key x \<noteq> limit_key d}"
      "\<forall>k. content (counters (storage r1)) k =
         (if ck_limit k = limit_key d then None else content (counters (storage rl)) k)"
    by blast
  from Cons.IH [OF r1(2)] obtain r2 where
    r2: "try_each (limiter_delete_limit cs env) ds r1 = Some (Inr (), r2)" "sound r2"
      "\<forall>ns. set (get_limits ns (storage r2)) =
         {x \<in> set (get_limits ns (storage r1)). limit_key x \<notin> limit_key ` set ds}"
      "\<forall>k. content (counters (storage r2)) k =
         (if ck_limit k \<in> limit_key ` set ds then None else content (counters (storage r1)) k)"
    by blast
  have "set (get_limits ns (storage r2)) =
      {x \<in> set (get_limits ns (storage rl)). limit_key x \<notin> limit_key ` set (d # ds)}" for ns
    using r1(3) r2(3) by auto
  moreover have "content (counters (storage r2)) k =
      (if ck_limit k \<in> limit_key ` set (d # ds) then None else content (counters (storage rl)) k)" for k
    using r1(4) r2(4) by simp
  ultimately show ?case using r1(1) r2(1,2) by simp
qed simp

lemma add_one:
  assumes "sound rl"
  shows "\<exists>b rl'. limiter_add_limit cs env l rl = Some (b, rl') \<and> sound rl' \<and>
    (b \<longleftrightarrow> limit_key l \<notin> registered rl (namespace l)) \<and>
    (\<forall>ns. registered rl' ns = registered rl ns \<union> (if ns = namespace l then {limit_key l} else {})) \<and>
    (\<forall>ns. set (get_limits ns (storage rl')) \<subseteq> insert l (set (get_limits ns (storage rl)))) \<and>
    (\<forall>ns. ns \<noteq> namespace l \<longrightarrow> get_limits ns (storage rl') = get_limits ns (storage rl)) \<and>
    (\<forall>k. content (counters (storage rl)) k \<noteq> None \<longrightarrow>
       content (counters (storage rl')) k = content (counters (storage rl)) k)"
proof -
  let ?st = "storage rl"
  have wf: "limits_wf ?st" "inv (counters ?st)" using assms by (simp_all add: sound_def)
  from add_law [OF wf(2), of env l] obtain c where
    c: "cs_add_counter cs env l (counters ?st) = Some (Inr (), c)" "inv c"
      "\<forall>k. content (counters ?st) k \<noteq> None \<longrightarrow> content c k = content (counters ?st) k"
    by blast
  from add_limit_result [OF c(1)] obtain st' where
    st': "add_limit cs env l ?st =
        Some (limit_key l \<notin> limit_key ` set (get_limits (namespace l) ?st), st')" "counters st' = c"
      "limits st' = AList.update (namespace l)
        (snd (hset_insert limit_key l (get_limits (namespace l) ?st))) (limits ?st)"
    by blast
  have get: "get_limits ns st' =
      (if ns = namespace l then snd (hset_insert limit_key l (get_limits ns ?st)) else get_limits ns ?st)" for ns
    using get_limits_update [OF st'(3)] by auto
  have "limiter_add_limit cs env l rl =
      Some (limit_key l \<notin> registered rl (namespace l), rl\<lparr>storage := st'\<rparr>)"
    using st'(1) by (simp add: limiter_add_limit_def registered_def)
  moreover have "registered (rl\<lparr>storage := st'\<rparr>) ns =
      registered rl ns \<union> (if ns = namespace l then {limit_key l} else {})" for ns
    by (simp add: registered_def get hset_insert_keys(1))
  moreover have "set (get_limits ns st') \<subseteq> insert l (set (get_limits ns ?st))" for ns
    using hset_insert_subset [of limit_key l "get_limits ns ?st"] by (auto simp: get)
  ultimately show ?thesis
    using add_limit_wf [OF wf(1) st'(3)] st'(2) c(2,3) get by (auto simp: sound_def)
qed

lemma add_many:
  assumes "sound rl"
  shows "\<exists>rl'. fold_panic (\<lambda>l rl. map_option snd (limiter_add_limit cs env l rl)) ds rl = Some rl' \<and>
    sound rl' \<and>
    (\<forall>ns. registered rl' ns = registered rl ns \<union> limit_key ` {d \<in> set ds. namespace d = ns}) \<and>
    (\<forall>ns. set (get_limits ns (storage rl')) \<subseteq> set ds \<union> set (get_limits ns (storage rl))) \<and>
    (\<forall>ns. ns \<notin> namespace ` set ds \<longrightarrow> get_limits ns (storage rl') = get_limits ns (storage rl)) \<and>
    (\<forall>k. content (counters (storage rl)) k \<noteq> None \<longrightarrow>
       content (counters (storage rl')) k = content (counters (storage rl)) k)"
  using assms
proof (induction ds arbitrary: rl)
  case (Cons d ds)
  from add_one [OF Cons.prems, of env d] obtain b r1 where
    r1: "limiter_add_limit cs env d rl = Some (b, r1)" "sound r1"
      "\<And>ns. registered r1 ns = registered rl ns \<union> (if ns = namespace d then {limit_key d} else {})"
      "\<And>ns. set (get_limits ns (storage r1)) \<subseteq> insert d (set (get_limits ns (storage rl)))"
      "\<And>ns. ns \<noteq> namespace d \<Longrightarrow> get_limits ns (storage r1) = get_limits ns (storage rl)"
      "\<And>k. content (counters (storage rl)) k \<noteq> None \<Longrightarrow>
         content (counters (storage r1)) k = content (counters (storage rl)) k"
    by blast
  from Cons.IH [OF r1(2)] obtain r2 where
    r2: "fold_panic (\<lambda>l rl. map_option snd (limiter_add_limit cs env l rl)) ds r1 = Some r2" "sound r2"
      "\<And>ns. registered r2 ns = registered r1 ns \<union> limit_key ` {d \<in> set ds. namespace d = ns}"
      "\<And>ns. set (get_limits ns (storage r2)) \<subseteq> set ds \<union> set (get_limits ns (storage r1))"
      "\<And>ns. ns \<notin> namespace ` set ds \<Longrightarrow> get_limits ns (storage r2) = get_limits ns (storage r1)"
      "\<And>k. content (counters (storage r1)) k \<noteq> None \<Longrightarrow>
         content (counters (storage r2)) k = content (counters (storage r1)) k"
    by blast
  have "registered r2 ns = registered rl ns \<union> limit_key ` {x \<in> set (d # ds). namespace x = ns}" for ns
    using r1(3) r2(3) by auto
  moreover have "set (get_limits ns (storage r2)) \<subseteq> set (d # ds) \<union> set (get_limits ns (storage rl))" for ns
    using r1(4) [of ns] r2(4) [of ns] by auto
  moreover have "content (counters (storage r2)) k = content (counters (storage rl)) k"
    if "content (counters (storage rl)) k \<noteq> None" for k
    using r1(6) [OF that] r2(6) [of k] that by simp
  moreover have "get_limits ns (storage r2) = get_limits ns (storage rl)"
    if "ns \<notin> namespace ` set (d # ds)" for ns
    using r1(5) [of ns] r2(5) [of ns] that by simp
  ultimately show ?case using r1(1) r2(1,2) by simp
qed simp

end

section \<open>Updating limits in place\<close>

lemma update_many:
  assumes "limits_wf st"
  defines "upd \<equiv> fold (\<lambda>l st. snd (update_limit l st))"
  shows "limits_wf (upd us st)" "counters (upd us st) = counters st"
    "limit_key ` set (get_limits ns (upd us st)) = limit_key ` set (get_limits ns st)"
  using assms(1) unfolding upd_def
  by (induction us arbitrary: st) (simp_all add: update_limit_wf update_limit_keys)

lemma update_many_member:
  assumes "limits_wf st" "distinct (map limit_key us)"
    and "l \<in> set (get_limits ns (fold (\<lambda>l st. snd (update_limit l st)) us st))"
  shows "(\<exists>u\<in>set us. limit_key u = limit_key l \<and> max_value l = max_value u \<and>
      limit_name l = limit_name u) \<or> (limit_key l \<notin> limit_key ` set us \<and> l \<in> set (get_limits ns st))"
  using assms
proof (induction us arbitrary: st rule: rev_induct)
  case (snoc u us)
  let ?st = "fold (\<lambda>l st. snd (update_limit l st)) us st"
  have wf: "limits_wf ?st" by (rule update_many(1) [OF snoc.prems(1)])
  from snoc.prems(3) have "l \<in> set (get_limits ns (snd (update_limit u ?st)))" by simp
  from update_limit_members [OF wf this] show ?case
  proof (cases "limit_key l = limit_key u")
    case True
    with update_limit_members [OF wf \<open>l \<in> set (get_limits ns (snd (update_limit u ?st)))\<close>]
    show ?thesis by auto
  next
    case False
    with update_limit_members [OF wf \<open>l \<in> set (get_limits ns (snd (update_limit u ?st)))\<close>]
    have "l \<in> set (get_limits ns ?st)" by simp
    with snoc.IH [OF snoc.prems(1)] snoc.prems(2) False show ?thesis by auto
  qed
qed simp

lemma update_many_elsewhere:
  assumes "ns \<notin> namespace ` set us"
  shows "get_limits ns (fold (\<lambda>l st. snd (update_limit l st)) us st) = get_limits ns st"
  using assms
proof (induction us arbitrary: st)
  case (Cons u us)
  then show ?case using update_limit_elsewhere [of ns u st] by simp
qed simp

section \<open>Reconfiguring\<close>

text \<open>What a reconfiguration makes of a namespace that had the limits \<open>old\<close>: it has one limit for each key of
  \<open>given\<close>, with the maximum and the name that the update loop gives it.  The loop runs over the union of
  the two sets, which yields the larger one, and of the other only the keys that the larger lacks: so the
  given limit counts, unless the namespace had more limits than are given, and then the limit it had
  before does where it had one.\<close>

definition installed :: "'e limit list \<Rightarrow> 'e limit list \<Rightarrow> 'e limit list \<Rightarrow> bool" where
  "installed given old now \<longleftrightarrow>
     limit_key ` set now = limit_key ` set given \<and>
     (\<forall>l\<in>set now. \<exists>u.
        hset_get limit_key (limit_key l) (if length old \<le> length given then given else old @ given) = Some u \<and>
        max_value l = max_value u \<and> limit_name l = limit_name u)"

lemma installed_keys:
  "installed (hset_collect limit_key (filter P ls)) old now \<Longrightarrow> limit_key ` set now = limit_key ` {l \<in> set ls. P l}"
  by (simp add: installed_def hset_collect_keys(1))

lemma hset_get_append:
  "hset_get f k (xs @ ys) = (case hset_get f k xs of None \<Rightarrow> hset_get f k ys | r \<Rightarrow> r)"
  by (induction xs) (auto simp: hset_get_def)

lemma hset_get_cong:
  assumes "distinct (map f xs)" "distinct (map f ys)" "set xs = set ys"
  shows "hset_get f k xs = hset_get f k ys"
proof (cases "k \<in> f ` set xs")
  case True
  then obtain x where "x \<in> set xs" "k = f x" by blast
  with assms show ?thesis by (simp add: hset_get_member)
next
  case False
  with assms(3) show ?thesis by (metis hset_get_None)
qed

lemma hset_get_union:
  assumes "distinct (map f xs)" "distinct (map f ys)" "u \<in> set (hset_union f xs ys)" "f u \<in> f ` set xs"
  shows "hset_get f (f u) (if length ys \<le> length xs then xs else ys @ xs) = Some u"
proof (cases "length ys \<le> length xs")
  case True
  with assms(3,4) have "u \<in> set xs" by (auto simp: hset_union_def hset_difference_def)
  with True assms(1) show ?thesis by (simp add: hset_get_member)
next
  case False
  show ?thesis
  proof (cases "u \<in> set ys")
    case True
    with False assms(2) show ?thesis by (simp add: hset_get_append hset_get_member)
  next
    case False
    with \<open>\<not> length ys \<le> length xs\<close> assms(3) have "u \<in> set xs" "f u \<notin> f ` set ys"
      by (auto simp: hset_union_def hset_difference_def)
    with \<open>\<not> length ys \<le> length xs\<close> assms(1) hset_get_None [of f "f u" ys] show ?thesis
      by (simp add: hset_get_append hset_get_member)
  qed
qed

lemma installed_cong:
  assumes "distinct (map limit_key old)" "distinct (map limit_key old')" "set old = set old'"
    and "set now = set now'"
  shows "installed given old now \<longleftrightarrow> installed given old' now'"
proof -
  have "length old = length old'" using assms(1-3) by (metis distinct_card distinct_map)
  then show ?thesis
    using hset_get_cong [OF assms(1-3)] assms(4) by (simp add: installed_def hset_get_append)
qed

lemma update_union_installed:
  fixes ns :: string
  assumes "limits_wf st" "distinct (map limit_key keep)" "distinct (map limit_key old)"
  defines "now \<equiv> get_limits ns (fold (\<lambda>l st. snd (update_limit l st)) (hset_union limit_key keep old) st)"
  assumes "limit_key ` set now = limit_key ` set keep"
  shows "installed keep old now"
  unfolding installed_def
proof (intro conjI ballI)
  let ?us = "hset_union limit_key keep old"
  fix l assume l: "l \<in> set now"
  then have key: "limit_key l \<in> limit_key ` set keep" using assms(5) by blast
  then have "limit_key l \<in> limit_key ` set ?us" by (simp add: hset_union_keys)
  with update_many_member [OF assms(1) hset_union_distinct [OF assms(2,3)] l [unfolded now_def]] obtain u where
    u: "u \<in> set ?us" "limit_key u = limit_key l" "max_value l = max_value u" "limit_name l = limit_name u"
    by blast
  from hset_get_union [OF assms(2,3) u(1)] u(2) key
  show "\<exists>u. hset_get limit_key (limit_key l) (if length old \<le> length keep then keep else old @ keep) = Some u \<and>
      max_value l = max_value u \<and> limit_name l = limit_name u"
    using u(3,4) by auto
qed (rule assms(5))

context administered_store
begin

lemma configure_one:
  assumes sound: "sound rl" and keep: "classify_inv ls keep"
  shows "\<exists>rl'. configure_namespace cs env keep ns rl = Some (Inr (), rl') \<and> sound rl' \<and>
    installed (classified keep ns) (get_limits ns (storage rl)) (get_limits ns (storage rl')) \<and>
    (\<forall>ns'. ns' \<noteq> ns \<longrightarrow> set (get_limits ns' (storage rl')) = set (get_limits ns' (storage rl))) \<and>
    (\<forall>k. content (counters (storage rl)) k \<noteq> None \<longrightarrow>
       (ck_limit k \<in> registered rl ns \<longrightarrow> ck_limit k \<in> limit_key ` set (classified keep ns)) \<longrightarrow>
       content (counters (storage rl')) k = content (counters (storage rl)) k)"
proof -
  let ?in = "get_limits ns (storage rl)" and ?keep = "classified keep ns"
  let ?del = "hset_difference limit_key ?in ?keep" and ?add = "hset_difference limit_key ?keep ?in"
  let ?upd = "hset_union limit_key ?keep ?in"
  have wf: "limits_wf (storage rl)" using sound by (simp add: sound_def)
  have in_d: "distinct (map limit_key ?in)" by (rule limits_wf_get(1) [OF wf])
  have keep_d: "distinct (map limit_key ?keep)" and keep_ns: "\<forall>l\<in>set ?keep. namespace l = ns"
    using keep by (auto simp: classify_inv_def)
  have in_ns: "\<forall>l\<in>set ?in. namespace l = ns" using limits_wf_get(2) [OF wf] by simp
  from delete_many [OF sound, of env ?del] obtain r1 where
    r1: "try_each (limiter_delete_limit cs env) ?del rl = Some (Inr (), r1)" "sound r1"
      "\<And>ns. set (get_limits ns (storage r1)) =
         {x \<in> set (get_limits ns (storage rl)). limit_key x \<notin> limit_key ` set ?del}"
      "\<And>k. content (counters (storage r1)) k =
         (if ck_limit k \<in> limit_key ` set ?del then None else content (counters (storage rl)) k)"
    by blast
  from add_many [OF r1(2), of env ?add] obtain r2 where
    r2: "fold_panic (\<lambda>l rl. map_option snd (limiter_add_limit cs env l rl)) ?add r1 = Some r2" "sound r2"
      "\<And>ns. registered r2 ns = registered r1 ns \<union> limit_key ` {d \<in> set ?add. namespace d = ns}"
      "\<And>ns. ns \<notin> namespace ` set ?add \<Longrightarrow> get_limits ns (storage r2) = get_limits ns (storage r1)"
      "\<And>k. content (counters (storage r1)) k \<noteq> None \<Longrightarrow>
         content (counters (storage r2)) k = content (counters (storage r1)) k"
    by blast
  let ?rl' = "r2\<lparr>storage := fold (\<lambda>l st. snd (update_limit l st)) ?upd (storage r2)\<rparr>"
  have wf2: "limits_wf (storage r2)" using r2(2) by (simp add: sound_def)
  note upd = update_many [OF wf2, where us = ?upd]
  have run: "configure_namespace cs env keep ns rl = Some (Inr (), ?rl')"
    using r1(1) r2(1) hset_collect_id [OF in_d]
    by (simp add: configure_namespace_def limiter_get_limits_def classified_def [symmetric])
  have reg1: "registered r1 ns = limit_key ` set ?in \<inter> limit_key ` set ?keep"
    using r1(3) [of ns] by (auto simp: registered_def hset_difference_def)
  have reg: "registered ?rl' ns = limit_key ` set ?keep"
  proof -
    have "registered ?rl' ns = registered r1 ns \<union> limit_key ` {d \<in> set ?add. namespace d = ns}"
      using upd(3) [of ns] r2(3) [of ns] by (simp add: registered_def)
    also have "{d \<in> set ?add. namespace d = ns} = set ?add"
      using keep_ns by (auto simp: hset_difference_def)
    finally show ?thesis using reg1 by (auto simp: hset_difference_def)
  qed
  have "installed ?keep ?in (get_limits ns (storage ?rl'))"
    using update_union_installed [OF wf2 keep_d in_d, of ns] reg by (simp add: registered_def)
  moreover have "set (get_limits ns' (storage ?rl')) = set (get_limits ns' (storage rl))"
    if "ns' \<noteq> ns" for ns'
  proof -
    have "ns' \<notin> namespace ` set ?upd" "ns' \<notin> namespace ` set ?add"
      using that keep_ns in_ns by (auto simp: hset_union_def hset_difference_def)
    then have "get_limits ns' (storage ?rl') = get_limits ns' (storage r1)"
      using update_many_elsewhere [of ns' ?upd "storage r2"] r2(4) [of ns'] by simp
    moreover have "limit_key x \<notin> limit_key ` set ?del" if x: "x \<in> set (get_limits ns' (storage rl))" for x
      using same_key_namespace [OF wf x] in_ns \<open>ns' \<noteq> ns\<close> by (auto simp: hset_difference_def)
    ultimately show ?thesis using r1(3) [of ns'] by auto
  qed
  moreover have "content (counters (storage ?rl')) k = content (counters (storage rl)) k"
    if "content (counters (storage rl)) k \<noteq> None"
      "ck_limit k \<in> registered rl ns \<longrightarrow> ck_limit k \<in> limit_key ` set ?keep" for k
  proof -
    have "ck_limit k \<notin> limit_key ` set ?del"
      using that(2) by (simp add: hset_difference_keys registered_def)
    with that(1) r1(4) [of k] r2(5) [of k] upd(2) show ?thesis by simp
  qed
  moreover have "sound ?rl'" using upd(1,2) r2(2) by (simp add: sound_def)
  ultimately show ?thesis using run by blast
qed

lemma configure_many:
  assumes "sound rl" "classify_inv ls keep" "distinct nss"
  shows "\<exists>rl'. try_each (configure_namespace cs env keep) nss rl = Some (Inr (), rl') \<and> sound rl' \<and>
    (\<forall>ns\<in>set nss.
       installed (classified keep ns) (get_limits ns (storage rl)) (get_limits ns (storage rl'))) \<and>
    (\<forall>ns. ns \<notin> set nss \<longrightarrow> set (get_limits ns (storage rl')) = set (get_limits ns (storage rl))) \<and>
    (\<forall>k. content (counters (storage rl)) k \<noteq> None \<longrightarrow>
       (\<forall>ns\<in>set nss. ck_limit k \<in> registered rl ns \<longrightarrow> ck_limit k \<in> limit_key ` set (classified keep ns)) \<longrightarrow>
       content (counters (storage rl')) k = content (counters (storage rl)) k)"
  using assms(1,3)
proof (induction nss arbitrary: rl)
  case (Cons n nss)
  from configure_one [OF Cons.prems(1) assms(2), of env n] obtain r1 where
    r1: "configure_namespace cs env keep n rl = Some (Inr (), r1)" "sound r1"
      "installed (classified keep n) (get_limits n (storage rl)) (get_limits n (storage r1))"
      "\<And>ns. ns \<noteq> n \<Longrightarrow> set (get_limits ns (storage r1)) = set (get_limits ns (storage rl))"
      "\<And>k. content (counters (storage rl)) k \<noteq> None \<Longrightarrow>
         (ck_limit k \<in> registered rl n \<longrightarrow> ck_limit k \<in> limit_key ` set (classified keep n)) \<Longrightarrow>
         content (counters (storage r1)) k = content (counters (storage rl)) k"
    by blast
  from Cons.IH [OF r1(2)] Cons.prems(2) obtain r2 where
    r2: "try_each (configure_namespace cs env keep) nss r1 = Some (Inr (), r2)" "sound r2"
      "\<And>ns. ns \<in> set nss \<Longrightarrow>
         installed (classified keep ns) (get_limits ns (storage r1)) (get_limits ns (storage r2))"
      "\<And>ns. ns \<notin> set nss \<Longrightarrow> set (get_limits ns (storage r2)) = set (get_limits ns (storage r1))"
      "\<And>k. content (counters (storage r1)) k \<noteq> None \<Longrightarrow>
         (\<forall>ns\<in>set nss. ck_limit k \<in> registered r1 ns \<longrightarrow> ck_limit k \<in> limit_key ` set (classified keep ns)) \<Longrightarrow>
         content (counters (storage r2)) k = content (counters (storage r1)) k"
    by (metis distinct.simps(2))
  have n: "n \<notin> set nss" using Cons.prems(2) by simp
  have dist: "distinct (map limit_key (get_limits ns (storage r1)))"
      "distinct (map limit_key (get_limits ns (storage rl)))" for ns
    using limits_wf_get(1) [of "storage r1" ns] limits_wf_get(1) [of "storage rl" ns] r1(2)
      Cons.prems(1) by (simp_all add: sound_def)
  have "installed (classified keep ns) (get_limits ns (storage rl)) (get_limits ns (storage r2))"
    if "ns \<in> set (n # nss)" for ns
  proof (cases "ns = n")
    case True
    with r1(3) installed_cong [OF dist(2) dist(2) refl r2(4) [OF n]] show ?thesis by simp
  next
    case False
    with that r2(3) [of ns] installed_cong [OF dist(1,2) r1(4) [OF False] refl] show ?thesis by simp
  qed
  moreover have "set (get_limits ns (storage r2)) = set (get_limits ns (storage rl))"
    if "ns \<notin> set (n # nss)" for ns
    using that r1(4) [of ns] r2(4) [of ns] by simp
  moreover have "content (counters (storage r2)) k = content (counters (storage rl)) k"
    if "content (counters (storage rl)) k \<noteq> None" and
      "\<forall>ns\<in>set (n # nss). ck_limit k \<in> registered rl ns \<longrightarrow> ck_limit k \<in> limit_key ` set (classified keep ns)" for k
  proof -
    have "content (counters (storage r1)) k = content (counters (storage rl)) k"
      using r1(5) [OF that(1)] that(2) by simp
    moreover have "\<forall>ns\<in>set nss. ck_limit k \<in> registered r1 ns \<longrightarrow> ck_limit k \<in> limit_key ` set (classified keep ns)"
    proof
      fix ns assume ns: "ns \<in> set nss"
      with n r1(4) [of ns] have "registered r1 ns = registered rl ns" by (auto simp: registered_def)
      with that(2) ns show "ck_limit k \<in> registered r1 ns \<longrightarrow> ck_limit k \<in> limit_key ` set (classified keep ns)"
        by simp
    qed
    ultimately show ?thesis using r2(5) [of k] that(1) by simp
  qed
  ultimately show ?case using r1(1) r2(1,2) by simp
qed simp

lemma configure_all:
  assumes sound: "sound rl"
  shows "\<exists>rl'. configure_with cs env ls rl = Some (Inr (), rl') \<and> sound rl' \<and>
    (\<forall>ns. installed (hset_collect limit_key (filter (\<lambda>l. namespace l = ns) ls))
       (get_limits ns (storage rl)) (get_limits ns (storage rl'))) \<and>
    (\<forall>k. content (counters (storage rl)) k \<noteq> None \<longrightarrow> ck_limit k \<in> limit_key ` set ls \<longrightarrow>
       content (counters (storage rl')) k = content (counters (storage rl)) k)"
proof -
  let ?keep = "classify_limits_by_namespace ls"
  let ?nss = "hset_union id (get_namespaces (storage rl)) (map fst ?keep)"
  have wf: "limits_wf (storage rl)" using sound by (simp add: sound_def)
  have inv: "classify_inv ls ?keep" by (rule classify_limits)
  then have keep: "\<And>ns. limit_key ` set (classified ?keep ns) = limit_key ` {l \<in> set ls. namespace l = ns}"
    "\<And>ns. distinct (map limit_key (classified ?keep ns))"
    "\<And>ns. set (classified ?keep ns) \<subseteq> {l \<in> set ls. namespace l = ns}"
    "fst ` set ?keep = namespace ` set ls" "distinct (map fst ?keep)"
    by (auto simp: classify_inv_def)
  have "distinct (map id ?nss)"
    using wf keep(5) by (intro hset_union_distinct) (simp_all add: limits_wf_def get_namespaces_def)
  then have dist: "distinct ?nss" by simp
  have nss: "set ?nss = set (get_namespaces (storage rl)) \<union> namespace ` set ls"
    using hset_union_keys [of id "get_namespaces (storage rl)" "map fst ?keep"] keep(4) by simp
  obtain rl' where
    run: "try_each (configure_namespace cs env ?keep) ?nss rl = Some (Inr (), rl')" "sound rl'"
    and regs: "\<forall>ns\<in>set ?nss.
         installed (classified ?keep ns) (get_limits ns (storage rl)) (get_limits ns (storage rl'))"
    and other: "\<forall>ns. ns \<notin> set ?nss \<longrightarrow>
         set (get_limits ns (storage rl')) = set (get_limits ns (storage rl))"
    and cont: "\<forall>k. content (counters (storage rl)) k \<noteq> None \<longrightarrow>
         (\<forall>ns\<in>set ?nss. ck_limit k \<in> registered rl ns \<longrightarrow> ck_limit k \<in> limit_key ` set (classified ?keep ns)) \<longrightarrow>
         content (counters (storage rl')) k = content (counters (storage rl)) k"
    using configure_many [OF sound inv dist, of env] by (elim exE conjE) (rule that; assumption)
  have "installed (hset_collect limit_key (filter (\<lambda>l. namespace l = ns) ls))
      (get_limits ns (storage rl)) (get_limits ns (storage rl'))" for ns
  proof (cases "ns \<in> set ?nss")
    case True
    with regs show ?thesis by (simp add: classified_given)
  next
    case False
    then have "get_limits ns (storage rl') = []" "filter (\<lambda>l. namespace l = ns) ls = []"
      using other [rule_format, OF False] get_namespaces_iff [OF wf, of ns] by (auto simp: nss filter_empty_conv)
    then show ?thesis by (simp add: installed_def hset_collect_def)
  qed
  moreover have "content (counters (storage rl')) k = content (counters (storage rl)) k"
    if "content (counters (storage rl)) k \<noteq> None" "ck_limit k \<in> limit_key ` set ls" for k
  proof (rule cont [rule_format, OF that(1)])
    fix ns assume "ns \<in> set ?nss" "ck_limit k \<in> registered rl ns"
    then obtain x where x: "x \<in> set (get_limits ns (storage rl))" "limit_key x = ck_limit k"
      by (auto simp: registered_def)
    from that(2) obtain l where l: "l \<in> set ls" "limit_key l = ck_limit k" by auto
    with same_key_namespace [OF wf x(1), of l] x(2) have "namespace l = ns" by simp
    with l show "ck_limit k \<in> limit_key ` set (classified ?keep ns)" unfolding keep(1)
      by (metis (mono_tags, lifting) imageI mem_Collect_eq)
  qed
  ultimately show ?thesis using run by (simp add: configure_with_def)
qed

end

end
