(* ===== verification/MemoryStore.thy ===== *)
theory MemoryStore
  imports Admission Backend Configure
begin

text \<open>
  The in-memory storage behind the limiter: \<^verbatim>\<open>impl CounterStorage for InMemoryStorage\<close> as a method
  table, and the proofs that it satisfies the contracts of \<open>Backend\<close> and \<open>Configure\<close>.
\<close>

section \<open>The method table\<close>

definition memory_storage :: "'e cel \<Rightarrow> (mem_env, 'e in_memory, 'e) counter_storage" where
  "memory_storage cel =
     \<lparr>cs_is_within_limits = (\<lambda>env c d s. Some (Inr (is_within_limits env c d s), s)),
      cs_add_counter = (\<lambda>env l s. Some (Inr (), add_counter l s)),
      cs_update_counter = (\<lambda>env c d s. map_option (Pair (Inr ())) (update_counter env c d s)),
      cs_check = (\<lambda>env cs d s. Some (check env cs d s)),
      cs_check_and_update = check_and_update,
      cs_get_counters = (\<lambda>env ls s. map_option (\<lambda>cs. (Inr cs, s)) (get_counters cel env ls s)),
      cs_delete_counters = (\<lambda>env ls s. Some (Inr (), delete_counters ls s)),
      cs_clear = (\<lambda>env s. Some (Inr (), clear s)),
      cs_reserve = reserve,
      cs_release_reservation = (\<lambda>env cs rid s. Some (release_reservation env cs rid s))\<rparr>"

lemma memory_storage_simps [simp]:
  "cs_is_within_limits (memory_storage cel) env c d s = Some (Inr (is_within_limits env c d s), s)"
  "cs_add_counter (memory_storage cel) env l s = Some (Inr (), add_counter l s)"
  "cs_update_counter (memory_storage cel) env c d s =
     map_option (Pair (Inr ())) (update_counter env c d s)"
  "cs_check (memory_storage cel) env cs d s = Some (check env cs d s)"
  "cs_check_and_update (memory_storage cel) env cs d s = check_and_update env cs d s"
  "cs_get_counters (memory_storage cel) env ls s =
     map_option (\<lambda>cs. (Inr cs, s)) (get_counters cel env ls s)"
  "cs_delete_counters (memory_storage cel) env ls s = Some (Inr (), delete_counters ls s)"
  "cs_clear (memory_storage cel) env s = Some (Inr (), clear s)"
  "cs_reserve (memory_storage cel) env cs rid a h ttl s = reserve env cs rid a h ttl s"
  "cs_release_reservation (memory_storage cel) env cs rid s =
     Some (release_reservation env cs rid s)"
  by (simp_all add: memory_storage_def)

section \<open>It is a counter store\<close>

lemma annotated_annotates: "annotated s now c c' \<Longrightarrow> annotates (usage s now) c c'"
  by (simp add: annotated_def annotates_def)

lemma fits_admits: "fits s now delta c = admits (usage s now) delta c"
  by (simp add: fits_def admits_def)

lemma bumped_used:
  "bumped env d K s s' \<Longrightarrow>
   \<forall>k. \<not> env_evicts env k \<longrightarrow>
     usage s' (env_now env) k = usage s (env_now env) k + (if k \<in> K then d else 0)"
  by (simp add: bumped_def)

interpretation mem: reporting_store "memory_storage cel" "\<lambda>env s. usage s (env_now env)"
  "\<lambda>env cs d s. call_ok env cs" "\<lambda>env k. \<not> env_evicts env k" for cel :: "'e cel"
proof unfold_locales
  fix env :: mem_env and cs :: "'e counter list" and d and s :: "'e in_memory"
  assume ok: "call_ok env cs"
  let ?u = "usage s (env_now env)"
  have ann: "list_all2 (annotates ?u) cs (snd (evaluate env cs d s))"
    using evaluate_result(2) [of s env cs d] by (rule list.rel_mono_strong) (rule annotated_annotates)
  have "fst (evaluate env cs d s) = AuthOk \<longleftrightarrow> (\<forall>c\<in>set cs. admits ?u d c)"
    by (simp add: evaluate_result(1) fits_admits)
  with ann show "\<exists>a cs' s'. cs_check (memory_storage cel) env cs d s = Some ((Inr a, cs'), s') \<and>
      (a = AuthOk \<longleftrightarrow> (\<forall>c\<in>set cs. admits ?u d c)) \<and> list_all2 (annotates ?u) cs cs' \<and>
      (\<forall>k. \<not> env_evicts env k \<longrightarrow> usage s' (env_now env) k = ?u k)"
    by (simp add: check_def case_prod_unfold Let_def)
  show "\<exists>a cs' s'. cs_check_and_update (memory_storage cel) env cs d s = Some ((Inr a, cs'), s') \<and>
      (a = AuthOk \<longleftrightarrow> (\<forall>c\<in>set cs. admits ?u d c)) \<and> list_all2 (annotates ?u) cs cs' \<and>
      (\<forall>k. \<not> env_evicts env k \<longrightarrow> usage s' (env_now env) k =
         ?u k + (if a = AuthOk \<and> k \<in> counter_key ` set cs then d else 0))"
  proof (cases "\<forall>c\<in>set cs. fits s (env_now env) d c")
    case True
    from check_and_update_admitted [OF ok this] obtain cs' s' where
      r: "check_and_update env cs d s = Some ((Inr AuthOk, cs'), s')"
        "list_all2 (annotated s (env_now env)) cs cs'" "bumped env d (counter_key ` set cs) s s'"
      by blast
    from r(2) have "list_all2 (annotates ?u) cs cs'"
      by (rule list.rel_mono_strong) (rule annotated_annotates)
    with r(1) bumped_used [OF r(3)] True show ?thesis by (simp add: fits_admits)
  next
    case False
    then have full: "\<exists>c\<in>set cs. \<not> fits s (env_now env) d c" by blast
    from check_and_update_denied [OF ok full] obtain nm cs' s' where
      r: "check_and_update env cs d s = Some ((Inr (Limited nm), cs'), s')"
        "list_all2 (annotated s (env_now env)) cs cs'" "bumped env d {} s s'"
      by blast
    from r(2) have "list_all2 (annotates ?u) cs cs'"
      by (rule list.rel_mono_strong) (rule annotated_annotates)
    with r(1) bumped_used [OF r(3)] False show ?thesis by (simp add: fits_admits)
  qed
  show "\<not> env_evicts env (counter_key c)" if "c \<in> set cs" for c
    using ok that by (simp add: call_ok_def)
next
  fix env :: mem_env and c and cs :: "'e counter list" and d and s :: "'e in_memory"
  assume ok: "call_ok env (c # cs)"
  then have c: "in_time (env_now env) c" "\<not> env_evicts env (counter_key c)" and "call_ok env cs"
    by (auto simp: call_ok_def)
  from update_counter_bumped [OF c, of d s] obtain s' where
    "update_counter env c d s = Some s'" "bumped env d {counter_key c} s s'" by blast
  with \<open>call_ok env cs\<close> bumped_used [of env d "{counter_key c}" s s']
  show "\<exists>s'. cs_update_counter (memory_storage cel) env c d s = Some (Inr (), s') \<and> call_ok env cs \<and>
      (\<forall>k. \<not> env_evicts env k \<longrightarrow>
         usage s' (env_now env) k = usage s (env_now env) k + (if k = counter_key c then d else 0))"
    by simp
qed

section \<open>It can be administered\<close>

text \<open>The invariant of the two maps: an unqualified entry belongs to a limit without variables, a
  qualified one to a counter of a limit that has some, each under its own key.\<close>

definition simple_entry :: "limit_key \<times> ('e limit \<times> 'v) \<Rightarrow> bool" where
  "simple_entry = (\<lambda>(k, l, v). k = limit_key l \<and> variables_set l = {})"

definition qualified_entry :: "counter_key \<times> ('e counter \<times> 'v) \<Rightarrow> bool" where
  "qualified_entry = (\<lambda>(k, c, v).
     k = counter_key c \<and> is_qualified c \<and> variables_set (limit c) \<noteq> {})"

definition mem_wf :: "'e in_memory \<Rightarrow> bool" where
  "mem_wf s \<longleftrightarrow>
     (\<forall>e\<in>set (simple_limits s). simple_entry e) \<and>
     (\<forall>e\<in>set (qualified_counters s). qualified_entry e) \<and>
     distinct (map fst (simple_limits s)) \<and> distinct (map fst (qualified_counters s))"

lemma mem_wf_new: "mem_wf in_memory_new"
  by (simp add: mem_wf_def in_memory_new_def)

lemma variables_set_key: "limit_key a = limit_key b \<Longrightarrow> variables_set a = variables_set b"
  using limit_key_fields(3) [of a b] by (metis list.set_map variables_set_def)

lemma mem_wf_simpleD:
  assumes "mem_wf s" "(k, l, v) \<in> set (simple_limits s)"
  shows "k = limit_key l" "variables_set l = {}"
proof -
  have "simple_entry (k, l, v)" using assms by (simp add: mem_wf_def)
  then show "k = limit_key l" "variables_set l = {}" by (simp_all add: simple_entry_def)
qed

lemma mem_wf_qualifiedD:
  assumes "mem_wf s" "(k, c, v) \<in> set (qualified_counters s)"
  shows "k = counter_key c" "is_qualified c" "variables_set (limit c) \<noteq> {}"
proof -
  have "qualified_entry (k, c, v)" using assms by (simp add: mem_wf_def)
  then show "k = counter_key c" "is_qualified c" "variables_set (limit c) \<noteq> {}"
    by (simp_all add: qualified_entry_def)
qed

lemma mem_wf_update_simple:
  assumes "mem_wf s" "variables_set l = {}"
  shows "mem_wf (s\<lparr>simple_limits := AList.update (limit_key l) (l, v) (simple_limits s)\<rparr>)"
proof -
  have "simple_entry (limit_key l, l, v)" using assms(2) by (simp add: simple_entry_def)
  with assms(1) have "\<forall>e\<in>set (AList.update (limit_key l) (l, v) (simple_limits s)). simple_entry e"
    by (intro ball_alist_update) (simp_all add: mem_wf_def)
  with assms(1) show ?thesis by (simp add: mem_wf_def distinct_update)
qed

lemma mem_wf_add_counter: "mem_wf s \<Longrightarrow> mem_wf (add_counter l s)"
  unfolding add_counter_def
  by (auto intro: mem_wf_update_simple split: option.split)

lemma stored_add_counter:
  assumes "stored (add_counter l s) k \<noteq> stored s k"
  shows "stored s k = None \<and> ck_limit k = limit_key l"
  using assms by (auto simp: add_counter_def stored_def assoc_simps split: option.splits if_splits)

lemma mem_wf_delete_one: "mem_wf s \<Longrightarrow> mem_wf (delete_counters_of_limit l s)"
  using ball_alist_delete [of "simple_limits s" simple_entry "limit_key l"]
  by (simp add: mem_wf_def delete_counters_of_limit_def distinct_delete distinct_keys_filter)

lemma stored_delete_one:
  assumes "mem_wf s"
  shows "stored (delete_counters_of_limit l s) k =
    (if ck_limit k = limit_key l then None else stored s k)"
proof (cases "variables_set l = {}")
  case True
  have "stored s k = None" if "ck_limit k = limit_key l" "ck_variables k \<noteq> []"
  proof (rule ccontr)
    assume "stored s k \<noteq> None"
    with that(2) obtain c v where "(k, c, v) \<in> set (qualified_counters s)"
      by (auto simp: stored_def dest: map_of_SomeD)
    note mem_wf_qualifiedD [OF assms this]
    with True that variables_set_key [of "limit c" l] show False by (auto simp: counter_key_def)
  qed
  with True show ?thesis
    by (cases "ck_variables k = []") (simp_all add: delete_counters_of_limit_def stored_def assoc_simps)
next
  case False
  have "stored s k = None" if "ck_limit k = limit_key l" "ck_variables k = []"
  proof (rule ccontr)
    assume "stored s k \<noteq> None"
    with that(2) obtain x v where "(ck_limit k, x, v) \<in> set (simple_limits s)"
      by (auto simp: stored_def dest: map_of_SomeD)
    note mem_wf_simpleD [OF assms this]
    with False that variables_set_key [of x l] show False by auto
  qed
  moreover have "map_of (filter (\<lambda>(_, c, _). \<not> limit_eq (limit c) l) (qualified_counters s)) k =
      (if ck_limit k = limit_key l then None else map_of (qualified_counters s) k)"
  proof -
    have "filter (\<lambda>(_, c, _). \<not> limit_eq (limit c) l) (qualified_counters s) =
        filter (\<lambda>p. ck_limit (fst p) \<noteq> limit_key l) (qualified_counters s)"
      by (intro filter_cong refl)
        (auto simp: limit_eq_key counter_key_def dest!: mem_wf_qualifiedD(1) [OF assms])
    then show ?thesis by (simp add: map_of_filter_key [of "\<lambda>k. ck_limit k \<noteq> limit_key l"])
  qed
  ultimately show ?thesis using False
    by (cases "ck_variables k = []") (simp_all add: delete_counters_of_limit_def stored_def)
qed

lemma delete_counters_result:
  assumes "mem_wf s"
  shows "mem_wf (delete_counters ls s)"
    "stored (delete_counters ls s) k = (if ck_limit k \<in> limit_key ` set ls then None else stored s k)"
  using assms
  by (induction ls arbitrary: s)
    (simp_all add: delete_counters_def mem_wf_delete_one stored_delete_one)

interpretation mem_admin: administered_store "memory_storage cel" mem_wf stored for cel :: "'e cel"
proof unfold_locales
  fix env :: mem_env and l :: "'e limit" and ls and s :: "'e in_memory"
  assume wf: "mem_wf s"
  have "stored (add_counter l s) k = stored s k"
    if "stored s k \<noteq> None \<or> ck_limit k \<noteq> limit_key l" for k
    using stored_add_counter [of l s k] that by blast
  with mem_wf_add_counter [OF wf, of l]
  show "\<exists>s'. cs_add_counter (memory_storage cel) env l s = Some (Inr (), s') \<and> mem_wf s' \<and>
      (\<forall>k. stored s k \<noteq> None \<longrightarrow> stored s' k = stored s k) \<and>
      (\<forall>k. ck_limit k \<noteq> limit_key l \<longrightarrow> stored s' k = stored s k)"
    by simp
  show "\<exists>s'. cs_delete_counters (memory_storage cel) env ls s = Some (Inr (), s') \<and> mem_wf s' \<and>
      (\<forall>k. stored s' k = (if ck_limit k \<in> limit_key ` set ls then None else stored s k))"
    using delete_counters_result [OF wf, of ls] by simp
qed

section \<open>Every operation keeps the invariant\<close>

text \<open>The counters the limiter makes: qualified exactly when their limit has variables.\<close>

definition counter_wf :: "'e counter \<Rightarrow> bool" where
  "counter_wf c \<longleftrightarrow> (is_qualified c \<longleftrightarrow> variables_set (limit c) \<noteq> {})"

lemma counter_new_wf:
  "limit_wf l \<Longrightarrow> counter_new cel l ctx = Inr (Some c) \<Longrightarrow> counter_wf c"
  using counter_new_qualified [of l cel ctx c] counter_new_limit [of cel l ctx c]
  by (simp add: counter_wf_def variables_set_def)

lemma counter_wf_annotate [simp]: "counter_wf (annotate v ttl c) = counter_wf c"
  by (simp add: counter_wf_def annotate_def Let_def)

lemma update_handle_keeps:
  assumes "update_handle now d ttl k al = Some al'"
    and "\<forall>e\<in>set al. P e" "\<And>k x v v'. P (k, x, v) \<Longrightarrow> P (k, x, v')"
  shows "\<forall>e\<in>set al'. P e"
proof -
  consider "al' = al" | x v v' where "map_of al k = Some (x, v)" "al' = AList.update k (x, v') al"
    using assms(1) by (auto simp: update_handle_def bind_eq_Some_conv split: option.splits)
  then show ?thesis
  proof cases
    case 2
    have "P (k, x, v')" using assms(2,3) map_of_SomeD [OF 2(1)] by blast
    with assms(2) 2(2) show ?thesis by (auto intro: ball_alist_update [rule_format])
  qed (use assms(2) in simp)
qed

lemma update_handle_distinct:
  "update_handle now d ttl k al = Some al' \<Longrightarrow> distinct (map fst al) \<Longrightarrow> distinct (map fst al')"
  by (auto simp: update_handle_def bind_eq_Some_conv distinct_update split: option.splits)

lemma simple_entry_value: "simple_entry (k, l, v) \<Longrightarrow> simple_entry (k, l, v')"
  by (simp add: simple_entry_def)

lemma qualified_entry_value: "qualified_entry (k, c, v) \<Longrightarrow> qualified_entry (k, c, v')"
  by (simp add: qualified_entry_def)

lemma mem_wf_update_simple_handle:
  assumes "mem_wf s" "update_handle now d ttl k (simple_limits s) = Some ls"
  shows "mem_wf (s\<lparr>simple_limits := ls\<rparr>)"
proof -
  have "\<forall>e\<in>set ls. simple_entry e"
    by (rule update_handle_keeps [where P = simple_entry, OF assms(2) _ simple_entry_value])
      (use assms(1) in \<open>simp add: mem_wf_def\<close>)
  with update_handle_distinct [OF assms(2)] assms(1) show ?thesis by (simp add: mem_wf_def)
qed

lemma mem_wf_update_qualified_handle:
  assumes "mem_wf s" "update_handle now d ttl k (qualified_counters s) = Some qs"
  shows "mem_wf (s\<lparr>qualified_counters := qs\<rparr>)"
proof -
  have "\<forall>e\<in>set qs. qualified_entry e"
    by (rule update_handle_keeps [where P = qualified_entry, OF assms(2) _ qualified_entry_value])
      (use assms(1) in \<open>simp add: mem_wf_def\<close>)
  with update_handle_distinct [OF assms(2)] assms(1) show ?thesis by (simp add: mem_wf_def)
qed

lemma mem_wf_get_or_create:
  assumes "mem_wf s" "counter_wf c" "is_qualified c" "get_or_create env c s = Some (v, s')"
  shows "mem_wf s'"
proof -
  have "qualified_entry (counter_key c, c, x)" for x :: atomic_value
    using assms(2,3) by (simp add: qualified_entry_def counter_wf_def)
  with assms(1) have "\<forall>e\<in>set (cache_insert (env_evicts env) (counter_key c) (c, x)
      (qualified_counters s)). qualified_entry e" for x :: atomic_value
    by (intro ball_cache_insert) (simp_all add: mem_wf_def)
  then have "mem_wf (s\<lparr>qualified_counters :=
      cache_insert (env_evicts env) (counter_key c) (c, x) (qualified_counters s)\<rparr>)" for x
    using assms(1) by (simp add: mem_wf_def)
  with assms(1,4) show ?thesis
    by (auto simp: get_or_create_def bind_eq_Some_conv Let_def split: option.splits)
qed

lemma mem_wf_update_counter:
  assumes "mem_wf s" "counter_wf c" "update_counter env c d s = Some s'"
  shows "mem_wf s'"
proof (cases "is_qualified c")
  case True
  with assms(3) obtain v s1 qs where
    "get_or_create env c s = Some (v, s1)"
    "update_handle (env_now env) d (window c) (counter_key c) (qualified_counters s1) = Some qs"
    "s' = s1\<lparr>qualified_counters := qs\<rparr>"
    by (auto simp: update_counter_def bind_eq_Some_conv Let_def)
  with mem_wf_get_or_create [OF assms(1,2) True] mem_wf_update_qualified_handle show ?thesis by blast
next
  case False
  then have "variables_set (limit c) = {}" using assms(2) by (simp add: counter_wf_def)
  with False assms mem_wf_update_simple_handle [OF assms(1)] mem_wf_update_simple [OF assms(1)]
  show ?thesis by (auto simp: update_counter_def bind_eq_Some_conv Let_def split: option.splits)
qed

lemma fold_panic_keeps:
  assumes "\<And>x s s'. x \<in> set xs \<Longrightarrow> I s \<Longrightarrow> f x s = Some s' \<Longrightarrow> I s'"
  shows "I s \<Longrightarrow> fold_panic f xs s = Some s' \<Longrightarrow> I s'"
  using assms by (induction xs arbitrary: s) (auto simp: bind_eq_Some_conv)

lemma map_panic_keeps:
  assumes "\<And>x y s s'. x \<in> set xs \<Longrightarrow> I s \<Longrightarrow> f x s = Some (y, s') \<Longrightarrow> I s'"
  shows "I s \<Longrightarrow> map_panic f xs s = Some (ys, s') \<Longrightarrow> I s'"
  using assms by (induction xs arbitrary: s ys) (auto simp: bind_eq_Some_conv, blast)

lemma mem_wf_visit:
  "mem_wf s \<Longrightarrow> counter_wf c \<Longrightarrow> visit env c s = Some (row, s') \<Longrightarrow> mem_wf s' \<and> fst row = c"
  using mem_wf_get_or_create [of s c env]
  by (auto simp: visit_def bind_eq_Some_conv Let_def split: if_splits option.splits)

lemma map_panic_visit_rows:
  assumes "map_panic (visit env) cs s = Some (rows, s')" shows "map fst rows = cs"
  using assms
proof (induction cs arbitrary: s rows)
  case (Cons c cs)
  then obtain row t rows' where
    "visit env c s = Some (row, t)" "map_panic (visit env) cs t = Some (rows', s')" "rows = row # rows'"
    by (auto simp: bind_eq_Some_conv)
  moreover from this(1) have "fst row = c"
    by (auto simp: visit_def bind_eq_Some_conv Let_def split: if_splits option.splits)
  ultimately show ?case using Cons.IH by simp
qed simp

lemma mem_wf_check_and_update:
  assumes wf: "mem_wf s" and cs: "\<forall>c\<in>set cs. counter_wf c"
    and run: "check_and_update env cs d s = Some (r, s')"
  shows "mem_wf s'"
proof -
  from run obtain rows s0 where rows: "map_panic (visit env) cs s = Some (rows, s0)"
    by (auto simp: check_and_update_def bind_eq_Some_conv Let_def)
  have wf0: "mem_wf s0"
    by (rule map_panic_keeps [where I = mem_wf, OF _ wf rows]) (use mem_wf_visit cs in blast)
  let ?simple = "map fst (filter (\<lambda>(c, _, _, found). found \<and> \<not> is_qualified c) rows)"
  let ?qual = "map fst (filter (\<lambda>(c, _, _, found). found \<and> is_qualified c) rows)"
  let ?new = "map (\<lambda>(c, v, ttl, _). annotate v ttl c) (filter (\<lambda>(_, _, _, found). \<not> found) rows)"
  have new: "\<forall>c\<in>set ?new. counter_wf c"
  proof
    fix c assume "c \<in> set ?new"
    then obtain row where row: "row \<in> set rows" "c = (\<lambda>(c, v, ttl, _). annotate v ttl c) row" by auto
    then have "fst row \<in> set cs" unfolding map_panic_visit_rows [OF rows, symmetric] by simp
    with cs row(2) show "counter_wf c" by (cases row) auto
  qed
  from run rows consider "s' = s0"
    | s1 s2 where "fold_panic (update_simple (env_now env) d) ?simple s0 = Some s1"
      "fold_panic (update_qualified (env_now env) d) ?qual s1 = Some s2"
      "fold_panic (\<lambda>c. update_counter env c d) ?new s2 = Some s'"
    by (auto simp: check_and_update_def bind_eq_Some_conv Let_def split: option.splits)
  then show ?thesis
  proof cases
    case 2
    have 1: "mem_wf s1"
      by (rule fold_panic_keeps [where I = mem_wf, OF _ wf0 2(1)])
        (auto simp: update_simple_def bind_eq_Some_conv intro: mem_wf_update_simple_handle)
    have 3: "mem_wf s2"
      by (rule fold_panic_keeps [where I = mem_wf, OF _ 1 2(2)])
        (auto simp: update_qualified_def bind_eq_Some_conv intro: mem_wf_update_qualified_handle)
    show ?thesis
      by (rule fold_panic_keeps [where I = mem_wf, OF _ 3 2(3)]) (use new mem_wf_update_counter in blast)
  qed (use wf0 in simp)
qed

lemma mem_wf_touch:
  assumes "mem_wf s" "counter_wf c" "touch env c s = Some (vt, s')"
  shows "mem_wf s'"
proof (cases "is_qualified c")
  case True
  with assms(3) obtain v s1 qs where
    "get_or_create env c s = Some (v, s1)"
    "update_handle (env_now env) 0 (window c) (counter_key c) (qualified_counters s1) = Some qs"
    "s' = s1\<lparr>qualified_counters := qs\<rparr>"
    by (auto simp: touch_def bind_eq_Some_conv Let_def)
  with mem_wf_get_or_create [OF assms(1,2) True] mem_wf_update_qualified_handle show ?thesis by blast
next
  case False
  then have vars: "variables_set (limit c) = {}" using assms(2) by (simp add: counter_wf_def)
  from False assms(3) obtain l v' where
    s': "s' = s\<lparr>simple_limits := AList.update (limit_key (limit c)) (l, v') (simple_limits s)\<rparr>"
    and l: "l = limit c \<or> (\<exists>v. map_of (simple_limits s) (limit_key (limit c)) = Some (l, v))"
    by (auto simp: touch_def bind_eq_Some_conv Let_def split: option.splits)
  have "limit_key l = limit_key (limit c)" "variables_set l = {}"
    using l vars mem_wf_simpleD [OF assms(1)] by (auto dest: map_of_SomeD)
  with mem_wf_update_simple [OF assms(1), of l v'] show ?thesis by (simp add: s')
qed

lemma mem_wf_reservations [simp]: "mem_wf (s\<lparr>reservations := r\<rparr>) = mem_wf s"
  by (simp add: mem_wf_def)

lemma mem_wf_reserve:
  assumes wf: "mem_wf s" and cs: "\<forall>c\<in>set cs. counter_wf c"
    and run: "reserve env cs rid amt hold ttl s = Some (r, s')"
  shows "mem_wf s'"
proof -
  from run obtain vts s0 reg where rows: "map_panic (touch env) cs s = Some (vts, s0)"
    and s': "s' = s0\<lparr>reservations := reg\<rparr>"
    by (auto simp: reserve_def bind_eq_Some_conv)
  have "mem_wf s0"
    by (rule map_panic_keeps [where I = mem_wf, OF _ wf rows]) (use mem_wf_touch cs in blast)
  then show ?thesis by (simp add: s')
qed

lemma mem_wf_release: "mem_wf s \<Longrightarrow> mem_wf (snd (release_reservation env cs rid s))"
  by (simp add: release_reservation_def case_prod_unfold Let_def)

lemma mem_wf_clear: "mem_wf s \<Longrightarrow> mem_wf (clear s)"
  by (simp add: mem_wf_def clear_def)

lemmas mem_wf_intros = mem_wf_new mem_wf_add_counter mem_wf_update_counter mem_wf_check_and_update
  mem_wf_reserve mem_wf_release mem_wf_clear delete_counters_result(1)

end
