(* ===== verification/Listing.thy ===== *)
theory Listing
  imports MemoryStore
begin

text \<open>
  Listing the counters of the in-memory storage: \<open>counters_in_namespace\<close> and \<open>get_counters\<close> read
  exactly what is stored.
\<close>

section \<open>The counters of a namespace\<close>

definition plain_counter :: "'e limit \<Rightarrow> 'e counter" where
  "plain_counter l = \<lparr>limit = l, set_variables = [], remaining = None, expires_in = None\<rparr>"

definition rows :: "string \<Rightarrow> 'e in_memory \<Rightarrow> (counter_key \<times> ('e counter \<times> atomic_value)) list" where
  "rows ns s =
     map (\<lambda>(k, l, v). (CounterKey k [], (plain_counter l, v)))
       (filter (\<lambda>(_, l, _). namespace l = ns) (simple_limits s))
     @ filter (\<lambda>(_, c, _). counter_namespace c = ns) (qualified_counters s)"

lemma counter_new_plain:
  "variables_set l = {} \<Longrightarrow> counter_new cel l ctx = Inr (Some (plain_counter l))"
  by (simp add: counter_new_def variables_set_def plain_counter_def)

lemma alist_update_new: "k \<notin> fst ` set al \<Longrightarrow> AList.update k v al = al @ [(k, v)]"
  by (induction al) auto

lemma hmap_insert_new:
  assumes "counter_key c \<notin> fst ` set m"
  shows "hmap_insert c v m = m @ [(counter_key c, (c, v))]"
proof -
  have "map_of m (counter_key c) = None" using assms by (simp add: map_of_eq_None_iff)
  with assms show ?thesis by (simp add: hmap_insert_def alist_update_new)
qed

lemma simple_fold:
  assumes "\<forall>e\<in>set es. simple_entry e" "distinct (map fst es)"
    and "\<forall>k\<in>fst ` set es. CounterKey k [] \<notin> fst ` set m"
  shows "fold_panic (\<lambda>(_, l, v) res.
       if namespace l = ns then
         (case counter_new cel l context_default of
            Inr (Some c) \<Rightarrow> Some (hmap_insert c v res)
          | _ \<Rightarrow> None)
       else Some res) es m =
    Some (m @ map (\<lambda>(k, l, v). (CounterKey k [], (plain_counter l, v)))
       (filter (\<lambda>(_, l, _). namespace l = ns) es))"
  using assms
proof (induction es arbitrary: m)
  case (Cons e es)
  obtain k l v where e: "e = (k, l, v)" by (cases e)
  with Cons.prems(1) have l: "k = limit_key l" "variables_set l = {}"
    by (simp_all add: simple_entry_def)
  have key: "counter_key (plain_counter l) = CounterKey k []"
    by (simp add: plain_counter_def counter_key_def l)
  have "CounterKey k [] \<notin> fst ` set m" using Cons.prems(3) e by simp
  with key have new: "hmap_insert (plain_counter l) v m = m @ [(CounterKey k [], (plain_counter l, v))]"
    using hmap_insert_new [of "plain_counter l" m v] by simp
  show ?case
  proof (cases "namespace l = ns")
    case True
    have "\<forall>k'\<in>fst ` set es. CounterKey k' [] \<notin> fst ` set (m @ [(CounterKey k [], (plain_counter l, v))])"
      using Cons.prems(2,3) e by auto
    with Cons.IH [of "m @ [(CounterKey k [], (plain_counter l, v))]"] Cons.prems(1,2) True show ?thesis
      by (simp add: e counter_new_plain [OF l(2)] new)
  next
    case False
    with Cons.IH [of m] Cons.prems show ?thesis by (simp add: e)
  qed
qed simp

lemma qualified_fold:
  assumes "\<forall>e\<in>set es. qualified_entry e" "distinct (map fst es)"
    and "fst ` set es \<inter> fst ` set m = {}"
  shows "fold (\<lambda>(_, c, v) res. if counter_namespace c = ns then hmap_insert c v res else res) es m =
    m @ filter (\<lambda>(_, c, _). counter_namespace c = ns) es"
  using assms
proof (induction es arbitrary: m)
  case (Cons e es)
  obtain k c v where e: "e = (k, c, v)" by (cases e)
  with Cons.prems(1) have k: "k = counter_key c" by (simp add: qualified_entry_def)
  have "k \<notin> fst ` set m" using Cons.prems(3) e by auto
  then have new: "hmap_insert c v m = m @ [(k, (c, v))]" unfolding k by (rule hmap_insert_new)
  show ?case
  proof (cases "counter_namespace c = ns")
    case True
    have "fst ` set es \<inter> fst ` set (m @ [(k, (c, v))]) = {}" using Cons.prems(2,3) e by auto
    with Cons.IH [of "m @ [(k, (c, v))]"] Cons.prems(1,2) True show ?thesis by (simp add: e new)
  next
    case False
    with Cons.IH [of m] Cons.prems show ?thesis by (auto simp: e)
  qed
qed simp

lemma counters_in_namespace_rows:
  assumes wf: "mem_wf s"
  shows "counters_in_namespace cel ns s = Some (rows ns s)"
proof -
  let ?plain = "map (\<lambda>(k, l, v). (CounterKey k [], (plain_counter l, v)))
       (filter (\<lambda>(_, l, _). namespace l = ns) (simple_limits s))"
  have "fst ` set (qualified_counters s) \<inter> fst ` set ?plain = {}"
  proof (rule equals0I)
    fix k assume k: "k \<in> fst ` set (qualified_counters s) \<inter> fst ` set ?plain"
    then obtain c v where "(k, c, v) \<in> set (qualified_counters s)" by auto
    from mem_wf_qualifiedD(1,2) [OF wf this] have "ck_variables k \<noteq> []"
      by (simp add: is_qualified_key)
    with k show False by auto
  qed
  then show ?thesis
    using wf simple_fold [of "simple_limits s" "[]" ns cel] qualified_fold [of "qualified_counters s" ?plain ns]
    by (simp add: counters_in_namespace_def rows_def mem_wf_def)
qed

lemma rows_stored:
  assumes wf: "mem_wf s"
  shows "(\<exists>c. (k, (c, v)) \<in> set (rows ns s)) \<longleftrightarrow> lk_namespace (ck_limit k) = ns \<and> stored s k = Some v"
    and "(k, (c, v)) \<in> set (rows ns s) \<Longrightarrow> counter_key c = k"
proof -
  have simple: "map_of (simple_limits s) lk = Some (l, v) \<longleftrightarrow> (lk, l, v) \<in> set (simple_limits s)" for lk l v
    using wf by (simp add: mem_wf_def)
  have qual: "map_of (qualified_counters s) k = Some (c, v) \<longleftrightarrow> (k, c, v) \<in> set (qualified_counters s)" for c v
    using wf by (simp add: mem_wf_def)
  show "(\<exists>c. (k, (c, v)) \<in> set (rows ns s)) \<longleftrightarrow> lk_namespace (ck_limit k) = ns \<and> stored s k = Some v"
  proof (cases "ck_variables k = []")
    case True
    then have k: "k = CounterKey (ck_limit k) []" by (cases k) simp
    have none: "(k, c, v) \<notin> set (qualified_counters s)" for c
      using mem_wf_qualifiedD(1,2) [OF wf, of k c v] True by (auto simp: is_qualified_key)
    have ns: "namespace l = lk_namespace (ck_limit k)" if "(ck_limit k, l, v) \<in> set (simple_limits s)" for l
      using mem_wf_simpleD(1) [OF wf that] by (simp add: limit_key_def)
    have here: "(k, (plain_counter l, v)) \<in> set (rows ns s)"
      if "(ck_limit k, l, v) \<in> set (simple_limits s)" "namespace l = ns" for l
      using that by (subst k) (force simp: rows_def)
    have there: "\<exists>l. (ck_limit k, l, v) \<in> set (simple_limits s) \<and> namespace l = ns"
      if "(k, (c, v)) \<in> set (rows ns s)" for c
      using that none by (auto simp: rows_def)
    from here there have "(\<exists>c. (k, (c, v)) \<in> set (rows ns s)) \<longleftrightarrow>
        (\<exists>l. (ck_limit k, l, v) \<in> set (simple_limits s) \<and> namespace l = ns)"
      by blast
    also have "\<dots> \<longleftrightarrow> lk_namespace (ck_limit k) = ns \<and> (\<exists>l. (ck_limit k, l, v) \<in> set (simple_limits s))"
      by (auto simp: ns)
    also have "(\<exists>l. (ck_limit k, l, v) \<in> set (simple_limits s)) \<longleftrightarrow> stored s k = Some v"
      using True by (auto simp: stored_def simp flip: simple)
    finally show ?thesis .
  next
    case False
    have ns: "counter_namespace c = lk_namespace (ck_limit k)" if "(k, c, v) \<in> set (qualified_counters s)" for c
      using mem_wf_qualifiedD(1) [OF wf that]
      by (simp add: counter_namespace_def counter_key_def limit_key_def)
    have "(\<exists>c. (k, (c, v)) \<in> set (rows ns s)) \<longleftrightarrow>
        (\<exists>c. (k, c, v) \<in> set (qualified_counters s) \<and> counter_namespace c = ns)"
      using False by (auto simp: rows_def)
    also have "\<dots> \<longleftrightarrow> lk_namespace (ck_limit k) = ns \<and> (\<exists>c. (k, c, v) \<in> set (qualified_counters s))"
      by (auto simp: ns)
    also have "(\<exists>c. (k, c, v) \<in> set (qualified_counters s)) \<longleftrightarrow> stored s k = Some v"
      using False by (auto simp: stored_def simp flip: qual)
    finally show ?thesis .
  qed
  show "counter_key c = k" if "(k, (c, v)) \<in> set (rows ns s)"
    using that mem_wf_simpleD(1) [OF wf] mem_wf_qualifiedD(1) [OF wf]
    by (auto simp: rows_def plain_counter_def counter_key_def)
qed

section \<open>Listing\<close>

definition live_limit :: "'e limit list \<Rightarrow> 'e counter \<Rightarrow> 'e counter" where
  "live_limit ls c =
     (case hset_get limit_key (limit_key (limit c)) ls of
        Some live \<Rightarrow> snd (update_to_limit live c) | None \<Rightarrow> c)"

definition listed :: "systime \<Rightarrow> 'e limit list \<Rightarrow> 'e counter \<Rightarrow> atomic_value \<Rightarrow> 'e counter" where
  "listed now ls c v =
     set_expires_in (value_ttl now v)
       (set_remaining (saturating_sub (counter_max_value (live_limit ls c)) (value_now now v))
         (live_limit ls c))"

definition report_rows ::
  "systime \<Rightarrow> 'e limit list \<Rightarrow> (counter_key \<times> ('e counter \<times> atomic_value)) list \<Rightarrow>
   'e counter list \<Rightarrow> 'e counter list" where
  "report_rows now ls es res = fold (\<lambda>(_, c, v). report_counter now v (live_limit ls c)) es res"

lemma report_counter_listed:
  "report_counter now v (live_limit ls c) res =
     (if 0 < value_ttl now v then snd (hset_insert counter_key (listed now ls c v) res) else res)"
  by (simp add: report_counter_def listed_def Let_def)

lemma counter_key_live [simp]: "counter_key (live_limit ls c) = counter_key c"
  using update_to_limit_iff [of _ c]
  by (auto simp: live_limit_def split: option.split) (metis prod.collapse)

lemma counter_key_listed [simp]: "counter_key (listed now ls c v) = counter_key c"
  by (simp add: listed_def)

lemma report_rows_keys:
  "counter_key ` set (report_rows now ls es res) =
     counter_key ` set res \<union> {counter_key c | k c v. (k, c, v) \<in> set es \<and> 0 < value_ttl now v}"
proof (induction es arbitrary: res)
  case (Cons e es)
  obtain k c v where "e = (k, c, v)" by (cases e)
  with Cons [of "report_counter now v (live_limit ls c) res"] show ?case
    by (auto simp: report_rows_def report_counter_listed hset_insert_keys(1))
qed (simp add: report_rows_def)

lemma report_rows_distinct:
  "distinct (map counter_key res) \<Longrightarrow> distinct (map counter_key (report_rows now ls es res))"
proof (induction es arbitrary: res)
  case (Cons e es)
  obtain k c v where "e = (k, c, v)" by (cases e)
  with Cons.IH [of "report_counter now v (live_limit ls c) res"] Cons.prems show ?case
    by (auto simp: report_rows_def report_counter_listed hset_insert_keys(2))
qed (simp add: report_rows_def)

lemma report_rows_members:
  "x \<in> set (report_rows now ls es res) \<Longrightarrow>
     x \<in> set res \<or> (\<exists>k c v. (k, c, v) \<in> set es \<and> x = listed now ls c v)"
proof (induction es arbitrary: res)
  case (Cons e es)
  obtain k c v where e: "e = (k, c, v)" by (cases e)
  with Cons.prems have "x \<in> set (report_rows now ls es (report_counter now v (live_limit ls c) res))"
    by (simp add: report_rows_def)
  with Cons.IH consider "x \<in> set (report_counter now v (live_limit ls c) res)"
    | k c v where "(k, c, v) \<in> set es" "x = listed now ls c v" by blast
  then show ?case
  proof cases
    case 1
    then have "x \<in> set res \<or> x = listed now ls c v"
      using hset_insert_subset [of counter_key "listed now ls c v" res]
      by (auto simp: report_counter_listed split: if_splits)
    then show ?thesis using e by auto
  next
    case 2
    then show ?thesis by auto
  qed
qed (simp add: report_rows_def)

definition listing :: "'e limit list \<Rightarrow> 'e in_memory \<Rightarrow> (counter_key \<times> ('e counter \<times> atomic_value)) list" where
  "listing ls s =
     concat (map (\<lambda>l. rows (namespace l) s) ls)
     @ filter (\<lambda>(_, c, _). hset_get limit_key (limit_key (limit c)) ls \<noteq> None) (qualified_counters s)"

lemma get_counters_listing:
  assumes "mem_wf s"
  shows "get_counters cel env ls s = Some (report_rows (env_now env) ls (listing ls s) [])"
proof -
  let ?now = "env_now env"
  have first: "fold_panic (\<lambda>l res. do {
         cs \<leftarrow> counters_in_namespace cel (namespace l) s;
         Some (fold (\<lambda>(_, c, v). report_counter ?now v
               (case hset_get limit_key (limit_key (limit c)) ls of
                  Some live \<Rightarrow> snd (update_to_limit live c) | None \<Rightarrow> c)) cs res)
       }) ls' res = Some (report_rows ?now ls (concat (map (\<lambda>l. rows (namespace l) s) ls')) res)"
    for ls' res
    by (induction ls' arbitrary: res)
      (simp_all add: counters_in_namespace_rows [OF assms] report_rows_def live_limit_def)
  have second: "fold (\<lambda>(_, c, v) res.
         (case hset_get limit_key (limit_key (limit c)) ls of
            Some live \<Rightarrow> report_counter ?now v (snd (update_to_limit live c)) res
          | None \<Rightarrow> res)) es res =
      report_rows ?now ls
        (filter (\<lambda>(_, c, _). hset_get limit_key (limit_key (limit c)) ls \<noteq> None) es) res" for es res
    by (induction es arbitrary: res) (auto simp: report_rows_def live_limit_def split: option.split)
  show ?thesis
    unfolding get_counters_def Let_def first bind.bind_lunit second
    by (simp add: report_rows_def listing_def)
qed

lemma listing_rows:
  assumes wf: "mem_wf s"
  shows "(\<exists>c. (k, (c, v)) \<in> set (listing ls s)) \<longleftrightarrow>
      lk_namespace (ck_limit k) \<in> namespace ` set ls \<and> stored s k = Some v"
    and "(k, (c, v)) \<in> set (listing ls s) \<Longrightarrow> counter_key c = k"
proof -
  have sub: "\<exists>l\<in>set ls. (k, (c, v)) \<in> set (rows (namespace l) s)"
    if "(k, c, v) \<in> set (qualified_counters s)" "hset_get limit_key (limit_key (limit c)) ls = Some l" for c l
  proof -
    from hset_get_SomeD [OF that(2)] have l: "l \<in> set ls" "limit_key l = limit_key (limit c)" by auto
    from limit_key_fields(1) [OF l(2)] have "namespace l = counter_namespace c"
      by (simp add: counter_namespace_def)
    with l(1) that(1) show ?thesis by (intro bexI [of _ l]) (simp_all add: rows_def)
  qed
  have mem: "(k, (c, v)) \<in> set (listing ls s) \<longleftrightarrow> (\<exists>l\<in>set ls. (k, (c, v)) \<in> set (rows (namespace l) s))" for c
    by (auto simp: listing_def dest: sub)
  show "(\<exists>c. (k, (c, v)) \<in> set (listing ls s)) \<longleftrightarrow>
      lk_namespace (ck_limit k) \<in> namespace ` set ls \<and> stored s k = Some v"
    using rows_stored(1) [OF wf, of k v] unfolding mem by blast
  show "counter_key c = k" if "(k, (c, v)) \<in> set (listing ls s)"
    using that rows_stored(2) [OF wf] unfolding mem by blast
qed

lemma get_counters_result:
  assumes wf: "mem_wf s"
  shows "\<exists>res. get_counters cel env ls s = Some res \<and> distinct (map counter_key res) \<and>
    counter_key ` set res = {k. lk_namespace (ck_limit k) \<in> namespace ` set ls \<and>
       (\<exists>v. stored s k = Some v \<and> 0 < value_ttl (env_now env) v)} \<and>
    (\<forall>c\<in>set res. \<exists>v. stored s (counter_key c) = Some v \<and>
       remaining c = Some (saturating_sub (counter_max_value c) (value_at v (env_now env))) \<and>
       expires_in c = Some (value_ttl (env_now env) v))"
proof -
  let ?res = "report_rows (env_now env) ls (listing ls s) []"
  have "counter_key ` set ?res = {counter_key c | k c v. (k, c, v) \<in> set (listing ls s) \<and>
      0 < value_ttl (env_now env) v}"
    by (simp add: report_rows_keys)
  also have "\<dots> = {k. \<exists>v. (\<exists>c. (k, (c, v)) \<in> set (listing ls s)) \<and> 0 < value_ttl (env_now env) v}"
    by (auto simp: listing_rows(2) [OF wf] dest: listing_rows(2) [OF wf, symmetric])
  also have "\<dots> = {k. lk_namespace (ck_limit k) \<in> namespace ` set ls \<and>
       (\<exists>v. stored s k = Some v \<and> 0 < value_ttl (env_now env) v)}"
    unfolding listing_rows(1) [OF wf] by auto
  finally have keys: "counter_key ` set ?res = \<dots>" .
  have "\<exists>v. stored s (counter_key c) = Some v \<and>
       remaining c = Some (saturating_sub (counter_max_value c) (value_at v (env_now env))) \<and>
       expires_in c = Some (value_ttl (env_now env) v)" if "c \<in> set ?res" for c
  proof -
    from report_rows_members [OF that] obtain k d v where
      d: "(k, d, v) \<in> set (listing ls s)" "c = listed (env_now env) ls d v" by auto
    from listing_rows(2) [OF wf d(1)] listing_rows(1) [OF wf, of k v ls] d(1)
    have "stored s (counter_key d) = Some v" by auto
    then show ?thesis by (simp add: d(2)) (simp add: listed_def value_now_def)
  qed
  with keys show ?thesis
    by (intro exI [of _ ?res]) (simp add: get_counters_listing [OF wf] report_rows_distinct)
qed

end
