(* ===== verification/Races.thy ===== *)
theory Races
  imports Expiring
begin

text \<open>
  Concurrent callers of one in-memory counter, at the grain of its atomic accesses
  (\<^verbatim>\<open>AtomicExpiringValue::value_at\<close> and \<^verbatim>\<open>update\<close>, \<^verbatim>\<open>AtomicExpiryTime::update_if_expired\<close>).  Every
  caller reads the value, decides, and then updates, as \<^verbatim>\<open>InMemoryStorage::check_and_update\<close> does under
  a shared read lock; the accesses of different callers interleave freely.  A caller that only reports
  starts at the update.
\<close>

section \<open>Steps\<close>

datatype caller =
    LoadExpiry
  | LoadValue
  | Decide u64
  | TestExpiry
  | Exchange u64
  | StoreValue
  | AddValue
  | Updated
  | Denied

record race =
  cell_value :: u64
  cell_expiry :: u64
  callers :: "nat \<Rightarrow> caller"

abbreviation moves :: "nat \<Rightarrow> caller \<Rightarrow> race \<Rightarrow> race" where
  "moves i pc r \<equiv> r\<lparr>callers := (callers r)(i := pc)\<rparr>"

text \<open>\<open>mx\<close> is the maximum of the counter, \<open>ttl\<close> its period in microseconds, \<open>d i\<close> the delta and
  \<open>now i\<close> the clock reading of caller \<open>i\<close>.\<close>

inductive race_step :: "u64 \<Rightarrow> u64 \<Rightarrow> (nat \<Rightarrow> u64) \<Rightarrow> (nat \<Rightarrow> u64) \<Rightarrow> race \<Rightarrow> race \<Rightarrow> bool"
  for mx ttl d now where
  read_expired: "callers r i = LoadExpiry \<Longrightarrow> cell_expiry r \<le> now i \<Longrightarrow>
    race_step mx ttl d now r (moves i (Decide 0) r)"
| read_open: "callers r i = LoadExpiry \<Longrightarrow> \<not> cell_expiry r \<le> now i \<Longrightarrow>
    race_step mx ttl d now r (moves i LoadValue r)"
| read_value: "callers r i = LoadValue \<Longrightarrow>
    race_step mx ttl d now r (moves i (Decide (cell_value r)) r)"
| admit: "callers r i = Decide v \<Longrightarrow> checked_sub mx (saturating_add v (d i)) \<noteq> None \<Longrightarrow>
    race_step mx ttl d now r (moves i TestExpiry r)"
| deny: "callers r i = Decide v \<Longrightarrow> checked_sub mx (saturating_add v (d i)) = None \<Longrightarrow>
    race_step mx ttl d now r (moves i Denied r)"
| test_expired: "callers r i = TestExpiry \<Longrightarrow> cell_expiry r \<le> now i \<Longrightarrow>
    race_step mx ttl d now r (moves i (Exchange (cell_expiry r)) r)"
| test_open: "callers r i = TestExpiry \<Longrightarrow> \<not> cell_expiry r \<le> now i \<Longrightarrow>
    race_step mx ttl d now r (moves i AddValue r)"
| exchange_ok: "callers r i = Exchange e \<Longrightarrow> cell_expiry r = e \<Longrightarrow>
    race_step mx ttl d now r (moves i StoreValue (r\<lparr>cell_expiry := now i + ttl\<rparr>))"
| exchange_failed: "callers r i = Exchange e \<Longrightarrow> cell_expiry r \<noteq> e \<Longrightarrow>
    race_step mx ttl d now r (moves i AddValue r)"
| store: "callers r i = StoreValue \<Longrightarrow>
    race_step mx ttl d now r (moves i Updated (r\<lparr>cell_value := d i\<rparr>))"
| add: "callers r i = AddValue \<Longrightarrow>
    race_step mx ttl d now r (moves i Updated (r\<lparr>cell_value := cell_value r + d i\<rparr>))"

section \<open>How far concurrent callers can overshoot\<close>

text \<open>\<open>n\<close> callers, all of them inside the open window that held \<open>v0\<close> when they came.\<close>

definition race_start :: "nat \<Rightarrow> u64 \<Rightarrow> u64 \<Rightarrow> race" where
  "race_start n v e =
     \<lparr>cell_value = v, cell_expiry = e, callers = (\<lambda>i. if i < n then LoadExpiry else Denied)\<rparr>"

definition updated :: "nat \<Rightarrow> race \<Rightarrow> nat set" where
  "updated n r = {i. i < n \<and> callers r i = Updated}"

definition race_inv :: "nat \<Rightarrow> u64 \<Rightarrow> (nat \<Rightarrow> u64) \<Rightarrow> u64 \<Rightarrow> u64 \<Rightarrow> race \<Rightarrow> bool" where
  "race_inv n mx d v0 e r \<longleftrightarrow>
     cell_expiry r = e \<and>
     unat (cell_value r) = unat v0 + (\<Sum>i\<in>updated n r. unat (d i)) \<and>
     (\<forall>i. (n \<le> i \<longrightarrow> callers r i = Denied) \<and>
        (\<forall>v. callers r i = Decide v \<longrightarrow> unat v0 \<le> unat v) \<and>
        (callers r i \<in> {TestExpiry, AddValue, Updated} \<longrightarrow> unat v0 + unat (d i) \<le> unat mx) \<and>
        (\<forall>x. callers r i \<noteq> Exchange x) \<and> callers r i \<noteq> StoreValue)"

lemma admitted_bound:
  assumes "checked_sub mx (saturating_add v x) \<noteq> None" "unat v0 \<le> unat v" "unat v0 + unat x < 2 ^ 64"
  shows "unat v0 + unat x \<le> unat mx"
  using assms by (auto simp: checked_sub_eq_None unat_saturating_add not_less)

lemma finite_updated [simp]: "finite (updated n r)"
  by (simp add: updated_def)

lemma race_inv_caller:
  assumes "race_inv n mx d v0 e r" "callers r i \<noteq> Denied"
  shows "i < n"
  using assms by (metis leI race_inv_def)

text \<open>A step that does not touch the cell.\<close>

lemma race_inv_quiet:
  assumes inv: "race_inv n mx d v0 e r" and i: "i < n"
    and from_to: "callers r i \<noteq> Updated" "pc \<noteq> Updated" "\<forall>x. pc \<noteq> Exchange x" "pc \<noteq> StoreValue"
    and read: "\<forall>v. pc = Decide v \<longrightarrow> unat v0 \<le> unat v"
    and admitted: "pc \<in> {TestExpiry, AddValue} \<Longrightarrow> unat v0 + unat (d i) \<le> unat mx"
  shows "race_inv n mx d v0 e (moves i pc r)"
proof -
  have "updated n (moves i pc r) = updated n r"
    using i from_to(1,2) by (auto simp: updated_def)
  with inv i from_to read admitted show ?thesis
    unfolding race_inv_def by auto
qed

lemma sum_one: "i < n \<Longrightarrow> unat (d i) \<le> (\<Sum>i<n. unat (d i))" for d :: "nat \<Rightarrow> u64"
  using member_le_sum [of i "{..<n}" "\<lambda>i. unat (d i)"] by simp

lemma race_inv_add:
  assumes inv: "race_inv n mx d v0 e r" and i: "i < n" and pc: "callers r i = AddValue"
    and no_wrap: "unat v0 + (\<Sum>i<n. unat (d i)) < 2 ^ 64"
  shows "race_inv n mx d v0 e (moves i Updated (r\<lparr>cell_value := cell_value r + d i\<rparr>))"
proof -
  have notin: "i \<notin> updated n r" using pc by (simp add: updated_def)
  have up: "updated n (moves i Updated (r\<lparr>cell_value := x\<rparr>)) = insert i (updated n r)" for x
    using i by (auto simp: updated_def)
  have "(\<Sum>j\<in>insert i (updated n r). unat (d j)) \<le> (\<Sum>j<n. unat (d j))"
    using i by (intro sum_mono2) (auto simp: updated_def)
  with no_wrap notin inv have "unat (cell_value r) + unat (d i) < 2 ^ 64"
    by (simp add: race_inv_def)
  with inv notin have "unat (cell_value r + d i) = unat v0 + (\<Sum>j\<in>insert i (updated n r). unat (d j))"
    by (simp add: race_inv_def unat_add_no_overflow)
  with inv i pc show ?thesis unfolding race_inv_def up by auto
qed

lemma race_inv_step:
  assumes step: "race_step mx ttl d now r r'" and inv: "race_inv n mx d v0 e r"
    and open_window: "\<forall>i<n. now i < e" and no_wrap: "unat v0 + (\<Sum>i<n. unat (d i)) < 2 ^ 64"
  shows "race_inv n mx d v0 e r'"
proof -
  have thread: "i < n" if "callers r i \<noteq> Denied" for i by (rule race_inv_caller [OF inv that])
  have opened: "\<not> cell_expiry r \<le> now i" if "i < n" for i
    using inv open_window that by (simp add: race_inv_def not_le)
  have adm: "unat v0 + unat (d i) \<le> unat mx" if "callers r i \<in> {TestExpiry, AddValue}" for i
    using inv that by (auto simp: race_inv_def)
  have fits: "unat v0 + unat (d i) < 2 ^ 64" if "i < n" for i
    using sum_one [of i n d] that no_wrap by simp
  show ?thesis
    using step
  proof cases
    case (read_open i)
    then show ?thesis using thread [of i] by (auto intro!: race_inv_quiet [OF inv])
  next
    case (read_value i)
    moreover have "unat v0 \<le> unat (cell_value r)" using inv by (simp add: race_inv_def)
    ultimately show ?thesis using thread [of i] by (auto intro!: race_inv_quiet [OF inv])
  next
    case (admit i v)
    then have "unat v0 \<le> unat v" using inv by (auto simp: race_inv_def)
    with admit(3) fits [OF thread, of i] have "unat v0 + unat (d i) \<le> unat mx"
      using admit(2) by (intro admitted_bound [of mx v]) simp_all
    with admit show ?thesis using thread [of i] by (auto intro!: race_inv_quiet [OF inv])
  next
    case (deny i v)
    then show ?thesis using thread [of i] by (auto intro!: race_inv_quiet [OF inv])
  next
    case (test_open i)
    then show ?thesis using thread [of i] adm [of i] by (auto intro!: race_inv_quiet [OF inv])
  next
    case (add i)
    then show ?thesis using thread [of i] race_inv_add [OF inv _ _ no_wrap] by simp
  next
    case (read_expired i)
    then show ?thesis using thread [of i] opened [of i] by simp
  next
    case (test_expired i)
    then show ?thesis using thread [of i] opened [of i] by simp
  next
    case (exchange_ok i x)
    then show ?thesis using inv by (auto simp: race_inv_def)
  next
    case (exchange_failed i x)
    then show ?thesis using inv by (auto simp: race_inv_def)
  next
    case (store i)
    then show ?thesis using inv by (auto simp: race_inv_def)
  qed
qed

lemma race_inv_start: "race_inv n mx d v0 e (race_start n v0 e)"
proof -
  have "updated n (race_start n v0 e) = {}" by (auto simp: updated_def race_start_def)
  then show ?thesis by (auto simp: race_inv_def race_start_def)
qed

lemma race_inv_reachable:
  assumes "(race_step mx ttl d now)\<^sup>*\<^sup>* (race_start n v0 e) r"
    and "\<forall>i<n. now i < e" "unat v0 + (\<Sum>i<n. unat (d i)) < 2 ^ 64"
  shows "race_inv n mx d v0 e r"
  using assms(1)
proof (induction rule: rtranclp_induct)
  case base
  show ?case by (rule race_inv_start)
next
  case (step r r')
  from race_inv_step [OF step.hyps(2) step.IH assms(2,3)] show ?case .
qed

text \<open>The caller that is over the limit by the most was admitted against the value the window held
  when the callers came, so the others can have added at most their own deltas.\<close>

lemma overshoot_bound:
  assumes "(race_step mx ttl d now)\<^sup>*\<^sup>* (race_start n v0 e) r"
    and "\<forall>i<n. now i < e" "unat v0 + (\<Sum>i<n. unat (d i)) < 2 ^ 64" "unat v0 \<le> unat mx"
    and "\<forall>i<n. d i = x"
  shows "unat (cell_value r) \<le> unat mx + (n - 1) * unat x"
proof -
  have inv: "race_inv n mx d v0 e r" by (rule race_inv_reachable [OF assms(1-3)])
  then have val: "unat (cell_value r) = unat v0 + (\<Sum>i\<in>updated n r. unat (d i))"
    by (simp add: race_inv_def)
  have sum: "(\<Sum>i\<in>updated n r. unat (d i)) = card (updated n r) * unat x"
    using assms(5) by (simp add: updated_def)
  show ?thesis
  proof (cases "updated n r = {}")
    case True
    with val assms(4) show ?thesis by simp
  next
    case False
    then obtain i where i: "i < n" "callers r i = Updated" by (auto simp: updated_def)
    with inv assms(5) have one: "unat v0 + unat x \<le> unat mx" by (auto simp: race_inv_def)
    have "card (updated n r) \<le> card {..<n}" by (intro card_mono) (auto simp: updated_def)
    then have "card (updated n r) * unat x \<le> n * unat x" by simp
    also have "\<dots> = unat x + (n - 1) * unat x" using i(1) by (cases n) simp_all
    finally show ?thesis using val sum one by simp
  qed
qed

section \<open>The bound is reached\<close>

declare rtranclp.rtrancl_into_rtrancl [trans]

text \<open>Every caller checks before any of them has added.\<close>

definition checked :: "nat \<Rightarrow> nat \<Rightarrow> u64 \<Rightarrow> u64 \<Rightarrow> race" where
  "checked n k v e =
     \<lparr>cell_value = v, cell_expiry = e,
      callers = (\<lambda>i. if i < k then AddValue else if i < n then LoadExpiry else Denied)\<rparr>"

definition added :: "nat \<Rightarrow> nat \<Rightarrow> u64 \<Rightarrow> u64 \<Rightarrow> race" where
  "added n k v e =
     \<lparr>cell_value = v, cell_expiry = e,
      callers = (\<lambda>i. if i < k then Updated else if i < n then AddValue else Denied)\<rparr>"

lemma one_caller_checks:
  assumes "callers r i = LoadExpiry" "now i < cell_expiry r"
    and "unat (cell_value r) + unat (d i) \<le> unat mx"
  shows "(race_step mx ttl d now)\<^sup>*\<^sup>* r (moves i AddValue r)"
proof -
  let ?R = "race_step mx ttl d now"
  have lt: "unat (cell_value r) + unat (d i) < 2 ^ 64"
    using le_less_trans [OF assms(3) unat_u64_less] by simp
  have "?R\<^sup>*\<^sup>* r (moves i LoadValue r)"
    using assms by (intro r_into_rtranclp race_step.read_open) (simp_all add: not_le)
  also have "?R (moves i LoadValue r) (moves i (Decide (cell_value r)) r)"
    using race_step.read_value [of "moves i LoadValue r" i mx ttl d now] by simp
  also have "?R (moves i (Decide (cell_value r)) r) (moves i TestExpiry r)"
    using race_step.admit [of "moves i (Decide (cell_value r)) r" i "cell_value r" mx d ttl now] assms(3) lt
    by (simp add: checked_sub_eq_None unat_saturating_add not_less del: not_None_eq)
  also have "?R (moves i TestExpiry r) (moves i AddValue r)"
    using race_step.test_open [of "moves i TestExpiry r" i now mx ttl d] assms(2) by (simp add: not_le)
  finally show ?thesis .
qed

lemma all_callers_check:
  assumes "k \<le> n" "\<forall>i<n. now i < e" "\<forall>i<n. d i = x" "unat v + unat x \<le> unat mx"
  shows "(race_step mx ttl d now)\<^sup>*\<^sup>* (race_start n v e) (checked n k v e)"
  using assms(1)
proof (induction k)
  case 0
  have "race_start n v e = checked n 0 v e" by (simp add: race_start_def checked_def)
  then show ?case by simp
next
  case (Suc k)
  have run: "(race_step mx ttl d now)\<^sup>*\<^sup>* (race_start n v e) (checked n k v e)" using Suc by simp
  have "(race_step mx ttl d now)\<^sup>*\<^sup>* (checked n k v e) (moves k AddValue (checked n k v e))"
    using Suc.prems assms(2-4) by (intro one_caller_checks) (simp_all add: checked_def)
  note rtranclp_trans [OF run this]
  moreover have eq: "moves k AddValue (checked n k v e) = checked n (Suc k) v e"
    by (auto simp: checked_def less_Suc_eq)
  ultimately show ?case unfolding eq by blast
qed

lemma all_callers_add:
  assumes "k \<le> n" "\<forall>i<n. d i = x"
  shows "(race_step mx ttl d now)\<^sup>*\<^sup>* (checked n n v e) (added n k (v + of_nat k * x) e)"
  using assms(1)
proof (induction k)
  case 0
  have "checked n n v e = added n 0 v e" by (auto simp: checked_def added_def)
  then show ?case by simp
next
  case (Suc k)
  let ?r = "added n k (v + of_nat k * x) e"
  have run: "(race_step mx ttl d now)\<^sup>*\<^sup>* (checked n n v e) ?r" using Suc by simp
  have step: "race_step mx ttl d now ?r (moves k Updated (?r\<lparr>cell_value := cell_value ?r + d k\<rparr>))"
    using Suc.prems by (intro race_step.add) (simp add: added_def)
  have eq: "moves k Updated (?r\<lparr>cell_value := cell_value ?r + d k\<rparr>) = added n (Suc k) (v + of_nat (Suc k) * x) e"
    using Suc.prems assms(2) by (auto simp: added_def less_Suc_eq algebra_simps)
  show ?case using step unfolding eq by (rule rtranclp.rtrancl_into_rtrancl [OF run])
qed

lemma overshoot_reached:
  assumes "\<forall>i<n. now i < e" "\<forall>i<n. d i = x" "unat v + unat x \<le> unat mx"
  shows "(race_step mx ttl d now)\<^sup>*\<^sup>* (race_start n v e) (added n n (v + of_nat n * x) e)"
  using all_callers_check [OF order_refl assms] all_callers_add [OF order_refl assms(2)]
  by (rule rtranclp_trans)

section \<open>A report lost at the end of a window\<close>

definition report_start :: "u64 \<Rightarrow> u64 \<Rightarrow> race" where
  "report_start v e =
     \<lparr>cell_value = v, cell_expiry = e, callers = (\<lambda>i. if i < 2 then TestExpiry else Denied)\<rparr>"

text \<open>Caller 0 opens the new window, caller 1 adds to it, and caller 0 then stores its own delta.\<close>

lemma report_lost:
  assumes "e \<le> now 0" "now 1 < now 0 + ttl"
  shows "(race_step mx ttl d now)\<^sup>*\<^sup>* (report_start v e)
    \<lparr>cell_value = d 0, cell_expiry = now 0 + ttl, callers = (\<lambda>i. if i < 2 then Updated else Denied)\<rparr>"
proof -
  let ?R = "race_step mx ttl d now" and ?r = "report_start v e" and ?e = "now 0 + ttl"
  let ?r1 = "moves 0 (Exchange e) ?r"
  let ?r2 = "moves 0 StoreValue (?r\<lparr>cell_expiry := ?e\<rparr>)"
  let ?r3 = "moves 1 AddValue ?r2"
  let ?r4 = "moves 1 Updated (?r3\<lparr>cell_value := v + d 1\<rparr>)"
  have "?R\<^sup>*\<^sup>* ?r ?r" by simp
  also have "?R ?r ?r1" using race_step.test_expired [of ?r 0 now] assms(1) by (simp add: report_start_def)
  also have "?R ?r1 ?r2" using race_step.exchange_ok [of ?r1 0 e mx ttl d now]
    by (simp add: report_start_def)
  also have "?R ?r2 ?r3" using race_step.test_open [of ?r2 1 now mx ttl d] assms(2)
    by (simp add: report_start_def not_le)
  also have "?R ?r3 ?r4" using race_step.add [of ?r3 1 mx ttl d now]
    by (simp add: report_start_def)
  also have "?R ?r4 (moves 0 Updated (?r4\<lparr>cell_value := d 0\<rparr>))"
    using race_step.store [of ?r4 0 mx ttl d now] by simp
  finally have run: "?R\<^sup>*\<^sup>* ?r (moves 0 Updated (?r4\<lparr>cell_value := d 0\<rparr>))" .
  have eq: "moves 0 Updated (?r4\<lparr>cell_value := d 0\<rparr>) =
      \<lparr>cell_value = d 0, cell_expiry = ?e, callers = (\<lambda>i. if i < 2 then Updated else Denied)\<rparr>"
    by (auto simp: report_start_def)
  show ?thesis using run unfolding eq .
qed

end
