(* ===== verification/AsyncStorage.thy ===== *)
theory AsyncStorage
  imports Storage
begin

text \<open>
  \<^verbatim>\<open>AsyncStorage\<close> of \<^verbatim>\<open>limitador/src/storage/mod.rs\<close>, which repeats \<^verbatim>\<open>Storage\<close> over an
  \<^verbatim>\<open>AsyncCounterStorage\<close>; an \<^verbatim>\<open>await\<close> is the call it waits for.  \<open>async_storage_same\<close> says where the copy
  agrees with the original.  It differs in two places: \<^verbatim>\<open>add_limit\<close> does not touch the counters, and
  \<^verbatim>\<open>get_counters\<close> asks the backend even when the namespace has no limits.
\<close>

section \<open>Operations\<close>

definition async_with_counter_storage :: "'s \<Rightarrow> ('s, 'e) storage" where
  "async_with_counter_storage c = \<lparr>limits = [], counters = c\<rparr>"

definition async_get_namespaces :: "('s, 'e) storage \<Rightarrow> string list" where
  "async_get_namespaces s = map fst (limits s)"

definition async_add_limit :: "'e limit \<Rightarrow> ('s, 'e) storage \<Rightarrow> bool \<times> ('s, 'e) storage" where
  "async_add_limit l s =
     (case map_of (limits s) (namespace l) of
        Some ls \<Rightarrow>
          let (b, ls') = hset_insert limit_key l ls
          in (b, s\<lparr>limits := AList.update (namespace l) ls' (limits s)\<rparr>)
      | None \<Rightarrow>
          (True, s\<lparr>limits :=
             AList.update (namespace l) (snd (hset_insert limit_key l [])) (limits s)\<rparr>))"

definition async_update_limit :: "'e limit \<Rightarrow> ('s, 'e) storage \<Rightarrow> bool \<times> ('s, 'e) storage" where
  "async_update_limit u s =
     (case map_of (limits s) (namespace u) of
        Some ls \<Rightarrow>
          let req_update =
            (case hset_get limit_key (limit_key u) ls of
               Some l \<Rightarrow> max_value l \<noteq> max_value u \<or> limit_name l \<noteq> limit_name u
             | None \<Rightarrow> False)
          in if req_update then
               let ls = hset_remove limit_key (limit_key u) ls;
                   (_, ls) = hset_insert limit_key u ls
               in (True, s\<lparr>limits := AList.update (namespace u) ls (limits s)\<rparr>)
             else (False, s)
      | None \<Rightarrow> (False, s))"

definition async_get_limits :: "string \<Rightarrow> ('s, 'e) storage \<Rightarrow> 'e limit list" where
  "async_get_limits ns s = (case map_of (limits s) ns of Some ls \<Rightarrow> ls | None \<Rightarrow> [])"

definition async_delete_limit ::
  "('env, 's, 'e) counter_storage \<Rightarrow> 'env \<Rightarrow> 'e limit \<Rightarrow> ('s, 'e) storage \<Rightarrow>
   (('s, 'e) storage, unit) outcome" where
  "async_delete_limit cs env l s = do {
     let arc = (case map_of (limits s) (namespace l) of
         None \<Rightarrow> l
       | Some ls \<Rightarrow> (case List.find (\<lambda>x. limit_eq x l) ls of Some x \<Rightarrow> x | None \<Rightarrow> l));
     (r, c) \<leftarrow> cs_delete_counters cs env [arc] (counters s);
     let s = s\<lparr>counters := c\<rparr>;
     (case r of
        Inl e \<Rightarrow> Some (Inl e, s)
      | Inr _ \<Rightarrow>
          Some (Inr (), case map_of (limits s) (namespace l) of
              Some ls \<Rightarrow>
                let ls = hset_remove limit_key (limit_key l) ls
                in if ls = [] then s\<lparr>limits := AList.delete (namespace l) (limits s)\<rparr>
                   else s\<lparr>limits := AList.update (namespace l) ls (limits s)\<rparr>
            | None \<Rightarrow> s))
   }"

definition async_delete_limits ::
  "('env, 's, 'e) counter_storage \<Rightarrow> 'env \<Rightarrow> string \<Rightarrow> ('s, 'e) storage \<Rightarrow>
   (('s, 'e) storage, unit) outcome" where
  "async_delete_limits cs env ns s =
     (let opt = map_of (limits s) ns;
          s = s\<lparr>limits := AList.delete ns (limits s)\<rparr>
      in case opt of
           Some data \<Rightarrow> do {
             (r, c) \<leftarrow> cs_delete_counters cs env data (counters s);
             Some (r, s\<lparr>counters := c\<rparr>)
           }
         | None \<Rightarrow> Some (Inr (), s))"

definition async_is_within_limits ::
  "('env, 's, 'e) counter_storage \<Rightarrow> 'env \<Rightarrow> 'e counter \<Rightarrow> u64 \<Rightarrow> ('s, 'e) storage \<Rightarrow>
   (('s, 'e) storage, bool) outcome" where
  "async_is_within_limits cs env c delta s = do {
     (r, st) \<leftarrow> cs_is_within_limits cs env c delta (counters s);
     Some (r, s\<lparr>counters := st\<rparr>)
   }"

definition async_update_counter ::
  "('env, 's, 'e) counter_storage \<Rightarrow> 'env \<Rightarrow> 'e counter \<Rightarrow> u64 \<Rightarrow> ('s, 'e) storage \<Rightarrow>
   (('s, 'e) storage, unit) outcome" where
  "async_update_counter cs env c delta s = do {
     (r, st) \<leftarrow> cs_update_counter cs env c delta (counters s);
     Some (r, s\<lparr>counters := st\<rparr>)
   }"

definition async_storage_check ::
  "('env, 's, 'e) counter_storage \<Rightarrow> 'env \<Rightarrow> 'e counter list \<Rightarrow> u64 \<Rightarrow> ('s, 'e) storage \<Rightarrow>
   (((storage_err + authorization) \<times> 'e counter list) \<times> ('s, 'e) storage) option" where
  "async_storage_check cs env ctrs delta s = do {
     (r, st) \<leftarrow> cs_check cs env ctrs delta (counters s);
     Some (r, s\<lparr>counters := st\<rparr>)
   }"

definition async_storage_check_and_update ::
  "('env, 's, 'e) counter_storage \<Rightarrow> 'env \<Rightarrow> 'e counter list \<Rightarrow> u64 \<Rightarrow> ('s, 'e) storage \<Rightarrow>
   (((storage_err + authorization) \<times> 'e counter list) \<times> ('s, 'e) storage) option" where
  "async_storage_check_and_update cs env ctrs delta s = do {
     (r, st) \<leftarrow> cs_check_and_update cs env ctrs delta (counters s);
     Some (r, s\<lparr>counters := st\<rparr>)
   }"

definition async_get_counters ::
  "('env, 's, 'e) counter_storage \<Rightarrow> 'env \<Rightarrow> string \<Rightarrow> ('s, 'e) storage \<Rightarrow>
   (('s, 'e) storage, 'e counter list) outcome" where
  "async_get_counters cs env ns s = do {
     (r, st) \<leftarrow> cs_get_counters cs env (async_get_limits ns s) (counters s);
     Some (r, s\<lparr>counters := st\<rparr>)
   }"

definition async_storage_reserve ::
  "('env, 's, 'e) counter_storage \<Rightarrow> 'env \<Rightarrow> 'e counter list \<Rightarrow> reservation_id \<Rightarrow> u64 \<Rightarrow> u64 \<Rightarrow>
   duration \<Rightarrow> ('s, 'e) storage \<Rightarrow>
   (((storage_err + authorization) \<times> 'e counter list) \<times> ('s, 'e) storage) option" where
  "async_storage_reserve cs env ctrs rid check_amt hold_amt ttl s = do {
     (r, st) \<leftarrow> cs_reserve cs env ctrs rid check_amt hold_amt ttl (counters s);
     Some (r, s\<lparr>counters := st\<rparr>)
   }"

definition async_storage_release_reservation ::
  "('env, 's, 'e) counter_storage \<Rightarrow> 'env \<Rightarrow> 'e counter list \<Rightarrow> reservation_id \<Rightarrow>
   ('s, 'e) storage \<Rightarrow> (('s, 'e) storage, bool) outcome" where
  "async_storage_release_reservation cs env ctrs rid s = do {
     (r, st) \<leftarrow> cs_release_reservation cs env ctrs rid (counters s);
     Some (r, s\<lparr>counters := st\<rparr>)
   }"

definition async_storage_clear ::
  "('env, 's, 'e) counter_storage \<Rightarrow> 'env \<Rightarrow> ('s, 'e) storage \<Rightarrow> (('s, 'e) storage, unit) outcome" where
  "async_storage_clear cs env s = do {
     let s = s\<lparr>limits := []\<rparr>;
     (r, st) \<leftarrow> cs_clear cs env (counters s);
     Some (r, s\<lparr>counters := st\<rparr>)
   }"

section \<open>Agreement with the original\<close>

lemma async_update_limit_same: "async_update_limit u s = update_limit u s"
  by (simp add: async_update_limit_def update_limit_def Let_def case_prod_unfold split: option.split)

lemma async_delete_limit_same: "async_delete_limit cs env l s = delete_limit cs env l s"
  by (auto simp: async_delete_limit_def delete_limit_def remove_limit_def Let_def intro!: Option.bind_cong
      split: sum.split option.split)

lemma async_clear_same: "async_storage_clear cs env s = storage_clear cs env s"
  by (auto simp: async_storage_clear_def storage_clear_def intro!: Option.bind_cong)

lemma async_forward_same:
  "async_with_counter_storage = with_counter_storage" "async_get_namespaces = get_namespaces" "async_get_limits = get_limits"
  "async_is_within_limits = storage_is_within_limits" "async_update_counter = storage_update_counter"
  "async_storage_check = storage_check" "async_storage_check_and_update = storage_check_and_update"
  "async_storage_reserve = storage_reserve" "async_storage_release_reservation = storage_release_reservation"
  by (simp_all add: fun_eq_iff async_with_counter_storage_def with_counter_storage_def async_get_namespaces_def
      get_namespaces_def async_get_limits_def get_limits_def async_is_within_limits_def storage_is_within_limits_def
      async_update_counter_def storage_update_counter_def async_storage_check_def storage_check_def
      async_storage_check_and_update_def storage_check_and_update_def async_storage_reserve_def storage_reserve_def
      async_storage_release_reservation_def storage_release_reservation_def)

lemmas async_storage_same = async_forward_same async_update_limit_same async_delete_limit_same async_clear_same

end
