(* ===== verification/AsyncLimiter.thy ===== *)
theory AsyncLimiter
  imports Configure AsyncStorage
begin

text \<open>
  \<^verbatim>\<open>AsyncRateLimiter\<close> of \<^verbatim>\<open>limitador/src/lib.rs\<close> over \<^verbatim>\<open>AsyncStorage\<close>.  An \<^verbatim>\<open>await\<close> is the call it waits
  for.  The methods run the same steps as those of \<^verbatim>\<open>RateLimiter\<close> except where \<^verbatim>\<open>AsyncStorage\<close> differs:
  adding a limit does not tell the counter storage, deleting the limits of a namespace forgets them
  before the counters are deleted, and listing counters asks the backend in any case.
\<close>

section \<open>Operations\<close>

definition async_new_with_storage :: "'s \<Rightarrow> ('s, 'e) rate_limiter" where
  "async_new_with_storage c =
     \<lparr>storage = async_with_counter_storage c, reservation_limits = reservation_limits_default\<rparr>"

definition async_counters_that_apply ::
  "'e cel \<Rightarrow> string \<Rightarrow> cel_context \<Rightarrow> ('s, 'e) rate_limiter \<Rightarrow>
   (limitador_error + 'e counter list) option" where
  "async_counters_that_apply cel ns ctx rl = collect_counters cel ctx (async_get_limits ns (storage rl))"

definition async_is_rate_limited ::
  "('env, 's, 'e) counter_storage \<Rightarrow> 'e cel \<Rightarrow> 'env \<Rightarrow> string \<Rightarrow> cel_context \<Rightarrow> u64 \<Rightarrow>
   ('s, 'e, 'e check_result) limiter_op" where
  "async_is_rate_limited cs cel env ns ctx delta rl = do {
     r \<leftarrow> async_counters_that_apply cel ns ctx rl;
     (case r of
        Inl e \<Rightarrow> Some (Inl e, rl)
      | Inr ctrs \<Rightarrow>
          if ctrs = [] then
            Some (Inr \<lparr>limited = False, result_counters = ctrs, result_limit_name = None\<rparr>, rl)
          else do {
            ((auth, ctrs), st) \<leftarrow> async_storage_check cs env ctrs delta (storage rl);
            let rl = rl\<lparr>storage := st\<rparr>;
            Some (case auth of
                    Inl e \<Rightarrow> Inl (StorageError e)
                  | Inr AuthOk \<Rightarrow>
                      Inr \<lparr>limited = False, result_counters = ctrs, result_limit_name = None\<rparr>
                  | Inr (Limited n) \<Rightarrow>
                      Inr \<lparr>limited = True, result_counters = ctrs, result_limit_name = n\<rparr>, rl)
          })
   }"

text \<open>\<^verbatim>\<open>for counter in counters { self.storage.update_counter(..).await? }\<close>\<close>

primrec update_loop ::
  "('env, 's, 'e) counter_storage \<Rightarrow> 'env \<Rightarrow> u64 \<Rightarrow> 'e counter list \<Rightarrow>
   ('s, 'e) storage \<Rightarrow> (('s, 'e) storage, unit) outcome" where
  "update_loop cs env delta [] st = Some (Inr (), st)"
| "update_loop cs env delta (c # ctrs) st = do {
     (r, st) \<leftarrow> async_update_counter cs env c delta st;
     (case r of Inl e \<Rightarrow> Some (Inl e, st) | Inr _ \<Rightarrow> update_loop cs env delta ctrs st)
   }"

definition async_update_counters ::
  "('env, 's, 'e) counter_storage \<Rightarrow> 'e cel \<Rightarrow> 'env \<Rightarrow> string \<Rightarrow> cel_context \<Rightarrow> u64 \<Rightarrow>
   ('s, 'e, unit) limiter_op" where
  "async_update_counters cs cel env ns ctx delta rl = do {
     r \<leftarrow> async_counters_that_apply cel ns ctx rl;
     (case r of
        Inl e \<Rightarrow> Some (Inl e, rl)
      | Inr ctrs \<Rightarrow> do {
          (r, st) \<leftarrow> update_loop cs env delta ctrs (storage rl);
          Some (case r of Inl e \<Rightarrow> Inl (StorageError e) | Inr _ \<Rightarrow> Inr (), rl\<lparr>storage := st\<rparr>)
        })
   }"

definition async_check_rate_limited_and_update ::
  "('env, 's, 'e) counter_storage \<Rightarrow> 'e cel \<Rightarrow> 'env \<Rightarrow> string \<Rightarrow> cel_context \<Rightarrow> u64 \<Rightarrow>
   ('s, 'e, 'e check_result) limiter_op" where
  "async_check_rate_limited_and_update cs cel env ns ctx delta rl = do {
     r \<leftarrow> async_counters_that_apply cel ns ctx rl;
     (case r of
        Inl e \<Rightarrow> Some (Inl e, rl)
      | Inr ctrs \<Rightarrow>
          if ctrs = [] then
            Some (Inr \<lparr>limited = False, result_counters = ctrs, result_limit_name = None\<rparr>, rl)
          else do {
            ((check_result, ctrs), st) \<leftarrow> async_storage_check_and_update cs env ctrs delta (storage rl);
            let rl = rl\<lparr>storage := st\<rparr>;
            (case check_result of
               Inl e \<Rightarrow> Some (Inl (StorageError e), rl)
             | Inr AuthOk \<Rightarrow>
                 Some (Inr \<lparr>limited = False, result_counters = map (subtract_delta delta) ctrs,
                            result_limit_name = None\<rparr>, rl)
             | Inr (Limited n) \<Rightarrow>
                 Some (Inr \<lparr>limited = True, result_counters = ctrs, result_limit_name = n\<rparr>, rl))
          })
   }"

definition async_limiter_get_counters ::
  "('env, 's, 'e) counter_storage \<Rightarrow> 'env \<Rightarrow> string \<Rightarrow> ('s, 'e, 'e counter list) limiter_op" where
  "async_limiter_get_counters cs env ns rl = do {
     (r, st) \<leftarrow> async_get_counters cs env ns (storage rl);
     Some (case r of Inl e \<Rightarrow> Inl (StorageError e) | Inr x \<Rightarrow> Inr x, rl\<lparr>storage := st\<rparr>)
   }"

definition async_reserve ::
  "('env, 's, 'e) counter_storage \<Rightarrow> 'e cel \<Rightarrow> 'env \<Rightarrow> reservation_id \<Rightarrow> string \<Rightarrow> cel_context \<Rightarrow>
   u64 \<Rightarrow> duration option \<Rightarrow> ('s, 'e, 'e reserve_result) limiter_op" where
  "async_reserve cs cel env rid ns ctx amt ttl rl = do {
     r \<leftarrow> async_counters_that_apply cel ns ctx rl;
     (case r of
        Inl e \<Rightarrow> Some (Inl e, rl)
      | Inr ctrs \<Rightarrow>
          if ctrs = [] then
            Some (Inr \<lparr>rr_limited = False, rr_reservation_id = None, rr_amount = 0,
                       rr_counters = ctrs, rr_limit_name = None\<rparr>, rl)
          else do {
            let hold = clamp_hold (max_fraction (reservation_limits rl)) ctrs amt;
            let ttl = clamp_ttl (max_ttl (reservation_limits rl)) ttl;
            ((auth, ctrs), st) \<leftarrow> async_storage_reserve cs env ctrs rid amt hold ttl (storage rl);
            let rl = rl\<lparr>storage := st\<rparr>;
            Some (case auth of
                    Inl e \<Rightarrow> Inl (StorageError e)
                  | Inr AuthOk \<Rightarrow>
                      Inr \<lparr>rr_limited = False,
                           rr_reservation_id = (if hold > 0 then Some rid else None),
                           rr_amount = hold, rr_counters = ctrs, rr_limit_name = None\<rparr>
                  | Inr (Limited n) \<Rightarrow>
                      Inr \<lparr>rr_limited = True, rr_reservation_id = None, rr_amount = 0,
                           rr_counters = ctrs, rr_limit_name = n\<rparr>, rl)
          })
   }"

definition async_commit_reservation ::
  "('env, 's, 'e) counter_storage \<Rightarrow> 'e cel \<Rightarrow> 'env \<Rightarrow> string \<Rightarrow> cel_context \<Rightarrow>
   reservation_id option \<Rightarrow> u64 \<Rightarrow> ('s, 'e, commit_result) limiter_op" where
  "async_commit_reservation cs cel env ns ctx rid actual rl = do {
     r \<leftarrow> async_counters_that_apply cel ns ctx rl;
     (case r of
        Inl e \<Rightarrow> Some (Inl e, rl)
      | Inr ctrs \<Rightarrow> do {
          (r, st) \<leftarrow> update_loop cs env actual ctrs (storage rl);
          let rl = rl\<lparr>storage := st\<rparr>;
          (case r of
             Inl e \<Rightarrow> Some (Inl (StorageError e), rl)
           | Inr _ \<Rightarrow>
               (case rid of
                  Some rid \<Rightarrow>
                    if ctrs \<noteq> [] then do {
                      (r, st) \<leftarrow> async_storage_release_reservation cs env ctrs rid (storage rl);
                      Some (case r of
                              Inl e \<Rightarrow> Inl (StorageError e)
                            | Inr b \<Rightarrow> Inr \<lparr>reservation_released = b\<rparr>, rl\<lparr>storage := st\<rparr>)
                    }
                    else Some (Inr \<lparr>reservation_released = False\<rparr>, rl)
                | None \<Rightarrow> Some (Inr \<lparr>reservation_released = False\<rparr>, rl)))
        })
   }"

definition async_limiter_add_limit ::
  "'e limit \<Rightarrow> ('s, 'e) rate_limiter \<Rightarrow> bool \<times> ('s, 'e) rate_limiter" where
  "async_limiter_add_limit l rl =
     (let (b, st) = async_add_limit l (storage rl) in (b, rl\<lparr>storage := st\<rparr>))"

definition async_limiter_get_namespaces :: "('s, 'e) rate_limiter \<Rightarrow> string list" where
  "async_limiter_get_namespaces rl = async_get_namespaces (storage rl)"

definition async_limiter_delete_limit ::
  "('env, 's, 'e) counter_storage \<Rightarrow> 'env \<Rightarrow> 'e limit \<Rightarrow> ('s, 'e, unit) limiter_op" where
  "async_limiter_delete_limit cs env l rl = do {
     (r, st) \<leftarrow> async_delete_limit cs env l (storage rl);
     Some (case r of Inl e \<Rightarrow> Inl (StorageError e) | Inr _ \<Rightarrow> Inr (), rl\<lparr>storage := st\<rparr>)
   }"

definition async_limiter_get_limits :: "string \<Rightarrow> ('s, 'e) rate_limiter \<Rightarrow> 'e limit list" where
  "async_limiter_get_limits ns rl = hset_collect limit_key (async_get_limits ns (storage rl))"

definition async_limiter_delete_limits ::
  "('env, 's, 'e) counter_storage \<Rightarrow> 'env \<Rightarrow> string \<Rightarrow> ('s, 'e, unit) limiter_op" where
  "async_limiter_delete_limits cs env ns rl = do {
     (r, st) \<leftarrow> async_delete_limits cs env ns (storage rl);
     Some (case r of Inl e \<Rightarrow> Inl (StorageError e) | Inr _ \<Rightarrow> Inr (), rl\<lparr>storage := st\<rparr>)
   }"

definition async_configure_namespace ::
  "('env, 's, 'e) counter_storage \<Rightarrow> 'env \<Rightarrow> (string \<times> 'e limit list) list \<Rightarrow> string \<Rightarrow>
   ('s, 'e, unit) limiter_op" where
  "async_configure_namespace cs env keep ns rl = do {
     let in_ns = async_limiter_get_limits ns rl;
     let keep_ns = (case map_of keep ns of Some ls \<Rightarrow> ls | None \<Rightarrow> []);
     (r, rl) \<leftarrow> try_each (async_limiter_delete_limit cs env) (hset_difference limit_key in_ns keep_ns) rl;
     (case r of
        Inl e \<Rightarrow> Some (Inl e, rl)
      | Inr _ \<Rightarrow>
          let rl = fold (\<lambda>l rl. snd (async_limiter_add_limit l rl))
                (hset_difference limit_key keep_ns in_ns) rl
          in Some (Inr (),
               rl\<lparr>storage := fold (\<lambda>l st. snd (async_update_limit l st))
                 (hset_union limit_key keep_ns in_ns) (storage rl)\<rparr>))
   }"

definition async_configure_with ::
  "('env, 's, 'e) counter_storage \<Rightarrow> 'env \<Rightarrow> 'e limit list \<Rightarrow> ('s, 'e, unit) limiter_op" where
  "async_configure_with cs env ls rl =
     (let keep = classify_limits_by_namespace ls
      in try_each (async_configure_namespace cs env keep)
           (hset_union id (async_limiter_get_namespaces rl) (map fst keep)) rl)"

section \<open>Agreement with the synchronous limiter\<close>

lemma async_new_same: "async_new_with_storage c = new_with_storage c"
  by (simp add: async_new_with_storage_def new_with_storage_def async_storage_same)

lemma async_limits_same:
  "async_limiter_get_namespaces rl = get_namespaces (storage rl)"
  "async_limiter_delete_limit = limiter_delete_limit" "async_limiter_get_limits = limiter_get_limits"
  by (simp_all add: fun_eq_iff async_limiter_get_namespaces_def async_limiter_delete_limit_def limiter_delete_limit_def
      async_limiter_get_limits_def limiter_get_limits_def async_storage_same)

declare async_storage_same [simp] async_limits_same [simp]

lemma async_counters: "async_counters_that_apply = counters_that_apply"
  by (simp add: fun_eq_iff async_counters_that_apply_def counters_that_apply_def)

lemma update_loop_each: "update_loop cs env delta ctrs st = update_each cs env ctrs delta st"
  by (induction ctrs arbitrary: st)
    (auto simp: update_each_def intro!: Option.bind_cong split: sum.split)

lemma async_check:
  "async_is_rate_limited cs cel env ns ctx delta rl = is_rate_limited cs cel env ns ctx delta rl"
  unfolding async_is_rate_limited_def is_rate_limited_def async_counters
  by (auto simp: result_of_auth_def Let_def intro!: Option.bind_cong
      split: sum.split authorization.split)

lemma async_check_and_update:
  "async_check_rate_limited_and_update cs cel env ns ctx delta rl =
     check_rate_limited_and_update cs cel env ns ctx delta rl"
  unfolding async_check_rate_limited_and_update_def check_rate_limited_and_update_def async_counters
  by (auto simp: result_of_auth_def Let_def intro!: Option.bind_cong
      split: sum.split authorization.split)

lemma async_report:
  "async_update_counters cs cel env ns ctx delta rl = update_counters cs cel env ns ctx delta rl"
  unfolding async_update_counters_def update_counters_def async_counters update_loop_each ..

lemma async_reserve_same:
  "async_reserve cs cel env rid ns ctx amt ttl rl = limiter_reserve cs cel env rid ns ctx amt ttl rl"
  unfolding async_reserve_def limiter_reserve_def async_counters
  by (auto simp: reserve_result_of_def Let_def intro!: Option.bind_cong
      split: sum.split authorization.split)

lemma async_commit_same:
  "async_commit_reservation cs cel env ns ctx rid actual rl =
     commit_reservation cs cel env ns ctx rid actual rl"
  unfolding async_commit_reservation_def commit_reservation_def async_counters update_loop_each
  by (auto simp: Let_def intro!: Option.bind_cong split: sum.split option.split)

text \<open>Over a counter storage whose \<^verbatim>\<open>add_counter\<close> does nothing, the two also manage limits alike.\<close>

lemma async_add_same:
  assumes "\<And>l s. cs_add_counter cs env l s = Some (Inr (), s)"
  shows "limiter_add_limit cs env l rl = Some (async_limiter_add_limit l rl)"
proof -
  have "fst (hset_insert limit_key l []) " by (simp add: hset_insert_def)
  with assms show ?thesis
    by (auto simp: limiter_add_limit_def add_limit_def async_limiter_add_limit_def async_add_limit_def
        Let_def case_prod_unfold split: option.split)
qed

text \<open>Over any storage, adding a limit answers alike and registers the same limits; the asynchronous limiter
  leaves the counters alone.\<close>

lemma async_add_limits:
  "limiter_add_limit cs env l rl = Some (b, rl') \<Longrightarrow>
     fst (async_limiter_add_limit l rl) = b \<and>
     limits (storage (snd (async_limiter_add_limit l rl))) = limits (storage rl')"
  "counters (storage (snd (async_limiter_add_limit l rl))) = counters (storage rl)"
  using hset_insert_def [of limit_key l "[]"]
  by (auto simp: limiter_add_limit_def add_limit_def async_limiter_add_limit_def async_add_limit_def
      Let_def case_prod_unfold split: option.splits bind_splits sum.splits)

lemma async_get_counters_same:
  assumes "ns \<in> set (get_namespaces (storage rl))"
  shows "async_limiter_get_counters cs env ns rl = limiter_get_counters cs env ns rl"
proof -
  obtain ls where "map_of (limits (storage rl)) ns = Some ls"
    using assms weak_map_of_SomeI by (fastforce simp: get_namespaces_def)
  then show ?thesis
    by (simp add: async_limiter_get_counters_def limiter_get_counters_def async_get_counters_def
        storage_get_counters_def get_limits_def)
qed

lemma no_namespace_no_counters:
  "ns \<notin> set (get_namespaces (storage rl)) \<Longrightarrow> limiter_get_counters cs env ns rl = Some (Inr [], rl)"
  by (simp add: limiter_get_counters_def storage_get_counters_def get_namespaces_def
      map_of_eq_None_iff [THEN iffD2])

lemma async_delete_limits_same:
  "async_limiter_delete_limits cs env ns rl = limiter_delete_limits cs env ns rl"
proof (cases "map_of (limits (storage rl)) ns")
  case None
  then have "AList.delete ns (limits (storage rl)) = limits (storage rl)"
    by (simp add: map_of_eq_None_iff)
  with None show ?thesis
    by (simp add: async_limiter_delete_limits_def limiter_delete_limits_def async_delete_limits_def
        delete_limits_def)
next
  case (Some ls)
  then show ?thesis
    by (auto simp: async_limiter_delete_limits_def limiter_delete_limits_def async_delete_limits_def
        delete_limits_def Let_def intro!: Option.bind_cong)
qed

lemma fold_panic_total: "(\<And>x s. f x s = Some (g x s)) \<Longrightarrow> fold_panic f xs s = Some (fold g xs s)"
  by (induction xs arbitrary: s) auto

lemma async_configure_namespace_same:
  assumes "\<And>l s. cs_add_counter cs env l s = Some (Inr (), s)"
  shows "async_configure_namespace cs env keep ns rl = configure_namespace cs env keep ns rl"
proof -
  have "fold_panic (\<lambda>l rl. map_option snd (limiter_add_limit cs env l rl)) ls rl =
      Some (fold (\<lambda>l rl. snd (async_limiter_add_limit l rl)) ls rl)" for ls rl
    by (rule fold_panic_total) (simp add: async_add_same [OF assms])
  then show ?thesis
    by (auto simp: async_configure_namespace_def configure_namespace_def Let_def
        intro!: Option.bind_cong split: sum.split)
qed

lemma async_configure_same:
  assumes "\<And>l s. cs_add_counter cs env l s = Some (Inr (), s)"
  shows "async_configure_with cs env ls rl = configure_with cs env ls rl"
proof -
  have "async_configure_namespace cs env keep = configure_namespace cs env keep" for keep
    by (simp add: fun_eq_iff async_configure_namespace_same [OF assms])
  then show ?thesis by (simp add: async_configure_with_def configure_with_def)
qed

end
