(* ===== verification/Holding.thy ===== *)
theory Holding
  imports MemoryStore
begin

text \<open>
  Reservations over the in-memory storage: what \<open>touch\<close>, \<open>reserve\<close> and \<open>release_reservation\<close> do to the
  usage and to the amounts held, and the limiter's \<open>limiter_reserve\<close> and \<open>commit_reservation\<close> over them.
\<close>

section \<open>Touching a counter\<close>

lemma now_before_expiry:
  "as_micros now < unat e \<Longrightarrow> now < from_micros e"
  unfolding as_micros_def from_micros_def by (metis div_less_iff_less_mult zero_less_numeral)

lemma from_micros_in_range: "from_micros e div 10 ^ 9 < 2 ^ 63"
proof -
  have "from_micros e < 2 ^ 64 * 1000" by (simp add: from_micros_def)
  then show ?thesis by (simp add: div_less_iff_less_mult)
qed

text \<open>After an update the window is open: its remaining time is positive and ends within range.\<close>

lemma value_ttl_open:
  assumes "in_time now c" "value_update d (window c) now v = Some (r, v')"
  shows "0 < value_ttl now v'" "systime_add now (value_ttl now v') \<noteq> None"
proof -
  note f = in_time_facts [OF assms(1)]
  have "as_micros now < unat (expiry (av_expiry v'))"
    using assms(2) f(2,4) unat_window_end [OF f(1)]
    by (auto simp: value_update_fits [OF f(1)] expired_at_def word_le_nat_alt split: if_splits)
  then have lt: "now < from_micros (expiry (av_expiry v'))" by (rule now_before_expiry)
  then show "0 < value_ttl now v'"
    by (simp add: value_ttl_def expiry_ttl_def duration_since_or_zero_def)
  from lt from_micros_in_range [of "expiry (av_expiry v')"]
  show "systime_add now (value_ttl now v') \<noteq> None"
    by (simp add: systime_add_def value_ttl_def expiry_ttl_def duration_since_or_zero_def)
qed

definition touched :: "systime \<Rightarrow> 'e in_memory \<Rightarrow> 'e counter \<Rightarrow> u64 \<times> duration \<Rightarrow> bool" where
  "touched now s c = (\<lambda>(v, w).
     v = usage s now (counter_key c) \<and> 0 < w \<and> systime_add now w \<noteq> None)"

lemma touch_spec:
  assumes "in_time (env_now env) c" "\<not> env_evicts env (counter_key c)"
  shows "\<exists>vt s'. touch env c s = Some (vt, s') \<and> touched (env_now env) s c vt \<and> bumped env 0 {} s s'"
proof (cases "is_qualified c")
  case True
  from get_or_create_spec [OF assms(1) True assms(2), of s] obtain v s1 where
    g: "get_or_create env c s = Some (v, s1)" by blast
  note b = get_or_create_bumped [OF assms(1) True assms(2) g]
  from value_update_in_time [OF assms(1), of 0 v] obtain r v' where
    u: "value_update 0 (window c) (env_now env) v = Some (r, v')"
      "value_at v' (env_now env) = value_at v (env_now env)" "r = value_at v (env_now env)"
    by auto
  from b(3) True obtain x where x: "map_of (qualified_counters s1) (counter_key c) = Some (x, v)"
    by (auto simp: stored_counter)
  let ?s' = "s1\<lparr>qualified_counters := AList.update (counter_key c) (x, v') (qualified_counters s1)\<rparr>"
  have "touch env c s = Some ((r, value_ttl (env_now env) v'), ?s')"
    using True g u x by (simp add: touch_def update_handle_def Let_def)
  moreover have "bumped env 0 {} s1 ?s'"
    using b(3) u(2) True by (simp add: bumped_def usage_def stored_qualified_update)
  ultimately show ?thesis
    using value_ttl_open [OF assms(1) u(1)] u(3) b(2) bumped_trans [OF b(1)]
    by (fastforce simp: touched_def)
next
  case False
  let ?lv = "case map_of (simple_limits s) (limit_key (limit c)) of
    Some lv \<Rightarrow> lv | None \<Rightarrow> (limit c, value_new 0 (env_now env + window c))"
  obtain l v where lv: "?lv = (l, v)" by (cases ?lv)
  have val: "value_at v (env_now env) = usage s (env_now env) (counter_key c)"
    using lv False value_at_fresh [OF assms(1), of 0]
    by (auto simp: usage_def stored_counter split: option.splits)
  from value_update_in_time [OF assms(1), of 0 v] obtain r v' where
    u: "value_update 0 (window c) (env_now env) v = Some (r, v')"
      "value_at v' (env_now env) = value_at v (env_now env)" "r = value_at v (env_now env)"
    by auto
  let ?s' = "s\<lparr>simple_limits := AList.update (limit_key (limit c)) (l, v') (simple_limits s)\<rparr>"
  have "touch env c s = Some ((r, value_ttl (env_now env) v'), ?s')"
    using False u(1) lv in_time_facts(3) [OF assms(1)]
    by (auto simp: touch_def Let_def split: option.splits)
  moreover have "bumped env 0 {} s ?s'"
    using u(2) val False by (auto simp: bumped_def usage_def stored_simple_update)
  ultimately show ?thesis
    using value_ttl_open [OF assms(1) u(1)] u(3) val by (simp add: touched_def)
qed

lemma touched_mono:
  "bumped env 0 {} s t \<Longrightarrow> \<not> env_evicts env (counter_key c) \<Longrightarrow>
   touched (env_now env) t c vt \<longleftrightarrow> touched (env_now env) s c vt"
  by (simp add: touched_def bumped_usage)

lemma map_panic_touch:
  assumes "\<forall>c\<in>set cs. in_time (env_now env) c \<and> \<not> env_evicts env (counter_key c)"
  shows "\<exists>vts s'. map_panic (touch env) cs s = Some (vts, s') \<and>
    list_all2 (touched (env_now env) s) cs vts \<and> bumped env 0 {} s s'"
  using assms
proof (induction cs arbitrary: s)
  case (Cons c cs)
  then obtain vt t where
    t: "touch env c s = Some (vt, t)" "touched (env_now env) s c vt" "bumped env 0 {} s t"
    using touch_spec [of env c s] by auto
  from Cons.IH [of t] Cons.prems obtain vts u where
    u: "map_panic (touch env) cs t = Some (vts, u)" "list_all2 (touched (env_now env) t) cs vts"
      "bumped env 0 {} t u"
    by auto
  have "list_all2 (touched (env_now env) s) cs vts"
    using u(2) Cons.prems touched_mono [OF t(3)] by (auto simp: list_all2_conv_all_nth)
  with t u(1) bumped_trans [OF t(3) u(3)] show ?case by simp
qed simp

section \<open>Holding exactly the amount asked for\<close>

lemma registry_reserve_held:
  assumes ok: "request_ok ctrs vts req reg" and time: "request_in_time vts req"
    and open_windows: "\<forall>(v, w)\<in>set vts. 0 < w" and ttl: "0 < req_ttl req" and kept: "\<not> ev k"
    and run: "registry_reserve ev ctrs vts req reg = Some (AuthOk, cs', reg')"
  shows "held reg' k (req_now req) = held reg k (req_now req)
    + (if k \<in> counter_key ` set ctrs then unat (hold_amount req) else 0)"
proof -
  have adm: "admissible ctrs vts req reg" using registry_reserve_sound(1) [OF ok time run] by simp
  define cs where "cs = map (annotate_reserved (hold_amount req) (req_now req) reg) (zip ctrs vts)"
  have len: "length vts = length ctrs" "length vts = length cs"
    and dist: "distinct (map counter_key ctrs)"
    using ok by (simp_all add: cs_def request_ok_def)
  have keys: "map counter_key cs = map counter_key ctrs"
    unfolding cs_def by (rule annotate_reserved_keys [OF len(1)])
  have rows: "\<forall>(c, exp, w)\<in>set (hold_rows req cs vts). 0 < w \<and> req_now req < exp"
    using open_windows ttl by (fastforce simp: hold_rows_def dest: set_zip_rightD)
  have dist': "distinct (map (\<lambda>r. counter_key (fst r)) (hold_rows req cs vts))"
    by (simp only: hold_rows_keys [OF len(2)] keys dist)
  have image: "counter_key ` fst ` set (hold_rows req cs vts) = counter_key ` set ctrs"
    using hold_rows_image [OF len(2), of req] arg_cong [OF keys, of set] by simp
  from registry_reserve_Ok [OF ok time adm, of ev] run have
    "reg' = (if hold_amount req = 0 then reg else fold (store_hold ev req) (hold_rows req cs vts) reg)"
    by (auto simp: cs_def)
  with held_fold_store_hold [where ev = ev and k = k and req = req and reg = reg, OF dist' rows kept] show ?thesis by (simp add: image)
qed

section \<open>Reserving in memory\<close>

lemma stored_reservations [simp]: "stored (s\<lparr>reservations := r\<rparr>) k = stored s k"
  by (simp add: stored_def)

lemma usage_reservations [simp]: "usage (s\<lparr>reservations := r\<rparr>) now k = usage s now k"
  by (simp add: usage_def)

definition reserve_ok :: "mem_env \<Rightarrow> 'e counter list \<Rightarrow> u64 \<Rightarrow> u64 \<Rightarrow> duration \<Rightarrow> 'e in_memory \<Rightarrow> bool" where
  "reserve_ok env cs amt hold ttl s \<longleftrightarrow>
     call_ok env cs \<and> hold \<le> amt \<and> systime_add (env_now env) ttl \<noteq> None \<and>
     (\<forall>c\<in>set cs. unat (usage s (env_now env) (counter_key c))
        + held (reservations s) (counter_key c) (env_now env) + unat amt < 2 ^ 64)"

definition has_room :: "mem_env \<Rightarrow> u64 \<Rightarrow> 'e in_memory \<Rightarrow> 'e counter \<Rightarrow> bool" where
  "has_room env amt s c \<longleftrightarrow>
     unat (usage s (env_now env) (counter_key c))
       + held (reservations s) (counter_key c) (env_now env) + unat amt
     \<le> unat (counter_max_value c)"

lemma touched_rows:
  assumes "list_all2 (touched now s) cs vts"
  shows "length vts = length cs"
    and "\<forall>(c, v, w)\<in>set (zip cs vts). v = usage s now (counter_key c)"
    and "\<forall>(v, w)\<in>set vts. 0 < w \<and> systime_add now w \<noteq> None"
  using assms by (induction rule: list_all2_induct) (auto simp: touched_def)

lemma zip_row: "length ys = length xs \<Longrightarrow> x \<in> set xs \<Longrightarrow> \<exists>v w. (x, v, w) \<in> set (zip xs ys)"
  by (metis in_set_impl_in_set_zip1 prod.exhaust)

lemma touched_request:
  fixes cs :: "'e counter list" and rid :: reservation_id
  assumes ok: "reserve_ok env cs amt hold ttl s" and rows: "list_all2 (touched (env_now env) s) cs vts"
  defines "req \<equiv> \<lparr>req_id = rid, check_amount = amt, hold_amount = hold, req_ttl = ttl,
    req_now = env_now env\<rparr>"
  shows "request_ok cs vts req (reservations s)" "request_in_time vts req"
    "admissible cs vts req (reservations s) \<longleftrightarrow> (\<forall>c\<in>set cs. has_room env amt s c)"
proof -
  note r = touched_rows [OF rows]
  have val: "v = usage s (env_now env) (counter_key c) \<and> c \<in> set cs"
    if "(c, v, w) \<in> set (zip cs vts)" for c :: "'e counter" and v w
    using bspec [OF r(2) that] set_zip_leftD [OF that] by simp
  show "request_ok cs vts req (reservations s)"
    using ok r(1) val unfolding request_ok_def req_def reserve_ok_def call_ok_def by fastforce
  show "request_in_time vts req"
    using ok r(3) unfolding request_in_time_def req_def reserve_ok_def by fastforce
  show "admissible cs vts req (reservations s) \<longleftrightarrow> (\<forall>c\<in>set cs. has_room env amt s c)"
  proof
    assume adm: "admissible cs vts req (reservations s)"
    show "\<forall>c\<in>set cs. has_room env amt s c"
    proof
      fix c assume "c \<in> set cs"
      with zip_row [OF r(1)] obtain v w where "(c, v, w) \<in> set (zip cs vts)" by blast
      with adm val [OF this] show "has_room env amt s c"
        by (auto simp: admissible_def has_room_def req_def)
    qed
  next
    assume "\<forall>c\<in>set cs. has_room env amt s c"
    with val show "admissible cs vts req (reservations s)"
      unfolding admissible_def has_room_def req_def by fastforce
  qed
qed

lemma reserve_result:
  fixes cs :: "'e counter list"
  assumes ok: "reserve_ok env cs amt hold ttl s"
  shows "\<exists>a cs' s'. reserve env cs rid amt hold ttl s = Some ((Inr a, cs'), s') \<and>
    (a = AuthOk \<longleftrightarrow> (\<forall>c\<in>set cs. has_room env amt s c)) \<and>
    map counter_key cs' = map counter_key cs \<and>
    (\<forall>k. \<not> env_evicts env k \<longrightarrow> usage s' (env_now env) k = usage s (env_now env) k) \<and>
    (a \<noteq> AuthOk \<longrightarrow> reservations s' = reservations s) \<and>
    (\<forall>k. held (reservations s') k (env_now env) \<le> held (reservations s) k (env_now env)
       + (if a = AuthOk \<and> k \<in> counter_key ` set cs then unat hold else 0)) \<and>
    (a = AuthOk \<longrightarrow> 0 < ttl \<longrightarrow>
       (\<forall>k. \<not> env_evicts env k \<longrightarrow>
          held (reservations s') k (env_now env) = held (reservations s) k (env_now env)
            + (if k \<in> counter_key ` set cs then unat hold else 0)))"
proof -
  have "\<forall>c\<in>set cs. in_time (env_now env) c \<and> \<not> env_evicts env (counter_key c)"
    using ok by (simp add: reserve_ok_def call_ok_def)
  from map_panic_touch [OF this, of s] obtain vts s1 where
    t: "map_panic (touch env) cs s = Some (vts, s1)" "list_all2 (touched (env_now env) s) cs vts"
      "bumped env 0 {} s s1"
    by blast
  let ?req = "\<lparr>req_id = rid, check_amount = amt, hold_amount = hold, req_ttl = ttl,
    req_now = env_now env\<rparr>"
  note req = touched_request [OF ok t(2), of rid]
  have res: "reservations s1 = reservations s" using t(3) by (simp add: bumped_def)
  have len: "length vts = length cs" by (rule touched_rows(1) [OF t(2)])
  obtain a cs' reg' where run: "registry_reserve (env_evicts env) cs vts ?req (reservations s)
      = Some (a, cs', reg')"
    using registry_reserve_result [OF len req(2), of "env_evicts env" "reservations s"]
    by (metis prod.exhaust)
  have windows: "\<forall>(v, w)\<in>set vts. 0 < w" using touched_rows(3) [OF t(2)] by auto
  let ?s' = "s1\<lparr>reservations := reg'\<rparr>"
  have "reserve env cs rid amt hold ttl s = Some ((Inr a, cs'), ?s')"
    using t(1) run by (simp add: reserve_def res)
  moreover have "usage ?s' (env_now env) k = usage s (env_now env) k" if "\<not> env_evicts env k" for k
    using bumped_usage [OF t(3) that] by simp
  moreover have "held reg' k (env_now env) = held (reservations s) k (env_now env)
      + (if k \<in> counter_key ` set cs then unat hold else 0)"
    if "a = AuthOk" "0 < ttl" "\<not> env_evicts env k" for k
    using registry_reserve_held [where ev = "env_evicts env" and k = k, OF req(1,2) windows _ that(3),
        of cs' reg'] run that(1,2) by simp
  moreover have "held reg' k (env_now env) \<le> held (reservations s) k (env_now env)
      + (if a = AuthOk \<and> k \<in> counter_key ` set cs then unat hold else 0)" for k
    using registry_reserve_sound(4) [OF req(1,2) run, of k] by (simp split: if_splits)
  ultimately show ?thesis
    using registry_reserve_sound(1-3) [OF req(1,2) run] req(3)
    by (intro exI [of _ a] exI [of _ cs'] exI [of _ ?s'] conjI) auto
qed

section \<open>The limiter's reservations\<close>

lemma fold_min_le: "fold min xs m \<le> m" "x \<in> set xs \<Longrightarrow> fold min xs m \<le> x" for m :: "'a :: linorder"
proof (induction xs arbitrary: m)
  case (Cons y xs)
  { case 1
    show ?case using Cons.IH(1) [of "min y m"] by simp
  next
    case 2
    then show ?case using Cons.IH(1) [of "min y m"] Cons.IH(2) [of "min y m"] by auto }
qed simp_all

lemma clamp_hold_le:
  "clamp_hold frac cs amt \<le> amt"
  "c \<in> set cs \<Longrightarrow> clamp_hold frac cs amt \<le> hold_cap frac c"
proof -
  show "clamp_hold frac cs amt \<le> amt" by (simp add: clamp_hold_def split: list.split)
  assume "c \<in> set cs"
  then have "hold_cap frac c \<in> set (map (hold_cap frac) cs)" by simp
  then show "clamp_hold frac cs amt \<le> hold_cap frac c"
    using fold_min_le by (fastforce simp: clamp_hold_def min_le_iff_disj split: list.split)
qed

lemma limiter_reserve_result:
  fixes amt :: u64 and ttl :: "duration option"
  assumes app: "counters_that_apply cel ns ctx rl = Some (Inr cs)" and some: "cs \<noteq> []"
  defines "s \<equiv> counters (storage rl)"
    and "hold \<equiv> clamp_hold (max_fraction (reservation_limits rl)) cs amt"
    and "life \<equiv> clamp_ttl (max_ttl (reservation_limits rl)) ttl"
  assumes ok: "reserve_ok env cs amt hold life s"
  shows "\<exists>r rl'. limiter_reserve (memory_storage cel) cel env rid ns ctx amt ttl rl = Some (Inr r, rl') \<and>
    (rr_limited r \<longleftrightarrow> (\<exists>c\<in>set cs. \<not> has_room env amt s c)) \<and>
    map counter_key (rr_counters r) = map counter_key cs \<and>
    (rr_reservation_id r = (if \<not> rr_limited r \<and> 0 < hold then Some rid else None)) \<and>
    rr_amount r = (if rr_limited r then 0 else hold) \<and>
    limits (storage rl') = limits (storage rl) \<and>
    (\<forall>k. \<not> env_evicts env k \<longrightarrow>
       usage (counters (storage rl')) (env_now env) k = usage s (env_now env) k) \<and>
    (\<forall>k. held (reservations (counters (storage rl'))) k (env_now env) \<le> held (reservations s) k (env_now env)
       + (if k \<in> counter_key ` set cs then unat (rr_amount r) else 0)) \<and>
    (0 < life \<longrightarrow> (\<forall>k. \<not> env_evicts env k \<longrightarrow>
       held (reservations (counters (storage rl'))) k (env_now env) = held (reservations s) k (env_now env)
         + (if k \<in> counter_key ` set cs then unat (rr_amount r) else 0)))"
proof -
  from reserve_result [OF ok, of rid] obtain a cs' s' where
    run: "reserve env cs rid amt hold life s = Some ((Inr a, cs'), s')" and
    a: "a = AuthOk \<longleftrightarrow> (\<forall>c\<in>set cs. has_room env amt s c)" and
    keys: "map counter_key cs' = map counter_key cs" and
    use: "\<forall>k. \<not> env_evicts env k \<longrightarrow> usage s' (env_now env) k = usage s (env_now env) k" and
    same: "a \<noteq> AuthOk \<longrightarrow> reservations s' = reservations s" and
    le: "\<forall>k. held (reservations s') k (env_now env) \<le> held (reservations s) k (env_now env)
       + (if a = AuthOk \<and> k \<in> counter_key ` set cs then unat hold else 0)" and
    eq: "a = AuthOk \<longrightarrow> 0 < life \<longrightarrow>
       (\<forall>k. \<not> env_evicts env k \<longrightarrow>
          held (reservations s') k (env_now env) = held (reservations s) k (env_now env)
            + (if k \<in> counter_key ` set cs then unat hold else 0))"
    by (elim exE conjE) (rule that; assumption)
  let ?rl' = "rl\<lparr>storage := (storage rl)\<lparr>counters := s'\<rparr>\<rparr>"
  have lim: "limiter_reserve (memory_storage cel) cel env rid ns ctx amt ttl rl =
      Some (Inr (reserve_result_of rid hold a cs'), ?rl')"
    using app some run
    by (simp add: limiter_reserve_def storage_reserve_def s_def hold_def life_def Let_def)
  show ?thesis
  proof (cases "a = AuthOk")
    case True
    have "held (reservations s') k (env_now env) \<le> held (reservations s) k (env_now env)
        + (if k \<in> counter_key ` set cs then unat hold else 0)" for k
      using le [THEN spec, of k] True by simp
    with True lim a keys use eq show ?thesis
      by (simp add: reserve_result_of_def cong: if_cong split del: if_split)
  next
    case False
    then obtain nm where "a = Limited nm" by (cases a) auto
    with lim a keys use same show ?thesis by (simp add: reserve_result_of_def)
  qed
qed

section \<open>Committing\<close>

lemma update_each_bumped:
  assumes "\<forall>c\<in>set cs. in_time (env_now env) c \<and> \<not> env_evicts env (counter_key c)"
    and "distinct (map counter_key cs)"
  shows "\<exists>s'. update_each (memory_storage cel) env cs d st = Some (Inr (), st\<lparr>counters := s'\<rparr>) \<and>
    bumped env d (counter_key ` set cs) (counters st) s'"
  using assms
proof (induction cs arbitrary: st)
  case Nil
  then show ?case by (auto simp: update_each_def intro!: exI [of _ "counters st"])
next
  case (Cons c cs)
  then obtain t where t: "update_counter env c d (counters st) = Some t"
    "bumped env d {counter_key c} (counters st) t"
    using update_counter_bumped [of env c d "counters st"] by auto
  from Cons.IH [of "st\<lparr>counters := t\<rparr>"] Cons.prems obtain s' where
    s': "update_each (memory_storage cel) env cs d (st\<lparr>counters := t\<rparr>) =
        Some (Inr (), st\<lparr>counters := s'\<rparr>)" "bumped env d (counter_key ` set cs) t s'"
    by auto
  have "{counter_key c} \<inter> counter_key ` set cs = {}" using Cons.prems(2) by auto
  with bumped_trans [OF t(2) s'(2)] s'(1) t(1) show ?case
    by (auto simp: update_each_def storage_update_counter_def)
qed

lemma commit_result:
  assumes app: "counters_that_apply cel ns ctx rl = Some (Inr cs)" and some: "cs \<noteq> []"
    and ok: "call_ok env cs"
  defines "s \<equiv> counters (storage rl)"
  shows "\<exists>s'. commit_reservation (memory_storage cel) cel env ns ctx (Some rid) actual rl =
      Some (Inr \<lparr>reservation_released =
              (\<exists>c\<in>set cs. rid \<in> entry_ids (reservations s) (counter_key c) (env_now env))\<rparr>,
            rl\<lparr>storage := (storage rl)\<lparr>counters := s'\<rparr>\<rparr>) \<and>
    (\<forall>k. \<not> env_evicts env k \<longrightarrow> usage s' (env_now env) k =
       usage s (env_now env) k + (if k \<in> counter_key ` set cs then actual else 0)) \<and>
    (\<forall>k t. env_now env \<le> t \<longrightarrow> live_entries (reservations s') k t =
       (if k \<in> counter_key ` set cs
        then filter (\<lambda>e. reservation_id e \<noteq> rid) (live_entries (reservations s) k t)
        else live_entries (reservations s) k t))"
proof -
  from ok update_each_bumped [of cs env cel actual "storage rl"] obtain s1 where
    s1: "update_each (memory_storage cel) env cs actual (storage rl)
        = Some (Inr (), (storage rl)\<lparr>counters := s1\<rparr>)" "bumped env actual (counter_key ` set cs) s s1"
    by (auto simp: call_ok_def s_def)
  have res: "reservations s1 = reservations s" using s1(2) by (simp add: bumped_def)
  obtain b reg where rel: "registry_release (env_now env) cs rid (reservations s) = (b, reg)"
    by (cases "registry_release (env_now env) cs rid (reservations s)")
  let ?s' = "s1\<lparr>reservations := reg\<rparr>"
  have b: "b = (\<exists>c\<in>set cs. rid \<in> entry_ids (reservations s) (counter_key c) (env_now env))"
    using registry_release_flag [of "env_now env" cs rid "reservations s"] rel by simp
  have "commit_reservation (memory_storage cel) cel env ns ctx (Some rid) actual rl =
      Some (Inr \<lparr>reservation_released = b\<rparr>, rl\<lparr>storage := (storage rl)\<lparr>counters := ?s'\<rparr>\<rparr>)"
    using app some s1(1) rel
    by (simp add: commit_reservation_def storage_release_reservation_def release_reservation_def
        case_prod_unfold Let_def res)
  moreover have "live_entries reg k t = (if k \<in> counter_key ` set cs
        then filter (\<lambda>e. reservation_id e \<noteq> rid) (live_entries (reservations s) k t)
        else live_entries (reservations s) k t)" if "env_now env \<le> t" for k t
    using live_entries_release [OF that, of cs rid "reservations s" k] rel by simp
  ultimately show ?thesis using b bumped_used [OF s1(2)] by auto
qed

end
