(* ===== verification/System.thy ===== *)
theory System
  imports Holding
begin

text \<open>
  The in-memory storage as a system that runs: any sequence of checked updates, reports,
  reservations, releases, deletions, clock ticks and cache evictions, starting from the empty storage.
  Every call is one step, as it is for one caller at a time; what concurrent callers can do inside a
  call is in \<open>Races\<close>.
\<close>

section \<open>Steps\<close>

record 'e system =
  sys_mem :: "'e in_memory"
  sys_now :: systime

datatype 'e event =
    Tick systime
  | Evict "counter_key set"
  | CheckAndUpdate "'e counter list" u64
  | Report "'e counter" u64
  | Reserve "'e counter list" reservation_id u64 u64 duration
  | Release "'e counter list" reservation_id
  | Delete "'e limit list"
  | Clear

abbreviation at :: "systime \<Rightarrow> mem_env" where
  "at now \<equiv> \<lparr>env_now = now, env_evicts = (\<lambda>_. False)\<rparr>"

definition evict_keys :: "counter_key set \<Rightarrow> 'e in_memory \<Rightarrow> 'e in_memory" where
  "evict_keys K s =
     s\<lparr>qualified_counters := filter (\<lambda>p. fst p \<notin> K) (qualified_counters s),
       reservations := filter (\<lambda>p. fst p \<notin> K) (reservations s)\<rparr>"

text \<open>\<open>cap\<close> gives the maximum of each counter; the counters of a call carry it, and are qualified
  exactly when their limit has variables.  The limiter never holds more than it checked, so neither does
  a reservation here; that the sums a reservation compares do not wrap around is not part of a step.\<close>

definition capped :: "(counter_key \<Rightarrow> nat) \<Rightarrow> 'e counter list \<Rightarrow> bool" where
  "capped cap cs \<longleftrightarrow> (\<forall>c\<in>set cs. counter_wf c \<and> unat (counter_max_value c) = cap (counter_key c))"

inductive mem_step :: "(counter_key \<Rightarrow> nat) \<Rightarrow> 'e event \<Rightarrow> 'e system \<Rightarrow> 'e system \<Rightarrow> bool"
  for cap where
  tick: "sys_now \<sigma> \<le> t \<Longrightarrow> as_micros t < 2 ^ 64 \<Longrightarrow> mem_step cap (Tick t) \<sigma> (\<sigma>\<lparr>sys_now := t\<rparr>)"
| evict: "mem_step cap (Evict K) \<sigma> (\<sigma>\<lparr>sys_mem := evict_keys K (sys_mem \<sigma>)\<rparr>)"
| check_and_update: "call_ok (at (sys_now \<sigma>)) cs \<Longrightarrow> capped cap cs \<Longrightarrow>
    check_and_update (at (sys_now \<sigma>)) cs d (sys_mem \<sigma>) = Some (r, m) \<Longrightarrow>
    mem_step cap (CheckAndUpdate cs d) \<sigma> (\<sigma>\<lparr>sys_mem := m\<rparr>)"
| report: "in_time (sys_now \<sigma>) c \<Longrightarrow> capped cap [c] \<Longrightarrow>
    update_counter (at (sys_now \<sigma>)) c d (sys_mem \<sigma>) = Some m \<Longrightarrow>
    mem_step cap (Report c d) \<sigma> (\<sigma>\<lparr>sys_mem := m\<rparr>)"
| reserve: "call_ok (at (sys_now \<sigma>)) cs \<Longrightarrow> hold \<le> amt \<Longrightarrow> systime_add (sys_now \<sigma>) ttl \<noteq> None \<Longrightarrow>
    capped cap cs \<Longrightarrow>
    reserve (at (sys_now \<sigma>)) cs rid amt hold ttl (sys_mem \<sigma>) = Some (r, m) \<Longrightarrow>
    mem_step cap (Reserve cs rid amt hold ttl) \<sigma> (\<sigma>\<lparr>sys_mem := m\<rparr>)"
| release: "release_reservation (at (sys_now \<sigma>)) cs rid (sys_mem \<sigma>) = (r, m) \<Longrightarrow>
    mem_step cap (Release cs rid) \<sigma> (\<sigma>\<lparr>sys_mem := m\<rparr>)"
| delete: "mem_step cap (Delete ls) \<sigma> (\<sigma>\<lparr>sys_mem := delete_counters ls (sys_mem \<sigma>)\<rparr>)"
| clear: "mem_step cap Clear \<sigma> (\<sigma>\<lparr>sys_mem := clear (sys_mem \<sigma>)\<rparr>)"

inductive_cases tickE: "mem_step cap (Tick t) \<sigma> \<sigma>'"
inductive_cases check_and_updateE: "mem_step cap (CheckAndUpdate cs d) \<sigma> \<sigma>'"

inductive mem_run :: "(counter_key \<Rightarrow> nat) \<Rightarrow> 'e event list \<Rightarrow> 'e system \<Rightarrow> 'e system \<Rightarrow> bool"
  for cap where
  nil: "mem_run cap [] \<sigma> \<sigma>"
| cons: "mem_step cap ev \<sigma> \<sigma>' \<Longrightarrow> mem_run cap evs \<sigma>' \<sigma>'' \<Longrightarrow> mem_run cap (ev # evs) \<sigma> \<sigma>''"

inductive_simps mem_run_simps: "mem_run cap [] \<sigma> \<sigma>'" "mem_run cap (ev # evs) \<sigma> \<sigma>'"

text \<open>What the reports of a run add to a counter.\<close>

definition reports :: "'e event \<Rightarrow> counter_key \<Rightarrow> nat" where
  "reports ev k = (case ev of Report c d \<Rightarrow> if counter_key c = k then unat d else 0 | _ \<Rightarrow> 0)"

definition reported :: "'e event list \<Rightarrow> counter_key \<Rightarrow> nat" where
  "reported evs k = sum_list (map (\<lambda>ev. reports ev k) evs)"

lemma reported_simps [simp]: "reported [] k = 0" "reported (ev # evs) k = reports ev k + reported evs k"
  by (simp_all add: reported_def)

definition system_new :: "systime \<Rightarrow> 'e system" where
  "system_new t = \<lparr>sys_mem = in_memory_new, sys_now = t\<rparr>"

lemma run_invariant:
  assumes step: "\<And>ev \<sigma> \<sigma>'. mem_step cap ev \<sigma> \<sigma>' \<Longrightarrow> P ev \<Longrightarrow> I \<sigma> \<Longrightarrow> I \<sigma>'"
    and run: "mem_run cap evs \<sigma> \<sigma>'"
  shows "\<forall>ev\<in>set evs. P ev \<Longrightarrow> I \<sigma> \<Longrightarrow> I \<sigma>'"
  using run by induction (auto dest: step)

section \<open>Usage\<close>

lemma usage_later:
  assumes "t \<le> t'" "as_micros t' < 2 ^ 64"
  shows "unat (usage s t' k) \<le> unat (usage s t k)"
proof -
  have "unat (since_epoch t) \<le> unat (since_epoch t')"
    using assms div_le_mono [OF assms(1), of 1000]
    by (simp add: since_epoch_def unat_of_nat_u64 as_micros_def)
  then show ?thesis
    by (auto simp: usage_def value_at_def expired_at_def word_le_nat_alt split: option.split)
qed

lemma stored_new: "stored in_memory_new k = None"
  by (simp add: stored_def in_memory_new_def)

lemma stored_evict: "stored (evict_keys K s) k \<in> {None, stored s k}"
  by (simp add: stored_def evict_keys_def map_of_filter_key [of "\<lambda>k. k \<notin> K"])

lemma stored_clear: "stored (clear s) k \<in> {None, stored s k}"
  by (simp add: stored_def clear_def)

lemma usage_dropped: "stored s' k \<in> {None, stored s k} \<Longrightarrow> unat (usage s' t k) \<le> unat (usage s t k)"
  by (auto simp: usage_def)

lemma admitted_usage:
  assumes "fits s now d c"
  shows "unat (usage s now (counter_key c) + d) \<le> unat (counter_max_value c)"
proof (cases "unat (usage s now (counter_key c)) + unat d < 2 ^ 64")
  case True
  with fits_sum [OF assms True] show ?thesis by (simp add: unat_add_no_overflow)
next
  case False
  with assms have "unat (counter_max_value c) \<ge> 2 ^ 64 - 1"
    by (simp add: fits_def word_le_nat_alt unat_saturating_add)
  then show ?thesis using unat_u64_le [of "usage s now (counter_key c) + d"] by simp
qed

section \<open>Invariants\<close>

definition sys_wf :: "'e system \<Rightarrow> bool" where
  "sys_wf \<sigma> \<longleftrightarrow> mem_wf (sys_mem \<sigma>) \<and> as_micros (sys_now \<sigma>) < 2 ^ 64"

definition within_caps :: "(counter_key \<Rightarrow> nat) \<Rightarrow> 'e system \<Rightarrow> bool" where
  "within_caps cap \<sigma> \<longleftrightarrow> (\<forall>k. unat (usage (sys_mem \<sigma>) (sys_now \<sigma>) k) \<le> cap k)"

definition holds_within_caps :: "(counter_key \<Rightarrow> nat) \<Rightarrow> 'e system \<Rightarrow> bool" where
  "holds_within_caps cap \<sigma> \<longleftrightarrow> (\<forall>k. held (reservations (sys_mem \<sigma>)) k (sys_now \<sigma>) \<le> cap k)"

lemma mem_wf_evict: "mem_wf s \<Longrightarrow> mem_wf (evict_keys K s)"
  by (simp add: mem_wf_def evict_keys_def distinct_keys_filter)

lemma step_wf: "mem_step cap ev \<sigma> \<sigma>' \<Longrightarrow> sys_wf \<sigma> \<Longrightarrow> sys_wf \<sigma>'"
proof (induction rule: mem_step.induct)
  case (release \<sigma> cs rid r m)
  then show ?case using mem_wf_release [of "sys_mem \<sigma>" "at (sys_now \<sigma>)" cs rid] by (simp add: sys_wf_def)
qed (auto simp: sys_wf_def capped_def mem_wf_evict intro: mem_wf_intros)

text \<open>Only a report can take a counter past its maximum.\<close>

lemma check_and_update_within:
  assumes ok: "call_ok (at now) cs" and cap: "capped cap cs"
    and run: "check_and_update (at now) cs d s = Some (r, s')"
    and inv: "unat (usage s now k) \<le> cap k + n"
  shows "unat (usage s' now k) \<le> cap k + n"
proof (cases "\<forall>c\<in>set cs. fits s now d c")
  case True
  with check_and_update_admitted [OF ok, of s d] run
  have b: "bumped (at now) d (counter_key ` set cs) s s'" by auto
  show ?thesis
  proof (cases "k \<in> counter_key ` set cs")
    case k: True
    then obtain c where c: "c \<in> set cs" "k = counter_key c" by blast
    with True cap admitted_usage [of s now d c] bumped_usage [OF b, of k] k show ?thesis
      by (simp add: capped_def trans_le_add1)
  next
    case False
    with bumped_usage [OF b, of k] inv show ?thesis by simp
  qed
next
  case False
  then have full: "\<exists>c\<in>set cs. \<not> fits s (env_now (at now)) d c" by simp
  from check_and_update_denied [OF ok full] run have b: "bumped (at now) d {} s s'" by auto
  from bumped_usage [OF b, of k] inv show ?thesis by simp
qed

lemma reserve_keeps_usage:
  assumes ok: "call_ok (at now) cs" and run: "reserve (at now) cs rid amt hold ttl s = Some (r, s')"
  shows "usage s' now k = usage s now k"
proof -
  have "\<forall>c\<in>set cs. in_time (env_now (at now)) c \<and> \<not> env_evicts (at now) (counter_key c)"
    using ok by (simp add: call_ok_def)
  from map_panic_touch [OF this, of s] obtain vts s1 where
    t: "map_panic (touch (at now)) cs s = Some (vts, s1)" "bumped (at now) 0 {} s s1"
    by blast
  from run t(1) obtain reg where "s' = s1\<lparr>reservations := reg\<rparr>"
    by (auto simp: reserve_def split: bind_splits)
  then show ?thesis using bumped_usage [OF t(2), of k] by simp
qed

lemma report_usage:
  assumes "in_time now c" and "update_counter (at now) c d s = Some s'"
  shows "unat (usage s' now k) \<le> unat (usage s now k) + (if counter_key c = k then unat d else 0)"
proof -
  have "bumped (at now) d {counter_key c} s s'"
    using update_counter_bumped [of "at now" c d s] assms by auto
  from bumped_usage [OF this, of k] show ?thesis
    by (simp add: unat_word_ariths)
qed

lemma release_keeps_usage:
  "release_reservation env cs rid s = (r, s') \<Longrightarrow> usage s' now k = usage s now k"
  by (auto simp: release_reservation_def case_prod_unfold Let_def)

text \<open>One step moves a usage above \<open>cap k + n k\<close> by what it reports, if by anything.\<close>

lemma step_usage_within:
  assumes "mem_step cap ev \<sigma> \<sigma>'" "sys_wf \<sigma>"
    and "unat (usage (sys_mem \<sigma>) (sys_now \<sigma>) k) \<le> cap k + n"
  shows "unat (usage (sys_mem \<sigma>') (sys_now \<sigma>') k) \<le> cap k + n + reports ev k"
  using assms
proof (induction rule: mem_step.induct)
  case (tick \<sigma> t)
  then show ?case using usage_later [of "sys_now \<sigma>" t "sys_mem \<sigma>" k] by simp
next
  case (check_and_update \<sigma> cs d r m)
  then show ?case
    using check_and_update_within [OF check_and_update.hyps, of k n] by simp
next
  case (report \<sigma> c d m)
  then show ?case using report_usage [OF report.hyps(1,3), of k] by (simp add: reports_def)
next
  case (reserve \<sigma> cs hold amt ttl rid r m)
  then show ?case using reserve_keeps_usage [OF reserve.hyps(1,5)] by simp
next
  case (release \<sigma> cs rid r m)
  then show ?case using release_keeps_usage [OF release.hyps] by simp
next
  case (evict K \<sigma>)
  then show ?case
    by (simp add: le_trans [OF usage_dropped [OF stored_evict]] trans_le_add1)
next
  case (delete ls \<sigma>)
  then have "unat (usage (delete_counters ls (sys_mem \<sigma>)) (sys_now \<sigma>) k) \<le> unat (usage (sys_mem \<sigma>) (sys_now \<sigma>) k)"
    using delete_counters_result(2) [of "sys_mem \<sigma>" ls k] by (simp add: usage_def sys_wf_def)
  then show ?case using delete by simp
next
  case (clear \<sigma>)
  then show ?case
    by (simp add: le_trans [OF usage_dropped [OF stored_clear]] trans_le_add1)
qed

lemma system_new_wf: "as_micros t < 2 ^ 64 \<Longrightarrow> sys_wf (system_new t)"
  and system_new_usage: "usage (sys_mem (system_new t)) (sys_now (system_new t)) k = 0"
  by (simp_all add: sys_wf_def system_new_def mem_wf_new usage_def stored_new)

lemma step_within_caps:
  assumes "mem_step cap ev \<sigma> \<sigma>'" "\<nexists>c d. ev = Report c d" "sys_wf \<sigma>" "within_caps cap \<sigma>"
  shows "within_caps cap \<sigma>'"
proof -
  have "reports ev k = 0" for k using assms(2) by (cases ev) (auto simp: reports_def)
  then show ?thesis
    using step_usage_within [OF assms(1,3), where n = 0] assms(4) by (simp add: within_caps_def)
qed

lemma run_within_caps:
  assumes "mem_run cap evs (system_new t) \<sigma>" "as_micros t < 2 ^ 64"
    and "\<forall>ev\<in>set evs. \<nexists>c d. ev = Report c d"
  shows "within_caps cap \<sigma>"
proof -
  have "sys_wf \<sigma> \<and> within_caps cap \<sigma>"
  proof (rule run_invariant [OF _ assms(1,3)])
    show "sys_wf \<sigma>' \<and> within_caps cap \<sigma>'"
      if "mem_step cap ev \<sigma> \<sigma>'" "\<nexists>c d. ev = Report c d" "sys_wf \<sigma> \<and> within_caps cap \<sigma>"
      for ev :: "'a event" and \<sigma> \<sigma>'
      using step_within_caps [OF that(1,2)] step_wf [OF that(1)] that(3) by simp
    show "sys_wf (system_new t) \<and> within_caps cap (system_new t)"
      using system_new_wf [OF assms(2)] by (simp add: within_caps_def system_new_usage)
  qed
  then show ?thesis ..
qed

section \<open>Amounts held\<close>

lemma held_evict: "held (reservations (evict_keys K s)) k t \<le> held (reservations s) k t"
  by (simp add: evict_keys_def held_filter [of "\<lambda>k. k \<notin> K"])

lemma reservations_kept:
  "check_and_update env cs d s = Some (r, s') \<Longrightarrow> call_ok env cs \<Longrightarrow> reservations s' = reservations s"
  "update_counter env c d s = Some s' \<Longrightarrow> in_time (env_now env) c \<Longrightarrow> \<not> env_evicts env (counter_key c) \<Longrightarrow>
     reservations s' = reservations s"
  "reservations (delete_counters ls s) = reservations s"
  "reservations (clear s) = reservations s"
proof -
  assume run: "check_and_update env cs d s = Some (r, s')" and ok: "call_ok env cs"
  show "reservations s' = reservations s"
  proof (cases "\<forall>c\<in>set cs. fits s (env_now env) d c")
    case True
    with check_and_update_admitted [OF ok this] run show ?thesis by (auto simp: bumped_def)
  next
    case False
    then have full: "\<exists>c\<in>set cs. \<not> fits s (env_now env) d c" by simp
    from check_and_update_denied [OF ok full] run show ?thesis by (auto simp: bumped_def)
  qed
next
  assume "update_counter env c d s = Some s'" "in_time (env_now env) c" "\<not> env_evicts env (counter_key c)"
  with update_counter_bumped [of env c d s] show "reservations s' = reservations s"
    by (auto simp: bumped_def)
next
  show "reservations (delete_counters ls s) = reservations s"
    by (induction ls arbitrary: s) (auto simp: delete_counters_def delete_counters_of_limit_def)
qed (simp add: clear_def)

lemma reserve_holds_within:
  assumes ok: "reserve_ok (at now) cs amt hold ttl s" and cap: "capped cap cs"
    and run: "reserve (at now) cs rid amt hold ttl s = Some (r, s')"
    and inv: "\<forall>k. held (reservations s) k now \<le> cap k"
  shows "held (reservations s') k now \<le> cap k"
proof -
  obtain a cs' s'' where
    res: "reserve (at now) cs rid amt hold ttl s = Some ((Inr a, cs'), s'')"
      "a = AuthOk \<longleftrightarrow> (\<forall>c\<in>set cs. has_room (at now) amt s c)"
      "\<forall>k. held (reservations s'') k (env_now (at now)) \<le> held (reservations s) k (env_now (at now))
        + (if a = AuthOk \<and> k \<in> counter_key ` set cs then unat hold else 0)"
    using reserve_result [OF ok, of rid] by (elim exE conjE) (rule that; assumption)
  have a: "a = AuthOk \<longleftrightarrow> (\<forall>c\<in>set cs. has_room (at now) amt s c)"
    "held (reservations s') k now \<le> held (reservations s) k now
      + (if a = AuthOk \<and> k \<in> counter_key ` set cs then unat hold else 0)"
    using res(1,2) res(3) [THEN spec, of k] run by auto
  show ?thesis
  proof (cases "a = AuthOk \<and> k \<in> counter_key ` set cs")
    case True
    then obtain c where c: "c \<in> set cs" "k = counter_key c" by blast
    have "unat hold \<le> unat amt" using ok by (simp add: reserve_ok_def le_u64_iff)
    moreover have "held (reservations s) k now + unat amt \<le> cap k"
      using True a(1) c cap by (auto simp: has_room_def capped_def)
    ultimately show ?thesis using a(2) True by simp
  next
    case False
    then have "held (reservations s') k now \<le> held (reservations s) k now"
      using a(2) by (simp only: if_False add_0_right)
    also have "\<dots> \<le> cap k" using inv by simp
    finally show ?thesis .
  qed
qed

lemma holds_within_mono:
  assumes "\<And>k. held (reservations (sys_mem \<sigma>')) k (sys_now \<sigma>') \<le> held (reservations (sys_mem \<sigma>)) k (sys_now \<sigma>)"
    and "holds_within_caps cap \<sigma>"
  shows "holds_within_caps cap \<sigma>'"
  using assms unfolding holds_within_caps_def by (meson le_trans)

text \<open>The sums that a reservation compares stay below \<open>2 ^ 64\<close> as long as twice the maximum of the counter,
  what was reported to it (\<open>n\<close>) and the amount asked for do.\<close>

definition reserve_room :: "(counter_key \<Rightarrow> nat) \<Rightarrow> (counter_key \<Rightarrow> nat) \<Rightarrow> 'e event \<Rightarrow> bool" where
  "reserve_room cap n ev \<longleftrightarrow>
     (case ev of
        Reserve cs rid amt hold ttl \<Rightarrow>
          \<forall>c\<in>set cs. 2 * cap (counter_key c) + n (counter_key c) + unat amt < 2 ^ 64
      | _ \<Rightarrow> True)"

lemma reserve_room_mono: "reserve_room cap n ev \<Longrightarrow> (\<And>k. m k \<le> n k) \<Longrightarrow> reserve_room cap m ev"
  unfolding reserve_room_def by (cases ev) (force intro: le_less_trans [rotated])+

definition bounded :: "(counter_key \<Rightarrow> nat) \<Rightarrow> (counter_key \<Rightarrow> nat) \<Rightarrow> 'e system \<Rightarrow> bool" where
  "bounded cap n \<sigma> \<longleftrightarrow> sys_wf \<sigma> \<and> holds_within_caps cap \<sigma> \<and>
     (\<forall>k. unat (usage (sys_mem \<sigma>) (sys_now \<sigma>) k) \<le> cap k + n k)"

lemma step_holds_within:
  assumes "mem_step cap ev \<sigma> \<sigma>'" "bounded cap n \<sigma>" "reserve_room cap n ev"
  shows "holds_within_caps cap \<sigma>'"
proof -
  have "holds_within_caps cap \<sigma>" using assms(2) by (simp add: bounded_def)
  with assms show ?thesis
  proof (induction rule: mem_step.induct)
    case (tick \<sigma> t)
    show ?case
      by (rule holds_within_mono [of _ \<sigma>]) (use tick held_mono_time [OF tick.hyps(1)] in simp_all)
  next
    case (evict K \<sigma>)
    show ?case by (rule holds_within_mono [of _ \<sigma>]) (use evict held_evict in simp_all)
  next
    case (reserve \<sigma> cs hold amt ttl rid r m)
    have "unat (usage (sys_mem \<sigma>) (sys_now \<sigma>) (counter_key c))
        + held (reservations (sys_mem \<sigma>)) (counter_key c) (sys_now \<sigma>) + unat amt < 2 ^ 64"
      if "c \<in> set cs" for c
    proof -
      have "unat (usage (sys_mem \<sigma>) (sys_now \<sigma>) (counter_key c)) \<le> cap (counter_key c) + n (counter_key c)"
        and "held (reservations (sys_mem \<sigma>)) (counter_key c) (sys_now \<sigma>) \<le> cap (counter_key c)"
        using reserve.prems(1) by (auto simp: bounded_def holds_within_caps_def)
      moreover have "2 * cap (counter_key c) + n (counter_key c) + unat amt < 2 ^ 64"
        using reserve.prems(2) that by (simp add: reserve_room_def)
      ultimately show ?thesis by linarith
    qed
    then have "reserve_ok (at (sys_now \<sigma>)) cs amt hold ttl (sys_mem \<sigma>)"
      using reserve.hyps by (simp add: reserve_ok_def)
    from reserve_holds_within [OF this reserve.hyps(4,5)] reserve.prems(3) show ?case
      by (simp add: holds_within_caps_def)
  next
    case (release \<sigma> cs rid r m)
    then have "reservations m = snd (registry_release (sys_now \<sigma>) cs rid (reservations (sys_mem \<sigma>)))"
      by (auto simp: release_reservation_def case_prod_unfold Let_def)
    note reg = this
    show ?case by (rule holds_within_mono [of _ \<sigma>]) (use release reg held_release_le in simp_all)
  qed (simp_all add: holds_within_caps_def reservations_kept)
qed

lemma run_bounded:
  assumes "mem_run cap evs \<sigma> \<sigma>'"
  shows "bounded cap n \<sigma> \<Longrightarrow> \<forall>ev\<in>set evs. reserve_room cap (\<lambda>k. n k + reported evs k) ev \<Longrightarrow>
    bounded cap (\<lambda>k. n k + reported evs k) \<sigma>'"
  using assms
proof (induction arbitrary: n)
  case (cons ev \<sigma> \<sigma>' evs \<sigma>'')
  have "reserve_room cap n ev"
    by (rule reserve_room_mono [OF bspec [OF cons.prems(2)]]) simp_all
  with step_holds_within [OF cons.hyps(1) cons.prems(1)] step_wf [OF cons.hyps(1)]
    step_usage_within [OF cons.hyps(1)] cons.prems(1)
  have "bounded cap (\<lambda>k. n k + reports ev k) \<sigma>'"
    by (simp add: bounded_def add.assoc [symmetric])
  from cons.IH [OF this] cons.prems(2) show ?case
    by (simp add: add.assoc [symmetric])
qed simp

lemma run_holds_within:
  assumes "mem_run cap evs (system_new t) \<sigma>" "as_micros t < 2 ^ 64"
    and "\<forall>ev\<in>set evs. reserve_room cap (reported evs) ev"
  shows "holds_within_caps cap \<sigma>"
proof -
  have "bounded cap (\<lambda>_. 0) (system_new t)"
    using assms(2) by (simp add: bounded_def system_new_wf system_new_usage)
      (simp add: holds_within_caps_def system_new_def in_memory_new_def registry_new_def held_def
        live_entries_def registry_get_def)
  from run_bounded [OF assms(1) this] assms(3) show ?thesis by (simp add: bounded_def)
qed

end
