(* ===== verification/Samples.thy ===== *)
theory Samples
  imports AsyncLimiter System
begin

text \<open>
  Concrete data for the witnesses of the properties: an instance of the CEL interpreter that reads an
  expression as the name of a variable, two limits of one namespace, and a limiter over the in-memory
  storage that has both registered.
\<close>

definition sample_cel :: "string cel" where
  "sample_cel =
     \<lparr>cel_parse = Inr, cel_references = (\<lambda>e. [e]),
      cel_resolve = (\<lambda>e bs. case map_of bs e of Some v \<Rightarrow> Inr v | None \<Rightarrow> Inl (NoSuchKey e)),
      cel_debug = (\<lambda>_. ''?'')\<rparr>"

definition sample_var :: "string expression" where
  "sample_var = \<lparr>source = ''user'', expression = ''user''\<rparr>"

definition global_limit :: "string limit" where
  "global_limit = limit_new ''ns'' 10 60 [] []"

definition user_limit :: "string limit" where
  "user_limit = limit_new ''ns'' 3 60 [] [sample_var]"

definition sample_ctx :: cel_context where
  "sample_ctx = context_from [(''user'', ''alice'')]"

definition global_counter :: "string counter" where
  "global_counter = \<lparr>limit = global_limit, set_variables = [], remaining = None, expires_in = None\<rparr>"

definition user_counter :: "string counter" where
  "user_counter =
     \<lparr>limit = user_limit, set_variables = [(''user'', ''alice'')], remaining = None, expires_in = None\<rparr>"

definition sample_limiter :: "(string in_memory, string) rate_limiter" where
  "sample_limiter =
     \<lparr>storage = \<lparr>limits = [(''ns'', [global_limit, user_limit])], counters = in_memory_new\<rparr>,
      reservation_limits = reservation_limits_default\<rparr>"

definition sample_request :: reservation_request where
  "sample_request = \<lparr>req_id = ''r'', check_amount = 2, hold_amount = 2, req_ttl = 1000, req_now = 0\<rparr>"

lemmas sample_defs = sample_cel_def sample_var_def global_limit_def user_limit_def sample_ctx_def
  global_counter_def user_counter_def limit_new_def btree_set_def insort_insert_key_def

lemma sample_keys:
  "limit_key global_limit = LimitKey ''ns'' 60 [] []"
  "limit_key user_limit = LimitKey ''ns'' 60 [] [''user'']"
  "counter_key global_counter = CounterKey (LimitKey ''ns'' 60 [] []) []"
  "counter_key user_counter = CounterKey (LimitKey ''ns'' 60 [] [''user'']) [(''user'', ''alice'')]"
  "counter_max_value global_counter = 10" "counter_max_value user_counter = 3"
  "variables_set global_limit = {}" "variables_set user_limit = {''user''}"
  by (simp_all add: sample_defs limit_key_def counter_key_def counter_max_value_def variables_set_def)

lemma sample_limits_wf: "limits_wf (storage sample_limiter)"
  by (auto simp: limits_wf_def sample_limiter_def sample_keys split: if_splits)
    (simp_all add: sample_defs)

lemma sample_counters:
  "counters_that_apply sample_cel ''ns'' sample_ctx sample_limiter =
     Some (Inr [global_counter, user_counter])"
  by (simp add: counters_that_apply_def sample_limiter_def get_limits_def sample_defs applies_def
      counter_new_def resolve_variables_def has_variables_def expression_variables_def eval_def
      resolve_def context_from_def context_new_def add_variable_from_value_def for_limit_def Let_def)

lemma sample_call_ok: "call_ok (at 0) [global_counter, user_counter]"
  by (simp add: call_ok_def in_time_def sample_keys)
    (simp add: sample_defs as_micros_def window_def from_secs_def)

lemma sample_counters_wf: "counter_wf global_counter" "counter_wf user_counter"
  by (simp_all add: counter_wf_def is_qualified_def sample_defs variables_set_def)

text \<open>The maxima of the two counters.\<close>

definition sample_cap :: "counter_key \<Rightarrow> nat" where
  "sample_cap k = (if k = counter_key user_counter then 3 else 10)"

lemma sample_capped: "capped sample_cap [global_counter, user_counter]"
  by (simp add: capped_def sample_counters_wf sample_cap_def sample_keys)

lemma sample_empty: "usage (counters (storage sample_limiter)) t k = 0"
  by (simp add: sample_limiter_def usage_def stored_new)

lemma sample_nothing_held: "held (reservations (counters (storage sample_limiter))) k t = 0"
  by (simp add: sample_limiter_def in_memory_new_def registry_new_def held_def live_entries_def
      registry_get_def)

end
