(* ===== verification/DiskValue.thy ===== *)
theory DiskValue
  imports Windows Counters
begin

text \<open>
  The values of the disk storage: \<^verbatim>\<open>limitador/src/storage/disk/expiring_value.rs\<close>, and the two
  closures that \<^verbatim>\<open>RocksDbStorage::open\<close> of \<^verbatim>\<open>disk/rocksdb_storage.rs\<close> installs in the database: the
  merge operator and the compaction filter.  A byte is a character; \<open>None\<close> is a panic.
\<close>

section \<open>Expiring values\<close>

record expiring_value =
  ev_value :: u64
  ev_expiry :: systime

definition ev_new :: "u64 \<Rightarrow> systime \<Rightarrow> expiring_value" where
  "ev_new v e = \<lparr>ev_value = v, ev_expiry = e\<rparr>"

definition ev_value_at :: "expiring_value \<Rightarrow> systime \<Rightarrow> u64" where
  "ev_value_at v w = (if ev_expiry v \<le> w then 0 else ev_value v)"

definition ev_value_now :: "systime \<Rightarrow> expiring_value \<Rightarrow> u64" where
  "ev_value_now now v = ev_value_at v now"

definition ev_update :: "u64 \<Rightarrow> duration \<Rightarrow> systime \<Rightarrow> expiring_value \<Rightarrow> expiring_value option" where
  "ev_update delta ttl now v = do {
     e \<leftarrow> (if ev_expiry v \<le> now then systime_add now ttl else Some (ev_expiry v));
     Some \<lparr>ev_value = ev_value_at v now + delta, ev_expiry = e\<rparr>
   }"

definition ev_merge :: "expiring_value \<Rightarrow> systime \<Rightarrow> expiring_value \<Rightarrow> expiring_value" where
  "ev_merge other now v =
     (if ev_expiry v > now then \<lparr>ev_value = ev_value v + ev_value other, ev_expiry = ev_expiry v\<rparr>
      else other)"

definition ev_ttl :: "systime \<Rightarrow> expiring_value \<Rightarrow> duration" where
  "ev_ttl now v = duration_since_or_zero (ev_expiry v) now"

definition ev_default :: expiring_value where
  "ev_default = \<lparr>ev_value = 0, ev_expiry = 0\<rparr>"

section \<open>Bytes\<close>

text \<open>\<^verbatim>\<open>u64::to_be_bytes\<close> and \<^verbatim>\<open>u64::from_be_bytes\<close>.\<close>

primrec be_digits :: "nat \<Rightarrow> nat \<Rightarrow> string" where
  "be_digits 0 n = []"
| "be_digits (Suc k) n = char_of (n div 256 ^ k) # be_digits k n"

definition to_be_bytes :: "u64 \<Rightarrow> string" where
  "to_be_bytes v = be_digits 8 (unat v)"

definition be_nat :: "string \<Rightarrow> nat \<Rightarrow> nat" where
  "be_nat bs a = fold (\<lambda>b a. a * 256 + of_char b) bs a"

definition from_be_bytes :: "string \<Rightarrow> u64" where
  "from_be_bytes bs = of_nat (be_nat bs 0)"

text \<open>\<^verbatim>\<open>raw[a..b]\<close> panics when out of range; \<^verbatim>\<open>try_into\<close> an array fails on any other length.\<close>

definition slice :: "nat \<Rightarrow> nat \<Rightarrow> string \<Rightarrow> string option" where
  "slice a b raw = (if b \<le> length raw then Some (take (b - a) (drop a raw)) else None)"

datatype slice_error = TryFromSliceError

definition to_array8 :: "string \<Rightarrow> slice_error + string" where
  "to_array8 bs = (if length bs = 8 then Inr bs else Inl TryFromSliceError)"

definition ev_try_from :: "string \<Rightarrow> (slice_error + expiring_value) option" where
  "ev_try_from raw = do {
     a \<leftarrow> slice 0 8 raw;
     (case to_array8 a of
        Inl e \<Rightarrow> Some (Inl e)
      | Inr raw_val \<Rightarrow> do {
          b \<leftarrow> slice 8 16 raw;
          (case to_array8 b of
             Inl e \<Rightarrow> Some (Inl e)
           | Inr raw_exp \<Rightarrow> do {
               e \<leftarrow> systime_add 0 (from_secs (from_be_bytes raw_exp));
               Some (Inr \<lparr>ev_value = from_be_bytes raw_val, ev_expiry = e\<rparr>)
             })
        })
   }"

definition ev_into_bytes :: "expiring_value \<Rightarrow> string" where
  "ev_into_bytes v = to_be_bytes (ev_value v) @ to_be_bytes (as_secs (ev_expiry v))"

definition slice_storage_err :: "slice_error \<Rightarrow> storage_err" where
  "slice_storage_err e =
     \<lparr>err_msg = ''Corrupted byte sequence while reading 8 bytes for 64-bit integer'',
      err_source = Some ''could not convert slice to array'', transient = False\<rparr>"

section \<open>The closures given to the database\<close>

definition ev_or_default :: "string \<Rightarrow> expiring_value option" where
  "ev_or_default raw = map_option (\<lambda>r. case r of Inl _ \<Rightarrow> ev_default | Inr v \<Rightarrow> v) (ev_try_from raw)"

definition merge_pending :: "systime \<Rightarrow> string \<Rightarrow> expiring_value \<Rightarrow> expiring_value option" where
  "merge_pending now op value = do {
     r \<leftarrow> ev_try_from op;
     Some (case r of Inr pending \<Rightarrow> ev_merge pending now value | Inl _ \<Rightarrow> value)
   }"

definition ev_fold :: "systime \<Rightarrow> string option \<Rightarrow> string list \<Rightarrow> expiring_value option" where
  "ev_fold now start operands = do {
     value \<leftarrow> (case start of Some raw \<Rightarrow> ev_or_default raw | None \<Rightarrow> Some ev_default);
     fold_panic (merge_pending now) operands value
   }"

definition merge_operator :: "systime \<Rightarrow> string option \<Rightarrow> string list \<Rightarrow> string option" where
  "merge_operator now start operands = map_option ev_into_bytes (ev_fold now start operands)"

datatype compaction_decision = Keep | Remove

definition expired_value_filter :: "systime \<Rightarrow> string \<Rightarrow> compaction_decision option" where
  "expired_value_filter now raw =
     map_option (\<lambda>r. case r of Inr v \<Rightarrow> if ev_value_at v now \<noteq> 0 then Keep else Remove | Inl _ \<Rightarrow> Remove)
       (ev_try_from raw)"

section \<open>An expiring value is a fixed window\<close>

definition ev_fits :: "duration \<Rightarrow> systime \<Rightarrow> bool" where
  "ev_fits ttl t \<longleftrightarrow> systime_add t ttl \<noteq> None"

interpretation ew: fixed_window
  ev_value ev_expiry "\<lambda>t. t" "\<lambda>d. d" ev_fits ev_value_at ev_update
  by unfold_locales
    (auto simp: ev_value_at_def ev_update_def ev_fits_def systime_add_def split: if_splits)

lemma ev_value_at_update:
  assumes "ev_update d ttl t v = Some v'" "0 < ttl"
  shows "ev_value_at v' t = ev_value_at v t + d"
  using assms by (auto simp: ev_update_def ev_value_at_def systime_add_def split: if_splits)

section \<open>Encoding\<close>

lemma length_be_digits [simp]: "length (be_digits k n) = k"
  by (induction k) simp_all

lemma be_nat_digits: "be_nat (be_digits k n) a = a * 256 ^ k + n mod 256 ^ k"
proof (induction k arbitrary: a)
  case (Suc k)
  have "n mod (256 ^ k * 256) = 256 ^ k * (n div 256 ^ k mod 256) + n mod 256 ^ k"
    by (rule mod_mult2_eq)
  with Suc [of "a * 256 + n div 256 ^ k mod 256"] show ?case
    by (simp add: be_nat_def algebra_simps)
qed (simp add: be_nat_def)

lemma from_to_be_bytes [simp]: "from_be_bytes (to_be_bytes v) = v"
  by (simp add: from_be_bytes_def to_be_bytes_def be_nat_digits)

lemma length_to_be_bytes [simp]: "length (to_be_bytes v) = 8"
  by (simp add: to_be_bytes_def)

text \<open>Writing an expiring value and reading it back keeps the value and cuts the expiry to whole
  seconds.\<close>

lemma ev_decode_encode:
  assumes "ev_expiry v div 10 ^ 9 < 2 ^ 63"
  shows "ev_try_from (ev_into_bytes v) = Some (Inr (v\<lparr>ev_expiry := whole_secs (ev_expiry v)\<rparr>))"
  using assms unat_as_secs [OF assms]
  by (simp add: ev_try_from_def ev_into_bytes_def slice_def to_array8_def from_secs_def systime_add_def
      whole_secs_def)

lemma ev_try_from_eq:
  "ev_try_from raw =
     (if length raw < 16 then None
      else map_option (\<lambda>e. Inr \<lparr>ev_value = from_be_bytes (take 8 raw), ev_expiry = e\<rparr>)
        (systime_add 0 (from_secs (from_be_bytes (take 8 (drop 8 raw))))))"
  by (cases "length raw < 8"; cases "length raw < 16")
    (auto simp: ev_try_from_def slice_def to_array8_def map_option_case split: option.split)

lemma ev_try_from_ok: "ev_try_from raw \<noteq> Some (Inl e)"
  by (simp add: ev_try_from_eq)

text \<open>A value that came out of bytes: its expiry is in whole seconds, so it is written back as it is.\<close>

definition ev_whole :: "expiring_value \<Rightarrow> bool" where
  "ev_whole v \<longleftrightarrow> ev_expiry v div 10 ^ 9 < 2 ^ 63 \<and> whole_secs (ev_expiry v) = ev_expiry v"

lemma ev_whole_default [simp]: "ev_whole ev_default"
  by (simp add: ev_whole_def ev_default_def whole_secs_def)

lemma ev_whole_try_from: "ev_try_from raw = Some (Inr v) \<Longrightarrow> ev_whole v"
  by (auto simp: ev_try_from_eq ev_whole_def whole_secs_def from_secs_def systime_add_def
      split: if_splits)

lemma ev_whole_merge: "ev_whole v \<Longrightarrow> ev_whole p \<Longrightarrow> ev_whole (ev_merge p now v)"
  by (simp add: ev_whole_def ev_merge_def)

lemma ev_decode_whole: "ev_whole v \<Longrightarrow> ev_try_from (ev_into_bytes v) = Some (Inr v)"
  by (simp add: ev_whole_def ev_decode_encode)

lemma merge_pending_eq: "merge_pending now op v = map_option (\<lambda>p. ev_merge p now v) (ev_or_default op)"
  using ev_try_from_ok [of op]
  by (cases "ev_try_from op")
    (auto simp: merge_pending_def ev_or_default_def split: sum.split)

lemma ev_or_default_whole: "ev_or_default raw = Some v \<Longrightarrow> ev_whole v"
  using ev_whole_try_from [of raw]
  by (cases "ev_try_from raw") (auto simp: ev_or_default_def split: sum.split_asm)

lemma ev_fold_whole:
  assumes "ev_fold now start ops = Some v"
  shows "ev_whole v"
proof -
  from assms obtain u where u: "(case start of Some raw \<Rightarrow> ev_or_default raw | None \<Rightarrow> Some ev_default) = Some u"
    and run: "fold_panic (merge_pending now) ops u = Some v"
    by (auto simp: ev_fold_def bind_eq_Some_conv)
  have "ev_whole u" using u ev_or_default_whole by (auto split: option.splits)
  from run this show ?thesis
    by (rule fold_panic_invariant)
      (auto simp: merge_pending_eq intro: ev_whole_merge ev_or_default_whole)
qed

lemma ev_fold_snoc:
  "ev_fold now start (ops @ [op]) = Option.bind (ev_fold now start ops) (merge_pending now op)"
  by (cases start; cases "ev_fold now start ops") (auto simp: ev_fold_def split: bind_splits)

lemma merge_operator_decodes:
  "merge_operator now start ops = map_option ev_into_bytes (ev_fold now start ops)"
  "ev_fold now start ops = Some v \<Longrightarrow> ev_try_from (ev_into_bytes v) = Some (Inr v)"
  by (simp_all add: merge_operator_def ev_decode_whole ev_fold_whole)

text \<open>One write of \<open>delta\<close> at the instant it is read: the counter grows by \<open>delta\<close>.\<close>

lemma whole_secs_after:
  assumes "0 < secs" shows "now < whole_secs (now + from_secs secs)"
proof -
  have "1 \<le> unat secs" using assms by (simp add: word_less_nat_alt)
  then have "now div 10 ^ 9 + 1 \<le> (now + from_secs secs) div 10 ^ 9"
    by (simp add: from_secs_def)
  then have "(now div 10 ^ 9 + 1) * 10 ^ 9 \<le> whole_secs (now + from_secs secs)"
    unfolding whole_secs_def by (rule mult_le_mono1)
  moreover have "now < (now div 10 ^ 9 + 1) * 10 ^ 9"
    by (simp add: algebra_simps dividend_less_div_times)
  ultimately show ?thesis by linarith
qed

lemma ev_value_at_merge:
  "now < e \<Longrightarrow> ev_value_at (ev_merge \<lparr>ev_value = d, ev_expiry = e\<rparr> now v) now = ev_value_at v now + d"
  by (simp add: ev_merge_def ev_value_at_def)

lemma merge_pending_write:
  assumes "now + from_secs secs = e" "e div 10 ^ 9 < 2 ^ 63" "0 < secs"
  shows "\<exists>v'. merge_pending now (ev_into_bytes (ev_new d e)) v = Some v' \<and>
    ev_value_at v' now = ev_value_at v now + d"
  using ev_decode_encode [of "ev_new d e"] assms whole_secs_after [of secs now] ev_value_at_merge
  by (auto simp: merge_pending_def ev_new_def)

section \<open>Merging late\<close>

text \<open>Operands that wait in the database are merged when they are read.  An operand written inside
  the window of an earlier one, and read after that window closed, starts a window of its own:
  what it counted is counted again.\<close>

lemma late_merge:
  assumes "ev_whole a" "ev_whole b" "ev_expiry a \<le> now" "now < ev_expiry b"
  shows "\<exists>v. ev_fold now None [ev_into_bytes a, ev_into_bytes b] = Some v \<and>
    ev_value_at v now = ev_value b"
  using assms by (simp add: ev_fold_def merge_pending_def ev_decode_whole ev_merge_def ev_value_at_def
      ev_default_def)

lemma early_merge:
  assumes "ev_whole a" "ev_whole b" "t < ev_expiry a" "0 < ev_expiry a"
  shows "\<exists>v. ev_fold t None [ev_into_bytes a, ev_into_bytes b] = Some v \<and>
    ev_value v = ev_value a + ev_value b \<and> ev_expiry v = ev_expiry a"
  using assms by (simp add: ev_fold_def merge_pending_def ev_decode_whole ev_merge_def ev_default_def)

end
