(* ===== verification/Keys.thy ===== *)
theory Keys
  imports Counters
begin

text \<open>
  The storage keys of counters: \<^verbatim>\<open>limitador/src/storage/keys.rs\<close>.

  A byte string is a HOL string.  The serialisers are the external crates \<^verbatim>\<open>serde_json\<close> and
  \<^verbatim>\<open>postcard\<close>; they enter as the parameter \<open>cd\<close>, one writer and one reader per type the source
  serialises, with \<open>None\<close> for input a reader rejects.
\<close>

section \<open>The serialised structures\<close>

type_synonym bytes = string

record disk_key =
  dk_ns :: string
  dk_seconds :: u64
  dk_conditions :: "string list"
  dk_variables :: "(string \<times> string) list"

record id_counter_key =
  ik_id :: string
  ik_variables :: "(string \<times> string) list"

record 'e codec =
  post_key :: "disk_key \<Rightarrow> bytes"
  unpost_key :: "bytes \<Rightarrow> disk_key option"
  post_id_key :: "id_counter_key \<Rightarrow> bytes"
  unpost_id_key :: "bytes \<Rightarrow> id_counter_key option"
  post_tag :: "8 word \<Rightarrow> bytes"
  take_tag :: "bytes \<Rightarrow> (8 word \<times> bytes) option"
  post_str :: "string \<Rightarrow> bytes"
  post_limit_id :: "string \<Rightarrow> bytes"
  json_counter :: "'e counter \<Rightarrow> bytes"
  unjson_counter :: "bytes \<Rightarrow> 'e counter option"
  json_limit :: "'e limit \<Rightarrow> bytes"

definition disk_key_of :: "'e counter \<Rightarrow> disk_key" where
  "disk_key_of c =
     \<lparr>dk_ns = counter_namespace c, dk_seconds = as_secs (window c),
      dk_conditions = sorted_list_of_set (conditions_set (limit c)),
      dk_variables = variables_for_key c\<rparr>"

text \<open>\<^verbatim>\<open>counter.id().unwrap()\<close>: only called when the limit has an id.\<close>

definition id_key_of :: "'e counter \<Rightarrow> id_counter_key option" where
  "id_key_of c = map_option (\<lambda>i. \<lparr>ik_id = i, ik_variables = variables_for_key c\<rparr>) (counter_id c)"

section \<open>Writing keys\<close>

definition key_for_counter_v2 :: "'e codec \<Rightarrow> 'e counter \<Rightarrow> bytes option" where
  "key_for_counter_v2 cd c =
     (if counter_id c = None then Some (post_tag cd 1 @ post_key cd (disk_key_of c))
      else map_option (\<lambda>k. post_tag cd 2 @ post_id_key cd k) (id_key_of c))"

definition text_key :: "string \<Rightarrow> string \<Rightarrow> bytes \<Rightarrow> bytes" where
  "text_key ns what json = ''namespace:{'' @ ns @ ''},'' @ what @ '':'' @ json"

definition key_for_counter :: "'e codec \<Rightarrow> 'e counter \<Rightarrow> bytes option" where
  "key_for_counter cd c =
     (if counter_id c = None then
        if remaining c \<noteq> None \<or> expires_in c \<noteq> None then
          Some (text_key (counter_namespace c) ''counter'' (json_counter cd (key c)))
        else Some (text_key (counter_namespace c) ''counter'' (json_counter cd c))
      else key_for_counter_v2 cd c)"

definition key_for_reservations :: "'e codec \<Rightarrow> 'e counter \<Rightarrow> bytes option" where
  "key_for_reservations cd c = map_option (\<lambda>k. k @ '',reservations'') (key_for_counter cd c)"

definition key_for_counters_of_limit :: "'e codec \<Rightarrow> 'e limit \<Rightarrow> bytes" where
  "key_for_counters_of_limit cd l =
     (case limit_id l of
        Some i \<Rightarrow> post_tag cd 2 @ post_limit_id cd i
      | None \<Rightarrow> text_key (namespace l) ''counters_of_limit'' (json_limit cd l))"

text \<open>The keys of the disk storage (\<^verbatim>\<open>keys::bin\<close>).\<close>

definition bin_key_for_counter :: "'e codec \<Rightarrow> 'e counter \<Rightarrow> bytes" where
  "bin_key_for_counter cd c = post_key cd (disk_key_of c)"

definition prefix_for_namespace :: "'e codec \<Rightarrow> string \<Rightarrow> bytes" where
  "prefix_for_namespace cd ns = post_str cd ns"

section \<open>Reading keys back\<close>

definition parse_or_panic :: "('a \<Rightarrow> 'x + 'b) \<Rightarrow> 'a \<Rightarrow> 'b option" where
  "parse_or_panic f x = (case f x of Inl _ \<Rightarrow> None | Inr y \<Rightarrow> Some y)"

definition counter_of_disk_key :: "'e cel \<Rightarrow> disk_key \<Rightarrow> 'e counter option" where
  "counter_of_disk_key cel k = do {
     let vars = btree_map (dk_variables k);
     conds \<leftarrow> traverse (parse_or_panic (predicate_parse cel)) (dk_conditions k);
     exprs \<leftarrow> traverse (parse_or_panic (expression_parse cel)) (map fst vars);
     Some (resolved_vars cel (limit_new (dk_ns k) 0 (dk_seconds k) conds exprs) vars)
   }"

definition bin_partial_counter_from_counter_key :: "'e cel \<Rightarrow> 'e codec \<Rightarrow> bytes \<Rightarrow> 'e counter option" where
  "bin_partial_counter_from_counter_key cel cd raw = do {
     k \<leftarrow> unpost_key cd raw;
     counter_of_disk_key cel k
   }"

definition counter_of_id_key :: "'e cel \<Rightarrow> id_counter_key \<Rightarrow> 'e counter option" where
  "counter_of_id_key cel k = do {
     let vars = btree_map (ik_variables k);
     exprs \<leftarrow> traverse (parse_or_panic (expression_parse cel)) (map fst vars);
     Some (resolved_vars cel (limit_with_id (ik_id k) [] 0 0 [] exprs) vars)
   }"

definition partial_counter_from_counter_key_v2 :: "'e cel \<Rightarrow> 'e codec \<Rightarrow> bytes \<Rightarrow> 'e counter option" where
  "partial_counter_from_counter_key_v2 cel cd raw = do {
     (version, raw) \<leftarrow> take_tag cd raw;
     if version = 1 then do {
       k \<leftarrow> unpost_key cd raw;
       counter_of_disk_key cel k
     }
     else if version = 2 then do {
       k \<leftarrow> unpost_id_key cd raw;
       counter_of_id_key cel k
     }
     else None
   }"

text \<open>\<^verbatim>\<open>str::find\<close>: the position of the first occurrence.\<close>

primrec find_sub :: "string \<Rightarrow> string \<Rightarrow> nat option" where
  "find_sub p [] = (if p = [] then Some 0 else None)"
| "find_sub p (x # s) = (if take (length p) (x # s) = p then Some 0 else map_option Suc (find_sub p s))"

definition partial_counter_from_counter_key :: "'e cel \<Rightarrow> 'e codec \<Rightarrow> bytes \<Rightarrow> 'e counter option" where
  "partial_counter_from_counter_key cel cd k =
     (if take 10 k = ''namespace:'' then do {
        start_ns \<leftarrow> find_sub ''namespace:'' k;
        i \<leftarrow> find_sub '',counter:'' (drop start_ns k);
        unjson_counter cd (drop (i + start_ns + 9) k)
      }
      else partial_counter_from_counter_key_v2 cel cd k)"

definition counter_from_counter_key ::
  "'e cel \<Rightarrow> 'e codec \<Rightarrow> bytes \<Rightarrow> 'e limit \<Rightarrow> 'e counter option" where
  "counter_from_counter_key cel cd k l = do {
     c \<leftarrow> partial_counter_from_counter_key cel cd k;
     let (same, c) = update_to_limit l c;
     if same then Some c else None
   }"

section \<open>Transient state is not part of a key\<close>

lemma key_key [simp]: "key (key c) = key c"
  by (simp add: key_def)

lemma key_fresh: "remaining c = None \<Longrightarrow> expires_in c = None \<Longrightarrow> key c = c"
  by (simp add: key_def)

lemma key_derived [simp]:
  "counter_id (key c) = counter_id c" "counter_namespace (key c) = counter_namespace c"
  "variables_for_key (key c) = variables_for_key c" "disk_key_of (key c) = disk_key_of c"
  by (simp_all add: key_def counter_id_def counter_namespace_def variables_for_key_def disk_key_of_def
      window_def)

lemma key_for_counter_text:
  "counter_id c = None \<Longrightarrow>
   key_for_counter cd c = Some (text_key (counter_namespace c) ''counter'' (json_counter cd (key c)))"
  by (simp add: key_for_counter_def key_fresh)

lemma key_for_counter_key: "key_for_counter cd (key c) = key_for_counter cd c"
proof (cases "counter_id c")
  case None
  then show ?thesis using key_for_counter_text [of c cd] key_for_counter_text [of "key c" cd] by simp
next
  case (Some i)
  then show ?thesis
    by (simp add: key_for_counter_def key_for_counter_v2_def id_key_of_def)
qed

section \<open>Reading back a text key\<close>

lemma find_sub_skip:
  "p = q # ps \<Longrightarrow> x \<noteq> q \<Longrightarrow> find_sub p (x # s) = map_option Suc (find_sub p s)"
  by simp

lemma find_sub_here: "p \<noteq> [] \<Longrightarrow> find_sub p (p @ s) = Some 0"
  by (cases p) simp_all

lemma take_spans:
  assumes "take (length p) (xs @ y # ys) = p" "y \<notin> set p"
  shows "take (length p) xs = p"
proof (cases "length p \<le> length xs")
  case True
  with assms(1) show ?thesis by simp
next
  case False
  then obtain m where m: "length p - length xs = Suc m" by (metis Suc_diff_Suc not_le)
  then have "y \<in> set (take (length p) (xs @ y # ys))" by simp
  then have "y \<in> set p" unfolding assms(1) .
  with assms(2) show ?thesis by simp
qed

lemma find_sub_past:
  assumes "p \<noteq> []" "y \<notin> set p" "find_sub p xs = None"
  shows "find_sub p (xs @ y # ys) = map_option (\<lambda>n. length xs + Suc n) (find_sub p ys)"
  using assms(3)
proof (induction xs)
  case Nil
  have "take (length p) (y # ys) \<noteq> p"
    using assms(1,2) by (cases p) auto
  then show ?case by (simp add: option.map_comp comp_def)
next
  case (Cons x xs)
  have "take (length p) ((x # xs) @ y # ys) \<noteq> p"
    using take_spans [of p "x # xs" y ys] assms(2) Cons.prems by (auto split: if_splits)
  moreover have "find_sub p xs = None" using Cons.prems by (auto split: if_splits)
  ultimately show ?case using Cons.IH by (simp add: option.map_comp comp_def)
qed

lemma find_sub_append:
  "find_sub p xs = Some i \<Longrightarrow> i + length p \<le> length xs \<and> find_sub p (xs @ ys) = Some i"
proof (induction xs arbitrary: i)
  case (Cons x xs)
  have front: "take (length p) ((x # xs) @ ys) = take (length p) (x # xs)"
    if "length p \<le> length (x # xs)"
    using that by (simp only: take_append) simp
  show ?case
  proof (cases "take (length p) (x # xs) = p")
    case True
    then have len: "length p \<le> length (x # xs)" by (metis length_take min.cobounded1)
    with True Cons.prems front [OF len] show ?thesis by simp
  next
    case False
    with Cons.prems obtain j where j: "find_sub p xs = Some j" "i = Suc j" by auto
    with Cons.IH [of j] have ih: "j + length p \<le> length xs" "find_sub p (xs @ ys) = Some j" by simp_all
    then have "take (length p) ((x # xs) @ ys) = take (length p) (x # xs)" by (intro front) simp
    with False j ih show ?thesis by simp
  qed
qed (cases "p = []"; cases ys; simp)

lemma find_counter:
  assumes "find_sub '',counter:'' ns = None"
  shows "find_sub '',counter:'' (text_key ns ''counter'' j) = Some (12 + length ns)"
proof -
  have "find_sub '',counter:'' (ns @ CHR ''}'' # '',counter:'' @ j) = Some (length ns + 1)"
    using find_sub_past [of "'',counter:''" "CHR ''}''" ns "'',counter:'' @ j"] assms
      find_sub_here [of "'',counter:''" j] by simp
  then show ?thesis by (simp add: text_key_def)
qed

lemma text_key_parts:
  "take 10 (text_key ns w j) = ''namespace:''" "find_sub ''namespace:'' (text_key ns w j) = Some 0"
  "drop (11 + n) (text_key ns w j) = drop n (ns @ ''},'' @ w @ '':'' @ j)"
  by (simp_all add: text_key_def eval_nat_numeral)

lemma partial_counter_text:
  assumes "find_sub '',counter:'' ns = None"
  shows "partial_counter_from_counter_key cel cd (text_key ns ''counter'' j) = unjson_counter cd j"
proof -
  have "drop (12 + length ns + 0 + 9) (text_key ns ''counter'' j) = j"
    using text_key_parts(3) [of "length ns + 10" ns "''counter''" j] by (simp add: eval_nat_numeral)
  then show ?thesis
    by (simp add: partial_counter_from_counter_key_def text_key_parts(1,2) find_counter [OF assms])
qed

text \<open>A namespace that contains the separator cuts the JSON text at the wrong place.\<close>

lemma partial_counter_cut:
  assumes "find_sub '',counter:'' ns = Some i"
  shows "partial_counter_from_counter_key cel cd (text_key ns ''counter'' j) =
    unjson_counter cd (drop (i + 9) ns @ ''},counter:'' @ j)"
proof -
  have "find_sub '',counter:'' (text_key ns ''counter'' j) = Some (11 + i)"
    using find_sub_append [OF assms, of "''},counter:'' @ j"] by (simp add: text_key_def)
  then show ?thesis
    using find_sub_append [OF assms, of "[]"] text_key_parts(3) [of "i + 9" ns "''counter''" j]
    by (simp add: partial_counter_from_counter_key_def text_key_parts(1,2) add.commute)
qed

lemma counter_round_trip_text:
  assumes "counter_id c = None" "find_sub '',counter:'' (counter_namespace c) = None"
    and "unjson_counter cd (json_counter cd (key c)) = Some c'" "counter_key c' = counter_key c"
    and "limit_key l = limit_key (limit c)"
  shows "\<exists>k. key_for_counter cd c = Some k \<and> counter_from_counter_key cel cd k l = Some (c'\<lparr>limit := l\<rparr>)"
proof -
  have "limit_key (limit c') = limit_key (limit c)" using assms(4) by (simp add: counter_key_def)
  then have "update_to_limit l c' = (True, c'\<lparr>limit := l\<rparr>)"
    using assms(5) by (simp add: update_to_limit_def limit_eq_key)
  with assms(1-3) show ?thesis
    by (simp add: key_for_counter_text counter_from_counter_key_def partial_counter_text)
qed

section \<open>Reading back the key of a limit with an id\<close>

lemma counter_of_id_key_limit:
  "counter_of_id_key cel k = Some c \<Longrightarrow> namespace (limit c) = [] \<and> seconds (limit c) = 0"
  by (auto simp: counter_of_id_key_def bind_eq_Some_conv resolved_vars_def limit_with_id_def Let_def)

lemma counter_from_id_key_panics:
  assumes id: "counter_id c = Some i" and rest: "namespace (limit c) \<noteq> [] \<or> seconds (limit c) \<noteq> 0"
    and tag: "take 10 (post_tag cd 2 @ post_id_key cd k) \<noteq> ''namespace:''"
      "take_tag cd (post_tag cd 2 @ post_id_key cd k) = Some (2, post_id_key cd k)"
      "unpost_id_key cd (post_id_key cd k) = Some k"
    and k: "id_key_of c = Some k" and l: "limit_key l = limit_key (limit c)"
  shows "\<exists>raw. key_for_counter cd c = Some raw \<and> counter_from_counter_key cel cd raw l = None"
proof -
  let ?raw = "post_tag cd 2 @ post_id_key cd k"
  have "key_for_counter cd c = Some ?raw"
    using id k by (simp add: key_for_counter_def key_for_counter_v2_def)
  moreover have part: "partial_counter_from_counter_key cel cd ?raw = counter_of_id_key cel k"
    using tag by (simp add: partial_counter_from_counter_key_def partial_counter_from_counter_key_v2_def)
  have "counter_from_counter_key cel cd ?raw l = None"
  proof (cases "counter_of_id_key cel k")
    case None
    with part show ?thesis by (simp add: counter_from_counter_key_def)
  next
    case (Some d)
    have "limit_key l \<noteq> limit_key (limit d)"
      using limit_key_fields(1,2) [of "limit c" "limit d"] counter_of_id_key_limit [OF Some] rest l by auto
    then have "update_to_limit l d = (False, d)" by (simp add: update_to_limit_def limit_eq_key)
    with Some part show ?thesis by (simp add: counter_from_counter_key_def)
  qed
  ultimately show ?thesis by blast
qed

section \<open>The keys of the disk storage\<close>

text \<open>A counter of the limiter: made from a well-formed limit, one value per variable.\<close>

definition counter_made :: "'e counter \<Rightarrow> bool" where
  "counter_made c \<longleftrightarrow> limit_wf (limit c) \<and> map fst (set_variables c) = map source (variables (limit c))"

lemma counter_new_made: "limit_wf l \<Longrightarrow> counter_new cel l ctx = Inr (Some c) \<Longrightarrow> counter_made c"
  using counter_new_Some(1,2) [of l cel ctx c] by (simp add: counter_made_def)

definition disk_key_of_key :: "counter_key \<Rightarrow> disk_key" where
  "disk_key_of_key k =
     \<lparr>dk_ns = lk_namespace (ck_limit k), dk_seconds = lk_seconds (ck_limit k),
      dk_conditions = lk_conditions (ck_limit k), dk_variables = ck_variables k\<rparr>"

lemma as_secs_from_secs [simp]: "as_secs (from_secs s) = s"
  by (simp add: as_secs_def from_secs_def)

lemma disk_key_of_made:
  assumes "counter_made c"
  shows "disk_key_of c = disk_key_of_key (counter_key c)"
proof -
  have "sorted_list_of_set (conditions_set (limit c)) = map predicate_source (conditions (limit c))"
    using assms unfolding conditions_set_def counter_made_def limit_wf_def
    by (metis distinct_remdups_id sorted_list_of_set_sort_remdups sorted_sort_id)
  moreover have "variables_for_key c = set_variables c"
    using assms unfolding variables_for_key_def counter_made_def limit_wf_def
    by (simp add: sort_key_id_if_sorted)
  ultimately show ?thesis
    by (simp add: disk_key_of_def disk_key_of_key_def counter_key_def limit_key_def counter_namespace_def
        window_def)
qed

lemma made_variables:
  "counter_made c \<Longrightarrow> lk_variables (ck_limit (counter_key c)) = map fst (ck_variables (counter_key c))"
  by (simp add: counter_made_def counter_key_def limit_key_def)

lemma disk_key_inject:
  assumes "counter_made c" "counter_made d"
  shows "disk_key_of c = disk_key_of d \<longleftrightarrow> counter_key c = counter_key d"
  using made_variables [OF assms(1)] made_variables [OF assms(2)]
  unfolding disk_key_of_made [OF assms(1)] disk_key_of_made [OF assms(2)]
  by (auto simp: disk_key_of_key_def counter_key_def limit_key_def)

definition key_bytes :: "'e codec \<Rightarrow> counter_key \<Rightarrow> bytes" where
  "key_bytes cd k = post_key cd (disk_key_of_key k)"

definition key_made :: "counter_key \<Rightarrow> bool" where
  "key_made k \<longleftrightarrow> lk_variables (ck_limit k) = map fst (ck_variables k)"

lemma key_made_counter: "counter_made c \<Longrightarrow> key_made (counter_key c)"
  by (simp add: key_made_def made_variables)

lemma key_bytes_counter: "counter_made c \<Longrightarrow> bin_key_for_counter cd c = key_bytes cd (counter_key c)"
  by (simp add: bin_key_for_counter_def key_bytes_def disk_key_of_made)

lemma key_bytes_inject:
  assumes "\<forall>k. unpost_key cd (post_key cd k) = Some k" "key_made j" "key_made k"
  shows "key_bytes cd j = key_bytes cd k \<longleftrightarrow> j = k"
proof
  assume "key_bytes cd j = key_bytes cd k"
  then have "disk_key_of_key j = disk_key_of_key k"
    using assms(1) by (metis key_bytes_def option.inject)
  with assms(2,3) show "j = k"
    by (cases j; cases k; cases "ck_limit j"; cases "ck_limit k") (simp add: disk_key_of_key_def key_made_def)
qed simp

section \<open>Reading back a key of the disk storage\<close>

lemma traverse_map_id: "(\<And>x. x \<in> set xs \<Longrightarrow> f (g x) = Some x) \<Longrightarrow> traverse f (map g xs) = Some xs"
  by (induction xs) auto

lemma btree_set_sorted:
  "sorted (map f xs) \<Longrightarrow> distinct (map f xs) \<Longrightarrow> btree_set f xs = xs"
proof (induction xs)
  case (Cons x xs)
  then have "btree_set f (x # xs) = insort_insert_key f x xs" by (simp add: btree_set_def)
  also have "\<dots> = x # xs"
    using Cons.prems by (cases xs) (auto simp: insort_insert_key_def)
  finally show ?case .
qed (simp add: btree_set_def)

text \<open>What the key of a counter keeps: everything but the id, the maximum and the name of its limit.\<close>

definition forget_limit :: "'e limit \<Rightarrow> 'e limit" where
  "forget_limit l = l\<lparr>limit_id := None, max_value := 0, limit_name := None\<rparr>"

lemma limit_key_forget [simp]: "limit_key (forget_limit l) = limit_key l"
  by (simp add: limit_key_def forget_limit_def)

lemma has_variable_forget [simp]: "has_variable cel (forget_limit l) = has_variable cel l"
  by (simp add: fun_eq_iff has_variable_def forget_limit_def)

text \<open>A variable survives in the counter that is read back only if its own text is one of the identifiers
  of the limit's variables (\<^verbatim>\<open>has_variable\<close>).\<close>

lemma counter_of_disk_key_made:
  assumes made: "counter_made c"
    and preds: "\<forall>p\<in>set (conditions (limit c)). predicate_parse cel (predicate_source p) = Inr p"
    and exprs: "\<forall>v\<in>set (variables (limit c)). expression_parse cel (source v) = Inr v"
  shows "counter_of_disk_key cel (disk_key_of c) =
    Some \<lparr>limit = forget_limit (limit c),
      set_variables = filter (\<lambda>(var, _). has_variable cel (limit c) var) (set_variables c),
      remaining = None, expires_in = None\<rparr>"
proof -
  let ?l = "limit c"
  have wf: "limit_wf ?l" and keys: "map fst (set_variables c) = map source (variables ?l)"
    using made by (simp_all add: counter_made_def)
  have sorted: "sorted (map fst (set_variables c))" "distinct (map fst (set_variables c))"
    using wf keys by (simp_all add: limit_wf_def)
  have vars: "btree_map (set_variables c) = set_variables c" by (rule btree_map_sorted [OF sorted])
  have kept: "btree_map (filter P (set_variables c)) = filter P (set_variables c)" for P
    using sorted by (intro btree_map_sorted) (simp_all add: sorted_filter distinct_map_filter)
  have k: "disk_key_of c = \<lparr>dk_ns = namespace ?l, dk_seconds = seconds ?l,
      dk_conditions = map predicate_source (conditions ?l), dk_variables = set_variables c\<rparr>"
    unfolding disk_key_of_made [OF made] by (simp add: disk_key_of_key_def counter_key_def limit_key_def)
  have new: "limit_new (namespace ?l) 0 (seconds ?l) (conditions ?l) (variables ?l) = forget_limit ?l"
    using wf by (simp add: limit_new_def limit_wf_def btree_set_sorted forget_limit_def)
  have "traverse (parse_or_panic (predicate_parse cel)) (map predicate_source (conditions ?l)) =
      Some (conditions ?l)"
    using preds by (intro traverse_map_id) (simp add: parse_or_panic_def)
  moreover have "traverse (parse_or_panic (expression_parse cel)) (map source (variables ?l)) = Some (variables ?l)"
    using exprs by (intro traverse_map_id) (simp add: parse_or_panic_def)
  ultimately show ?thesis
    by (simp add: counter_of_disk_key_def k vars keys new resolved_vars_def kept)
qed

lemma all_variables_kept:
  assumes "counter_made c"
  shows "filter (\<lambda>(var, _). P var) (set_variables c) = set_variables c \<longleftrightarrow>
    (\<forall>v\<in>set (variables (limit c)). P (source v))"
proof -
  have "fst ` set (set_variables c) = source ` set (variables (limit c))"
    using assms by (metis counter_made_def list.set_map)
  then show ?thesis
    unfolding filter_id_conv case_prod_unfold by (metis (mono_tags, lifting) image_iff)
qed

end
