(* ===== verification/Disk.thy ===== *)
theory Disk
  imports DiskValue Keys Reservations Backend
begin

text \<open>
  The disk storage: \<^verbatim>\<open>limitador/src/storage/disk/rocksdb_storage.rs\<close> and \<^verbatim>\<open>disk/mod.rs\<close>.

  RocksDB is external: the database is the parameter \<open>db\<close>, a record of the operations the source
  calls, over an abstract state.  What the code relies on is \<open>rocksdb_laws\<close>: a database keeps, for
  every key, a base value and the merge operands written since (\<open>chain\<close>); a merge appends an
  operand, a delete removes both, and a read folds them with the installed merge operator at the
  time of the read.  A call reads the clock once.
\<close>

section \<open>The database\<close>

datatype rocksdb_error_kind = TimedOut | TryAgain | OtherKind

record rocksdb_error =
  re_kind :: rocksdb_error_kind
  re_text :: string

definition rocksdb_storage_err :: "rocksdb_error \<Rightarrow> storage_err" where
  "rocksdb_storage_err e =
     \<lparr>err_msg = ''Underlying storage error: '' @ re_text e, err_source = Some (re_text e),
      transient = (re_kind e = TimedOut \<or> re_kind e = TryAgain)\<rparr>"

datatype optimize_for = Space | Throughput

datatype compression = Bz2 | NoCompression

record rocksdb_options =
  compression_type :: compression
  compaction_filter :: "(systime \<Rightarrow> bytes \<Rightarrow> compaction_decision option) option"
  merge_op :: "systime \<Rightarrow> bytes option \<Rightarrow> bytes list \<Rightarrow> bytes option"
  create_if_missing :: bool

record 'd rocksdb =
  db_open :: "rocksdb_options \<Rightarrow> string \<Rightarrow> rocksdb_error + 'd"
  db_get :: "systime \<Rightarrow> bytes \<Rightarrow> 'd \<Rightarrow> (rocksdb_error + bytes option) option"
  db_merge :: "bytes \<Rightarrow> bytes \<Rightarrow> 'd \<Rightarrow> (rocksdb_error + unit) \<times> 'd"
  db_delete :: "bytes \<Rightarrow> 'd \<Rightarrow> (rocksdb_error + unit) \<times> 'd"
  db_iterator :: "systime \<Rightarrow> 'd \<Rightarrow> (rocksdb_error + bytes \<times> bytes) list"
  db_prefix_iterator :: "systime \<Rightarrow> bytes \<Rightarrow> 'd \<Rightarrow> (rocksdb_error + bytes \<times> bytes) list"

definition chain_read :: "systime \<Rightarrow> bytes option \<times> bytes list \<Rightarrow> bytes option option" where
  "chain_read now = (\<lambda>(base, ops).
     if base = None \<and> ops = [] then Some None else map_option Some (merge_operator now base ops))"

definition rocksdb_laws :: "'d rocksdb \<Rightarrow> ('d \<Rightarrow> bytes \<Rightarrow> bytes option \<times> bytes list) \<Rightarrow> bool" where
  "rocksdb_laws db chain \<longleftrightarrow>
     (\<forall>now k d. db_get db now k d = map_option Inr (chain_read now (chain d k))) \<and>
     (\<forall>k op d. fst (db_merge db k op d) = Inr () \<and>
        chain (snd (db_merge db k op d)) =
          (chain d)(k := (fst (chain d k), snd (chain d k) @ [op]))) \<and>
     (\<forall>k d. fst (db_delete db k d) = Inr () \<and>
        chain (snd (db_delete db k d)) = (chain d)(k := (None, [])))"

section \<open>State\<close>

record 'd disk =
  disk_db :: 'd
  disk_reservations :: registry

definition disk_options :: "optimize_for \<Rightarrow> rocksdb_options" where
  "disk_options mode =
     (case mode of
        Space \<Rightarrow> \<lparr>compression_type = Bz2, compaction_filter = Some expired_value_filter,
                  merge_op = merge_operator, create_if_missing = True\<rparr>
      | Throughput \<Rightarrow> \<lparr>compression_type = NoCompression, compaction_filter = None,
                  merge_op = merge_operator, create_if_missing = True\<rparr>)"

definition disk_open :: "'d rocksdb \<Rightarrow> string \<Rightarrow> optimize_for \<Rightarrow> 'd disk option" where
  "disk_open db path mode =
     (case db_open db (disk_options mode) path of
        Inl _ \<Rightarrow> None
      | Inr d \<Rightarrow> Some \<lparr>disk_db = d, disk_reservations = registry_new\<rparr>)"

section \<open>Operations\<close>

text \<open>Decoding an entry, with \<^verbatim>\<open>default\<close> for a missing one.\<close>

definition entry_value :: "bytes option \<Rightarrow> (slice_error + expiring_value) option" where
  "entry_value entry = (case entry of None \<Rightarrow> Some (Inr ev_default) | Some raw \<Rightarrow> ev_try_from raw)"

definition insert_or_update ::
  "'d rocksdb \<Rightarrow> systime \<Rightarrow> bytes \<Rightarrow> 'e counter \<Rightarrow> u64 \<Rightarrow> 'd disk \<Rightarrow> ('d disk, expiring_value) outcome" where
  "insert_or_update db now k c delta s = do {
     entry \<leftarrow> db_get db now k (disk_db s);
     (case entry of
        Inl e \<Rightarrow> Some (Inl (rocksdb_storage_err e), s)
      | Inr entry \<Rightarrow> do {
          value \<leftarrow> entry_value entry;
          (case value of
             Inl e \<Rightarrow> Some (Inl (slice_storage_err e), s)
           | Inr value \<Rightarrow>
               if ev_value_at value now + delta \<le> counter_max_value c then do {
                 exp \<leftarrow> systime_add now (from_secs (seconds (limit c)));
                 let (r, d) = db_merge db k (ev_into_bytes (ev_new delta exp)) (disk_db s);
                 (case r of
                    Inl e \<Rightarrow> Some (Inl (rocksdb_storage_err e), s\<lparr>disk_db := d\<rparr>)
                  | Inr _ \<Rightarrow> do {
                      v \<leftarrow> ev_update delta (window c) now value;
                      Some (Inr v, s\<lparr>disk_db := d\<rparr>)
                    })
               }
               else Some (Inr value, s))
        })
   }"

definition disk_is_within_limits ::
  "'d rocksdb \<Rightarrow> 'e codec \<Rightarrow> counter_key env \<Rightarrow> 'e counter \<Rightarrow> u64 \<Rightarrow> 'd disk \<Rightarrow> ('d disk, bool) outcome" where
  "disk_is_within_limits db cd env c delta s = do {
     (r, s) \<leftarrow> insert_or_update db (env_now env) (bin_key_for_counter cd c) c 0 s;
     Some (case r of
         Inl e \<Rightarrow> Inl e
       | Inr v \<Rightarrow> Inr (counter_max_value c \<ge> ev_value_now (env_now env) v + delta), s)
   }"

definition disk_update_counter ::
  "'d rocksdb \<Rightarrow> 'e codec \<Rightarrow> counter_key env \<Rightarrow> 'e counter \<Rightarrow> u64 \<Rightarrow> 'd disk \<Rightarrow> ('d disk, unit) outcome" where
  "disk_update_counter db cd env c delta s = do {
     (r, s) \<leftarrow> insert_or_update db (env_now env) (bin_key_for_counter cd c) c delta s;
     Some (case r of Inl e \<Rightarrow> Inl e | Inr _ \<Rightarrow> Inr (), s)
   }"

text \<open>The loop of \<^verbatim>\<open>evaluate\<close>: the counters visited before an error stay annotated.\<close>

definition disk_read :: "systime \<Rightarrow> 'e counter \<Rightarrow> bytes option \<Rightarrow> (slice_error + u64 \<times> duration) option" where
  "disk_read now c entry =
     (case entry of
        None \<Rightarrow> Some (Inr (0, from_secs (seconds (limit c))))
      | Some raw \<Rightarrow>
          map_option (map_sum id (\<lambda>v.
            (ev_value_now now v,
             if ev_ttl now v = 0 then from_secs (seconds (limit c)) else ev_ttl now v)))
            (ev_try_from raw))"

definition disk_annotate :: "u64 \<Rightarrow> duration \<Rightarrow> 'e counter \<Rightarrow> 'e counter" where
  "disk_annotate val ttl c =
     set_remaining (saturating_sub (counter_max_value c) val) (set_expires_in ttl c)"

primrec disk_evaluate ::
  "'d rocksdb \<Rightarrow> 'e codec \<Rightarrow> systime \<Rightarrow> u64 \<Rightarrow> 'd disk \<Rightarrow> 'e counter list \<Rightarrow> authorization option \<Rightarrow>
   ((storage_err + authorization \<times> bytes list) \<times> 'e counter list) option" where
  "disk_evaluate db cd now delta s [] found =
     Some (Inr (case found of Some a \<Rightarrow> a | None \<Rightarrow> AuthOk, []), [])"
| "disk_evaluate db cd now delta s (c # cs) found = do {
     let k = bin_key_for_counter cd c;
     entry \<leftarrow> db_get db now k (disk_db s);
     (case entry of
        Inl e \<Rightarrow> Some (Inl (rocksdb_storage_err e), c # cs)
      | Inr entry \<Rightarrow> do {
          row \<leftarrow> disk_read now c entry;
          (case row of
             Inl e \<Rightarrow> Some (Inl (slice_storage_err e), c # cs)
           | Inr (val, ttl) \<Rightarrow> do {
               let found' =
                 (if found = None \<and> counter_max_value c < val + delta
                  then Some (Limited (limit_name (limit c))) else found);
               (r, cs') \<leftarrow> disk_evaluate db cd now delta s cs found';
               Some (map_sum id (map_prod id ((#) k)) r, disk_annotate val ttl c # cs')
             })
        })
   }"

definition disk_check ::
  "'d rocksdb \<Rightarrow> 'e codec \<Rightarrow> counter_key env \<Rightarrow> 'e counter list \<Rightarrow> u64 \<Rightarrow> 'd disk \<Rightarrow>
   (((storage_err + authorization) \<times> 'e counter list) \<times> 'd disk) option" where
  "disk_check db cd env cs delta s = do {
     (r, cs') \<leftarrow> disk_evaluate db cd (env_now env) delta s cs None;
     Some ((map_sum id fst r, cs'), s)
   }"

definition persist_one ::
  "'d rocksdb \<Rightarrow> systime \<Rightarrow> u64 \<Rightarrow> bytes \<times> 'e counter \<Rightarrow> 'd disk \<Rightarrow> ('d disk, unit) outcome" where
  "persist_one db now delta = (\<lambda>(k, c) s. do {
     (r, s) \<leftarrow> insert_or_update db now k c delta s;
     Some (case r of Inl e \<Rightarrow> Inl e | Inr _ \<Rightarrow> Inr (), s)
   })"

definition disk_check_and_update ::
  "'d rocksdb \<Rightarrow> 'e codec \<Rightarrow> counter_key env \<Rightarrow> 'e counter list \<Rightarrow> u64 \<Rightarrow> 'd disk \<Rightarrow>
   (((storage_err + authorization) \<times> 'e counter list) \<times> 'd disk) option" where
  "disk_check_and_update db cd env cs delta s = do {
     (r, cs') \<leftarrow> disk_evaluate db cd (env_now env) delta s cs None;
     (case r of
        Inl e \<Rightarrow> Some ((Inl e, cs'), s)
      | Inr (auth, keys) \<Rightarrow>
          if auth = AuthOk then do {
            (u, s) \<leftarrow> try_each (persist_one db (env_now env) delta) (zip keys cs') s;
            Some ((map_sum id (\<lambda>_. auth) u, cs'), s)
          }
          else Some ((Inr auth, cs'), s))
   }"

text \<open>One namespace of \<^verbatim>\<open>get_counters\<close>: the iterator runs past the prefix, so the loop stops at the
  first key of another namespace; \<^verbatim>\<open>expect\<close> panics on a counter that no given limit matches.\<close>

fun disk_scan ::
  "'e cel \<Rightarrow> 'e codec \<Rightarrow> systime \<Rightarrow> 'e limit list \<Rightarrow> string \<Rightarrow> (rocksdb_error + bytes \<times> bytes) list \<Rightarrow>
   'e counter list \<Rightarrow> (storage_err + 'e counter list) option" where
  "disk_scan cel cd now ls ns [] acc = Some (Inr acc)"
| "disk_scan cel cd now ls ns (Inl e # _) acc = Some (Inl (rocksdb_storage_err e))"
| "disk_scan cel cd now ls ns (Inr (k, raw) # rest) acc = do {
     c \<leftarrow> bin_partial_counter_from_counter_key cel cd k;
     if counter_namespace c \<noteq> ns then Some (Inr acc)
     else do {
       r \<leftarrow> ev_try_from raw;
       (case r of
          Inl e \<Rightarrow> Some (Inl (slice_storage_err e))
        | Inr value \<Rightarrow> do {
            let c = (case List.find (\<lambda>l. limit_eq l (limit c)) ls of
                Some l \<Rightarrow>
                  set_remaining (saturating_sub (max_value l) (ev_value_now now value))
                    (set_expires_in (ev_ttl now value) (snd (update_to_limit l c)))
              | None \<Rightarrow> c);
            ttl \<leftarrow> expires_in c;
            disk_scan cel cd now ls ns rest
              (if ttl > 0 then snd (hset_insert counter_key c acc) else acc)
          })
     }
   }"

primrec disk_scan_all ::
  "'d rocksdb \<Rightarrow> 'e cel \<Rightarrow> 'e codec \<Rightarrow> systime \<Rightarrow> 'e limit list \<Rightarrow> 'd disk \<Rightarrow> string list \<Rightarrow>
   'e counter list \<Rightarrow> (storage_err + 'e counter list) option" where
  "disk_scan_all db cel cd now ls s [] acc = Some (Inr acc)"
| "disk_scan_all db cel cd now ls s (ns # nss) acc = do {
     r \<leftarrow> disk_scan cel cd now ls ns
       (db_prefix_iterator db now (prefix_for_namespace cd ns) (disk_db s)) acc;
     (case r of Inl e \<Rightarrow> Some (Inl e) | Inr acc \<Rightarrow> disk_scan_all db cel cd now ls s nss acc)
   }"

definition disk_get_counters ::
  "'d rocksdb \<Rightarrow> 'e cel \<Rightarrow> 'e codec \<Rightarrow> counter_key env \<Rightarrow> 'e limit list \<Rightarrow> 'd disk \<Rightarrow>
   ('d disk, 'e counter list) outcome" where
  "disk_get_counters db cel cd env ls s = do {
     r \<leftarrow> disk_scan_all db cel cd (env_now env) ls s (sort (remdups (map namespace ls))) [];
     Some (r, s)
   }"

definition disk_delete_key :: "'d rocksdb \<Rightarrow> bytes \<Rightarrow> 'd disk \<Rightarrow> ('d disk, unit) outcome" where
  "disk_delete_key db k s =
     (let (r, d) = db_delete db k (disk_db s)
      in Some (map_sum rocksdb_storage_err id r, s\<lparr>disk_db := d\<rparr>))"

definition disk_delete_counters ::
  "'d rocksdb \<Rightarrow> 'e cel \<Rightarrow> 'e codec \<Rightarrow> counter_key env \<Rightarrow> 'e limit list \<Rightarrow> 'd disk \<Rightarrow> ('d disk, unit) outcome" where
  "disk_delete_counters db cel cd env ls s = do {
     (r, s) \<leftarrow> disk_get_counters db cel cd env ls s;
     (case r of
        Inl e \<Rightarrow> Some (Inl e, s)
      | Inr cs \<Rightarrow> try_each (\<lambda>c. disk_delete_key db (bin_key_for_counter cd c)) cs s)
   }"

definition disk_clear :: "'d rocksdb \<Rightarrow> counter_key env \<Rightarrow> 'd disk \<Rightarrow> ('d disk, unit) outcome" where
  "disk_clear db env s =
     try_each (\<lambda>entry s.
         (case entry of
            Inl e \<Rightarrow> Some (Inl (rocksdb_storage_err e), s)
          | Inr (k, _) \<Rightarrow> disk_delete_key db k s))
       (db_iterator db (env_now env) (disk_db s)) s"

primrec disk_touch ::
  "'d rocksdb \<Rightarrow> 'e codec \<Rightarrow> systime \<Rightarrow> 'e counter list \<Rightarrow> 'd disk \<Rightarrow>
   ('d disk, (u64 \<times> duration) list) outcome" where
  "disk_touch db cd now [] s = Some (Inr [], s)"
| "disk_touch db cd now (c # cs) s = do {
     (r, s) \<leftarrow> insert_or_update db now (bin_key_for_counter cd c) c 0 s;
     (case r of
        Inl e \<Rightarrow> Some (Inl e, s)
      | Inr v \<Rightarrow> do {
          (r, s) \<leftarrow> disk_touch db cd now cs s;
          Some (map_sum id ((#) (ev_value_now now v, ev_ttl now v)) r, s)
        })
   }"

definition disk_reserve ::
  "'d rocksdb \<Rightarrow> 'e codec \<Rightarrow> counter_key env \<Rightarrow> 'e counter list \<Rightarrow> reservation_id \<Rightarrow> u64 \<Rightarrow> u64 \<Rightarrow> duration \<Rightarrow>
   'd disk \<Rightarrow> (((storage_err + authorization) \<times> 'e counter list) \<times> 'd disk) option" where
  "disk_reserve db cd env cs rid check_amt hold_amt ttl s = do {
     let now = env_now env;
     (r, s) \<leftarrow> disk_touch db cd now cs s;
     (case r of
        Inl e \<Rightarrow> Some ((Inl e, cs), s)
      | Inr vts \<Rightarrow> do {
          (a, cs', reg) \<leftarrow> registry_reserve (env_evicts env) cs vts
            \<lparr>req_id = rid, check_amount = check_amt, hold_amount = hold_amt, req_ttl = ttl, req_now = now\<rparr>
            (disk_reservations s);
          Some ((Inr a, cs'), s\<lparr>disk_reservations := reg\<rparr>)
        })
   }"

definition disk_release_reservation ::
  "counter_key env \<Rightarrow> 'e counter list \<Rightarrow> reservation_id \<Rightarrow> 'd disk \<Rightarrow> ('d disk, bool) outcome" where
  "disk_release_reservation env cs rid s =
     (let (b, reg) = registry_release (env_now env) cs rid (disk_reservations s)
      in Some (Inr b, s\<lparr>disk_reservations := reg\<rparr>))"

definition disk_storage ::
  "'d rocksdb \<Rightarrow> 'e cel \<Rightarrow> 'e codec \<Rightarrow> (counter_key env, 'd disk, 'e) counter_storage" where
  "disk_storage db cel cd =
     \<lparr>cs_is_within_limits = disk_is_within_limits db cd,
      cs_add_counter = (\<lambda>env l s. Some (Inr (), s)),
      cs_update_counter = disk_update_counter db cd,
      cs_check = disk_check db cd,
      cs_check_and_update = disk_check_and_update db cd,
      cs_get_counters = disk_get_counters db cel cd,
      cs_delete_counters = disk_delete_counters db cel cd,
      cs_clear = disk_clear db,
      cs_reserve = disk_reserve db cd,
      cs_release_reservation = disk_release_reservation\<rparr>"

section \<open>What the storage reports\<close>

definition disk_val ::
  "('d \<Rightarrow> bytes \<Rightarrow> bytes option \<times> bytes list) \<Rightarrow> systime \<Rightarrow> 'd disk \<Rightarrow> bytes \<Rightarrow> u64 option" where
  "disk_val chain now s k =
     map_option (\<lambda>v. ev_value_at v now) (ev_fold now (fst (chain (disk_db s) k)) (snd (chain (disk_db s) k)))"

lemma ev_value_at_default [simp]: "ev_value_at ev_default now = 0"
  by (simp add: ev_value_at_def ev_default_def)

lemma db_get_value:
  assumes "rocksdb_laws db chain" "disk_val chain now s k = Some x"
  shows "\<exists>entry v ttl. db_get db now k (disk_db s) = Some (Inr entry) \<and> entry_value entry = Some (Inr v) \<and>
    ev_fold now (fst (chain (disk_db s) k)) (snd (chain (disk_db s) k)) = Some v \<and> ev_value_at v now = x \<and>
    disk_read now c entry = Some (Inr (x, ttl))"
proof -
  obtain b ops where ch: "chain (disk_db s) k = (b, ops)" by fastforce
  with assms(2) obtain v where v: "ev_fold now b ops = Some v" "ev_value_at v now = x"
    by (auto simp: disk_val_def)
  have get: "db_get db now k (disk_db s) = map_option Inr (chain_read now (b, ops))"
    using assms(1) ch unfolding rocksdb_laws_def by metis
  show ?thesis
  proof (cases "b = None \<and> ops = []")
    case True
    with v have "v = ev_default" by (simp add: ev_fold_def)
    with True v get ch show ?thesis by (simp add: chain_read_def entry_value_def disk_read_def)
  next
    case False
    with get v have "db_get db now k (disk_db s) = Some (Inr (Some (ev_into_bytes v)))"
      by (auto simp: chain_read_def merge_operator_decodes(1))
    with v ch merge_operator_decodes(2) [OF v(1)] show ?thesis
      by (simp add: entry_value_def disk_read_def ev_value_now_def)
  qed
qed

definition disk_in_time :: "systime \<Rightarrow> 'e counter \<Rightarrow> bool" where
  "disk_in_time now c \<longleftrightarrow> 0 < seconds (limit c) \<and> systime_add now (window c) \<noteq> None"

lemma insert_or_update_admitted:
  assumes laws: "rocksdb_laws db chain" and x: "disk_val chain now s k = Some x"
    and room: "x + delta \<le> counter_max_value c" and time: "disk_in_time now c"
  shows "\<exists>v s'. insert_or_update db now k c delta s = Some (Inr v, s') \<and>
    ev_value_at v now = x + delta \<and>
    disk_val chain now s' = (disk_val chain now s)(k \<mapsto> x + delta) \<and>
    disk_reservations s' = disk_reservations s"
proof -
  from db_get_value [OF laws x, of undefined] obtain entry v where
    v: "db_get db now k (disk_db s) = Some (Inr entry)" "entry_value entry = Some (Inr v)"
      "ev_fold now (fst (chain (disk_db s) k)) (snd (chain (disk_db s) k)) = Some v" "ev_value_at v now = x"
    by (elim exE conjE) (rule that; assumption)
  let ?e = "now + window c" and ?op = "ev_into_bytes (ev_new delta (now + window c))"
  have e: "systime_add now (window c) = Some ?e" "?e div 10 ^ 9 < 2 ^ 63" "0 < seconds (limit c)"
    using time by (auto simp: disk_in_time_def systime_add_def split: if_splits)
  then have ttl: "0 < window c" by (simp add: window_def from_secs_def word_less_nat_alt)
  obtain v' where v': "ev_update delta (window c) now v = Some v'"
    using e(1) by (cases "ev_update delta (window c) now v") (auto simp: ev_update_def split: if_splits)
  obtain d where d: "db_merge db k ?op (disk_db s) = (Inr (), d)"
      "chain d = (chain (disk_db s))(k := (fst (chain (disk_db s) k), snd (chain (disk_db s) k) @ [?op]))"
    using laws unfolding rocksdb_laws_def by (metis prod.collapse)
  have "insert_or_update db now k c delta s = Some (Inr v', s\<lparr>disk_db := d\<rparr>)"
    using v room v' d(1) e(1) by (simp add: insert_or_update_def flip: window_def)
  moreover obtain w where w: "merge_pending now ?op v = Some w" "ev_value_at w now = x + delta"
    using merge_pending_write [of now "seconds (limit c)" ?e delta v] e(2,3) v(4) by (auto simp: window_def)
  then have "disk_val chain now (s\<lparr>disk_db := d\<rparr>) = (disk_val chain now s)(k \<mapsto> x + delta)"
    using v(3) by (auto simp: fun_eq_iff disk_val_def d(2) ev_fold_snoc)
  ultimately show ?thesis using ev_value_at_update [OF v' ttl] v(4) by simp
qed

lemma insert_or_update_denied:
  assumes "rocksdb_laws db chain" "disk_val chain now s k = Some x" "\<not> x + delta \<le> counter_max_value c"
  shows "\<exists>v. insert_or_update db now k c delta s = Some (Inr v, s) \<and> ev_value_at v now = x"
proof -
  from db_get_value [OF assms(1,2), of undefined] obtain entry v where
    "db_get db now k (disk_db s) = Some (Inr entry)" "entry_value entry = Some (Inr v)" "ev_value_at v now = x"
    by (elim exE conjE) (rule that; assumption)
  with assms(3) show ?thesis by (simp add: insert_or_update_def)
qed

lemma disk_persist:
  assumes laws: "rocksdb_laws db chain"
    and "\<forall>(k, c)\<in>set kcs. disk_val chain now s k = Some (x k) \<and> x k + delta \<le> counter_max_value c \<and>
      disk_in_time now c"
    and "distinct (map fst kcs)"
  shows "\<exists>s'. try_each (persist_one db now delta) kcs s = Some (Inr (), s') \<and>
    disk_val chain now s' =
      (\<lambda>k. if k \<in> fst ` set kcs then Some (x k + delta) else disk_val chain now s k)"
  using assms(2,3)
proof (induction kcs arbitrary: s)
  case (Cons kc kcs)
  obtain k c where kc: "kc = (k, c)" by (cases kc)
  from Cons.prems(1) kc have "disk_val chain now s k = Some (x k)" "x k + delta \<le> counter_max_value c"
    "disk_in_time now c" by simp_all
  from insert_or_update_admitted [OF laws this] obtain v s1 where
    s1: "insert_or_update db now k c delta s = Some (Inr v, s1)"
      "disk_val chain now s1 = (disk_val chain now s)(k \<mapsto> x k + delta)"
    by (elim exE conjE) (rule that; assumption)
  have "\<forall>(k, c)\<in>set kcs. disk_val chain now s1 k = Some (x k) \<and> x k + delta \<le> counter_max_value c \<and>
      disk_in_time now c"
  proof clarify
    fix k' c' assume m: "(k', c') \<in> set kcs"
    then have "k' \<in> fst ` set kcs" by force
    with Cons.prems(2) kc have "k' \<noteq> k" by auto
    with bspec [OF Cons.prems(1), of "(k', c')"] m show
      "disk_val chain now s1 k' = Some (x k') \<and> x k' + delta \<le> counter_max_value c' \<and> disk_in_time now c'"
      by (simp add: s1(2))
  qed
  from Cons.IH [OF this] Cons.prems(2) obtain s' where
    s': "try_each (persist_one db now delta) kcs s1 = Some (Inr (), s')"
      "disk_val chain now s' =
        (\<lambda>k. if k \<in> fst ` set kcs then Some (x k + delta) else disk_val chain now s1 k)"
    by auto
  then show ?case using Cons.prems(2) s1 by (auto simp: kc persist_one_def)
qed simp

lemma disk_evaluate_result:
  assumes laws: "rocksdb_laws db chain"
    and "\<forall>c\<in>set cs. disk_val chain now s (bin_key_for_counter cd c) = Some (x c)"
  shows "\<exists>cs'. disk_evaluate db cd now delta s cs found = Some (Inr
      (case fold (\<lambda>c acc. if acc = None \<and> counter_max_value c < x c + delta
           then Some (Limited (limit_name (limit c))) else acc) cs found of
         Some a \<Rightarrow> a | None \<Rightarrow> AuthOk, map (bin_key_for_counter cd) cs), cs') \<and>
    list_all2 (\<lambda>c c'. \<exists>ttl. c' = disk_annotate (x c) ttl c) cs cs'"
  using assms(2)
proof (induction cs arbitrary: found)
  case (Cons c cs)
  from Cons.prems have "disk_val chain now s (bin_key_for_counter cd c) = Some (x c)" by simp
  from db_get_value [OF laws this, of c] obtain entry ttl where
    row: "db_get db now (bin_key_for_counter cd c) (disk_db s) = Some (Inr entry)"
      "disk_read now c entry = Some (Inr (x c, ttl))"
    by (elim exE conjE) (rule that; assumption)
  let ?found = "if found = None \<and> counter_max_value c < x c + delta
    then Some (Limited (limit_name (limit c))) else found"
  from Cons.IH [of ?found] Cons.prems obtain cs' where
    "disk_evaluate db cd now delta s cs ?found = Some (Inr
      (case fold (\<lambda>c acc. if acc = None \<and> counter_max_value c < x c + delta
           then Some (Limited (limit_name (limit c))) else acc) cs ?found of
         Some a \<Rightarrow> a | None \<Rightarrow> AuthOk, map (bin_key_for_counter cd) cs), cs')"
    "list_all2 (\<lambda>c c'. \<exists>ttl. c' = disk_annotate (x c) ttl c) cs cs'"
    by auto
  with row show ?case by (auto simp: Let_def)
qed simp

section \<open>It is a counter store\<close>

definition disk_used ::
  "('d \<Rightarrow> bytes \<Rightarrow> bytes option \<times> bytes list) \<Rightarrow> 'e codec \<Rightarrow> counter_key env \<Rightarrow> 'd disk \<Rightarrow> counter_key \<Rightarrow>
   u64" where
  "disk_used chain cd env s k =
     (case disk_val chain (env_now env) s (key_bytes cd k) of Some x \<Rightarrow> x | None \<Rightarrow> 0)"

text \<open>A call the storage handles: the database and the serialiser behave as documented, the counters
  are the limiter's, their windows fit the clock, their stored values decode, and no sum wraps.\<close>

definition disk_ready ::
  "'d rocksdb \<Rightarrow> ('d \<Rightarrow> bytes \<Rightarrow> bytes option \<times> bytes list) \<Rightarrow> 'e codec \<Rightarrow> counter_key env \<Rightarrow>
   'e counter list \<Rightarrow> u64 \<Rightarrow> 'd disk \<Rightarrow> bool" where
  "disk_ready db chain cd env cs delta s \<longleftrightarrow>
     rocksdb_laws db chain \<and> (\<forall>k. unpost_key cd (post_key cd k) = Some k) \<and>
     distinct (map counter_key cs) \<and>
     (\<forall>c\<in>set cs. counter_made c \<and> disk_in_time (env_now env) c \<and>
        disk_val chain (env_now env) s (bin_key_for_counter cd c) \<noteq> None \<and>
        unat (disk_used chain cd env s (counter_key c)) + unat delta < 2 ^ 64)"

lemma disk_annotates: "annotates u c (disk_annotate (u (counter_key c)) ttl c)"
  by (simp add: annotates_def disk_annotate_def)

lemma disk_readyD:
  assumes "disk_ready db chain cd env cs delta s" "c \<in> set cs"
  shows "disk_val chain (env_now env) s (bin_key_for_counter cd c) = Some (disk_used chain cd env s (counter_key c))"
    "counter_made c" "disk_in_time (env_now env) c"
    "disk_used chain cd env s (counter_key c) + delta \<le> counter_max_value c \<longleftrightarrow>
       admits (disk_used chain cd env s) delta c"
proof -
  have c: "counter_made c" "disk_in_time (env_now env) c"
    "disk_val chain (env_now env) s (bin_key_for_counter cd c) \<noteq> None"
    "unat (disk_used chain cd env s (counter_key c)) + unat delta < 2 ^ 64"
    using assms by (simp_all add: disk_ready_def)
  from c(3) show "disk_val chain (env_now env) s (bin_key_for_counter cd c) = Some (disk_used chain cd env s (counter_key c))"
    by (auto simp: disk_used_def key_bytes_counter [OF c(1)])
  from c(4) show "disk_used chain cd env s (counter_key c) + delta \<le> counter_max_value c \<longleftrightarrow>
       admits (disk_used chain cd env s) delta c"
    by (simp add: admits_def saturating_add_def)
qed (use assms in \<open>simp_all add: disk_ready_def\<close>)

lemma disk_evaluate_ready:
  assumes "disk_ready db chain cd env cs delta s"
  shows "\<exists>a cs'. disk_evaluate db cd (env_now env) delta s cs None =
      Some (Inr (a, map (bin_key_for_counter cd) cs), cs') \<and>
    (a = AuthOk \<longleftrightarrow> (\<forall>c\<in>set cs. admits (disk_used chain cd env s) delta c)) \<and>
    list_all2 (annotates (disk_used chain cd env s)) cs cs' \<and> map limit cs' = map limit cs"
proof -
  let ?u = "disk_used chain cd env s"
  let ?over = "\<lambda>c. counter_max_value c < ?u (counter_key c) + delta"
  have laws: "rocksdb_laws db chain" using assms by (simp add: disk_ready_def)
  have "\<forall>c\<in>set cs. disk_val chain (env_now env) s (bin_key_for_counter cd c) = Some (?u (counter_key c))"
    using disk_readyD(1) [OF assms] by blast
  note ev = disk_evaluate_result [OF laws this, of delta None, folded first_limited_def [of ?over "\<lambda>c. c"]]
  then obtain cs' where
    r: "disk_evaluate db cd (env_now env) delta s cs None =
        Some (Inr (case first_limited ?over (\<lambda>c. c) cs of Some a \<Rightarrow> a | None \<Rightarrow> AuthOk,
          map (bin_key_for_counter cd) cs), cs')"
      "list_all2 (\<lambda>c c'. \<exists>ttl. c' = disk_annotate (?u (counter_key c)) ttl c) cs cs'"
    by (elim exE conjE) (rule that; assumption)
  have "(case first_limited ?over (\<lambda>c. c) cs of Some a \<Rightarrow> a | None \<Rightarrow> AuthOk) = AuthOk \<longleftrightarrow>
      (\<forall>c\<in>set cs. \<not> ?over c)"
    using first_limited_SomeD [of ?over "\<lambda>c. c" cs] first_limited_None [of ?over "\<lambda>c. c" cs]
    by (cases "first_limited ?over (\<lambda>c. c) cs") auto
  moreover have "(\<forall>c\<in>set cs. \<not> ?over c) \<longleftrightarrow> (\<forall>c\<in>set cs. admits ?u delta c)"
    using disk_readyD(4) [OF assms] by (simp add: not_less)
  moreover have "list_all2 (annotates ?u) cs cs'"
    using r(2) by (rule list.rel_mono_strong) (auto simp: disk_annotates)
  moreover have "map limit cs' = map limit cs"
    using r(2) by (induction rule: list_all2_induct) (auto simp: disk_annotate_def)
  ultimately show ?thesis using r(1) by blast
qed

lemma disk_persist_ready:
  assumes ready: "disk_ready db chain cd env cs delta s"
    and room: "\<forall>c\<in>set cs. admits (disk_used chain cd env s) delta c"
    and ann: "map limit cs' = map limit cs"
  shows "\<exists>s'. try_each (persist_one db (env_now env) delta) (zip (map (bin_key_for_counter cd) cs) cs') s =
      Some (Inr (), s') \<and>
    (\<forall>k. key_made k \<longrightarrow> disk_used chain cd env s' k =
       disk_used chain cd env s k + (if k \<in> counter_key ` set cs then delta else 0))"
proof -
  let ?now = "env_now env" and ?kcs = "zip (map (bin_key_for_counter cd) cs) cs'"
  define x where "x b = (case disk_val chain ?now s b of Some x \<Rightarrow> x | None \<Rightarrow> 0)" for b
  have laws: "rocksdb_laws db chain" and law: "\<forall>k. unpost_key cd (post_key cd k) = Some k"
    and dist: "distinct (map counter_key cs)"
    using ready by (simp_all add: disk_ready_def)
  have len: "length cs' = length cs" using ann by (metis length_map)
  have made: "counter_made c" if "c \<in> set cs" for c using disk_readyD(2) [OF ready that] .
  have keys: "map fst ?kcs = map (\<lambda>c. key_bytes cd (counter_key c)) cs"
    using len made by (simp add: key_bytes_counter)
  have rows: "\<forall>(k, c)\<in>set ?kcs. disk_val chain ?now s k = Some (x k) \<and> x k + delta \<le> counter_max_value c \<and>
      disk_in_time ?now c"
  proof clarify
    fix k c' assume "(k, c') \<in> set ?kcs"
    then obtain i where i: "i < length cs" "k = bin_key_for_counter cd (cs ! i)" "c' = cs' ! i"
      using len by (auto simp: set_zip)
    have c: "cs ! i \<in> set cs" using i(1) by simp
    have lim: "limit c' = limit (cs ! i)" using ann i len by (metis nth_map)
    have "counter_max_value c' = counter_max_value (cs ! i)" "disk_in_time ?now c' = disk_in_time ?now (cs ! i)"
      by (simp_all add: counter_max_value_def disk_in_time_def window_def lim)
    with disk_readyD [OF ready c] room c show
      "disk_val chain ?now s k = Some (x k) \<and> x k + delta \<le> counter_max_value c' \<and> disk_in_time ?now c'"
      by (simp add: i(2) x_def)
  qed
  have "distinct (map fst ?kcs)"
    using dist made unfolding keys distinct_map inj_on_def
    by (simp add: key_bytes_inject [OF law] key_made_counter)
  from disk_persist [OF laws rows this] obtain s' where
    s': "try_each (persist_one db ?now delta) ?kcs s = Some (Inr (), s')"
      "disk_val chain ?now s' =
        (\<lambda>k. if k \<in> fst ` set ?kcs then Some (x k + delta) else disk_val chain ?now s k)"
    by (elim exE conjE) (rule that; assumption)
  have "key_bytes cd k \<in> fst ` set ?kcs \<longleftrightarrow> k \<in> counter_key ` set cs" if "key_made k" for k
  proof -
    have "fst ` set ?kcs = (\<lambda>c. key_bytes cd (counter_key c)) ` set cs"
      using arg_cong [OF keys, of set] by simp
    then show ?thesis
      using that made by (auto simp: key_bytes_inject [OF law] key_made_counter)
  qed
  then have "\<forall>k. key_made k \<longrightarrow> disk_used chain cd env s' k =
       disk_used chain cd env s k + (if k \<in> counter_key ` set cs then delta else 0)"
    by (simp add: disk_used_def s'(2) x_def)
  with s'(1) show ?thesis by blast
qed

interpretation disk: counter_store "disk_storage db cel cd" "disk_used chain cd" "disk_ready db chain cd"
  "\<lambda>env. key_made"
  for db :: "'d rocksdb" and chain and cel :: "'e cel" and cd :: "'e codec"
proof unfold_locales
  fix env and cs :: "'e counter list" and d and s :: "'d disk"
  assume ready: "disk_ready db chain cd env cs d s"
  let ?u = "disk_used chain cd env s"
  from disk_evaluate_ready [OF ready] obtain a cs' where
    ev: "disk_evaluate db cd (env_now env) d s cs None = Some (Inr (a, map (bin_key_for_counter cd) cs), cs')"
      "a = AuthOk \<longleftrightarrow> (\<forall>c\<in>set cs. admits ?u d c)" "list_all2 (annotates ?u) cs cs'"
      "map limit cs' = map limit cs"
    by (elim exE conjE) (rule that; assumption)
  then show "\<exists>a cs' s'. cs_check (disk_storage db cel cd) env cs d s = Some ((Inr a, cs'), s') \<and>
      (a = AuthOk \<longleftrightarrow> (\<forall>c\<in>set cs. admits ?u d c)) \<and> list_all2 (annotates ?u) cs cs' \<and>
      (\<forall>k. key_made k \<longrightarrow> disk_used chain cd env s' k = ?u k)"
    by (simp add: disk_storage_def disk_check_def)
  show "\<exists>a cs' s'. cs_check_and_update (disk_storage db cel cd) env cs d s = Some ((Inr a, cs'), s') \<and>
      (a = AuthOk \<longleftrightarrow> (\<forall>c\<in>set cs. admits ?u d c)) \<and> list_all2 (annotates ?u) cs cs' \<and>
      (\<forall>k. key_made k \<longrightarrow> disk_used chain cd env s' k =
         ?u k + (if a = AuthOk \<and> k \<in> counter_key ` set cs then d else 0))"
  proof (cases "a = AuthOk")
    case True
    with ev(2) have "\<forall>c\<in>set cs. admits ?u d c" by simp
    from disk_persist_ready [OF ready this ev(4)] obtain s' where
      "try_each (persist_one db (env_now env) d) (zip (map (bin_key_for_counter cd) cs) cs') s = Some (Inr (), s')"
      "\<forall>k. key_made k \<longrightarrow> disk_used chain cd env s' k = ?u k + (if k \<in> counter_key ` set cs then d else 0)"
      by (elim exE conjE) (rule that; assumption)
    with True ev show ?thesis by (simp add: disk_storage_def disk_check_and_update_def)
  next
    case False
    with ev show ?thesis by (simp add: disk_storage_def disk_check_and_update_def)
  qed
  show "key_made (counter_key c)" if "c \<in> set cs" for c
    using disk_readyD(2) [OF ready that] by (rule key_made_counter)
qed

section \<open>Deleting one limit of several\<close>

lemma disk_scan_unmatched:
  assumes "bin_partial_counter_from_counter_key cel cd k = Some c" "counter_namespace c = ns"
    and "expires_in c = None" "limit_key (limit c) \<notin> limit_key ` set ls"
  shows "disk_scan cel cd now ls ns (Inr (k, raw) # rest) acc = None"
proof -
  have "List.find (\<lambda>l. limit_eq l (limit c)) ls = None"
    using assms(4) by (auto simp: find_None_iff limit_eq_key) (metis imageI)
  with assms(1-3) ev_try_from_ok [of raw] show ?thesis
    by (cases "ev_try_from raw") (auto split: sum.split)
qed

lemma disk_scan_panics:
  assumes "\<forall>e\<in>set before. \<exists>k raw v c. e = Inr (k, raw) \<and> ev_try_from raw = Some (Inr v) \<and>
      bin_partial_counter_from_counter_key cel cd k = Some c \<and> counter_namespace c = ns"
    and "bin_partial_counter_from_counter_key cel cd k = Some c" "counter_namespace c = ns"
    and "expires_in c = None" "limit_key (limit c) \<notin> limit_key ` set ls"
  shows "disk_scan cel cd now ls ns (before @ Inr (k, raw) # rest) acc = None"
  using assms(1)
proof (induction before arbitrary: acc)
  case Nil
  then show ?case using disk_scan_unmatched [OF assms(2-5)] by simp
next
  case (Cons e before)
  then obtain k' raw' v' c' where "e = Inr (k', raw')" "ev_try_from raw' = Some (Inr v')"
      "bin_partial_counter_from_counter_key cel cd k' = Some c'" "counter_namespace c' = ns"
    by auto
  with Cons show ?case by (simp add: Let_def bind_eq_None_conv)
qed

lemma bin_partial_fresh:
  "bin_partial_counter_from_counter_key cel cd k = Some c \<Longrightarrow> expires_in c = None"
  by (auto simp: bin_partial_counter_from_counter_key_def counter_of_disk_key_def resolved_vars_def Let_def
      bind_eq_Some_conv)

end
