(* ===== verification/CrCounter.thy ===== *)
theory CrCounter
  imports Expiring Limits
begin

text \<open>
  The replicated counter of the distributed storage:
  \<^verbatim>\<open>limitador/src/storage/distributed/cr_counter_value.rs\<close>.  A replica keeps what it counted itself
  and, for every other actor it has heard of, the largest count it has seen; the actors are the
  strings that identify the nodes.  Locks are held for the whole of each operation.
\<close>

section \<open>Operations\<close>

record cr_value =
  cr_ourselves :: string
  cr_max_value :: u64
  cr_own :: u64
  cr_others :: "(string \<times> u64) list"
  cr_expiry :: atomic_expiry_time

definition cr_new :: "string \<Rightarrow> u64 \<Rightarrow> duration \<Rightarrow> systime \<Rightarrow> cr_value option" where
  "cr_new actor mx time_window now = do {
     e \<leftarrow> systime_add now time_window;
     Some \<lparr>cr_ourselves = actor, cr_max_value = mx, cr_own = 0, cr_others = [],
           cr_expiry = expiry_new e\<rparr>
   }"

definition cr_read_at :: "cr_value \<Rightarrow> systime \<Rightarrow> u64" where
  "cr_read_at v w =
     (if expired_at (cr_expiry v) w then 0
      else sum_list (map snd (cr_others v)) + cr_own v)"

definition cr_inc_at :: "u64 \<Rightarrow> duration \<Rightarrow> systime \<Rightarrow> cr_value \<Rightarrow> cr_value option" where
  "cr_inc_at increment time_window w v = do {
     (reset, e) \<leftarrow> update_if_expired time_window w (cr_expiry v);
     let v = v\<lparr>cr_expiry := e\<rparr>;
     if reset then Some (v\<lparr>cr_own := increment\<rparr>)
     else Some (v\<lparr>cr_own := cr_own v + increment\<rparr>)
   }"

definition cr_inc_actor_at ::
  "string \<Rightarrow> u64 \<Rightarrow> duration \<Rightarrow> systime \<Rightarrow> cr_value \<Rightarrow> cr_value option" where
  "cr_inc_actor_at actor increment time_window w v =
     (if actor = cr_ourselves v then cr_inc_at increment time_window w v
      else do {
        (reset, e) \<leftarrow> update_if_expired time_window w (cr_expiry v);
        let v = v\<lparr>cr_expiry := e\<rparr>;
        if reset then Some (v\<lparr>cr_others := btree_insert actor increment (cr_others v)\<rparr>)
        else
          let old = (case map_of (cr_others v) actor of Some x \<Rightarrow> x | None \<Rightarrow> 0)
          in Some (v\<lparr>cr_others := btree_insert actor (old + increment) (cr_others v)\<rparr>)
      })"

definition cr_ttl :: "systime \<Rightarrow> cr_value \<Rightarrow> duration" where
  "cr_ttl now v = expiry_ttl now (cr_expiry v)"

definition cr_expires_at :: "cr_value \<Rightarrow> systime" where
  "cr_expires_at v = expiry_expires_at (cr_expiry v)"

definition cr_into_inner :: "cr_value \<Rightarrow> systime \<times> (string \<times> u64) list" where
  "cr_into_inner v =
     (expiry_expires_at (cr_expiry v), btree_insert (cr_ourselves v) (cr_own v) (cr_others v))"

definition cr_local_values :: "cr_value \<Rightarrow> systime \<times> string \<times> u64" where
  "cr_local_values v = (expiry_expires_at (cr_expiry v), cr_ourselves v, cr_own v)"

definition cr_reset :: "systime \<Rightarrow> cr_value \<Rightarrow> cr_value" where
  "cr_reset e v =
     v\<lparr>cr_expiry := expiry_store e (cr_expiry v), cr_own := 0, cr_others := []\<rparr>"

definition cr_from :: "systime \<Rightarrow> (string \<times> u64) list \<Rightarrow> cr_value" where
  "cr_from e values =
     \<lparr>cr_ourselves = [], cr_max_value = 0, cr_own = 0, cr_others = values, cr_expiry = expiry_new e\<rparr>"

text \<open>The body of the loop of \<^verbatim>\<open>merge_at\<close>; \<open>mine\<close> is the own count loaded before the loop.\<close>

definition cr_merge_value :: "u64 \<Rightarrow> string \<times> u64 \<Rightarrow> cr_value \<Rightarrow> cr_value" where
  "cr_merge_value mine = (\<lambda>(actor, other_value) v.
     if actor = cr_ourselves v then
       (if other_value > mine then v\<lparr>cr_own := cr_own v + (other_value - mine)\<rparr> else v)
     else
       (case map_of (cr_others v) actor of
          None \<Rightarrow>
            if other_value > 0 then v\<lparr>cr_others := btree_insert actor other_value (cr_others v)\<rparr> else v
        | Some known \<Rightarrow>
            if other_value > known then v\<lparr>cr_others := btree_insert actor other_value (cr_others v)\<rparr>
            else v))"

definition cr_merge_at :: "cr_value \<Rightarrow> systime \<Rightarrow> cr_value \<Rightarrow> cr_value" where
  "cr_merge_at other w v =
     (let (exp, other_values) = cr_into_inner other
      in if exp > w then
           let v = v\<lparr>cr_expiry := snd (merge_at (\<lambda>x. x) (expiry_new exp) w (cr_expiry v))\<rparr>;
               v = (if expired_at (cr_expiry v) w then cr_reset exp v else v)
           in fold (cr_merge_value (cr_own v)) other_values v
         else v)"

section \<open>What a replica knows\<close>

definition cr_count :: "cr_value \<Rightarrow> string \<Rightarrow> u64" where
  "cr_count v a =
     (if a = cr_ourselves v then cr_own v
      else case map_of (cr_others v) a of Some x \<Rightarrow> x | None \<Rightarrow> 0)"

definition cr_wf :: "cr_value \<Rightarrow> bool" where
  "cr_wf v \<longleftrightarrow> sorted_wrt (<) (map fst (cr_others v)) \<and> cr_ourselves v \<notin> fst ` set (cr_others v)"

lemma keys_btree_insert: "fst ` set (btree_insert k x m) = insert k (fst ` set m)"
  by (induction m) auto

lemma sorted_btree_insert:
  "sorted_wrt (<) (map fst m) \<Longrightarrow> sorted_wrt (<) (map fst (btree_insert k x m))"
proof (induction m)
  case (Cons p m)
  consider "k < fst p" | "k = fst p" | "fst p < k" by fastforce
  then show ?case
  proof cases
    case 1
    with Cons.prems show ?thesis by (fastforce dest: less_trans)
  next
    case 2
    with Cons.prems show ?thesis by simp
  next
    case 3
    then have "\<forall>j\<in>fst ` set (btree_insert k x m). fst p < j"
      using Cons.prems by (auto simp: keys_btree_insert)
    with 3 Cons show ?thesis by auto
  qed
qed simp

lemma cr_wf_new: "cr_new actor mx win now = Some v \<Longrightarrow> cr_wf v"
  by (auto simp: cr_new_def cr_wf_def bind_eq_Some_conv)

lemma cr_inc_at_keeps:
  "cr_inc_at d win w v = Some v' \<Longrightarrow> cr_others v' = cr_others v \<and> cr_ourselves v' = cr_ourselves v"
  by (auto simp: cr_inc_at_def bind_eq_Some_conv Let_def split: if_splits)

lemma cr_wf_inc: "cr_wf v \<Longrightarrow> cr_inc_at d win w v = Some v' \<Longrightarrow> cr_wf v'"
  using cr_inc_at_keeps [of d win w v v'] by (simp add: cr_wf_def)

lemma cr_wf_inc_actor:
  assumes "cr_wf v" "cr_inc_actor_at a d win w v = Some v'"
  shows "cr_wf v'"
proof (cases "a = cr_ourselves v")
  case True
  with assms cr_wf_inc [of v d win w v'] show ?thesis by (simp add: cr_inc_actor_at_def)
next
  case False
  with assms(2) obtain e x where "v' = v\<lparr>cr_expiry := e, cr_others := btree_insert a x (cr_others v)\<rparr>"
    by (auto simp: cr_inc_actor_at_def bind_eq_Some_conv Let_def split: if_splits)
  with False assms(1) show ?thesis by (simp add: cr_wf_def keys_btree_insert sorted_btree_insert)
qed

section \<open>Merging\<close>

lemma cr_merge_value_same [simp]:
  "cr_ourselves (cr_merge_value mine p v) = cr_ourselves v"
  "cr_expiry (cr_merge_value mine p v) = cr_expiry v"
  "cr_max_value (cr_merge_value mine p v) = cr_max_value v"
  by (cases p; simp add: cr_merge_value_def split: option.split)+

lemma cr_wf_merge_value: "cr_wf v \<Longrightarrow> cr_wf (cr_merge_value mine p v)"
  by (cases p)
    (simp add: cr_merge_value_def cr_wf_def keys_btree_insert sorted_btree_insert split: option.split)

lemma cr_count_merge_value:
  assumes "b = cr_ourselves v \<Longrightarrow> cr_own v = mine"
  shows "cr_count (cr_merge_value mine (b, x) v) a = (if a = b then max (cr_count v a) x else cr_count v a)"
proof (cases "b = cr_ourselves v")
  case True
  then show ?thesis using assms [OF True] by (auto simp: cr_merge_value_def cr_count_def max_def)
next
  case False
  then show ?thesis
    by (cases "map_of (cr_others v) b")
      (auto simp: cr_merge_value_def cr_count_def assoc_simps max_def not_less word_gt_0)
qed

lemma cr_merge_values:
  assumes "cr_wf v" "distinct (map fst vals)" "cr_ourselves v \<in> fst ` set vals \<Longrightarrow> cr_own v = mine"
  shows "cr_wf (fold (cr_merge_value mine) vals v) \<and>
    cr_ourselves (fold (cr_merge_value mine) vals v) = cr_ourselves v \<and>
    cr_expiry (fold (cr_merge_value mine) vals v) = cr_expiry v \<and>
    cr_count (fold (cr_merge_value mine) vals v) a =
      (case map_of vals a of Some x \<Rightarrow> max (cr_count v a) x | None \<Rightarrow> cr_count v a)"
  using assms
proof (induction vals arbitrary: v)
  case (Cons p vals)
  obtain b x where p: "p = (b, x)" by (cases p)
  let ?v = "cr_merge_value mine p v"
  have own: "cr_own ?v = mine" if "cr_ourselves v \<in> fst ` set vals"
  proof -
    from that Cons.prems(2) p have "b \<noteq> cr_ourselves v" by auto
    moreover have "cr_own v = mine" using that Cons.prems(3) by simp
    ultimately show ?thesis by (simp add: p cr_merge_value_def split: option.split)
  qed
  have "cr_count ?v c = (if c = b then max (cr_count v c) x else cr_count v c)" for c
    unfolding p using Cons.prems(3) p by (intro cr_count_merge_value) auto
  moreover have "map_of vals a = None" if "a = b"
    using that Cons.prems(2) p by (simp add: map_of_eq_None_iff)
  ultimately show ?case
    using Cons.IH [OF cr_wf_merge_value [OF Cons.prems(1)], of mine p] Cons.prems(2) own
    by (auto simp: p split: option.split)
qed simp

definition cr_live :: "cr_value \<Rightarrow> systime \<Rightarrow> bool" where
  "cr_live v w \<longleftrightarrow> w < cr_expires_at v"

lemma since_epoch_from_micros [simp]: "since_epoch (from_micros u) = u"
  by (simp add: since_epoch_def from_micros_def as_micros_def)

lemma since_epoch_before:
  assumes "w < from_micros u" shows "since_epoch w < u"
proof -
  have "as_micros w < unat u"
    using assms by (simp add: as_micros_def from_micros_def less_mult_imp_div_less)
  moreover from this have "unat (since_epoch w) = as_micros w"
    using less_trans [OF _ unat_u64_less] by (simp add: since_epoch_def unat_of_nat_u64)
  ultimately show ?thesis by (simp add: word_less_nat_alt)
qed

lemma cr_live_not_expired: "cr_live v w \<Longrightarrow> \<not> expired_at (cr_expiry v) w"
  using since_epoch_before [of w "expiry (cr_expiry v)"]
  by (simp add: cr_live_def cr_expires_at_def expiry_expires_at_def expired_at_def)

lemma cr_inner_count:
  assumes "cr_wf v"
  shows "distinct (map fst (snd (cr_into_inner v)))"
    "map_of (snd (cr_into_inner v)) a = Some x \<Longrightarrow> cr_count v a = x"
    "map_of (snd (cr_into_inner v)) a = None \<Longrightarrow> cr_count v a = 0"
  using assms sorted_btree_insert [of "cr_others v" "cr_ourselves v" "cr_own v"]
  by (auto simp: cr_into_inner_def cr_wf_def cr_count_def assoc_simps strict_sorted_iff split: if_splits)

lemma cr_merge_max_value: "cr_max_value (cr_merge_at other w v) = cr_max_value v"
proof -
  have "cr_max_value (fold (cr_merge_value mine) vals v) = cr_max_value v" for mine vals v
    by (induction vals arbitrary: v) simp_all
  then show ?thesis by (simp add: cr_merge_at_def cr_reset_def Let_def case_prod_unfold)
qed

text \<open>Merging a state whose window is over changes nothing.\<close>

lemma cr_merge_over: "\<not> cr_live other w \<Longrightarrow> cr_merge_at other w v = v"
  by (simp add: cr_merge_at_def cr_live_def cr_into_inner_def cr_expires_at_def Let_def case_prod_unfold)

text \<open>Merging a live state: every count becomes the larger of the two, the window ends at the
  earlier instant; a replica whose own window has passed takes over the other one's.\<close>

lemma cr_merge_result:
  assumes wf: "cr_wf v" "cr_wf other" and live: "cr_live other w"
  defines "v' \<equiv> cr_merge_at other w v"
  shows "cr_wf v'" "cr_ourselves v' = cr_ourselves v"
    "expiry (cr_expiry v') = (if expired_at (cr_expiry v) w then expiry (cr_expiry other)
       else min (expiry (cr_expiry v)) (expiry (cr_expiry other)))"
    "cr_count v' a = max (if expired_at (cr_expiry v) w then 0 else cr_count v a) (cr_count other a)"
proof -
  let ?u = "expiry (cr_expiry other)" and ?vals = "snd (cr_into_inner other)"
  have fst: "fst (cr_into_inner other) = from_micros ?u" "from_micros ?u > w"
    using live by (simp_all add: cr_into_inner_def cr_live_def cr_expires_at_def expiry_expires_at_def)
  have u: "since_epoch w < ?u" using since_epoch_before [OF fst(2)] .
  define v1 where "v1 = v\<lparr>cr_expiry := snd (merge_at (\<lambda>x. x) (expiry_new (from_micros ?u)) w (cr_expiry v))\<rparr>"
  define v2 where "v2 = (if expired_at (cr_expiry v1) w then cr_reset (from_micros ?u) v1 else v1)"
  have v': "v' = fold (cr_merge_value (cr_own v2)) ?vals v2"
    using fst by (simp add: v'_def cr_merge_at_def Let_def case_prod_unfold v1_def v2_def)
  have e1: "expiry (cr_expiry v1) = (if ?u < expiry (cr_expiry v) then ?u else expiry (cr_expiry v))"
    using u by (simp add: v1_def merge_at_result expiry_new_def)
  have ex: "expired_at (cr_expiry v1) w = expired_at (cr_expiry v) w"
    using u by (auto simp: expired_at_def e1 not_le)
  have v2: "cr_wf v2" "cr_ourselves v2 = cr_ourselves v"
    "expiry (cr_expiry v2) = (if expired_at (cr_expiry v) w then ?u else min (expiry (cr_expiry v)) ?u)"
    "cr_count v2 a = (if expired_at (cr_expiry v) w then 0 else cr_count v a)" for a
  proof -
    have v1: "cr_wf v1" "cr_ourselves v1 = cr_ourselves v" "cr_count v1 a = cr_count v a" for a
      using wf(1) by (simp_all add: v1_def cr_wf_def cr_count_def)
    have "min (expiry (cr_expiry v)) ?u = expiry (cr_expiry v1)"
      by (simp add: e1 min_def not_le) auto
    with v1 show "cr_wf v2" "cr_ourselves v2 = cr_ourselves v"
      "expiry (cr_expiry v2) = (if expired_at (cr_expiry v) w then ?u else min (expiry (cr_expiry v)) ?u)"
      "cr_count v2 a = (if expired_at (cr_expiry v) w then 0 else cr_count v a)" for a
      by (simp_all add: v2_def ex cr_reset_def expiry_store_def) (simp_all add: cr_wf_def cr_count_def)
  qed
  note m = cr_merge_values [OF v2(1) cr_inner_count(1) [OF wf(2)] refl]
  show "cr_wf v'" "cr_ourselves v' = cr_ourselves v"
    "expiry (cr_expiry v') = (if expired_at (cr_expiry v) w then expiry (cr_expiry other)
       else min (expiry (cr_expiry v)) (expiry (cr_expiry other)))"
    using m [of undefined] v2(2,3) by (simp_all add: v')
  show "cr_count v' a = max (if expired_at (cr_expiry v) w then 0 else cr_count v a) (cr_count other a)"
    using m [of a] v2(4) [of a] cr_inner_count(2,3) [OF wf(2), of a]
    by (cases "map_of ?vals a") (simp_all add: v' max_def)
qed

section \<open>Reading\<close>

lemma cr_total_sum:
  assumes wf: "cr_wf v" and S: "finite S" "insert (cr_ourselves v) (fst ` set (cr_others v)) \<subseteq> S"
  shows "sum_list (map snd (cr_others v)) + cr_own v = sum (cr_count v) S"
proof -
  let ?K = "fst ` set (cr_others v)"
  have dist: "distinct (map fst (cr_others v))" and own: "cr_ourselves v \<notin> ?K"
    using wf by (simp_all add: cr_wf_def strict_sorted_iff)
  have "sum_list (map snd (cr_others v)) = sum_list (map (\<lambda>p. cr_count v (fst p)) (cr_others v))"
  proof (intro arg_cong [of _ _ sum_list] map_cong refl)
    fix p assume p: "p \<in> set (cr_others v)"
    then have "fst p \<in> ?K" by (rule imageI)
    with own have "fst p \<noteq> cr_ourselves v" by metis
    then show "snd p = cr_count v (fst p)"
      using map_of_is_SomeI [OF dist, of "fst p" "snd p"] p by (simp add: cr_count_def)
  qed
  also have "\<dots> = sum (cr_count v) ?K"
    using sum_list_distinct_conv_sum_set [OF dist, of "cr_count v"] by (simp add: comp_def)
  finally have "sum_list (map snd (cr_others v)) + cr_own v = sum (cr_count v) (insert (cr_ourselves v) ?K)"
    using own by (simp add: cr_count_def add.commute)
  also have "\<dots> = sum (cr_count v) S"
  proof (rule sum.mono_neutral_left [OF S])
    show "\<forall>a\<in>S - insert (cr_ourselves v) ?K. cr_count v a = 0"
      by (auto simp: cr_count_def map_of_eq_None_iff [THEN iffD2])
  qed
  finally show ?thesis .
qed

lemma cr_read_cong:
  assumes "cr_wf a" "cr_wf b" "expiry (cr_expiry a) = expiry (cr_expiry b)" "cr_count a = cr_count b"
  shows "cr_read_at a w = cr_read_at b w"
proof -
  have "sum_list (map snd (cr_others a)) + cr_own a = sum_list (map snd (cr_others b)) + cr_own b"
    using cr_total_sum [OF assms(1) _ Un_upper1, of "insert (cr_ourselves b) (fst ` set (cr_others b))"]
      cr_total_sum [OF assms(2) _ Un_upper2, of "insert (cr_ourselves a) (fst ` set (cr_others a))"]
    by (simp add: assms(4))
  with assms(3) show ?thesis by (simp add: cr_read_at_def expired_at_def)
qed

section \<open>Replicas converge\<close>

lemma cr_merge_live: "cr_wf v \<Longrightarrow> cr_wf other \<Longrightarrow> cr_live other w \<Longrightarrow> cr_live v w \<Longrightarrow> cr_live (cr_merge_at other w v) w"
  using cr_merge_result(3) [of v other w] cr_live_not_expired [of v w]
  by (simp add: cr_live_def cr_expires_at_def expiry_expires_at_def min_def)

lemma cr_merges_result:
  assumes "cr_wf v" "cr_live v w" "\<forall>r\<in>set rs. cr_wf r \<and> cr_live r w"
  defines "v' \<equiv> fold (\<lambda>r. cr_merge_at r w) rs v"
  shows "cr_wf v' \<and> cr_live v' w \<and> cr_ourselves v' = cr_ourselves v \<and>
    expiry (cr_expiry v') = Min (expiry ` cr_expiry ` set (v # rs)) \<and>
    cr_count v' a = Max ((\<lambda>r. cr_count r a) ` set (v # rs))"
  using assms(1-3) unfolding v'_def
proof (induction rs arbitrary: v)
  case (Cons r rs)
  let ?v = "cr_merge_at r w v"
  have r: "cr_wf r" "cr_live r w" using Cons.prems(3) by simp_all
  have m: "expiry (cr_expiry ?v) = min (expiry (cr_expiry v)) (expiry (cr_expiry r))"
    "cr_count ?v a = max (cr_count v a) (cr_count r a)"
    using cr_merge_result(3,4) [OF Cons.prems(1) r] cr_live_not_expired [OF Cons.prems(2)] by simp_all
  have ih: "cr_wf (fold (\<lambda>r. cr_merge_at r w) rs ?v) \<and> cr_live (fold (\<lambda>r. cr_merge_at r w) rs ?v) w \<and>
      cr_ourselves (fold (\<lambda>r. cr_merge_at r w) rs ?v) = cr_ourselves ?v \<and>
      expiry (cr_expiry (fold (\<lambda>r. cr_merge_at r w) rs ?v)) = Min (expiry ` cr_expiry ` set (?v # rs)) \<and>
      cr_count (fold (\<lambda>r. cr_merge_at r w) rs ?v) a = Max ((\<lambda>r. cr_count r a) ` set (?v # rs))"
    using Cons.prems(3)
    by (intro Cons.IH cr_merge_result(1) [OF Cons.prems(1) r] cr_merge_live [OF Cons.prems(1) r Cons.prems(2)])
      simp
  have "Min (expiry ` cr_expiry ` set (?v # rs)) = Min (expiry ` cr_expiry ` set (v # r # rs))"
    by (cases "rs = []") (simp_all add: m(1) min.assoc)
  moreover have "Max ((\<lambda>r. cr_count r a) ` set (?v # rs)) = Max ((\<lambda>r. cr_count r a) ` set (v # r # rs))"
    by (cases "rs = []") (simp_all add: m(2) max.assoc)
  ultimately show ?case using ih cr_merge_result(2) [OF Cons.prems(1) r] by simp
qed simp

text \<open>A replica that received the states of the others, in whatever order and however often each,
  counts what any other replica that received the same states counts.\<close>

lemma cr_converge:
  assumes a: "cr_wf a" "cr_live a w" and b: "cr_wf b" "cr_live b w"
    and rs: "\<forall>r\<in>set rs. cr_wf r \<and> cr_live r w" "\<forall>r\<in>set qs. cr_wf r \<and> cr_live r w"
    and same: "set (a # rs) = set (b # qs)"
  shows "cr_read_at (fold (\<lambda>r. cr_merge_at r w) rs a) t = cr_read_at (fold (\<lambda>r. cr_merge_at r w) qs b) t"
proof (rule cr_read_cong)
  note ra = cr_merges_result [OF a rs(1), unfolded same] and rb = cr_merges_result [OF b rs(2)]
  show "cr_wf (fold (\<lambda>r. cr_merge_at r w) rs a)" "cr_wf (fold (\<lambda>r. cr_merge_at r w) qs b)"
    using ra [of undefined] rb [of undefined] by blast+
  show "expiry (cr_expiry (fold (\<lambda>r. cr_merge_at r w) rs a)) =
      expiry (cr_expiry (fold (\<lambda>r. cr_merge_at r w) qs b))"
    using ra [of undefined] rb [of undefined] by (simp only:)
  show "cr_count (fold (\<lambda>r. cr_merge_at r w) rs a) = cr_count (fold (\<lambda>r. cr_merge_at r w) qs b)"
    unfolding fun_eq_iff using ra rb by (simp only: simp_thms)
qed

section \<open>Counting\<close>

lemma cr_inc_live:
  assumes "window_fits win w" "\<not> expired_at (cr_expiry v) w"
  shows "cr_inc_at d win w v = Some (v\<lparr>cr_own := cr_own v + d\<rparr>)"
  using assms by (simp add: cr_inc_at_def update_if_expired_fits)

lemma cr_inc_expired:
  assumes "window_fits win w" "expired_at (cr_expiry v) w"
  shows "cr_inc_at d win w v =
    Some (v\<lparr>cr_expiry := \<lparr>expiry = since_epoch w + of_nat (as_micros win)\<rparr>, cr_own := d\<rparr>)"
  using assms by (simp add: cr_inc_at_def update_if_expired_fits)

lemma cr_read_inc:
  assumes "window_fits win w" "0 < as_micros win" "expired_at (cr_expiry v) w \<Longrightarrow> cr_others v = []"
  shows "\<exists>v'. cr_inc_at d win w v = Some v' \<and> cr_read_at v' w = cr_read_at v w + d"
  using assms unat_window_end [OF assms(1)]
  by (cases "expired_at (cr_expiry v) w")
    (simp_all add: cr_inc_live cr_inc_expired cr_read_at_def expired_at_def word_le_nat_alt add.assoc)

text \<open>When the window of the replica passed, its own count restarts but the counts of the others stay
  and enter the new window.\<close>

lemma cr_read_inc_stale:
  assumes "window_fits win w" "0 < as_micros win" "expired_at (cr_expiry v) w"
  shows "\<exists>v'. cr_inc_at d win w v = Some v' \<and> cr_read_at v w = 0 \<and>
    cr_read_at v' w = sum_list (map snd (cr_others v)) + d"
  using assms unat_window_end [OF assms(1)]
  by (simp add: cr_inc_expired cr_read_at_def expired_at_def word_le_nat_alt)

end
