(* ===== verification/Distributed.thy ===== *)
theory Distributed
  imports CrCounter Keys Backend Admission
begin

text \<open>
  The distributed storage: \<^verbatim>\<open>limitador/src/storage/distributed/mod.rs\<close>.  Every node keeps a map from
  storage keys to replicated counters; an update is published to the peers, an update received from
  a peer is merged.  Reservations are the trait's default: not supported.  The call environment is
  the clock reading.
\<close>

section \<open>State\<close>

record 'e counter_entry =
  ce_key :: bytes
  ce_counter :: "'e counter"
  ce_value :: cr_value

text \<open>\<open>published\<close> are the keys handed to the broker, in order.\<close>

record 'e cr_storage =
  cr_identifier :: string
  cr_limits :: "(bytes \<times> 'e counter_entry) list"
  published :: "bytes list"

record counter_update =
  cu_key :: bytes
  cu_values :: "(string \<times> u64) list"
  cu_expires_at :: u64

definition cr_storage_new :: "string \<Rightarrow> 'e cr_storage" where
  "cr_storage_new ident = \<lparr>cr_identifier = ident, cr_limits = [], published = []\<rparr>"

section \<open>Keys\<close>

definition encode_counter_to_key :: "'e codec \<Rightarrow> 'e counter \<Rightarrow> bytes option" where
  "encode_counter_to_key cd c = key_for_counter_v2 cd c"

definition encode_limit_to_key :: "'e cel \<Rightarrow> 'e codec \<Rightarrow> 'e limit \<Rightarrow> bytes option" where
  "encode_limit_to_key cel cd l =
     (let ctx = context_from (map (\<lambda>v. (source v, [])) (variables l))
      in case counter_new cel l ctx of
           Inr (Some c) \<Rightarrow> key_for_counter_v2 cd c
         | _ \<Rightarrow> None)"

section \<open>Operations\<close>

definition cr_is_within_limits ::
  "'e codec \<Rightarrow> systime \<Rightarrow> 'e counter \<Rightarrow> u64 \<Rightarrow> 'e cr_storage \<Rightarrow> ('e cr_storage, bool) outcome" where
  "cr_is_within_limits cd now c delta s = do {
     k \<leftarrow> encode_counter_to_key cd c;
     let value = (case map_of (cr_limits s) k of Some e \<Rightarrow> cr_read_at (ce_value e) now | None \<Rightarrow> 0);
     Some (Inr (counter_max_value c \<ge> value + delta), s)
   }"

definition cr_add_counter ::
  "'e cel \<Rightarrow> 'e codec \<Rightarrow> systime \<Rightarrow> 'e limit \<Rightarrow> 'e cr_storage \<Rightarrow> ('e cr_storage, unit) outcome" where
  "cr_add_counter cel cd now l s =
     (if variables_set l = {} then do {
        k \<leftarrow> encode_limit_to_key cel cd l;
        c \<leftarrow> (case counter_new cel l context_default of Inr (Some c) \<Rightarrow> Some c | _ \<Rightarrow> None);
        v \<leftarrow> cr_new (cr_identifier s) (max_value l) (from_secs (seconds l)) now;
        let e = \<lparr>ce_key = k, ce_counter = c, ce_value = v\<rparr>;
        Some (Inr (), case map_of (cr_limits s) k of
            Some _ \<Rightarrow> s
          | None \<Rightarrow> s\<lparr>cr_limits := AList.update k e (cr_limits s)\<rparr>)
      }
      else Some (Inr (), s))"

definition increment_counter ::
  "'e counter_entry \<Rightarrow> u64 \<Rightarrow> systime \<Rightarrow> 'e cr_storage \<Rightarrow> ('e counter_entry \<times> 'e cr_storage) option" where
  "increment_counter e delta w s = do {
     v \<leftarrow> cr_inc_at delta (window (ce_counter e)) w (ce_value e);
     Some (e\<lparr>ce_value := v\<rparr>, s\<lparr>published := published s @ [ce_key e]\<rparr>)
   }"

definition cr_update_counter ::
  "'e codec \<Rightarrow> systime \<Rightarrow> 'e counter \<Rightarrow> u64 \<Rightarrow> 'e cr_storage \<Rightarrow> ('e cr_storage, unit) outcome" where
  "cr_update_counter cd now c delta s = do {
     k \<leftarrow> encode_counter_to_key cd c;
     e \<leftarrow> (case map_of (cr_limits s) k of
         None \<Rightarrow> do {
           v \<leftarrow> cr_new (cr_identifier s) (counter_max_value c) (window c) now;
           Some \<lparr>ce_key = k, ce_counter = c, ce_value = v\<rparr>
         }
       | Some e \<Rightarrow> Some e);
     (e, s) \<leftarrow> increment_counter e delta now s;
     Some (Inr (), s\<lparr>cr_limits := AList.update k e (cr_limits s)\<rparr>)
   }"

definition cr_record :: "u64 \<Rightarrow> duration \<Rightarrow> 'e counter \<Rightarrow> 'e counter" where
  "cr_record value ttl c =
     (let ttl = (if ttl = 0 then window c else ttl)
      in set_expires_in ttl (set_remaining (saturating_sub (counter_max_value c) value) c))"

definition cr_lookup ::
  "'e codec \<Rightarrow> systime \<Rightarrow> 'e cr_storage \<Rightarrow> 'e counter \<Rightarrow> ('e counter \<times> u64 \<times> duration) option" where
  "cr_lookup cd now s c = do {
     k \<leftarrow> encode_counter_to_key cd c;
     Some (case map_of (cr_limits s) k of
         Some e \<Rightarrow> (c, cr_read_at (ce_value e) now, cr_ttl now (ce_value e))
       | None \<Rightarrow> (c, 0, window c))
   }"

definition cr_evaluate ::
  "'e codec \<Rightarrow> systime \<Rightarrow> 'e counter list \<Rightarrow> u64 \<Rightarrow> 'e cr_storage \<Rightarrow>
   (authorization \<times> 'e counter list) option" where
  "cr_evaluate cd now cs delta s = do {
     rows \<leftarrow> traverse (cr_lookup cd now s) cs;
     let limited = first_limited
       (\<lambda>(c, value, _). checked_sub (counter_max_value c) (value + delta) = None) fst rows;
     Some (case limited of Some a \<Rightarrow> a | None \<Rightarrow> AuthOk, map (\<lambda>(c, value, ttl). cr_record value ttl c) rows)
   }"

definition cr_check ::
  "'e codec \<Rightarrow> systime \<Rightarrow> 'e counter list \<Rightarrow> u64 \<Rightarrow> 'e cr_storage \<Rightarrow>
   (((storage_err + authorization) \<times> 'e counter list) \<times> 'e cr_storage) option" where
  "cr_check cd now cs delta s = do {
     (a, cs') \<leftarrow> cr_evaluate cd now cs delta s;
     Some ((Inr a, cs'), s)
   }"

definition cr_check_and_update ::
  "'e codec \<Rightarrow> systime \<Rightarrow> 'e counter list \<Rightarrow> u64 \<Rightarrow> 'e cr_storage \<Rightarrow>
   (((storage_err + authorization) \<times> 'e counter list) \<times> 'e cr_storage) option" where
  "cr_check_and_update cd now cs delta s = do {
     (a, cs') \<leftarrow> cr_evaluate cd now cs delta s;
     if a = AuthOk then do {
       (r, s) \<leftarrow> try_each (\<lambda>c. cr_update_counter cd now c delta) cs' s;
       Some ((case r of Inl e \<Rightarrow> Inl e | Inr _ \<Rightarrow> Inr a, cs'), s)
     }
     else Some ((Inr a, cs'), s)
   }"

definition cr_get_counters :: "systime \<Rightarrow> 'e limit list \<Rightarrow> 'e cr_storage \<Rightarrow> 'e counter list" where
  "cr_get_counters now ls s =
     fold (\<lambda>(_, e) res.
         (case hset_get limit_key (limit_key (limit (ce_counter e))) ls of
            None \<Rightarrow> res
          | Some live \<Rightarrow>
              let c = snd (update_to_limit live (ce_counter e));
                  c = set_remaining (saturating_sub (counter_max_value c) (cr_read_at (ce_value e) now)) c;
                  c = set_expires_in (cr_ttl now (ce_value e)) c
              in if cr_ttl now (ce_value e) > 0 then snd (hset_insert counter_key c res) else res))
       (cr_limits s) []"

definition cr_delete_counters_of_limit ::
  "'e cel \<Rightarrow> 'e codec \<Rightarrow> 'e limit \<Rightarrow> 'e cr_storage \<Rightarrow> 'e cr_storage option" where
  "cr_delete_counters_of_limit cel cd l s = do {
     k \<leftarrow> encode_limit_to_key cel cd l;
     Some (s\<lparr>cr_limits := AList.delete k (cr_limits s)\<rparr>)
   }"

definition cr_delete_counters ::
  "'e cel \<Rightarrow> 'e codec \<Rightarrow> 'e limit list \<Rightarrow> 'e cr_storage \<Rightarrow> ('e cr_storage, unit) outcome" where
  "cr_delete_counters cel cd ls s =
     map_option (Pair (Inr ())) (fold_panic (cr_delete_counters_of_limit cel cd) ls s)"

definition cr_clear :: "'e cr_storage \<Rightarrow> ('e cr_storage, unit) outcome" where
  "cr_clear s = Some (Inr (), s\<lparr>cr_limits := []\<rparr>)"

definition distributed_storage ::
  "'e cel \<Rightarrow> 'e codec \<Rightarrow> (systime, 'e cr_storage, 'e) counter_storage" where
  "distributed_storage cel cd =
     \<lparr>cs_is_within_limits = cr_is_within_limits cd,
      cs_add_counter = cr_add_counter cel cd,
      cs_update_counter = cr_update_counter cd,
      cs_check = cr_check cd,
      cs_check_and_update = cr_check_and_update cd,
      cs_get_counters = (\<lambda>now ls s. Some (Inr (cr_get_counters now ls s), s)),
      cs_delete_counters = (\<lambda>now. cr_delete_counters cel cd),
      cs_clear = (\<lambda>now. cr_clear),
      cs_reserve = default_reserve,
      cs_release_reservation = default_release_reservation\<rparr>"

section \<open>Updates between nodes\<close>

text \<open>The callback given to the broker: \<^verbatim>\<open>limits.get(&update.key).unwrap()\<close>.\<close>

definition on_counter_update :: "systime \<Rightarrow> counter_update \<Rightarrow> 'e cr_storage \<Rightarrow> 'e cr_storage option" where
  "on_counter_update now u s = do {
     e \<leftarrow> map_of (cr_limits s) (cu_key u);
     exp \<leftarrow> systime_add 0 (from_secs (cu_expires_at u));
     let v = cr_merge_at (cr_from exp (btree_map (cu_values u))) now (ce_value e);
     Some (s\<lparr>cr_limits := AList.update (cu_key u) (e\<lparr>ce_value := v\<rparr>) (cr_limits s)\<rparr>)
   }"

text \<open>What \<^verbatim>\<open>process_re_sync\<close> sends for a counter; nothing for an empty or expired one.\<close>

definition re_sync_update :: "systime \<Rightarrow> bytes \<Rightarrow> 'e counter_entry \<Rightarrow> counter_update option" where
  "re_sync_update now k e =
     (let (exp, ourself, value) = cr_local_values (ce_value e)
      in if value = 0 \<or> exp \<le> now then None
         else Some \<lparr>cu_key = k, cu_values = [(ourself, value)], cu_expires_at = as_secs exp\<rparr>)"

text \<open>The loop over the keys; \<open>send\<close> is the channel, which may be closed.\<close>

primrec re_sync_loop ::
  "('c \<Rightarrow> counter_update option \<Rightarrow> bool \<times> 'c) \<Rightarrow> systime \<Rightarrow> 'e cr_storage \<Rightarrow> bytes list \<Rightarrow> 'c \<Rightarrow> 'c" where
  "re_sync_loop send now s [] ch = snd (send ch None)"
| "re_sync_loop send now s (k # ks) ch =
     (case Option.bind (map_of (cr_limits s) k) (re_sync_update now k) of
        None \<Rightarrow> re_sync_loop send now s ks ch
      | Some u \<Rightarrow>
          let (ok, ch) = send ch (Some u)
          in if ok then re_sync_loop send now s ks ch else snd (send ch None))"

definition process_re_sync ::
  "('c \<Rightarrow> counter_update option \<Rightarrow> bool \<times> 'c) \<Rightarrow> systime \<Rightarrow> 'e cr_storage \<Rightarrow> 'c \<Rightarrow> 'c" where
  "process_re_sync send now s ch = re_sync_loop send now s (map fst (cr_limits s)) ch"

section \<open>It is a counter store\<close>

definition v2_bytes :: "'e codec \<Rightarrow> counter_key \<Rightarrow> bytes" where
  "v2_bytes cd k = post_tag cd 1 @ key_bytes cd k"

definition cr_used :: "'e codec \<Rightarrow> systime \<Rightarrow> 'e cr_storage \<Rightarrow> counter_key \<Rightarrow> u64" where
  "cr_used cd now s k =
     (case map_of (cr_limits s) (v2_bytes cd k) of Some e \<Rightarrow> cr_read_at (ce_value e) now | None \<Rightarrow> 0)"

text \<open>An entry that counts exactly what is added to it: it keeps the window of its counter, and no count
  of another node outlived the window.\<close>

definition entry_ready :: "'e codec \<Rightarrow> systime \<Rightarrow> 'e cr_storage \<Rightarrow> 'e counter \<Rightarrow> bool" where
  "entry_ready cd now s c \<longleftrightarrow>
     (case map_of (cr_limits s) (v2_bytes cd (counter_key c)) of
        None \<Rightarrow> True
      | Some e \<Rightarrow> window (ce_counter e) = window c \<and>
          (expired_at (cr_expiry (ce_value e)) now \<longrightarrow> cr_others (ce_value e) = []))"

definition cr_ready :: "'e codec \<Rightarrow> systime \<Rightarrow> 'e counter list \<Rightarrow> u64 \<Rightarrow> 'e cr_storage \<Rightarrow> bool" where
  "cr_ready cd now cs delta s \<longleftrightarrow>
     (\<forall>k. unpost_key cd (post_key cd k) = Some k) \<and> distinct (map counter_key cs) \<and>
     (\<forall>c\<in>set cs. counter_made c \<and> counter_id c = None \<and> in_time now c \<and> entry_ready cd now s c \<and>
        unat (cr_used cd now s (counter_key c)) + unat delta < 2 ^ 64)"

lemma entry_ready_iff:
  "entry_ready cd now s c \<longleftrightarrow>
     (\<forall>e. map_of (cr_limits s) (v2_bytes cd (counter_key c)) = Some e \<longrightarrow>
        window (ce_counter e) = window c \<and>
        (expired_at (cr_expiry (ce_value e)) now \<longrightarrow> cr_others (ce_value e) = []))"
  by (simp add: entry_ready_def split: option.split)

lemma v2_key: "counter_made c \<Longrightarrow> counter_id c = None \<Longrightarrow> encode_counter_to_key cd c = Some (v2_bytes cd (counter_key c))"
  by (simp add: encode_counter_to_key_def key_for_counter_v2_def v2_bytes_def key_bytes_def disk_key_of_made)

lemma v2_bytes_inject:
  assumes "\<forall>k. unpost_key cd (post_key cd k) = Some k" "key_made j" "key_made k"
  shows "v2_bytes cd j = v2_bytes cd k \<longleftrightarrow> j = k"
  using key_bytes_inject [OF assms] by (simp add: v2_bytes_def)

lemma cr_new_inc:
  assumes "in_time now c"
  shows "\<exists>v v'. cr_new who mx (window c) now = Some v \<and> cr_inc_at delta (window c) now v = Some v' \<and>
    cr_read_at v' now = delta"
proof -
  note t = in_time_facts [OF assms]
  have "\<not> expired_at (expiry_new (now + window c)) now"
    using t by (simp add: expired_at_def expiry_new_def word_le_nat_alt)
  with t show ?thesis by (simp add: cr_new_def cr_inc_live cr_read_at_def)
qed

lemma cr_update_counter_result:
  assumes key: "encode_counter_to_key cd c = Some (v2_bytes cd (counter_key c))"
    and time: "in_time now c" and entry: "entry_ready cd now s c"
  shows "\<exists>e s'. cr_update_counter cd now c delta s = Some (Inr (), s') \<and>
    cr_limits s' = AList.update (v2_bytes cd (counter_key c)) e (cr_limits s) \<and>
    cr_read_at (ce_value e) now = cr_used cd now s (counter_key c) + delta"
proof (cases "map_of (cr_limits s) (v2_bytes cd (counter_key c))")
  case None
  from cr_new_inc [OF time, of "cr_identifier s" "counter_max_value c" delta] obtain v v' where
    v: "cr_new (cr_identifier s) (counter_max_value c) (window c) now = Some v"
      "cr_inc_at delta (window c) now v = Some v'" "cr_read_at v' now = delta" by blast
  let ?e = "\<lparr>ce_key = v2_bytes cd (counter_key c), ce_counter = c, ce_value = v'\<rparr>"
  from None key v show ?thesis
    by (intro exI [of _ ?e]) (simp add: cr_update_counter_def increment_counter_def cr_used_def)
next
  case (Some e)
  with entry have e: "window (ce_counter e) = window c"
    "expired_at (cr_expiry (ce_value e)) now \<Longrightarrow> cr_others (ce_value e) = []"
    by (simp_all add: entry_ready_def)
  from cr_read_inc [OF in_time_facts(1,2) [OF time] e(2), of delta] obtain v' where
    "cr_inc_at delta (window c) now (ce_value e) = Some v'"
    "cr_read_at v' now = cr_read_at (ce_value e) now + delta" by blast
  with Some key e(1) show ?thesis
    by (intro exI [of _ "e\<lparr>ce_value := v'\<rparr>"])
      (simp add: cr_update_counter_def increment_counter_def cr_used_def)
qed

lemma cr_persist:
  assumes law: "\<forall>k. unpost_key cd (post_key cd k) = Some k"
    and "distinct (map counter_key cs)"
    and "\<forall>c\<in>set cs. key_made (counter_key c) \<and>
      encode_counter_to_key cd c = Some (v2_bytes cd (counter_key c)) \<and> in_time now c \<and> entry_ready cd now s c"
  shows "\<exists>s'. try_each (\<lambda>c. cr_update_counter cd now c delta) cs s = Some (Inr (), s') \<and>
    (\<forall>k. key_made k \<longrightarrow> cr_used cd now s' k =
       cr_used cd now s k + (if k \<in> counter_key ` set cs then delta else 0))"
  using assms(2,3)
proof (induction cs arbitrary: s)
  case (Cons c cs)
  let ?b = "v2_bytes cd (counter_key c)"
  from Cons.prems(2) have c: "key_made (counter_key c)" "encode_counter_to_key cd c = Some ?b"
    "in_time now c" "entry_ready cd now s c" by simp_all
  from cr_update_counter_result [OF c(2-4), of delta] obtain e s1 where
    s1: "cr_update_counter cd now c delta s = Some (Inr (), s1)"
      "cr_limits s1 = AList.update ?b e (cr_limits s)"
      "cr_read_at (ce_value e) now = cr_used cd now s (counter_key c) + delta"
    by blast
  have look: "map_of (cr_limits s1) (v2_bytes cd k) =
      (if k = counter_key c then Some e else map_of (cr_limits s) (v2_bytes cd k))" if "key_made k" for k
    using v2_bytes_inject [OF law that c(1)] by (simp add: s1(2) assoc_simps)
  have "entry_ready cd now s1 d" if "d \<in> set cs" for d
  proof -
    have "counter_key d \<noteq> counter_key c" using that Cons.prems(1) by (auto simp: rev_image_eqI)
    with that Cons.prems(2) look [of "counter_key d"] show ?thesis by (simp add: entry_ready_def)
  qed
  with Cons.IH [of s1] Cons.prems obtain s' where
    s': "try_each (\<lambda>c. cr_update_counter cd now c delta) cs s1 = Some (Inr (), s')"
      "\<forall>k. key_made k \<longrightarrow> cr_used cd now s' k =
         cr_used cd now s1 k + (if k \<in> counter_key ` set cs then delta else 0)"
    by auto
  have "cr_used cd now s1 k = cr_used cd now s k + (if k = counter_key c then delta else 0)"
    if "key_made k" for k
    using look [OF that] s1(3) by (simp add: cr_used_def)
  with s' Cons.prems(1) s1(1) show ?case by auto
qed simp

lemma cr_evaluate_ready:
  assumes "cr_ready cd now cs delta s"
  shows "\<exists>a cs'. cr_evaluate cd now cs delta s = Some (a, cs') \<and>
    (a = AuthOk \<longleftrightarrow> (\<forall>c\<in>set cs. admits (cr_used cd now s) delta c)) \<and>
    list_all2 (annotates (cr_used cd now s)) cs cs'"
proof -
  let ?u = "cr_used cd now s"
  let ?ttl = "\<lambda>c. case map_of (cr_limits s) (v2_bytes cd (counter_key c)) of
    Some e \<Rightarrow> cr_ttl now (ce_value e) | None \<Rightarrow> window c"
  let ?rows = "map (\<lambda>c. (c, ?u (counter_key c), ?ttl c)) cs"
  let ?over = "\<lambda>(c, value, _ :: duration). checked_sub (counter_max_value c) (value + delta) = None"
  have c: "counter_made c" "counter_id c = None" "unat (?u (counter_key c)) + unat delta < 2 ^ 64"
    if "c \<in> set cs" for c using assms that by (simp_all add: cr_ready_def)
  have rows: "traverse (cr_lookup cd now s) cs = Some ?rows"
    using c(1,2) by (intro traverse_total) (auto simp: cr_lookup_def v2_key cr_used_def split: option.split)
  have over: "?over (c, ?u (counter_key c), t) \<longleftrightarrow> \<not> admits ?u delta c" if "c \<in> set cs" for c t
    using c(3) [OF that] by (auto simp: checked_sub_def admits_def saturating_add_def)
  have "(case first_limited ?over fst ?rows of Some a \<Rightarrow> a | None \<Rightarrow> AuthOk) = AuthOk \<longleftrightarrow>
      (\<forall>r\<in>set ?rows. \<not> ?over r)"
    using first_limited_SomeD [of ?over fst ?rows] first_limited_None [of ?over fst ?rows]
    by (cases "first_limited ?over fst ?rows") auto
  moreover have "(\<forall>r\<in>set ?rows. \<not> ?over r) \<longleftrightarrow> (\<forall>c\<in>set cs. admits ?u delta c)"
    using over by auto
  moreover have "list_all2 (annotates ?u) cs (map (\<lambda>(c, value, ttl). cr_record value ttl c) ?rows)"
    by (simp add: list_all2_map2 list.rel_refl annotates_def cr_record_def Let_def)
  ultimately show ?thesis using rows by (simp add: cr_evaluate_def Let_def)
qed

lemma annotates_same:
  assumes "annotates u c c'"
  shows "counter_key c' = counter_key c" "encode_counter_to_key cd c' = encode_counter_to_key cd c"
    "in_time now c' = in_time now c" "entry_ready cd now s c' = entry_ready cd now s c"
proof -
  have same: "limit c' = limit c" "set_variables c' = set_variables c"
    using assms by (simp_all add: annotates_def)
  then show "counter_key c' = counter_key c" "in_time now c' = in_time now c"
    "encode_counter_to_key cd c' = encode_counter_to_key cd c"
    by (simp_all add: counter_key_def in_time_def window_def encode_counter_to_key_def key_for_counter_v2_def
        disk_key_of_def id_key_of_def counter_namespace_def counter_id_def variables_for_key_def)
  with same show "entry_ready cd now s c' = entry_ready cd now s c"
    by (simp add: entry_ready_def window_def split: option.split)
qed

interpretation distributed: counter_store "distributed_storage cel cd" "cr_used cd" "cr_ready cd"
  "\<lambda>now. key_made" for cel :: "'e cel" and cd :: "'e codec"
proof unfold_locales
  fix now and cs :: "'e counter list" and d and s :: "'e cr_storage"
  assume ready: "cr_ready cd now cs d s"
  let ?u = "cr_used cd now s"
  from cr_evaluate_ready [OF ready] obtain a cs' where
    ev: "cr_evaluate cd now cs d s = Some (a, cs')" "a = AuthOk \<longleftrightarrow> (\<forall>c\<in>set cs. admits ?u d c)"
      "list_all2 (annotates ?u) cs cs'" by (elim exE conjE) (rule that; assumption)
  then show "\<exists>a cs' s'. cs_check (distributed_storage cel cd) now cs d s = Some ((Inr a, cs'), s') \<and>
      (a = AuthOk \<longleftrightarrow> (\<forall>c\<in>set cs. admits ?u d c)) \<and> list_all2 (annotates ?u) cs cs' \<and>
      (\<forall>k. key_made k \<longrightarrow> cr_used cd now s' k = ?u k)"
    by (simp add: distributed_storage_def cr_check_def)
  have c: "counter_made c" "counter_id c = None" "in_time now c" "entry_ready cd now s c" if "c \<in> set cs" for c
    using ready that by (simp_all add: cr_ready_def)
  show "\<exists>a cs' s'. cs_check_and_update (distributed_storage cel cd) now cs d s = Some ((Inr a, cs'), s') \<and>
      (a = AuthOk \<longleftrightarrow> (\<forall>c\<in>set cs. admits ?u d c)) \<and> list_all2 (annotates ?u) cs cs' \<and>
      (\<forall>k. key_made k \<longrightarrow> cr_used cd now s' k =
         ?u k + (if a = AuthOk \<and> k \<in> counter_key ` set cs then d else 0))"
  proof (cases "a = AuthOk")
    case True
    have keys: "map counter_key cs' = map counter_key cs"
      using ev(3) by (induction rule: list_all2_induct) (simp_all add: annotates_same(1))
    have "\<exists>c\<in>set cs. annotates ?u c c'" if "c' \<in> set cs'" for c'
      using ev(3) that by (metis list_all2_conv_all_nth in_set_conv_nth)
    then have rows: "\<forall>c'\<in>set cs'. key_made (counter_key c') \<and>
        encode_counter_to_key cd c' = Some (v2_bytes cd (counter_key c')) \<and> in_time now c' \<and>
        entry_ready cd now s c'"
      using c by (metis annotates_same key_made_counter v2_key)
    have dist: "distinct (map counter_key cs')" and law: "\<forall>k. unpost_key cd (post_key cd k) = Some k"
      using ready by (simp_all add: keys cr_ready_def)
    from cr_persist [OF law dist rows, of d] obtain s' where s': "try_each (\<lambda>c. cr_update_counter cd now c d) cs' s = Some (Inr (), s')"
      "\<forall>k. key_made k \<longrightarrow> cr_used cd now s' k = ?u k + (if k \<in> counter_key ` set cs' then d else 0)"
      by (elim exE conjE) (rule that; assumption)
    moreover have "counter_key ` set cs' = counter_key ` set cs" using arg_cong [OF keys, of set] by simp
    ultimately show ?thesis using True ev by (simp add: distributed_storage_def cr_check_and_update_def)
  next
    case False
    with ev show ?thesis by (simp add: distributed_storage_def cr_check_and_update_def)
  qed
  show "key_made (counter_key c)" if "c \<in> set cs" for c
    using c(1) [OF that] by (rule key_made_counter)
qed

section \<open>Deleting a limit with variables\<close>

text \<open>The key that \<^verbatim>\<open>delete_counters_of_limit\<close> computes is that of the counter whose variables are all
  empty strings; every other counter of the limit stays.\<close>

lemma cr_delete_only_blank:
  assumes law: "\<forall>k. unpost_key cd (post_key cd k) = Some k"
    and l: "limit_wf l" "limit_id l = None"
    and blank: "counter_new cel l (context_from (map (\<lambda>v. (source v, [])) (variables l))) = Inr (Some b)"
    and k: "key_made k" "k \<noteq> counter_key b"
  shows "\<exists>s'. cr_delete_counters cel cd [l] s = Some (Inr (), s') \<and> cr_used cd now s' k = cr_used cd now s k"
proof -
  have b: "counter_made b" "counter_id b = None"
    using counter_new_made [OF l(1) blank] counter_new_limit [OF blank] l(2) by (simp_all add: counter_id_def)
  then have "encode_limit_to_key cel cd l = Some (v2_bytes cd (counter_key b))"
    using v2_key [OF b, of cd] blank by (simp add: encode_limit_to_key_def encode_counter_to_key_def)
  moreover have "v2_bytes cd k \<noteq> v2_bytes cd (counter_key b)"
    using v2_bytes_inject [OF law k(1) key_made_counter [OF b(1)]] k(2) by simp
  ultimately show ?thesis
    by (simp add: cr_delete_counters_def cr_delete_counters_of_limit_def cr_used_def assoc_simps)
qed

section \<open>Re-synchronisation\<close>

text \<open>A node that receives the re-sync update of a live counter knows the sender's count.\<close>

lemma cr_from_update:
  assumes "a \<noteq> []" "as_micros e < 2 ^ 64"
  shows "cr_wf (cr_from (whole_secs e) [(a, n)])" "cr_expires_at (cr_from (whole_secs e) [(a, n)]) = whole_secs e"
    "cr_count (cr_from (whole_secs e) [(a, n)]) b = (if b = a then n else 0)"
proof -
  have "as_micros (whole_secs e) \<le> as_micros e"
    unfolding as_micros_def whole_secs_def by (intro div_le_mono) simp
  then have "unat (since_epoch (whole_secs e)) = as_micros (whole_secs e)"
    using assms(2) by (simp add: since_epoch_def unat_of_nat_u64)
  moreover have "as_micros (whole_secs e) * 1000 = whole_secs e"
    by (simp add: as_micros_def whole_secs_def)
  ultimately show "cr_expires_at (cr_from (whole_secs e) [(a, n)]) = whole_secs e"
    by (simp add: cr_expires_at_def cr_from_def expiry_expires_at_def expiry_new_def from_micros_def)
qed (use assms in \<open>simp_all add: cr_from_def cr_wf_def cr_count_def\<close>)

lemma re_sync_received:
  assumes u: "re_sync_update now k e = Some u" and who: "cr_ourselves (ce_value e) = a"
    and entry: "map_of (cr_limits s) k = Some f"
  defines "end \<equiv> whole_secs (cr_expires_at (ce_value e))"
  shows "on_counter_update now u s = Some (s\<lparr>cr_limits := AList.update k
      (f\<lparr>ce_value := cr_merge_at (cr_from end [(a, cr_own (ce_value e))]) now (ce_value f)\<rparr>) (cr_limits s)\<rparr>)"
    and "as_micros (cr_expires_at (ce_value e)) < 2 ^ 64"
proof -
  let ?e = "cr_expires_at (ce_value e)" and ?n = "cr_own (ce_value e)"
  show micros: "as_micros ?e < 2 ^ 64"
    using unat_u64_less [of "expiry (cr_expiry (ce_value e))"]
    by (simp add: cr_expires_at_def expiry_expires_at_def from_micros_def as_micros_def)
  have "?e div 10 ^ 9 = as_micros ?e div 10 ^ 6"
    unfolding as_micros_def by (subst div_mult2_eq [symmetric]) simp
  with micros have secs: "?e div 10 ^ 9 < 2 ^ 63" by (simp add: div_less_iff_less_mult)
  have u': "u = \<lparr>cu_key = k, cu_values = [(a, ?n)], cu_expires_at = as_secs ?e\<rparr>"
    using u who by (auto simp: re_sync_update_def cr_local_values_def cr_expires_at_def split: if_splits)
  have "systime_add 0 (from_secs (as_secs ?e)) = Some end"
    using secs by (simp add: end_def systime_add_def from_secs_def unat_as_secs whole_secs_def)
  then show "on_counter_update now u s = Some (s\<lparr>cr_limits := AList.update k
      (f\<lparr>ce_value := cr_merge_at (cr_from end [(a, ?n)]) now (ce_value f)\<rparr>) (cr_limits s)\<rparr>)"
    using entry by (simp add: on_counter_update_def u' btree_map_def)
qed

lemma re_sync_delivers:
  assumes u: "re_sync_update now k e = Some u" and who: "cr_ourselves (ce_value e) = a" "a \<noteq> []"
    and entry: "map_of (cr_limits s) k = Some f" "cr_wf (ce_value f)"
  defines "end \<equiv> whole_secs (cr_expires_at (ce_value e))"
    and "over \<equiv> expired_at (cr_expiry (ce_value f)) now"
  shows "\<exists>s' v. on_counter_update now u s = Some s' \<and>
    map_of (cr_limits s') = (map_of (cr_limits s))(k \<mapsto> f\<lparr>ce_value := v\<rparr>) \<and>
    cr_identifier s' = cr_identifier s \<and> published s' = published s \<and>
    cr_ourselves v = cr_ourselves (ce_value f) \<and> cr_max_value v = cr_max_value (ce_value f) \<and>
    (if now < end then
       (\<forall>b. cr_count v b = max (if over then 0 else cr_count (ce_value f) b)
          (if b = a then cr_own (ce_value e) else 0)) \<and>
       cr_expires_at v = (if over then end else min (cr_expires_at (ce_value f)) end)
     else v = ce_value f)"
proof -
  let ?n = "cr_own (ce_value e)"
  let ?other = "cr_from end [(a, ?n)]" and ?f = "ce_value f"
  let ?v = "cr_merge_at ?other now ?f"
  note got = re_sync_received [OF u who(1) entry(1), folded end_def]
  note other = cr_from_update [OF who(2) got(2), folded end_def]
  have live: "cr_live ?other now \<longleftrightarrow> now < end" using other(2) by (simp add: cr_live_def)
  have "(\<forall>b. cr_count ?v b = max (if over then 0 else cr_count ?f b) (if b = a then ?n else 0)) \<and>
      cr_expires_at ?v = (if over then end else min (cr_expires_at ?f) end) \<and> cr_ourselves ?v = cr_ourselves ?f"
    if alive: "now < end"
  proof -
    note m = cr_merge_result [OF entry(2) other(1) live [THEN iffD2, OF alive], folded over_def]
    have "cr_expires_at ?v = (if over then cr_expires_at ?other else min (cr_expires_at ?f) (cr_expires_at ?other))"
      using m(3)
      by (auto simp: cr_expires_at_def expiry_expires_at_def from_micros_def min_def word_le_nat_alt)
    then show ?thesis using m(2,4) other(2,3) by simp
  qed
  moreover have "?v = ?f" if "\<not> now < end" using cr_merge_over live that by blast
  ultimately show ?thesis
    using got(1) by (intro exI [of _ "s\<lparr>cr_limits := AList.update k (f\<lparr>ce_value := ?v\<rparr>) (cr_limits s)\<rparr>"] exI [of _ ?v])
      (auto simp: update_conv' cr_merge_max_value)
qed

text \<open>An update for a counter the node has not seen is not merged: the callback panics.\<close>

lemma on_counter_update_unknown: "map_of (cr_limits s) (cu_key u) = None \<Longrightarrow> on_counter_update now u s = None"
  by (simp add: on_counter_update_def)

end
