(* ===== verification/Replication.thy ===== *)
theory Replication
  imports Distributed
begin

text \<open>
  The parts of a replication session: \<^verbatim>\<open>limitador/src/storage/distributed/grpc/mod.rs\<close>.  Modelled here
  are the clock skew, the messages and the streams they are sent on, the table of known peers, the
  handling of a received packet, the decision of the handshake which of two sessions with a peer
  survives, and the queue of updates to send of a session; theory \<open>Sessions\<close> composes them into the
  broker of a node.  The channels behind the streams are those of tokio, a parameter: \<open>put\<close> hands an
  item to the channel with the given number and tells whether the receiver still exists.
\<close>

section \<open>Clock skew\<close>

datatype clock_skew = NoSkew | Slow duration | Fast duration

definition skew_new :: "systime \<Rightarrow> systime \<Rightarrow> clock_skew" where
  "skew_new loc remote =
     (if loc = remote then NoSkew else if loc > remote then Slow (loc - remote) else Fast (remote - loc))"

text \<open>\<open>None\<close>: the result would lie before the epoch, or after the last representable instant.\<close>

definition skew_remote :: "clock_skew \<Rightarrow> systime \<Rightarrow> systime option" where
  "skew_remote k t =
     (case k of
        NoSkew \<Rightarrow> Some t
      | Slow d \<Rightarrow> if d \<le> t then Some (t - d) else None
      | Fast d \<Rightarrow> systime_add t d)"

definition as_millis :: "duration \<Rightarrow> nat" where
  "as_millis d = d div 1000000"

definition show_skew :: "clock_skew \<Rightarrow> string" where
  "show_skew k =
     (case k of
        NoSkew \<Rightarrow> ''remote time is the same''
      | Slow d \<Rightarrow> ''remote time is slow by '' @ show_nat (as_millis d) @ ''ms''
      | Fast d \<Rightarrow> ''remote time is fast by '' @ show_nat (as_millis d) @ ''ms'')"

section \<open>Messages\<close>

record peer =
  peer_id :: string
  latency :: "32 word"
  urls :: "string list"

record hello =
  sender_peer_id :: string
  sender_urls :: "string list"
  receiver_url :: "string option"

datatype message =
    Ping
  | Pong u64
  | HelloMsg hello
  | MembershipUpdate "peer list"
  | CounterUpdateMsg counter_update
  | ReSyncEnd

datatype status_code = InvalidArgument | Unknown | AlreadyExists | ResourceExhausted | Unavailable

record status =
  code :: status_code
  status_msg :: string

text \<open>What an incoming stream yields next: nothing at its end, else an error or a packet.\<close>

type_synonym incoming = "(status + message option) option"

definition is_hello :: "incoming \<Rightarrow> status + hello" where
  "is_hello next_packet =
     (case next_packet of
        Some (Inr (Some (HelloMsg h))) \<Rightarrow> Inr h
      | _ \<Rightarrow> Inl \<lparr>code = InvalidArgument, status_msg = ''expected Hello''\<rparr>)"

definition is_pong :: "incoming \<Rightarrow> status + u64" where
  "is_pong next_packet =
     (case next_packet of
        Some (Inr (Some (Pong t))) \<Rightarrow> Inr t
      | _ \<Rightarrow> Inl \<lparr>code = InvalidArgument, status_msg = ''expected Pong''\<rparr>)"

section \<open>Streams\<close>

type_synonym 'n put = "nat \<Rightarrow> status + message \<Rightarrow> 'n \<Rightarrow> bool \<times> 'n"

datatype message_sender = ServerSender (sender_no: nat) | ClientSender (sender_no: nat)

definition send_error :: status where
  "send_error = \<lparr>code = Unknown, status_msg = ''send error''\<rparr>"

definition sender_send ::
  "'n put \<Rightarrow> message_sender \<Rightarrow> status + message \<Rightarrow> 'n \<Rightarrow> (status + unit) \<times> 'n" where
  "sender_send put to m net =
     (case to of
        ServerSender n \<Rightarrow>
          let (ok, net) = put n m net in (if ok then Inr () else Inl send_error, net)
      | ClientSender n \<Rightarrow>
          (case m of
             Inr m \<Rightarrow> let (ok, net) = put n (Inr m) net in (if ok then Inr () else Inl send_error, net)
           | Inl err \<Rightarrow> (Inl err, net)))"

text \<open>The send of a permit cannot fail, the place in the channel is reserved.\<close>

definition permit_send ::
  "'n put \<Rightarrow> message_sender \<Rightarrow> status + message \<Rightarrow> 'n \<Rightarrow> (status + unit) \<times> 'n" where
  "permit_send put to m net =
     (case to of
        ServerSender n \<Rightarrow> (Inr (), snd (put n m net))
      | ClientSender n \<Rightarrow>
          (case m of Inr m \<Rightarrow> (Inr (), snd (put n (Inr m) net)) | Inl err \<Rightarrow> (Inl err, net)))"

text \<open>A session; the state of the broker it also refers to is that of its node.\<close>

record session =
  ss_peer_id :: string
  ss_out :: message_sender

section \<open>Known peers\<close>

record peer_tracker =
  pt_peer_id :: string
  pt_url :: "string option"
  pt_discovered :: "string list"
  pt_latency :: "32 word"
  pt_skew :: clock_skew
  pt_session :: "session option"

record replication_state =
  rs_urls :: "string list"
  rs_trackers :: "(string \<times> peer_tracker) list"

definition rs_peers :: "replication_state \<Rightarrow> peer list" where
  "rs_peers st =
     sort_key peer_id (map (\<lambda>(_, t). \<lparr>peer_id = pt_peer_id t, latency = pt_latency t, urls = pt_discovered t\<rparr>)
       (rs_trackers st))"

definition session_close :: "string \<Rightarrow> replication_state \<Rightarrow> replication_state" where
  "session_close p st = st\<lparr>rs_trackers := alist_modify p (\<lambda>t. t\<lparr>pt_session := None\<rparr>) (rs_trackers st)\<rparr>"

definition learn_peer :: "peer \<Rightarrow> replication_state \<Rightarrow> replication_state" where
  "learn_peer p st =
     (case map_of (rs_trackers st) (peer_id p) of
        None \<Rightarrow> st\<lparr>rs_trackers := AList.update (peer_id p)
            \<lparr>pt_peer_id = peer_id p, pt_url = None, pt_discovered = remdups (urls p), pt_latency = 0,
             pt_skew = NoSkew, pt_session = None\<rparr> (rs_trackers st)\<rparr>
      | Some _ \<Rightarrow> st)"

text \<open>\<^verbatim>\<open>process_packet\<close>: the answer, the channels, the peers and the counters after it.\<close>

definition process_packet ::
  "'n put \<Rightarrow> session \<Rightarrow> systime \<Rightarrow> message option \<Rightarrow> 'n \<times> replication_state \<times> 'e cr_storage \<Rightarrow>
   ((status + unit) \<times> 'n \<times> replication_state \<times> 'e cr_storage) option" where
  "process_packet put ss now m = (\<lambda>(net, st, s).
     case m of
       Some Ping \<Rightarrow>
         let (r, net) = sender_send put (ss_out ss) (Inr (Pong (of_nat (as_millis now)))) net
         in Some (r, net, st, s)
     | Some (MembershipUpdate peers) \<Rightarrow> Some (Inr (), net, fold learn_peer peers st, s)
     | Some (CounterUpdateMsg u) \<Rightarrow> do {
         s \<leftarrow> on_counter_update now u s;
         Some (Inr (), net, st, s)
       }
     | _ \<Rightarrow> Some (Inl \<lparr>code = InvalidArgument, status_msg = ''unsupported packet''\<rparr>, net, st, s))"

text \<open>A peer that dialled tells a url under which it reached this node.\<close>

definition learn_url :: "hello \<Rightarrow> replication_state \<Rightarrow> replication_state" where
  "learn_url h st =
     (case receiver_url h of
        Some url \<Rightarrow> st\<lparr>rs_urls := snd (hset_insert (\<lambda>u. u) url (rs_urls st))\<rparr>
      | None \<Rightarrow> st)"

text \<open>The end of \<^verbatim>\<open>handshake\<close>: the session to go on with, if any, the session that is closed with
  \<^verbatim>\<open>already_exists\<close>, if any, and the table of peers.  \<open>half\<close> stands for \<^verbatim>\<open>div_f32(2.0)\<close>;
  \<open>None\<close> is a panic, which leaves the table with the url learnt.\<close>

definition handshake ::
  "(duration \<Rightarrow> duration) \<Rightarrow> string \<Rightarrow> hello \<Rightarrow> u64 \<Rightarrow> systime \<Rightarrow> systime \<Rightarrow> string option \<Rightarrow> session \<Rightarrow>
   replication_state \<Rightarrow> ((session option \<times> session option) \<times> replication_state) option" where
  "handshake half me h pong start fin peer_url session st = do {
     let p = sender_peer_id h;
     let st = learn_url h st;
     (tracker, kept, closed) \<leftarrow>
       (case map_of (rs_trackers st) p of
          Some t \<Rightarrow>
            Some (case pt_session t of
                Some prev \<Rightarrow>
                  if p < me then (t\<lparr>pt_session := Some session\<rparr>, Some session, Some prev)
                  else (t, None, Some session)
              | None \<Rightarrow> (t\<lparr>pt_session := Some session\<rparr>, Some session, None))
        | None \<Rightarrow>
            if start \<le> fin then do {
              let lat = fin - start;
              t1 \<leftarrow> systime_add 0 (from_millis pong);
              t2 \<leftarrow> systime_add t1 (half lat);
              Some (\<lparr>pt_peer_id = p, pt_url = None, pt_discovered = remdups (sender_urls h),
                     pt_latency = of_nat (as_millis lat), pt_skew = skew_new fin t2,
                     pt_session = Some session\<rparr>, Some session, None)
            }
            else None);
     let tracker = (if peer_url \<noteq> None then tracker\<lparr>pt_url := peer_url\<rparr> else tracker);
     Some ((kept, closed), st\<lparr>rs_trackers := AList.update p tracker (rs_trackers st)\<rparr>)
   }"

text \<open>\<^verbatim>\<open>reconnect_to_failed_peers\<close>: the peers without a session and the urls to try, in order.  There may be
  no url: a peer that dialled this node without telling one.\<close>

definition failed_peers :: "replication_state \<Rightarrow> (string \<times> string list) list" where
  "failed_peers st =
     List.map_filter (\<lambda>(_, t).
         if pt_session t = None then
           Some (pt_peer_id t, (case pt_url t of Some u \<Rightarrow> [u] | None \<Rightarrow> []) @ pt_discovered t)
         else None)
       (rs_trackers st)"

section \<open>The queue of updates to send\<close>

text \<open>The entries published to a session are shared with the storage (\<^verbatim>\<open>Arc<CounterEntry>\<close>): the queue
  holds references, and \<open>mem\<close> is the value of each entry when the queue is sent.\<close>

type_synonym entry_ref = nat

record send_queue =
  tx_updates_by_key :: "(bytes \<times> entry_ref) list"
  tx_updates_order :: "bytes list"
  notified :: bool

definition queue_new :: send_queue where
  "queue_new = \<lparr>tx_updates_by_key = [], tx_updates_order = [], notified = False\<rparr>"

definition queue_update :: "bytes \<Rightarrow> entry_ref \<Rightarrow> send_queue \<Rightarrow> send_queue" where
  "queue_update k r q =
     (if map_of (tx_updates_by_key q) k = None then
        q\<lparr>tx_updates_by_key := AList.update k r (tx_updates_by_key q),
          tx_updates_order := tx_updates_order q @ [k], notified := True\<rparr>
      else q)"

text \<open>The branch \<^verbatim>\<open>notifier.notified()\<close>: send while the outgoing channel grants a permit, which it does for
  \<open>room\<close> messages.  The permit of an update that has expired is given back unused.\<close>

function send_pending ::
  "(entry_ref \<Rightarrow> cr_value) \<Rightarrow> systime \<Rightarrow> nat \<Rightarrow> send_queue \<Rightarrow> (counter_update list \<times> send_queue) option" where
  "send_pending mem now room q =
     (case tx_updates_order q of
        [] \<Rightarrow> Some ([], q)
      | k # ks \<Rightarrow>
          if room = 0 then Some ([], q)
          else do {
            r \<leftarrow> map_of (tx_updates_by_key q) k;
            let q' = q\<lparr>tx_updates_order := ks, tx_updates_by_key := AList.delete k (tx_updates_by_key q)\<rparr>;
            let (exp, values) = cr_into_inner (mem r);
            if exp > now then do {
              (us, q'') \<leftarrow> send_pending mem now (room - 1) q';
              Some (\<lparr>cu_key = k, cu_values = values, cu_expires_at = as_secs exp\<rparr> # us, q'')
            }
            else send_pending mem now room q'
          })"
  by pat_completeness auto
termination by (relation "measure (\<lambda>(mem, now, room, q). length (tx_updates_order q))") simp_all

definition on_notified ::
  "(entry_ref \<Rightarrow> cr_value) \<Rightarrow> systime \<Rightarrow> nat \<Rightarrow> send_queue \<Rightarrow> (counter_update list \<times> send_queue) option" where
  "on_notified mem now room q = send_pending mem now room (q\<lparr>notified := False\<rparr>)"

declare send_pending.simps [simp del]

section \<open>Lemmas\<close>

lemma skew_round_trip:
  assumes "remote div 10 ^ 9 < 2 ^ 63"
  shows "skew_remote (skew_new loc remote) loc = Some remote"
  using assms by (auto simp: skew_new_def skew_remote_def systime_add_def)

lemma learn_url_trackers [simp]: "rs_trackers (learn_url h st) = rs_trackers st"
  by (simp add: learn_url_def split: option.split)

text \<open>A second session with a peer: the node with the larger id goes on with the new one, the other node with
  the one it has.\<close>

lemma handshake_keeps_one:
  assumes "map_of (rs_trackers st) (sender_peer_id h) = Some t" "pt_session t = Some prev"
  shows "\<exists>kept closed st'. handshake half me h pong start fin url session st = Some ((kept, closed), st') \<and>
    (if sender_peer_id h < me then kept = Some session \<and> closed = Some prev
     else kept = None \<and> closed = Some session) \<and>
    map_option pt_session (map_of (rs_trackers st') (sender_peer_id h)) =
      Some (Some (if sender_peer_id h < me then session else prev))"
  using assms by (auto simp: handshake_def Let_def assoc_simps split: option.splits)

lemma learn_peer_keeps:
  "map_of (rs_trackers st) p = Some t \<Longrightarrow> map_of (rs_trackers (learn_peer q st)) p = Some t"
  by (auto simp: learn_peer_def assoc_simps split: option.split)

lemma learn_peers_keep:
  "map_of (rs_trackers st) p = Some t \<Longrightarrow> map_of (rs_trackers (fold learn_peer qs st)) p = Some t"
  by (induction qs arbitrary: st) (simp_all add: learn_peer_keeps)

text \<open>The queue: a key waits at most once, and every waiting key has its counter, so the lookup of
  \<^verbatim>\<open>remove(&key).unwrap()\<close> cannot fail.\<close>

definition queue_wf :: "send_queue \<Rightarrow> bool" where
  "queue_wf q \<longleftrightarrow> distinct (tx_updates_order q) \<and>
     (\<forall>k. k \<in> set (tx_updates_order q) \<longleftrightarrow> map_of (tx_updates_by_key q) k \<noteq> None)"

lemma queue_wf_update: "queue_wf q \<Longrightarrow> queue_wf (queue_update k v q)"
  by (auto simp: queue_wf_def queue_update_def assoc_simps)

definition waiting :: "(entry_ref \<Rightarrow> cr_value) \<Rightarrow> send_queue \<Rightarrow> bytes \<Rightarrow> cr_value" where
  "waiting mem q k = mem (the (map_of (tx_updates_by_key q) k))"

definition update_of :: "bytes \<Rightarrow> cr_value \<Rightarrow> counter_update" where
  "update_of k v =
     \<lparr>cu_key = k, cu_values = snd (cr_into_inner v), cu_expires_at = as_secs (cr_expires_at v)\<rparr>"

definition sent_of :: "(entry_ref \<Rightarrow> cr_value) \<Rightarrow> systime \<Rightarrow> send_queue \<Rightarrow> bytes list \<Rightarrow> counter_update list" where
  "sent_of mem now q ks = map (\<lambda>k. update_of k (waiting mem q k)) (filter (\<lambda>k. now < cr_expires_at (waiting mem q k)) ks)"

lemma sent_of_cong: "(\<And>k. k \<in> set ks \<Longrightarrow> waiting mem q k = waiting mem p k) \<Longrightarrow> sent_of mem now q ks = sent_of mem now p ks"
  by (induction ks) (simp_all add: sent_of_def)

lemma queue_wf_pop:
  assumes "queue_wf q" "tx_updates_order q = k # ks"
  defines "q' \<equiv> q\<lparr>tx_updates_order := ks, tx_updates_by_key := AList.delete k (tx_updates_by_key q)\<rparr>"
  shows "\<exists>r. map_of (tx_updates_by_key q) k = Some r \<and> mem r = waiting mem q k" "queue_wf q'"
    "\<And>gone. set gone \<subseteq> set ks \<Longrightarrow> sent_of mem now q' gone = sent_of mem now q gone"
proof -
  have k: "k \<notin> set ks" "distinct ks"
    "\<And>j. j \<in> set (k # ks) \<longleftrightarrow> map_of (tx_updates_by_key q) j \<noteq> None"
    using assms(1,2) by (simp_all add: queue_wf_def)
  from k(3) [of k] show "\<exists>r. map_of (tx_updates_by_key q) k = Some r \<and> mem r = waiting mem q k"
    by (auto simp: waiting_def)
  show "queue_wf q'" using k by (auto simp: queue_wf_def q'_def assoc_simps)
  show "sent_of mem now q' gone = sent_of mem now q gone" if "set gone \<subseteq> set ks" for gone
    using that k(1) by (intro sent_of_cong) (auto simp: waiting_def q'_def assoc_simps)
qed

lemma send_pending_result:
  assumes "queue_wf q"
  shows "\<exists>gone q'. send_pending mem now room q = Some (sent_of mem now q gone, q') \<and> queue_wf q' \<and>
    tx_updates_order q = gone @ tx_updates_order q' \<and> length (sent_of mem now q gone) \<le> room \<and>
    (tx_updates_order q' = [] \<or> length (sent_of mem now q gone) = room)"
  using assms
proof (induction "length (tx_updates_order q)" arbitrary: q room)
  case 0
  then show ?case by (subst send_pending.simps) (simp add: sent_of_def)
next
  case (Suc n)
  then obtain k ks where o: "tx_updates_order q = k # ks" by (cases "tx_updates_order q") auto
  let ?q = "q\<lparr>tx_updates_order := ks, tx_updates_by_key := AList.delete k (tx_updates_by_key q)\<rparr>"
  note pop = queue_wf_pop [OF Suc.prems o]
  from pop(1) [of mem] obtain r where at: "map_of (tx_updates_by_key q) k = Some r" "mem r = waiting mem q k" by blast
  have len: "n = length (tx_updates_order ?q)" using Suc.hyps(2) o by simp
  obtain vals where inner: "cr_into_inner (waiting mem q k) = (cr_expires_at (waiting mem q k), vals)"
    by (simp add: cr_into_inner_def cr_expires_at_def)
  consider "room = 0" | n where "room = Suc n" "now < cr_expires_at (waiting mem q k)"
    | "room \<noteq> 0" "\<not> now < cr_expires_at (waiting mem q k)" by (cases room) auto
  then show ?case
  proof cases
    case 1
    with Suc.prems show ?thesis
      by (subst send_pending.simps) (auto simp: o sent_of_def intro!: exI [of _ "[]"])
  next
    case (2 n)
    from Suc.hyps(1) [OF len pop(2), of n] obtain gone q' where
      ih: "send_pending mem now n ?q = Some (sent_of mem now ?q gone, q')" "queue_wf q'"
        "ks = gone @ tx_updates_order q'" "length (sent_of mem now ?q gone) \<le> n"
        "tx_updates_order q' = [] \<or> length (sent_of mem now ?q gone) = n" by auto
    have same: "sent_of mem now q (k # gone) = update_of k (waiting mem q k) # sent_of mem now ?q gone"
      using 2 pop(3) [of gone] ih(3) by (simp add: sent_of_def)
    then have "send_pending mem now room q = Some (sent_of mem now q (k # gone), q')"
      using 2 ih(1) at inner by (subst send_pending.simps) (simp add: o Let_def update_of_def)
    with ih 2(1) same show ?thesis
      by (intro exI [of _ "k # gone"] exI [of _ q']) (simp add: o)
  next
    case 3
    from Suc.hyps(1) [OF len pop(2), of room] obtain gone q' where
      ih: "send_pending mem now room ?q = Some (sent_of mem now ?q gone, q')" "queue_wf q'"
        "ks = gone @ tx_updates_order q'" "length (sent_of mem now ?q gone) \<le> room"
        "tx_updates_order q' = [] \<or> length (sent_of mem now ?q gone) = room" by auto
    have same: "sent_of mem now q (k # gone) = sent_of mem now ?q gone"
      using 3 pop(3) [of gone] ih(3) by (simp add: sent_of_def)
    then have "send_pending mem now room q = Some (sent_of mem now q (k # gone), q')"
      using 3 ih(1) at inner by (subst send_pending.simps) (simp add: o Let_def)
    with ih same show ?thesis
      by (intro exI [of _ "k # gone"] exI [of _ q']) (simp add: o)
  qed
qed

text \<open>An update of a key that is already waiting does not wake the sender: what did not fit the channel
  waits until some other key is updated.\<close>

lemma queue_update_waiting: "k \<in> set (tx_updates_order q) \<Longrightarrow> queue_wf q \<Longrightarrow> queue_update k v q = q"
  by (auto simp: queue_wf_def queue_update_def)

lemma send_pending_notified: "send_pending mem now room q = Some (us, q') \<Longrightarrow> notified q' = notified q"
proof (induction "length (tx_updates_order q)" arbitrary: room q us)
  case 0
  then show ?case by (subst (asm) send_pending.simps) simp
next
  case (Suc n)
  then obtain k ks where o: "tx_updates_order q = k # ks" by (cases "tx_updates_order q") auto
  let ?q = "q\<lparr>tx_updates_order := ks, tx_updates_by_key := AList.delete k (tx_updates_by_key q)\<rparr>"
  have "send_pending mem now r ?q = Some (vs, q') \<Longrightarrow> notified q' = notified q" for r vs
    using Suc.hyps(1) [of ?q r vs] Suc.hyps(2) o by simp
  with Suc.prems show ?case
    by (subst (asm) send_pending.simps)
      (auto simp: o Let_def case_prod_unfold bind_eq_Some_conv split: if_splits)
qed

end
