(* ===== verification/StorageSamples.thy ===== *)
theory StorageSamples
  imports Samples Disk Replication "HOL-Library.Countable"
begin

text \<open>
  Concrete instances of the external parameters of the disk and the distributed storage: a serialiser
  that numbers its inputs, and a database kept in an association list.
\<close>

section \<open>A serialiser\<close>

definition unary :: "nat \<Rightarrow> bytes" where
  "unary n = replicate n CHR ''x''"

definition sample_codec :: "string codec" where
  "sample_codec =
     \<lparr>post_key = (\<lambda>k. unary (to_nat (dk_ns k, dk_seconds k, dk_conditions k, dk_variables k))),
      unpost_key = (\<lambda>b. let (ns, secs, conds, vars) = from_nat (length b)
         in Some \<lparr>dk_ns = ns, dk_seconds = secs, dk_conditions = conds, dk_variables = vars\<rparr>),
      post_id_key = (\<lambda>k. unary (to_nat (ik_id k, ik_variables k))),
      unpost_id_key = (\<lambda>b. let (i, vars) = from_nat (length b) in Some \<lparr>ik_id = i, ik_variables = vars\<rparr>),
      post_tag = (\<lambda>v. [char_of (unat v)]),
      take_tag = (\<lambda>b. case b of [] \<Rightarrow> None | c # cs \<Rightarrow> Some (of_nat (of_char c), cs)),
      post_str = (\<lambda>s. s), post_limit_id = (\<lambda>s. s),
      json_counter = (\<lambda>c. if set_variables c = [] then ''{}'' else ''{user}''),
      unjson_counter = (\<lambda>b. if b = ''{}'' then Some global_counter
         else if b = ''{user}'' then Some user_counter else None),
      json_limit = (\<lambda>_. ''{}'')\<rparr>"

lemma sample_codec_key: "\<forall>k. unpost_key sample_codec (post_key sample_codec k) = Some k"
  by (simp add: sample_codec_def unary_def)

section \<open>A database\<close>

type_synonym sample_store = "(bytes \<times> bytes option \<times> bytes list) list"

definition sample_chain :: "sample_store \<Rightarrow> bytes \<Rightarrow> bytes option \<times> bytes list" where
  "sample_chain d k = (case map_of d k of Some c \<Rightarrow> c | None \<Rightarrow> (None, []))"

definition sample_entries :: "systime \<Rightarrow> sample_store \<Rightarrow> (rocksdb_error + bytes \<times> bytes) list" where
  "sample_entries now d =
     List.map_filter (\<lambda>(k, b, ops). map_option (\<lambda>v. Inr (k, v)) (merge_operator now b ops)) d"

definition sample_db :: "sample_store rocksdb" where
  "sample_db =
     \<lparr>db_open = (\<lambda>_ _. Inr []),
      db_get = (\<lambda>now k d. map_option Inr (chain_read now (sample_chain d k))),
      db_merge = (\<lambda>k op d. (Inr (), AList.update k
         (fst (sample_chain d k), snd (sample_chain d k) @ [op]) d)),
      db_delete = (\<lambda>k d. (Inr (), AList.delete k d)),
      db_iterator = sample_entries,
      db_prefix_iterator = (\<lambda>now _. sample_entries now)\<rparr>"

lemma sample_db_laws: "rocksdb_laws sample_db sample_chain"
  by (simp add: rocksdb_laws_def sample_db_def sample_chain_def fun_eq_iff assoc_simps)

definition sample_disk_limiter :: "(sample_store disk, string) rate_limiter" where
  "sample_disk_limiter =
     \<lparr>storage = \<lparr>limits = [(''ns'', [global_limit, user_limit])],
        counters = \<lparr>disk_db = [], disk_reservations = registry_new\<rparr>\<rparr>,
      reservation_limits = reservation_limits_default\<rparr>"

definition sample_node :: "(string cr_storage, string) rate_limiter" where
  "sample_node =
     \<lparr>storage = \<lparr>limits = [(''ns'', [global_limit, user_limit])], counters = cr_storage_new ''a''\<rparr>,
      reservation_limits = reservation_limits_default\<rparr>"

lemma sample_made: "counter_made global_counter" "counter_made user_counter"
  by (simp_all add: counter_made_def sample_defs limit_wf_def)

lemma sample_collect:
  "collect_counters sample_cel sample_ctx [global_limit, user_limit] = Some (Inr [global_counter, user_counter])"
  using sample_counters by (simp add: counters_that_apply_def sample_limiter_def get_limits_def)

lemma sample_in_time: "in_time 0 global_counter" "in_time 0 user_counter"
  using sample_call_ok by (simp_all add: call_ok_def)

lemma sample_empty_val: "disk_val sample_chain now \<lparr>disk_db = [], disk_reservations = reg\<rparr> k = Some 0"
  by (simp add: disk_val_def sample_chain_def ev_fold_def)

lemma sample_disk_counters:
  "counters_that_apply sample_cel ''ns'' sample_ctx sample_disk_limiter = Some (Inr [global_counter, user_counter])"
  by (simp add: counters_that_apply_def sample_disk_limiter_def get_limits_def sample_collect del: collect_counters.simps)

lemma sample_disk_used: "disk_used sample_chain sample_codec env (counters (storage sample_disk_limiter)) k = 0"
  by (simp add: disk_used_def sample_disk_limiter_def sample_empty_val)

lemma sample_disk_ready:
  "disk_ready sample_db sample_chain sample_codec (at 0) [global_counter, user_counter] 2
     (counters (storage sample_disk_limiter))"
  using sample_db_laws sample_codec_key sample_made sample_in_time
  by (simp add: disk_ready_def sample_disk_used sample_keys)
    (simp add: sample_disk_limiter_def sample_empty_val disk_in_time_def in_time_def in_time_facts(3)
      sample_in_time)

lemma sample_node_counters:
  "counters_that_apply sample_cel ''ns'' sample_ctx sample_node = Some (Inr [global_counter, user_counter])"
  by (simp add: counters_that_apply_def sample_node_def get_limits_def sample_collect del: collect_counters.simps)

lemma sample_node_used: "cr_used sample_codec now (counters (storage sample_node)) k = 0"
  by (simp add: cr_used_def sample_node_def cr_storage_new_def)

lemma sample_node_ready:
  "cr_ready sample_codec 0 [global_counter, user_counter] 2 (counters (storage sample_node))"
  using sample_codec_key sample_made sample_in_time
  by (simp add: cr_ready_def sample_node_used sample_keys)
    (simp add: sample_node_def cr_storage_new_def entry_ready_def counter_id_def sample_defs)

end
