(* ===== verification/StorageProperties.thy ===== *)
theory StorageProperties
  imports StorageSamples
begin

text \<open>
  The properties of the storage keys, of the disk storage and of the distributed storage, each with a
  witness over the instances of \<open>StorageSamples\<close>.
\<close>

section \<open>Storage keys\<close>

text \<open>The text key of a counter, as Redis stores it, is read back to the same counter under the
  registered limit, provided the namespace does not contain the separator of the key and the JSON
  reader inverts the writer up to the fields that are not written.\<close>

lemma text_key_round_trip:
  assumes "counter_id c = None" and "find_sub '',counter:'' (counter_namespace c) = None"
    and "unjson_counter cd (json_counter cd (key c)) = Some c'" and "counter_key c' = counter_key c"
    and "limit_key l = limit_key (limit c)"
  shows "\<exists>k. key_for_counter cd c = Some k \<and> counter_from_counter_key cel cd k l = Some (c'\<lparr>limit := l\<rparr>) \<and>
    counter_key (c'\<lparr>limit := l\<rparr>) = counter_key c"
proof -
  have "counter_key (c'\<lparr>limit := l\<rparr>) = counter_key c" using assms(4,5) by (simp add: counter_key_def)
  with counter_round_trip_text [OF assms] show ?thesis by blast
qed

lemma text_key_round_trip_sample:
  "\<exists>k. key_for_counter sample_codec user_counter = Some k \<and>
     counter_from_counter_key sample_cel sample_codec k user_limit = Some user_counter"
proof -
  have h: "counter_id user_counter = None" "find_sub '',counter:'' (counter_namespace user_counter) = None"
    "unjson_counter sample_codec (json_counter sample_codec (key user_counter)) = Some user_counter"
    "limit_key user_limit = limit_key (limit user_counter)" "user_counter\<lparr>limit := user_limit\<rparr> = user_counter"
    by (simp_all add: sample_defs sample_codec_def counter_id_def counter_namespace_def key_def)
  from text_key_round_trip [OF h(1-3) refl h(4), of sample_cel] show ?thesis by (simp add: h(5))
qed

text \<open>The key of a counter whose limit has an id cannot be read back: only the id and the variables are
  in it, so the rebuilt limit never equals the registered one and the code panics.\<close>

lemma id_key_panics:
  assumes "counter_id c = Some i" and "namespace (limit c) \<noteq> [] \<or> seconds (limit c) \<noteq> 0"
    and "take 10 (post_tag cd 2 @ post_id_key cd k) \<noteq> ''namespace:''"
    and "take_tag cd (post_tag cd 2 @ post_id_key cd k) = Some (2, post_id_key cd k)"
    and "unpost_id_key cd (post_id_key cd k) = Some k"
    and "id_key_of c = Some k" and "limit_key l = limit_key (limit c)"
  shows "\<exists>raw. key_for_counter cd c = Some raw \<and> counter_from_counter_key cel cd raw l = None"
  using assms by (rule counter_from_id_key_panics)

lemma id_key_panics_sample:
  "\<exists>raw. key_for_counter sample_codec (global_counter\<lparr>limit := limit_with_id ''i'' ''ns'' 10 60 [] []\<rparr>) = Some raw \<and>
     counter_from_counter_key sample_cel sample_codec raw (limit_with_id ''i'' ''ns'' 10 60 [] []) = None"
proof -
  let ?l = "limit_with_id ''i'' ''ns'' 10 60 [] [] :: string limit"
  let ?c = "global_counter\<lparr>limit := ?l\<rparr>" and ?k = "\<lparr>ik_id = ''i'', ik_variables = []\<rparr>"
  have h: "counter_id ?c = Some ''i''" "namespace (limit ?c) \<noteq> [] \<or> seconds (limit ?c) \<noteq> 0"
    "take 10 (post_tag sample_codec 2 @ post_id_key sample_codec ?k) \<noteq> ''namespace:''"
    "take_tag sample_codec (post_tag sample_codec 2 @ post_id_key sample_codec ?k) =
       Some (2, post_id_key sample_codec ?k)"
    "unpost_id_key sample_codec (post_id_key sample_codec ?k) = Some ?k" "id_key_of ?c = Some ?k"
    by (simp_all add: counter_id_def limit_with_id_def sample_codec_def unary_def id_key_of_def
        variables_for_key_def global_counter_def char_of_eq_iff)
  from id_key_panics [OF h(1-6)] show ?thesis by simp
qed

text \<open>C29: what reading a disk key back gives: the counter it was made from, with the maximum, the name and
  the id of the limit forgotten, and without the values of the variables whose text is not itself an
  identifier of the limit's variables.  So it is the same counter exactly when every variable is such a
  plain identifier; and two counters share a disk key only if they are equal.\<close>

theorem disk_key_round_trip:
  assumes "counter_made c" and "\<forall>k. unpost_key cd (post_key cd k) = Some k"
    and "\<forall>p\<in>set (conditions (limit c)). predicate_parse cel (predicate_source p) = Inr p"
    and "\<forall>v\<in>set (variables (limit c)). expression_parse cel (source v) = Inr v"
  shows "\<exists>c'. bin_partial_counter_from_counter_key cel cd (bin_key_for_counter cd c) = Some c' \<and>
    limit c' = (limit c)\<lparr>limit_id := None, max_value := 0, limit_name := None\<rparr> \<and>
    set_variables c' = filter (\<lambda>(var, _). has_variable cel (limit c) var) (set_variables c) \<and>
    (counter_key c' = counter_key c \<longleftrightarrow>
       (\<forall>v\<in>set (variables (limit c)). has_variable cel (limit c) (source v))) \<and>
    (\<forall>d. counter_made d \<longrightarrow> bin_key_for_counter cd d = bin_key_for_counter cd c \<longrightarrow> counter_key d = counter_key c)"
proof -
  have "counter_key d = counter_key c"
    if "counter_made d" "bin_key_for_counter cd d = bin_key_for_counter cd c" for d
    using that assms(1,2) disk_key_inject [of d c] by (metis bin_key_for_counter_def option.inject)
  then show ?thesis
    using assms(2) counter_of_disk_key_made [OF assms(1,3,4)] all_variables_kept [OF assms(1), of "has_variable cel (limit c)"]
    by (auto simp: bin_partial_counter_from_counter_key_def bin_key_for_counter_def counter_key_def
        limit_key_forget) (simp_all add: forget_limit_def)
qed

theorem disk_key_round_trip_witness:
  "\<exists>c'. bin_partial_counter_from_counter_key sample_cel sample_codec (bin_key_for_counter sample_codec user_counter) =
      Some c' \<and> counter_key c' = counter_key user_counter"
proof -
  have pre: "\<forall>p\<in>set (conditions (limit user_counter)). predicate_parse sample_cel (predicate_source p) = Inr p"
    "\<forall>v\<in>set (variables (limit user_counter)). expression_parse sample_cel (source v) = Inr v"
    by (simp_all add: sample_defs expression_parse_def)
  have "\<forall>v\<in>set (variables (limit user_counter)). has_variable sample_cel (limit user_counter) (source v)"
    by (simp add: sample_defs has_variable_def expression_variables_def)
  with disk_key_round_trip [OF sample_made(2) sample_codec_key pre] show ?thesis by blast
qed

section \<open>The disk storage\<close>

text \<open>An expiring value written to disk is read back with the same value and its expiry cut to whole
  seconds, for every expiry a clock can show.\<close>

lemma disk_value_round_trip:
  assumes "ev_expiry v div 10 ^ 9 < 2 ^ 63"
  shows "length (ev_into_bytes v) = 16 \<and>
    ev_try_from (ev_into_bytes v) = Some (Inr (v\<lparr>ev_expiry := whole_secs (ev_expiry v)\<rparr>))"
  using ev_decode_encode [OF assms] by (simp add: ev_into_bytes_def)

lemma disk_value_round_trip_sample:
  "ev_try_from (ev_into_bytes \<lparr>ev_value = 42, ev_expiry = 1500000000\<rparr>) =
     Some (Inr \<lparr>ev_value = 42, ev_expiry = 1000000000\<rparr>)"
  using disk_value_round_trip [of "\<lparr>ev_value = 42, ev_expiry = 1500000000\<rparr>"] by (simp add: whole_secs_def)

text \<open>Updating the expiring value of the disk storage refines the same fixed window as the in-memory
  counter, with the clock itself as the time.\<close>

lemma disk_value_refines_window:
  assumes "\<forall>(t, d)\<in>set evs. ev_fits ttl t" and "unat (ev_value v) + delta_total evs < 2 ^ 64"
  shows "\<exists>v'. fold_panic (\<lambda>(t, d). ev_update d ttl t) evs v = Some v' \<and>
    \<lparr>ws_deadline = ev_expiry v', ws_total = unat (ev_value v')\<rparr> =
      fold (ws_step ttl) (map (\<lambda>(t, d). (t, unat d)) evs) \<lparr>ws_deadline = ev_expiry v, ws_total = unat (ev_value v)\<rparr>"
  using ew.run_refines [OF assms] unfolding ew.abs_def ew.events_def .

lemma disk_value_refines_window_sample:
  "\<exists>v'. fold_panic (\<lambda>(t, d). ev_update d 60 t) [(100, 1), (130, 2)] ev_default = Some v'"
proof -
  have "\<forall>(t, d)\<in>set [(100, 1), (130, 2)]. ev_fits 60 t" by (simp add: ev_fits_def systime_add_def)
  moreover have "unat (ev_value ev_default) + delta_total [(100, 1), (130, 2)] < 2 ^ 64"
    by (simp add: ev_default_def)
  ultimately show ?thesis using disk_value_refines_window by blast
qed

text \<open>C9: the limiter over the disk storage decides and counts like the one over memory: a checked update is
  admitted exactly when every counter has room, and then exactly its counters grow by the delta.\<close>

theorem disk_checked_update:
  assumes "counters_that_apply cel ns ctx rl = Some (Inr ctrs)"
    and "disk_ready db chain cd env ctrs delta (counters (storage rl))"
  defines "used \<equiv> \<lambda>st. disk_used chain cd env (counters (storage st))"
  shows "\<exists>r rl'. check_rate_limited_and_update (disk_storage db cel cd) cel env ns ctx delta rl = Some (Inr r, rl') \<and>
    (limited r \<longleftrightarrow> (\<exists>c\<in>set ctrs. counter_max_value c < saturating_add (used rl (counter_key c)) delta)) \<and>
    (\<forall>k. key_made k \<longrightarrow> used rl' k =
       used rl k + (if \<not> limited r \<and> k \<in> counter_key ` set ctrs then delta else 0)) \<and>
    limits (storage rl') = limits (storage rl)"
  using disk.limiter_check_and_update [OF assms(1,2)] by (simp add: used_def admits_def not_le)

theorem disk_checked_update_witness:
  "\<exists>r rl'. check_rate_limited_and_update (disk_storage sample_db sample_cel sample_codec) sample_cel (at 0) ''ns''
      sample_ctx 2 sample_disk_limiter = Some (Inr r, rl') \<and> \<not> limited r \<and>
    disk_used sample_chain sample_codec (at 0) (counters (storage rl')) (counter_key user_counter) = 2"
proof -
  have made: "key_made (counter_key user_counter)" by (simp add: key_made_counter sample_made)
  obtain r rl' where r: "check_rate_limited_and_update (disk_storage sample_db sample_cel sample_codec) sample_cel
        (at 0) ''ns'' sample_ctx 2 sample_disk_limiter = Some (Inr r, rl')"
      "limited r \<longleftrightarrow> (\<exists>c\<in>set [global_counter, user_counter]. counter_max_value c < saturating_add
        (disk_used sample_chain sample_codec (at 0) (counters (storage sample_disk_limiter)) (counter_key c)) 2)"
      "\<forall>k. key_made k \<longrightarrow> disk_used sample_chain sample_codec (at 0) (counters (storage rl')) k =
         disk_used sample_chain sample_codec (at 0) (counters (storage sample_disk_limiter)) k
         + (if \<not> limited r \<and> k \<in> counter_key ` set [global_counter, user_counter] then 2 else 0)"
    using disk_checked_update [OF sample_disk_counters sample_disk_ready]
    by (elim exE conjE) (rule that; assumption)
  have "\<not> limited r" using r(2) by (simp add: sample_disk_used sample_keys saturating_add_def)
  with r(1) r(3) [THEN spec, of "counter_key user_counter"] made show ?thesis by (auto simp: sample_disk_used)
qed

text \<open>Merge operands are folded at the time they are read.  Two writes of one window add up while the
  window is open; read after it has closed, the later write counts again in a window of its own, where
  the fixed window would have counted nothing.\<close>

lemma late_merge_recounts:
  assumes "ev_whole a" and "ev_whole b" and "t < ev_expiry a" and "ev_expiry a \<le> now" and "now < ev_expiry b"
  shows "\<exists>u v. ev_fold t None [ev_into_bytes a, ev_into_bytes b] = Some u \<and>
    ev_value u = ev_value a + ev_value b \<and> ev_value_at u now = 0 \<and>
    ev_fold now None [ev_into_bytes a, ev_into_bytes b] = Some v \<and> ev_value_at v now = ev_value b"
proof -
  from early_merge [OF assms(1-3)] assms(3) obtain u where
    "ev_fold t None [ev_into_bytes a, ev_into_bytes b] = Some u" "ev_value u = ev_value a + ev_value b"
    "ev_expiry u = ev_expiry a" by auto
  moreover from this(3) assms(4) have "ev_value_at u now = 0" by (simp add: ev_value_at_def)
  ultimately show ?thesis using late_merge [OF assms(1,2,4,5)] by blast
qed

lemma late_merge_recounts_sample:
  "\<exists>v. ev_fold 61000000000 None [ev_into_bytes \<lparr>ev_value = 1, ev_expiry = 60000000000\<rparr>,
      ev_into_bytes \<lparr>ev_value = 9, ev_expiry = 119000000000\<rparr>] = Some v \<and> ev_value_at v 61000000000 = 9"
  using late_merge_recounts [of "\<lparr>ev_value = 1, ev_expiry = 60000000000\<rparr>" "\<lparr>ev_value = 9, ev_expiry = 119000000000\<rparr>"
      59000000000 61000000000] by (auto simp: ev_whole_def whole_secs_def)

text \<open>Deleting one limit of a namespace panics on disk as soon as the namespace holds a counter of
  another limit: the scan expects every counter of the namespace to belong to one of the given limits.\<close>

lemma disk_delete_panics:
  assumes "db_prefix_iterator db (env_now env) (prefix_for_namespace cd (namespace l)) (disk_db s) =
      seen @ Inr (k, raw) # rest"
    and "\<forall>e\<in>set seen. \<exists>k raw v c. e = Inr (k, raw) \<and> ev_try_from raw = Some (Inr v) \<and>
      bin_partial_counter_from_counter_key cel cd k = Some c \<and> counter_namespace c = namespace l"
    and "bin_partial_counter_from_counter_key cel cd k = Some c" and "counter_namespace c = namespace l"
    and "limit_key (limit c) \<noteq> limit_key l"
  shows "disk_delete_counters db cel cd env [l] s = None"
proof -
  have "disk_scan cel cd (env_now env) [l] (namespace l) (seen @ Inr (k, raw) # rest) [] = None"
    using assms(5) by (intro disk_scan_panics [OF assms(2-4) bin_partial_fresh [OF assms(3)]]) simp
  then show ?thesis by (simp add: disk_delete_counters_def disk_get_counters_def assms(1))
qed

lemma disk_delete_panics_sample:
  "disk_delete_counters sample_db sample_cel sample_codec (at 0) [global_limit]
     \<lparr>disk_db = [(bin_key_for_counter sample_codec user_counter,
        None, [ev_into_bytes \<lparr>ev_value = 1, ev_expiry = 60000000000\<rparr>])], disk_reservations = []\<rparr> = None"
  (is "disk_delete_counters _ _ _ _ _ ?s = None")
proof -
  obtain raw where "db_prefix_iterator sample_db (env_now (at 0)) (prefix_for_namespace sample_codec (namespace global_limit))
      (disk_db ?s) = [] @ Inr (bin_key_for_counter sample_codec user_counter, raw) # []"
    by (simp add: sample_db_def sample_entries_def merge_operator_def ev_fold_def merge_pending_eq
        ev_or_default_def ev_decode_encode List.map_filter_simps)
  moreover have "\<forall>v\<in>set (variables (limit user_counter)). expression_parse sample_cel (source v) = Inr v"
    "\<forall>p\<in>set (conditions (limit user_counter)). predicate_parse sample_cel (predicate_source p) = Inr p"
    by (simp_all add: sample_defs expression_parse_def)
  note counter_of_disk_key_made [OF sample_made(2) this(2,1)]
  then obtain c where c: "bin_partial_counter_from_counter_key sample_cel sample_codec
      (bin_key_for_counter sample_codec user_counter) = Some c" "limit c = forget_limit user_limit"
    using sample_codec_key
    by (simp add: bin_partial_counter_from_counter_key_def bin_key_for_counter_def) (simp add: user_counter_def)
  moreover from c(2) have "counter_namespace c = namespace global_limit" "limit_key (limit c) \<noteq> limit_key global_limit"
    by (simp_all add: counter_namespace_def sample_keys) (simp add: forget_limit_def sample_defs)
  ultimately show ?thesis using disk_delete_panics [of sample_db "at 0" sample_codec global_limit ?s "[]"] by simp
qed

end
