(* ===== verification/ReplicationProperties.thy ===== *)
theory ReplicationProperties
  imports StorageSamples
begin

text \<open>
  The properties of the replicated counters, of the distributed storage and of the replication
  sessions, each with a witness.
\<close>

section \<open>Samples\<close>

definition sample_replica :: "string \<Rightarrow> u64 \<Rightarrow> cr_value" where
  "sample_replica who n =
     \<lparr>cr_ourselves = who, cr_max_value = 10, cr_own = n, cr_others = [], cr_expiry = \<lparr>expiry = 60000000\<rparr>\<rparr>"

definition sample_entry :: "string counter_entry" where
  "sample_entry = \<lparr>ce_key = ''k'', ce_counter = global_counter, ce_value = sample_replica ''a'' 3\<rparr>"

definition sample_queue :: send_queue where
  "sample_queue = queue_update ''k'' 0 queue_new"

lemma sample_replica_ok: "cr_wf (sample_replica who n)" "cr_live (sample_replica who n) 0"
  by (simp_all add: sample_replica_def cr_wf_def cr_live_def cr_expires_at_def expiry_expires_at_def from_micros_def)

section \<open>Replicated counters\<close>

text \<open>C10: replicas converge: two replicas that merged the same set of live states, their own included, in
  whatever order and however often each, read the same value at every instant.\<close>

theorem replicas_converge:
  assumes "cr_wf a" and "cr_live a w" and "cr_wf b" and "cr_live b w"
    and "\<forall>r\<in>set rs. cr_wf r \<and> cr_live r w" and "\<forall>r\<in>set qs. cr_wf r \<and> cr_live r w"
    and "set (a # rs) = set (b # qs)"
  shows "cr_read_at (fold (\<lambda>r. cr_merge_at r w) rs a) t = cr_read_at (fold (\<lambda>r. cr_merge_at r w) qs b) t"
  using assms by (rule cr_converge)

theorem replicas_converge_witness:
  "cr_read_at (cr_merge_at (sample_replica ''b'' 4) 0 (sample_replica ''a'' 3)) 0 =
   cr_read_at (cr_merge_at (sample_replica ''a'' 3) 0 (cr_merge_at (sample_replica ''a'' 3) 0 (sample_replica ''b'' 4))) 0"
  using replicas_converge [of "sample_replica ''a'' 3" 0 "sample_replica ''b'' 4" "[sample_replica ''b'' 4]"
      "[sample_replica ''a'' 3, sample_replica ''a'' 3]" 0]
  by (auto simp: sample_replica_ok)

text \<open>C32: when the window of a replica is over and it counts again, the counts it knows of the other nodes
  stay: what they counted in the window that ended is read as part of the new one.\<close>

theorem rollover_keeps_stale_counts:
  assumes "window_fits win w" and "0 < as_micros win" and "expired_at (cr_expiry v) w"
  shows "\<exists>v'. cr_inc_at d win w v = Some v' \<and> cr_read_at v w = 0 \<and>
    cr_read_at v' w = sum_list (map snd (cr_others v)) + d"
  using assms by (rule cr_read_inc_stale)

theorem rollover_keeps_stale_counts_witness:
  "\<exists>v'. cr_inc_at 1 1000000 70000000000 (sample_replica ''a'' 3\<lparr>cr_others := [(''b'', 9)]\<rparr>) = Some v' \<and>
     cr_read_at v' 70000000000 = 10"
  using rollover_keeps_stale_counts [of 1000000 70000000000 "sample_replica ''a'' 3\<lparr>cr_others := [(''b'', 9)]\<rparr>" 1]
  by (auto simp: window_fits_def since_epoch_def as_micros_def expired_at_def sample_replica_def)

section \<open>The distributed storage\<close>

text \<open>C11: on one node the limiter over the distributed storage decides and counts like the one over memory,
  for limits without an id, provided that no sum of a usage and the delta passes \<open>2 ^ 64\<close> (the code adds
  with a plain \<open>+\<close>), that the keys of the codec can be read back, and that the entry of a counter, where
  there is one, has the counter's window and no count of another node from a window that is over: such a
  count would come back with the first update of the new window.\<close>

theorem distributed_checked_update:
  fixes cd :: "'e codec" and now :: systime
  assumes "counters_that_apply cel ns ctx rl = Some (Inr ctrs)"
  defines "used \<equiv> \<lambda>st. cr_used cd now (counters (storage st))"
  assumes "\<forall>k. unpost_key cd (post_key cd k) = Some k"
    and "distinct (map counter_key ctrs)"
    and "\<forall>c\<in>set ctrs. counter_made c \<and> in_time now c \<and> counter_id c = None"
    and "\<forall>c\<in>set ctrs. unat (used rl (counter_key c)) + unat delta < 2 ^ 64"
    and "\<forall>c\<in>set ctrs. \<forall>e. map_of (cr_limits (counters (storage rl))) (v2_bytes cd (counter_key c)) = Some e \<longrightarrow>
      window (ce_counter e) = window c \<and>
      (expired_at (cr_expiry (ce_value e)) now \<longrightarrow> cr_others (ce_value e) = [])"
  shows "\<exists>r rl'. check_rate_limited_and_update (distributed_storage cel cd) cel now ns ctx delta rl = Some (Inr r, rl') \<and>
    (limited r \<longleftrightarrow> (\<exists>c\<in>set ctrs. counter_max_value c < saturating_add (used rl (counter_key c)) delta)) \<and>
    (\<forall>k. key_made k \<longrightarrow> used rl' k =
       used rl k + (if \<not> limited r \<and> k \<in> counter_key ` set ctrs then delta else 0)) \<and>
    limits (storage rl') = limits (storage rl)"
proof -
  have "cr_ready cd now ctrs delta (counters (storage rl))"
    using assms(3-7) by (simp add: cr_ready_def entry_ready_iff used_def)
  from distributed.limiter_check_and_update [OF assms(1) this] show ?thesis
    by (simp add: used_def admits_def not_le)
qed

theorem distributed_checked_update_witness:
  "\<exists>r rl'. check_rate_limited_and_update (distributed_storage sample_cel sample_codec) sample_cel 0 ''ns''
      sample_ctx 2 sample_node = Some (Inr r, rl') \<and> \<not> limited r \<and>
    cr_used sample_codec 0 (counters (storage rl')) (counter_key user_counter) = 2"
proof -
  let ?cs = "[global_counter, user_counter]"
  have made: "key_made (counter_key user_counter)" by (simp add: key_made_counter sample_made)
  have pre: "\<forall>k. unpost_key sample_codec (post_key sample_codec k) = Some k" "distinct (map counter_key ?cs)"
    "\<forall>c\<in>set ?cs. counter_made c \<and> in_time 0 c \<and> counter_id c = None"
    "\<forall>c\<in>set ?cs. unat (cr_used sample_codec 0 (counters (storage sample_node)) (counter_key c)) + unat (2 :: u64) < 2 ^ 64"
    "\<forall>c\<in>set ?cs. \<forall>e. map_of (cr_limits (counters (storage sample_node))) (v2_bytes sample_codec (counter_key c)) = Some e \<longrightarrow>
      window (ce_counter e) = window c \<and>
      (expired_at (cr_expiry (ce_value e)) 0 \<longrightarrow> cr_others (ce_value e) = [])"
    using sample_node_ready unfolding cr_ready_def entry_ready_iff by blast+
  obtain r rl' where r: "check_rate_limited_and_update (distributed_storage sample_cel sample_codec) sample_cel
        0 ''ns'' sample_ctx 2 sample_node = Some (Inr r, rl')"
      "limited r \<longleftrightarrow> (\<exists>c\<in>set [global_counter, user_counter]. counter_max_value c < saturating_add
        (cr_used sample_codec 0 (counters (storage sample_node)) (counter_key c)) 2)"
      "\<forall>k. key_made k \<longrightarrow> cr_used sample_codec 0 (counters (storage rl')) k =
         cr_used sample_codec 0 (counters (storage sample_node)) k
         + (if \<not> limited r \<and> k \<in> counter_key ` set [global_counter, user_counter] then 2 else 0)"
    using distributed_checked_update [OF sample_node_counters pre] by (elim exE conjE) (rule that; assumption)
  have "\<not> limited r" using r(2) by (simp add: sample_node_used sample_keys saturating_add_def)
  with r(1) r(3) [THEN spec, of "counter_key user_counter"] made show ?thesis by (auto simp: sample_node_used)
qed

text \<open>Deleting a limit that has variables removes only the counter whose variables are all empty; every
  other counter of the limit keeps counting.\<close>

lemma distributed_delete_keeps_counters:
  assumes "\<forall>k. unpost_key cd (post_key cd k) = Some k" and "limit_wf l" and "limit_id l = None"
    and "counter_new cel l (context_from (map (\<lambda>v. (source v, [])) (variables l))) = Inr (Some b)"
    and "key_made k" and "k \<noteq> counter_key b"
  shows "\<exists>s'. cr_delete_counters cel cd [l] s = Some (Inr (), s') \<and> cr_used cd now s' k = cr_used cd now s k"
  using assms by (rule cr_delete_only_blank)

lemma distributed_delete_keeps_counters_sample:
  "\<exists>s'. cr_delete_counters sample_cel sample_codec [user_limit] (counters (storage sample_node)) = Some (Inr (), s') \<and>
     cr_used sample_codec 0 s' (counter_key user_counter) =
       cr_used sample_codec 0 (counters (storage sample_node)) (counter_key user_counter)"
proof -
  let ?b = "user_counter\<lparr>set_variables := [(''user'', [])]\<rparr>"
  have l: "limit_wf user_limit" "limit_id user_limit = None" by (simp_all add: user_limit_def limit_new_def)
      (simp add: limit_wf_def btree_set_invariant)
  have b: "counter_new sample_cel user_limit (context_from (map (\<lambda>v. (source v, [])) (variables user_limit))) =
      Inr (Some ?b)"
    by (simp add: sample_defs counter_new_def resolve_variables_def eval_def resolve_def context_from_def
        context_new_def add_variable_from_value_def)
  have k: "key_made (counter_key user_counter)" "counter_key user_counter \<noteq> counter_key ?b"
    by (simp_all add: key_made_counter sample_made) (simp add: counter_key_def user_counter_def)
  from distributed_delete_keeps_counters [OF sample_codec_key l b k] show ?thesis by blast
qed

text \<open>C31: what the update that a re-synchronisation sends for a counter does to a node that has it.  The
  update says the sender's own count and the end of its window, cut to whole seconds.  As long as that
  instant is ahead, the receiver then has the larger of the two counts for the sender and its own counts
  for everybody else (none at all where its own window was over), and its window ends at the earlier
  of the two instants; after that instant the update is ignored.  No other entry changes, and nothing is
  published.\<close>

theorem re_sync_delivers_count:
  assumes "re_sync_update now k e = Some u" and "cr_ourselves (ce_value e) = a" and "a \<noteq> []"
    and "map_of (cr_limits s) k = Some f" and "cr_wf (ce_value f)"
  defines "end \<equiv> whole_secs (cr_expires_at (ce_value e))"
    and "over \<equiv> expired_at (cr_expiry (ce_value f)) now"
  shows "\<exists>s' v. on_counter_update now u s = Some s' \<and>
    map_of (cr_limits s') = (map_of (cr_limits s))(k \<mapsto> f\<lparr>ce_value := v\<rparr>) \<and>
    cr_identifier s' = cr_identifier s \<and> published s' = published s \<and>
    cr_ourselves v = cr_ourselves (ce_value f) \<and> cr_max_value v = cr_max_value (ce_value f) \<and>
    (if now < end then
       (\<forall>b. cr_count v b = max (if over then 0 else cr_count (ce_value f) b)
          (if b = a then cr_own (ce_value e) else 0)) \<and>
       cr_expires_at v = (if over then end else min (cr_expires_at (ce_value f)) end)
     else v = ce_value f)"
  using re_sync_delivers [OF assms(1-5)] by (simp only: end_def over_def)

theorem re_sync_delivers_count_witness:
  "\<exists>u s' f'. re_sync_update 0 ''k'' sample_entry = Some u \<and>
     on_counter_update 0 u (cr_storage_new ''b''\<lparr>cr_limits := [(''k'', sample_entry\<lparr>ce_value := sample_replica ''b'' 4\<rparr>)]\<rparr>) = Some s' \<and>
     map_of (cr_limits s') ''k'' = Some f' \<and> cr_count (ce_value f') ''a'' = 3 \<and> cr_count (ce_value f') ''b'' = 4"
proof -
  let ?f = "sample_entry\<lparr>ce_value := sample_replica ''b'' 4\<rparr>"
  let ?s = "cr_storage_new ''b''\<lparr>cr_limits := [(''k'', ?f)]\<rparr>"
  obtain u where u: "re_sync_update 0 ''k'' sample_entry = Some u"
    by (simp add: re_sync_update_def sample_entry_def sample_replica_def cr_local_values_def
        expiry_expires_at_def from_micros_def)
  have pre: "cr_ourselves (ce_value sample_entry) = ''a''" "''a'' \<noteq> []"
    "map_of (cr_limits ?s) ''k'' = Some ?f" "cr_wf (ce_value ?f)"
    using sample_replica_ok(1) by (simp_all add: sample_entry_def) (simp add: sample_replica_def)
  have ahead: "0 < whole_secs (cr_expires_at (ce_value sample_entry))"
    "\<not> expired_at (cr_expiry (ce_value ?f)) 0"
    using cr_live_not_expired [OF sample_replica_ok(2)]
    by (simp_all add: sample_entry_def)
      (simp add: sample_replica_def cr_expires_at_def expiry_expires_at_def from_micros_def whole_secs_def)
  have counts: "cr_count (ce_value ?f) ''a'' = 0" "cr_count (ce_value ?f) ''b'' = 4" "cr_own (ce_value sample_entry) = 3"
    by (simp_all add: sample_entry_def sample_replica_def cr_count_def)
  obtain s' v where s': "on_counter_update 0 u ?s = Some s'"
    "map_of (cr_limits s') = (map_of (cr_limits ?s))(''k'' \<mapsto> ?f\<lparr>ce_value := v\<rparr>)"
    "\<forall>b. cr_count v b = max (cr_count (ce_value ?f) b) (if b = ''a'' then cr_own (ce_value sample_entry) else 0)"
    using re_sync_delivers_count [OF u pre] ahead by (simp only: if_True if_False) blast
  have "map_of (cr_limits s') ''k'' = Some (?f\<lparr>ce_value := v\<rparr>)" using s'(2) by simp
  with u s'(1) s'(3) [THEN spec, of "''a''"] s'(3) [THEN spec, of "''b''"] counts show ?thesis by fastforce
qed

section \<open>Sessions\<close>

text \<open>C33: the queue of updates of a session never loses a key: as long as it is well formed, sending never
  panics, takes the keys from the front in order, sends what their counters hold at that moment except
  for those that have expired, and stops only when the channel is full or the queue is empty; the queue stays well formed.\<close>

theorem pending_updates_sent:
  assumes "queue_wf q"
  shows "queue_wf (queue_update k r q) \<and>
    (\<exists>gone q'. on_notified mem now room q = Some (sent_of mem now q gone, q') \<and> queue_wf q' \<and> \<not> notified q' \<and>
       tx_updates_order q = gone @ tx_updates_order q' \<and> length (sent_of mem now q gone) \<le> room \<and>
       (tx_updates_order q' = [] \<or> length (sent_of mem now q gone) = room))"
proof -
  let ?q = "q\<lparr>notified := False\<rparr>"
  have q: "queue_wf ?q" using assms by (simp add: queue_wf_def)
  have sent: "sent_of mem now ?q gone = sent_of mem now q gone" for gone
    by (intro sent_of_cong) (simp add: waiting_def)
  from send_pending_result [OF q, of mem now room] obtain gone q' where
    r: "send_pending mem now room ?q = Some (sent_of mem now q gone, q')" "queue_wf q'"
      "tx_updates_order q = gone @ tx_updates_order q'" "length (sent_of mem now q gone) \<le> room"
      "tx_updates_order q' = [] \<or> length (sent_of mem now q gone) = room"
    unfolding sent by auto
  from r(1) have "notified q' = notified ?q" by (rule send_pending_notified)
  with r queue_wf_update [OF assms] show ?thesis by (auto simp: on_notified_def)
qed

theorem pending_updates_sent_witness:
  "queue_wf sample_queue \<and> (\<exists>us q'. on_notified (\<lambda>_. sample_replica ''a'' 3) 0 1 sample_queue = Some (us, q') \<and> queue_wf q')"
proof -
  have "queue_wf sample_queue" by (simp add: sample_queue_def queue_new_def queue_wf_def queue_update_def)
  with pending_updates_sent [OF this, of "''k''" 1 "\<lambda>_. sample_replica ''a'' 3" 0 1] show ?thesis by blast
qed

text \<open>When the channel is full, what is left waits: an update of a key that already waits changes
  nothing and does not wake the sender, so that key is only sent after an update of some other key.\<close>

lemma full_channel_stalls:
  assumes "queue_wf q" and "k \<in> set (tx_updates_order q)" and "on_notified mem now 0 q = Some (us, q')"
  shows "us = [] \<and> \<not> notified q' \<and> k \<in> set (tx_updates_order q') \<and> queue_update k r q' = q'"
proof -
  have "us = [] \<and> q' = q\<lparr>notified := False\<rparr>"
    using assms(3) by (auto simp: on_notified_def send_pending.simps [of _ _ 0] split: list.splits)
  moreover have "queue_wf (q\<lparr>notified := False\<rparr>)" using assms(1) by (simp add: queue_wf_def)
  ultimately show ?thesis using assms(2) queue_update_waiting [of k q'] by simp
qed

lemma full_channel_stalls_sample:
  "\<exists>q'. on_notified (\<lambda>_. sample_replica ''a'' 3) 0 0 sample_queue = Some ([], q') \<and> \<not> notified q' \<and> tx_updates_order q' = [''k'']"
proof -
  have wf: "queue_wf sample_queue" "''k'' \<in> set (tx_updates_order sample_queue)"
    by (simp_all add: sample_queue_def queue_new_def queue_wf_def queue_update_def)
  obtain q' where r: "on_notified (\<lambda>_. sample_replica ''a'' 3) 0 0 sample_queue = Some ([], q')" "tx_updates_order q' = [''k'']"
    by (simp add: on_notified_def send_pending.simps sample_queue_def queue_new_def queue_update_def)
  from full_channel_stalls [OF wf r(1)] r show ?thesis by blast
qed

end
