(* ===== verification/Sessions.thy ===== *)
theory Sessions
  imports Replication
begin

text \<open>
  The broker of a node: the rest of \<^verbatim>\<open>limitador/src/storage/distributed/grpc/mod.rs\<close>.  A node dials its
  peers and accepts their streams; after the handshake every session runs as a task of its own, which
  exchanges counters with the peer until its stream ends.  The operations are functions on the state
  of the node, and \<open>node_step\<close> is one atomic piece of work of one of its tasks.

  The table of peers is behind a lock: the handshake reads and changes it in one critical section and
  is one step here.  What comes from outside is an argument: what an incoming stream yields, whether a
  channel has room, what the re-sync channel answers, the clock, the outcome of dialling a peer.
\<close>

section \<open>Is an error a disconnect?\<close>

text \<open>What \<^verbatim>\<open>downcast_ref\<close> and \<^verbatim>\<open>source\<close> tell of an error: its type, and the error that caused it.\<close>

datatype io_kind = BrokenPipe | OtherIo

datatype err_type = StatusErr | IoErr io_kind | H2Err "io_kind option" | OtherErr

datatype err = Err (err_type: err_type) (err_source: "err option")

text \<open>The loop looks at \<^verbatim>\<open>err\<close> in every round: \<^verbatim>\<open>err.source()?\<close> leaves it when there is no source, and does
  not move on to the source when there is one.\<close>

partial_function (option) match_for_io_error :: "err \<Rightarrow> io_kind option option" where
  "match_for_io_error e =
     (case err_type e of
        IoErr k \<Rightarrow> Some (Some k)
      | H2Err (Some k) \<Rightarrow> Some (Some k)
      | _ \<Rightarrow> (case err_source e of None \<Rightarrow> Some None | Some _ \<Rightarrow> match_for_io_error e))"

definition is_disconnect :: "err \<Rightarrow> bool option" where
  "is_disconnect e = do {
     k \<leftarrow> match_for_io_error e;
     Some (k = Some BrokenPipe)
   }"

section \<open>State of a node\<close>

text \<open>A task is lost when it panicked or never returns from a call: it handles nothing any more, and the
  end of \<^verbatim>\<open>process\<close> and \<^verbatim>\<open>close\<close> are not reached.\<close>

datatype run = Starting | Running send_queue | Lost

text \<open>The task that reconnects: between two rounds, in a round with the peers that are left and their urls, or
  over after a panic.\<close>

datatype reconnecting = Asleep | Dialling "(string \<times> string list) list" | Dead

record ('n, 'e) node =
  nd_id :: string
  nd_dialling :: "string list"
  nd_reconnecting :: reconnecting
  nd_repl :: replication_state
  nd_net :: 'n
  nd_next :: nat
  nd_runs :: "(session \<times> run) list"
  nd_requests :: "session list"
  nd_store :: "'e cr_storage"

definition broker_new :: "string \<Rightarrow> string list \<Rightarrow> 'n \<Rightarrow> 'e cr_storage \<Rightarrow> ('n, 'e) node" where
  "broker_new ident peer_urls net s =
     \<lparr>nd_id = ident, nd_dialling = peer_urls, nd_reconnecting = Asleep, nd_repl = \<lparr>rs_urls = [], rs_trackers = []\<rparr>, nd_net = net,
      nd_next = 0, nd_runs = [], nd_requests = [], nd_store = s\<rparr>"

section \<open>Setting up a session\<close>

text \<open>One attempt to set up a session: the error of connecting or of opening the stream, if any, the first
  two items of the incoming stream, and the clock before and after the exchange.\<close>

record dial =
  dl_connect :: "string option"
  dl_stream :: "status option"
  dl_first :: incoming
  dl_second :: incoming
  dl_start :: systime
  dl_end :: systime

definition already_exists :: status where
  "already_exists = \<lparr>code = AlreadyExists, status_msg = ''session''\<rparr>"

definition greet :: "'n put \<Rightarrow> message_sender \<Rightarrow> string option \<Rightarrow> dial \<Rightarrow> ('n, 'e) node \<Rightarrow>
   (status + hello \<times> u64) \<times> ('n, 'e) node" where
  "greet put out peer_url d nd =
     (let (r, net) = sender_send put out (Inr (HelloMsg
           \<lparr>sender_peer_id = nd_id nd, sender_urls = rs_urls (nd_repl nd), receiver_url = peer_url\<rparr>)) (nd_net nd);
          nd = nd\<lparr>nd_net := net\<rparr>
      in case r of Inl e \<Rightarrow> (Inl e, nd) | Inr _ \<Rightarrow>
        (case is_hello (dl_first d) of Inl e \<Rightarrow> (Inl e, nd) | Inr h \<Rightarrow>
          let (r, net) = sender_send put out (Inr (Pong (of_nat (as_millis (dl_start d))))) net;
              nd = nd\<lparr>nd_net := net\<rparr>
          in case r of Inl e \<Rightarrow> (Inl e, nd) | Inr _ \<Rightarrow>
            (case is_pong (dl_second d) of Inl e \<Rightarrow> (Inl e, nd) | Inr t \<Rightarrow> (Inr (h, t), nd))))"

text \<open>\<^verbatim>\<open>Broker::handshake\<close>.  The result \<open>None\<close> is a panic, which ends the task that called it; the node is
  left with what was done before.\<close>

definition broker_handshake ::
  "(duration \<Rightarrow> duration) \<Rightarrow> 'n put \<Rightarrow> message_sender \<Rightarrow> string option \<Rightarrow> dial \<Rightarrow> ('n, 'e) node \<Rightarrow>
   (status + session option) option \<times> ('n, 'e) node" where
  "broker_handshake half put out peer_url d nd =
     (case greet put out peer_url d nd of
        (Inl e, nd) \<Rightarrow> (Some (Inl e), nd)
      | (Inr (h, pong), nd) \<Rightarrow>
          let ss = \<lparr>ss_peer_id = sender_peer_id h, ss_out = out\<rparr>
          in case handshake half (nd_id nd) h pong (dl_start d) (dl_end d) peer_url ss (nd_repl nd) of
               None \<Rightarrow> (None, nd\<lparr>nd_repl := learn_url h (nd_repl nd)\<rparr>)
             | Some ((kept, closed), st) \<Rightarrow>
                 let net = (case closed of
                     Some c \<Rightarrow> snd (sender_send put (ss_out c) (Inl already_exists) (nd_net nd))
                   | None \<Rightarrow> nd_net nd)
                 in (Some (Inr kept), nd\<lparr>nd_repl := st, nd_net := net\<rparr>))"

definition spawn :: "session \<Rightarrow> ('n, 'e) node \<Rightarrow> ('n, 'e) node" where
  "spawn ss nd = nd\<lparr>nd_runs := (ss, Starting) # nd_runs nd\<rparr>"

text \<open>\<^verbatim>\<open>connect_to_peer\<close>: the channel of the new stream gets the next number.\<close>

definition connect_to_peer ::
  "(duration \<Rightarrow> duration) \<Rightarrow> 'n put \<Rightarrow> dial \<Rightarrow> string \<Rightarrow> ('n, 'e) node \<Rightarrow>
   (status + unit) option \<times> ('n, 'e) node" where
  "connect_to_peer half put d peer_url nd =
     (case dl_connect d of
        Some e \<Rightarrow> (Some (Inl \<lparr>code = Unknown, status_msg = e\<rparr>), nd)
      | None \<Rightarrow>
          let out = ClientSender (nd_next nd);
              nd = nd\<lparr>nd_next := Suc (nd_next nd)\<rparr>
          in case dl_stream d of
               Some e \<Rightarrow> (Some (Inl e), nd)
             | None \<Rightarrow>
                 (case broker_handshake half put out (Some peer_url) d nd of
                    (None, nd) \<Rightarrow> (None, nd)
                  | (Some (Inl e), nd) \<Rightarrow> (Some (Inl e), nd)
                  | (Some (Inr None), nd) \<Rightarrow> (Some (Inr ()), nd)
                  | (Some (Inr (Some ss)), nd) \<Rightarrow> (Some (Inr ()), spawn ss nd)))"

text \<open>\<^verbatim>\<open>Replication::stream\<close>: the other side dialled.  The task is over when there is no session to go on with.\<close>

definition accept_stream ::
  "(duration \<Rightarrow> duration) \<Rightarrow> 'n put \<Rightarrow> dial \<Rightarrow> ('n, 'e) node \<Rightarrow> ('n, 'e) node" where
  "accept_stream half put d nd =
     (let out = ServerSender (nd_next nd);
          nd = nd\<lparr>nd_next := Suc (nd_next nd)\<rparr>
      in case broker_handshake half put out None d nd of
           (Some (Inr (Some ss)), nd) \<Rightarrow> spawn ss nd
         | (_, nd) \<Rightarrow> nd)"

text \<open>One round of the loop that \<^verbatim>\<open>start\<close> spawns for a configured url: it goes on while connecting fails.\<close>

definition dial_configured ::
  "(duration \<Rightarrow> duration) \<Rightarrow> 'n put \<Rightarrow> dial \<Rightarrow> string \<Rightarrow> ('n, 'e) node \<Rightarrow> ('n, 'e) node" where
  "dial_configured half put d url nd =
     (case connect_to_peer half put d url nd of
        (Some (Inl _), nd) \<Rightarrow> nd
      | (_, nd) \<Rightarrow> nd\<lparr>nd_dialling := remove1 url (nd_dialling nd)\<rparr>)"

text \<open>The task of \<^verbatim>\<open>start\<close> that calls \<^verbatim>\<open>reconnect_to_failed_peers\<close> again and again, up to its next attempt to
  connect: a new round takes the failed peers of now; an attempt that fails goes on with the next url of the
  peer, one that succeeds with the next peer; a panic ends the task.\<close>

definition reconnect_to_failed_peers ::
  "(duration \<Rightarrow> duration) \<Rightarrow> 'n put \<Rightarrow> dial \<Rightarrow> ('n, 'e) node \<Rightarrow> ('n, 'e) node" where
  "reconnect_to_failed_peers half put d nd =
     (case nd_reconnecting nd of
        Asleep \<Rightarrow> nd\<lparr>nd_reconnecting := Dialling (failed_peers (nd_repl nd))\<rparr>
      | Dialling [] \<Rightarrow> nd\<lparr>nd_reconnecting := Asleep\<rparr>
      | Dialling ((_, []) # peers) \<Rightarrow> nd\<lparr>nd_reconnecting := Dialling peers\<rparr>
      | Dialling ((p, url # us) # peers) \<Rightarrow>
          (case connect_to_peer half put d url nd of
             (None, nd) \<Rightarrow> nd\<lparr>nd_reconnecting := Dead\<rparr>
           | (Some (Inr _), nd) \<Rightarrow> nd\<lparr>nd_reconnecting := Dialling peers\<rparr>
           | (Some (Inl _), nd) \<Rightarrow> nd\<lparr>nd_reconnecting := Dialling ((p, us) # peers)\<rparr>)
      | Dead \<Rightarrow> nd)"

section \<open>A running session\<close>

text \<open>How a piece of work of a session leaves it: going on, with the queue; at the end of \<^verbatim>\<open>process\<close>, with
  its result; or not at all.\<close>

datatype progress = Goes send_queue | Ends "status + unit" | Hangs

datatype try_send = Sent | Full | Closed

text \<open>\<^verbatim>\<open>process\<close> up to its loop.\<close>

definition session_begin ::
  "'n put \<Rightarrow> try_send \<Rightarrow> session \<Rightarrow> ('n, 'e) node \<Rightarrow> progress \<times> ('n, 'e) node" where
  "session_begin put re_sync ss nd =
     (let (r, net) = sender_send put (ss_out ss) (Inr (MembershipUpdate (rs_peers (nd_repl nd)))) (nd_net nd);
          nd = nd\<lparr>nd_net := net\<rparr>
      in case r of
           Inl e \<Rightarrow> (Ends (Inl e), nd)
         | Inr _ \<Rightarrow>
             (case re_sync of
                Full \<Rightarrow> (Ends (Inl \<lparr>code = ResourceExhausted, status_msg = ''re-sync channel full''\<rparr>), nd)
              | Closed \<Rightarrow> (Ends (Inl \<lparr>code = Unavailable, status_msg = ''re-sync channel closed''\<rparr>), nd)
              | Sent \<Rightarrow> (Goes queue_new, nd\<lparr>nd_requests := nd_requests nd @ [ss]\<rparr>)))"

text \<open>The branches of \<^verbatim>\<open>select!\<close>.  \<open>Broadcast None\<close>: the broadcast was closed or the session lags behind.\<close>

datatype select_event =
    Broadcast "(bytes \<times> entry_ref) option"
  | Notified "entry_ref \<Rightarrow> cr_value" systime nat
  | Incoming systime "(err \<times> status + message option) option"

definition session_event ::
  "'n put \<Rightarrow> select_event \<Rightarrow> session \<Rightarrow> send_queue \<Rightarrow> ('n, 'e) node \<Rightarrow> progress \<times> ('n, 'e) node" where
  "session_event put ev ss q nd =
     (case ev of
        Broadcast None \<Rightarrow> (Ends (Inl \<lparr>code = Unknown, status_msg = ''broadcast error''\<rparr>), nd)
      | Broadcast (Some (k, r)) \<Rightarrow> (Goes (queue_update k r q), nd)
      | Notified mem now room \<Rightarrow>
          if notified q then
            (case on_notified mem now room q of
               None \<Rightarrow> (Hangs, nd)
             | Some (us, q) \<Rightarrow>
                 (Goes q, nd\<lparr>nd_net :=
                    fold (\<lambda>u net. snd (permit_send put (ss_out ss) (Inr (CounterUpdateMsg u)) net)) us (nd_net nd)\<rparr>))
          else (Goes q, nd)
      | Incoming now None \<Rightarrow> (Ends (Inr ()), nd)
      | Incoming now (Some (Inr packet)) \<Rightarrow>
          (case process_packet put ss now packet (nd_net nd, nd_repl nd, nd_store nd) of
             None \<Rightarrow> (Hangs, nd)
           | Some (r, net, st, s) \<Rightarrow>
               (case r of Inr _ \<Rightarrow> Goes q | Inl e \<Rightarrow> Ends (Inl e),
                nd\<lparr>nd_net := net, nd_repl := st, nd_store := s\<rparr>))
      | Incoming now (Some (Inl (e, st))) \<Rightarrow>
          (case is_disconnect e of
             None \<Rightarrow> (Hangs, nd)
           | Some True \<Rightarrow> (Ends (Inr ()), nd)
           | Some False \<Rightarrow> (Ends (Inl st), nd)))"

text \<open>The task of a session: \<^verbatim>\<open>process\<close>, and \<^verbatim>\<open>close\<close> when it returns.\<close>

definition settle :: "session \<Rightarrow> progress \<times> ('n, 'e) node \<Rightarrow> ('n, 'e) node" where
  "settle ss = (\<lambda>(p, nd).
     case p of
       Goes q \<Rightarrow> nd\<lparr>nd_runs := AList.update ss (Running q) (nd_runs nd)\<rparr>
     | Ends _ \<Rightarrow> nd\<lparr>nd_runs := AList.delete ss (nd_runs nd), nd_repl := session_close (ss_peer_id ss) (nd_repl nd)\<rparr>
     | Hangs \<Rightarrow> nd\<lparr>nd_runs := AList.update ss Lost (nd_runs nd)\<rparr>)"

definition run_begin :: "'n put \<Rightarrow> try_send \<Rightarrow> session \<Rightarrow> ('n, 'e) node \<Rightarrow> ('n, 'e) node" where
  "run_begin put re_sync ss nd =
     (if map_of (nd_runs nd) ss = Some Starting then settle ss (session_begin put re_sync ss nd) else nd)"

definition run_event :: "'n put \<Rightarrow> select_event \<Rightarrow> session \<Rightarrow> ('n, 'e) node \<Rightarrow> ('n, 'e) node" where
  "run_event put ev ss nd =
     (case map_of (nd_runs nd) ss of
        Some (Running q) \<Rightarrow> settle ss (session_event put ev ss q nd)
      | _ \<Rightarrow> nd)"

section \<open>Re-synchronisation\<close>

text \<open>The task between the storage and the stream: it forwards the updates until a send fails, and says when
  the last one is sent.  The state is whether the task still receives, and the channels.\<close>

definition re_sync_forward ::
  "'n put \<Rightarrow> message_sender \<Rightarrow> bool \<times> 'n \<Rightarrow> counter_update option \<Rightarrow> bool \<times> bool \<times> 'n" where
  "re_sync_forward put out = (\<lambda>(up, net) m.
     if up then
       (case m of
          Some u \<Rightarrow>
            let (r, net) = sender_send put out (Inr (CounterUpdateMsg u)) net
            in (True, (case r of Inr _ \<Rightarrow> True | Inl _ \<Rightarrow> False), net)
        | None \<Rightarrow> (True, True, snd (sender_send put out (Inr ReSyncEnd) net)))
     else (False, False, net))"

text \<open>The loop of the storage over the requests.\<close>

definition serve_re_sync :: "'n put \<Rightarrow> systime \<Rightarrow> ('n, 'e) node \<Rightarrow> ('n, 'e) node" where
  "serve_re_sync put now nd =
     (case nd_requests nd of
        [] \<Rightarrow> nd
      | ss # rest \<Rightarrow>
          let (_, net) = process_re_sync (re_sync_forward put (ss_out ss)) now (nd_store nd) (True, nd_net nd)
          in nd\<lparr>nd_requests := rest, nd_net := net\<rparr>)"

section \<open>The steps of a node\<close>

text \<open>\<open>local\<close>: the limiter of the node used its counters.\<close>

inductive node_step :: "(duration \<Rightarrow> duration) \<Rightarrow> 'n put \<Rightarrow> ('n, 'e) node \<Rightarrow> ('n, 'e) node \<Rightarrow> bool"
  for half :: "duration \<Rightarrow> duration" and put :: "'n put" where
  configured: "url \<in> set (nd_dialling nd) \<Longrightarrow> node_step half put nd (dial_configured half put d url nd)"
| accept: "node_step half put nd (accept_stream half put d nd)"
| reconnect: "node_step half put nd (reconnect_to_failed_peers half put d nd)"
| session_begins: "node_step half put nd (run_begin put re_sync ss nd)"
| session_works: "node_step half put nd (run_event put ev ss nd)"
| re_sync: "node_step half put nd (serve_re_sync put now nd)"
| local: "node_step half put nd (nd\<lparr>nd_store := s\<rparr>)"

inductive_cases node_stepE: "node_step half put nd nd'"

definition node_steps :: "(duration \<Rightarrow> duration) \<Rightarrow> 'n put \<Rightarrow> ('n, 'e) node \<Rightarrow> ('n, 'e) node \<Rightarrow> bool" where
  "node_steps half put = (node_step half put)\<^sup>*\<^sup>*"

section \<open>Disconnects\<close>

lemma match_for_io_error_returns:
  "match_for_io_error e = Some r \<Longrightarrow> err_type e = StatusErr \<longrightarrow> err_source e = None \<and> r = None"
  by (erule match_for_io_error.raw_induct [rotated]) (auto split: option.splits err_type.splits)

text \<open>The errors of a stream are statuses.  The loop never finds the I/O error behind one: it ends only for
  a status without a source.\<close>

lemma is_disconnect_status:
  "is_disconnect (Err StatusErr src) = (case src of None \<Rightarrow> Some False | Some _ \<Rightarrow> None)"
proof (cases src)
  case None
  then show ?thesis by (simp add: is_disconnect_def match_for_io_error.simps [of "Err StatusErr None"])
next
  case (Some e)
  then have "match_for_io_error (Err StatusErr src) = None"
    using match_for_io_error_returns [of "Err StatusErr src"] by (cases "match_for_io_error (Err StatusErr src)") auto
  with Some show ?thesis by (simp add: is_disconnect_def)
qed

section \<open>The sessions in the table of peers\<close>

definition tracked :: "replication_state \<Rightarrow> string \<Rightarrow> session option" where
  "tracked st p = Option.bind (map_of (rs_trackers st) p) pt_session"

definition trackers_wf :: "replication_state \<Rightarrow> bool" where
  "trackers_wf st \<longleftrightarrow> distinct (map fst (rs_trackers st)) \<and> (\<forall>p t. map_of (rs_trackers st) p = Some t \<longrightarrow> pt_peer_id t = p)"

lemma tracked_close [simp]: "tracked (session_close p st) = (tracked st)(p := None)"
  by (rule ext) (auto simp: tracked_def session_close_def assoc_simps split: option.split bind_splits)

lemma tracked_learn [simp]: "tracked (learn_peer q st) = tracked st"
  by (rule ext) (auto simp: tracked_def learn_peer_def assoc_simps split: option.split bind_splits)

lemma tracked_learns [simp]: "tracked (fold learn_peer qs st) = tracked st"
  by (induction qs arbitrary: st) simp_all

text \<open>The handshake changes one tracker.\<close>

lemma handshake_tracker:
  assumes "handshake half me h pong start fin url ss st = Some ((kept, closed), st')"
  defines "p \<equiv> sender_peer_id h"
  shows "\<exists>t. rs_trackers st' = AList.update p t (rs_trackers st) \<and>
    pt_peer_id t = (case map_of (rs_trackers st) p of Some t \<Rightarrow> pt_peer_id t | None \<Rightarrow> p) \<and>
    pt_session t = (case kept of Some ss \<Rightarrow> Some ss | None \<Rightarrow> tracked st p)"
    and "kept = (if tracked st p = None \<or> p < me then Some ss else None)"
  using assms
  by (auto simp: handshake_def Let_def tracked_def split: option.splits if_splits bind_splits)

lemma tracked_handshake:
  assumes "handshake half me h pong start fin url ss st = Some ((kept, closed), st')"
  shows "tracked st' = (case kept of Some ss \<Rightarrow> (tracked st)(sender_peer_id h := Some ss) | None \<Rightarrow> tracked st)"
  using handshake_tracker(1) [OF assms]
  by (auto simp: tracked_def fun_eq_iff assoc_simps split: option.split)

lemma trackers_wf_close: "trackers_wf st \<Longrightarrow> trackers_wf (session_close p st)"
  by (auto simp: trackers_wf_def session_close_def assoc_simps simp del: map_of_eq_Some_iff split: if_splits)

lemma trackers_wf_learn: "trackers_wf st \<Longrightarrow> trackers_wf (learn_peer q st)"
  by (auto simp: trackers_wf_def learn_peer_def distinct_update assoc_simps simp del: map_of_eq_Some_iff split: option.split if_splits)

lemma trackers_wf_learns: "trackers_wf st \<Longrightarrow> trackers_wf (fold learn_peer qs st)"
  by (induction qs arbitrary: st) (simp_all add: trackers_wf_learn)

lemma trackers_wf_handshake:
  assumes "handshake half me h pong start fin url ss st = Some ((kept, closed), st')" "trackers_wf st"
  shows "trackers_wf st'"
  using handshake_tracker(1) [OF assms(1)] assms(2)
  by (auto simp: trackers_wf_def distinct_update assoc_simps simp del: map_of_eq_Some_iff split: option.splits if_splits)

section \<open>What a step may change\<close>

text \<open>A step of the broker leaves the sessions as they are, or adds one with a stream of its own.\<close>

inductive joins :: "('n, 'e) node \<Rightarrow> ('n, 'e) node \<Rightarrow> bool" where
  stays: "nd_id nd' = nd_id nd \<Longrightarrow> nd_runs nd' = nd_runs nd \<Longrightarrow> nd_next nd \<le> nd_next nd' \<Longrightarrow>
    tracked (nd_repl nd') = tracked (nd_repl nd) \<Longrightarrow> trackers_wf (nd_repl nd) \<longrightarrow> trackers_wf (nd_repl nd') \<Longrightarrow>
    joins nd nd'"
| joined: "nd_id nd' = nd_id nd \<Longrightarrow> nd_runs nd' = (ss, Starting) # nd_runs nd \<Longrightarrow> nd_next nd' = Suc (nd_next nd) \<Longrightarrow>
    tracked (nd_repl nd') = (tracked (nd_repl nd))(ss_peer_id ss := Some ss) \<Longrightarrow>
    trackers_wf (nd_repl nd) \<longrightarrow> trackers_wf (nd_repl nd') \<Longrightarrow> sender_no (ss_out ss) = nd_next nd \<Longrightarrow>
    tracked (nd_repl nd) (ss_peer_id ss) = None \<or> ss_peer_id ss < nd_id nd \<Longrightarrow> joins nd nd'"

lemma greet_frame: "greet put out url d nd = (r, nd') \<Longrightarrow> \<exists>net. nd' = nd\<lparr>nd_net := net\<rparr>"
  by (auto simp: greet_def Let_def split: prod.splits sum.splits)

lemma tracked_learn_url [simp]: "tracked (learn_url h st) = tracked st" "trackers_wf (learn_url h st) = trackers_wf st"
  by (simp_all add: tracked_def fun_eq_iff trackers_wf_def)

lemma broker_handshake_frame:
  assumes "broker_handshake half put out url d nd = (r, nd')"
  shows "\<exists>net st. nd' = nd\<lparr>nd_repl := st, nd_net := net\<rparr> \<and> (trackers_wf (nd_repl nd) \<longrightarrow> trackers_wf st) \<and>
    (case r of
       Some (Inr (Some ss)) \<Rightarrow> ss_out ss = out \<and> tracked st = (tracked (nd_repl nd))(ss_peer_id ss := Some ss) \<and>
         (tracked (nd_repl nd) (ss_peer_id ss) = None \<or> ss_peer_id ss < nd_id nd)
     | _ \<Rightarrow> tracked st = tracked (nd_repl nd))"
proof -
  obtain g nd1 where g: "greet put out url d nd = (g, nd1)" by fastforce
  from greet_frame [OF g] obtain net where nd1: "nd1 = nd\<lparr>nd_net := net\<rparr>" by blast
  show ?thesis
  proof (cases g)
    case (Inl e)
    with assms g nd1 show ?thesis by (auto simp: broker_handshake_def intro!: exI [of _ net] exI [of _ "nd_repl nd"])
  next
    case (Inr hp)
    obtain h pong where hp: "hp = (h, pong)" by fastforce
    let ?ss = "\<lparr>ss_peer_id = sender_peer_id h, ss_out = out\<rparr>"
    let ?hs = "handshake half (nd_id nd) h pong (dl_start d) (dl_end d) url ?ss (nd_repl nd)"
    show ?thesis
    proof (cases ?hs)
      case None
      with assms g nd1 Inr hp show ?thesis
        by (auto simp: broker_handshake_def Let_def intro!: exI [of _ net] exI [of _ "learn_url h (nd_repl nd)"])
    next
      case (Some kcst)
      obtain kept closed st where hs: "?hs = Some ((kept, closed), st)" using Some by (cases kcst) auto
      from assms g nd1 Inr hp hs obtain net' where r: "r = Some (Inr kept)" "nd' = nd\<lparr>nd_repl := st, nd_net := net'\<rparr>"
        by (auto simp: broker_handshake_def Let_def)
      from hs trackers_wf_handshake [OF hs] tracked_handshake [OF hs] handshake_tracker(2) [OF hs] r
      show ?thesis by (intro exI [of _ net'] exI [of _ st]) (auto split: if_splits)
    qed
  qed
qed

lemma joins_handshake:
  assumes "broker_handshake half put out url d (nd\<lparr>nd_next := Suc (nd_next nd)\<rparr>) = (r, nd')"
    and "sender_no out = nd_next nd"
  shows "joins nd (case r of Some (Inr (Some ss)) \<Rightarrow> spawn ss nd' | _ \<Rightarrow> nd')"
proof (cases "\<exists>ss. r = Some (Inr (Some ss))")
  case True
  then obtain ss where "r = Some (Inr (Some ss))" by blast
  with broker_handshake_frame [OF assms(1)] assms(2) show ?thesis
    by (auto intro!: joins.joined simp: spawn_def)
next
  case False
  with broker_handshake_frame [OF assms(1)] show ?thesis
    by (auto intro!: joins.stays split: sum.splits option.splits)
qed

lemma joins_connect:
  assumes "connect_to_peer half put d url nd = (r, nd')"
  shows "joins nd nd'"
proof (cases "dl_connect d = None \<and> dl_stream d = None")
  case True
  obtain r1 nd1 where h:
    "broker_handshake half put (ClientSender (nd_next nd)) (Some url) d (nd\<lparr>nd_next := Suc (nd_next nd)\<rparr>) = (r1, nd1)"
    by fastforce
  with assms True have "nd' = (case r1 of Some (Inr (Some ss)) \<Rightarrow> spawn ss nd1 | _ \<Rightarrow> nd1)"
    by (auto simp: connect_to_peer_def Let_def split: sum.splits option.splits)
  with joins_handshake [OF h] show ?thesis by simp
next
  case False
  with assms show ?thesis
    by (auto simp: connect_to_peer_def Let_def intro!: joins.stays split: option.splits)
qed

lemma joins_accept: "joins nd (accept_stream half put d nd)"
proof -
  obtain r1 nd1 where h:
    "broker_handshake half put (ServerSender (nd_next nd)) None d (nd\<lparr>nd_next := Suc (nd_next nd)\<rparr>) = (r1, nd1)"
    by fastforce
  then have "accept_stream half put d nd = (case r1 of Some (Inr (Some ss)) \<Rightarrow> spawn ss nd1 | _ \<Rightarrow> nd1)"
    by (auto simp: accept_stream_def Let_def split: sum.splits option.splits)
  with joins_handshake [OF h] show ?thesis by simp
qed

lemma joins_tasks:
  "joins nd (nd\<lparr>nd_reconnecting := r\<rparr>)" "joins nd1 nd2 \<Longrightarrow> joins nd1 (nd2\<lparr>nd_reconnecting := r\<rparr>)"
  "joins nd1 nd2 \<Longrightarrow> joins nd1 (nd2\<lparr>nd_dialling := us\<rparr>)"
  by (auto intro: joins.stays elim!: joins.cases intro: joins.joined)

lemma joins_reconnect: "joins nd (reconnect_to_failed_peers half put d nd)"
proof -
  have "joins nd (snd (connect_to_peer half put d url nd))" for url
    by (rule joins_connect [of half put d url nd "fst (connect_to_peer half put d url nd)"]) simp
  note c = joins_tasks(2) [OF this]
  have "joins nd nd" by (rule joins.stays) simp_all
  with c show ?thesis
    by (auto simp: reconnect_to_failed_peers_def joins_tasks(1)
        split: reconnecting.split list.split prod.split option.split sum.split) (metis snd_conv)+
qed

lemma joins_configured: "joins nd (dial_configured half put d url nd)"
proof -
  obtain r nd1 where c: "connect_to_peer half put d url nd = (r, nd1)" by fastforce
  with joins_connect [OF c] joins_tasks(3) [OF joins_connect [OF c]] show ?thesis
    by (simp add: dial_configured_def split: option.split sum.split)
qed

text \<open>The work of a running session: what it changes before the task settles.\<close>

lemma queue_wf_new: "queue_wf queue_new"
  by (simp add: queue_wf_def queue_new_def)

lemma session_begin_frame:
  assumes "session_begin put a ss nd = (p, nd')"
  shows "joins nd nd'" "nd_runs nd' = nd_runs nd" "p = Goes q \<longrightarrow> queue_wf q"
  using assms queue_wf_new
  by (auto simp: session_begin_def Let_def intro!: joins.stays split: prod.splits sum.splits try_send.splits)

lemma process_packet_frame:
  assumes "process_packet put ss now m (net, st, s) = Some (r, net', st', s')"
  shows "tracked st' = tracked st" "trackers_wf st \<Longrightarrow> trackers_wf st'"
  using assms
  by (auto simp: process_packet_def Let_def trackers_wf_learns split: option.splits message.splits prod.splits bind_splits)

lemma session_event_frame:
  assumes "session_event put ev ss q nd = (p, nd')"
  shows "joins nd nd'" "nd_runs nd' = nd_runs nd"
  using assms
  by (auto simp: session_event_def intro!: joins.stays dest: process_packet_frame
      split: select_event.splits option.splits prod.splits sum.splits if_splits bool.splits)

lemma on_notified_result:
  assumes "queue_wf q"
  shows "\<exists>us q'. on_notified mem now room q = Some (us, q') \<and> queue_wf q'"
  using send_pending_result [of "q\<lparr>notified := False\<rparr>" mem now room] assms
  by (auto simp: on_notified_def queue_wf_def)

lemma session_event_queue:
  assumes "session_event put ev ss q nd = (Goes q', nd')" "queue_wf q"
  shows "queue_wf q'"
proof (cases ev)
  case (Notified mem now room)
  with assms on_notified_result [OF assms(2), of mem now room] show ?thesis
    by (auto simp: session_event_def split: if_splits)
qed (use assms queue_wf_update in \<open>auto simp: session_event_def split: option.splits prod.splits sum.splits bool.splits\<close>)

section \<open>Invariants of a node\<close>

definition queues_wf :: "('n, 'e) node \<Rightarrow> bool" where
  "queues_wf nd \<longleftrightarrow> (\<forall>ss q. map_of (nd_runs nd) ss = Some (Running q) \<longrightarrow> queue_wf q)"

text \<open>A tracked session is one with that peer, and its task is not over; every task has a stream of its own.\<close>

definition sessions_wf :: "('n, 'e) node \<Rightarrow> bool" where
  "sessions_wf nd \<longleftrightarrow>
     (\<forall>p ss. tracked (nd_repl nd) p = Some ss \<longrightarrow> ss_peer_id ss = p \<and> map_of (nd_runs nd) ss \<noteq> None) \<and>
     (\<forall>ss. map_of (nd_runs nd) ss \<noteq> None \<longrightarrow> sender_no (ss_out ss) < nd_next nd)"

definition node_wf :: "('n, 'e) node \<Rightarrow> bool" where
  "node_wf nd \<longleftrightarrow> trackers_wf (nd_repl nd) \<and> sessions_wf nd \<and> queues_wf nd"

lemmas node_wf_defs = node_wf_def sessions_wf_def queues_wf_def

text \<open>No session with the peer handles anything any more, but the table still has one.\<close>

definition deaf_to :: "string \<Rightarrow> session \<Rightarrow> ('n, 'e) node \<Rightarrow> bool" where
  "deaf_to p ss nd \<longleftrightarrow> node_wf nd \<and> \<not> p < nd_id nd \<and> tracked (nd_repl nd) p = Some ss \<and>
     (\<forall>ss'. ss_peer_id ss' = p \<longrightarrow> map_of (nd_runs nd) ss' = None \<or> map_of (nd_runs nd) ss' = Some Lost)"

lemma node_wf_new: "node_wf (broker_new ident us net s)"
  by (simp add: broker_new_def node_wf_defs trackers_wf_def tracked_def)

lemma node_wf_joins: "joins nd nd' \<Longrightarrow> node_wf nd \<Longrightarrow> node_wf nd'"
  by (induction rule: joins.induct) (auto simp: node_wf_defs dest: less_le_trans intro: less_SucI split: if_splits)

lemma deaf_to_joins: "joins nd nd' \<Longrightarrow> deaf_to p ss nd \<Longrightarrow> deaf_to p ss nd'"
  by (cases nd nd' rule: joins.cases) (auto simp: deaf_to_def node_wf_joins)

lemma node_wf_settle:
  assumes "node_wf nd" "map_of (nd_runs nd) ss \<noteq> None" "\<forall>q. p = Goes q \<longrightarrow> queue_wf q"
  shows "node_wf (settle ss (p, nd))"
  using assms
  by (cases p) (auto simp: settle_def node_wf_defs assoc_simps trackers_wf_close split: if_splits)

lemma deaf_to_settle:
  assumes "deaf_to p ss nd" "node_wf (settle ss' (pr, nd))" "map_of (nd_runs nd) ss' = Some r" "r \<noteq> Lost"
  shows "deaf_to p ss (settle ss' (pr, nd))"
proof -
  from assms(1,3,4) have "ss_peer_id ss' \<noteq> p" by (auto simp: deaf_to_def)
  with assms(1,2) show ?thesis
    by (cases pr) (auto simp: settle_def deaf_to_def assoc_simps split: if_splits)
qed

text \<open>The end of a session that was replaced takes its successor out of the table; and the note that a session
  was replaced does not reach the peer when this node dialled it.\<close>

lemma replaced_session_untracks_new:
  assumes "ss_peer_id old = ss_peer_id new" "old \<noteq> new" "map_of (nd_runs nd) new = Some r"
  shows "tracked (nd_repl (settle old (Ends x, nd))) (ss_peer_id new) = None"
    "map_of (nd_runs (settle old (Ends x, nd))) new = Some r"
  using assms by (simp_all add: settle_def assoc_simps)

lemma client_not_told: "sender_send put (ClientSender n) (Inl already_exists) net = (Inl already_exists, net)"
  by (simp add: sender_send_def)

text \<open>A step is some joining, or the work of a session that is not lost.\<close>

definition works :: "('n, 'e) node \<Rightarrow> ('n, 'e) node \<Rightarrow> bool" where
  "works nd nd' \<longleftrightarrow> (\<exists>ss r p nd1. map_of (nd_runs nd) ss = Some r \<and> r \<noteq> Lost \<and> joins nd nd1 \<and>
     nd_runs nd1 = nd_runs nd \<and> nd' = settle ss (p, nd1) \<and> (queues_wf nd \<longrightarrow> (\<forall>q. p = Goes q \<longrightarrow> queue_wf q)))"

lemma works_begin: "run_begin put a ss nd = nd \<or> works nd (run_begin put a ss nd)"
proof (cases "map_of (nd_runs nd) ss = Some Starting")
  case True
  obtain p nd1 where b: "session_begin put a ss nd = (p, nd1)" by fastforce
  from True b session_begin_frame [OF b] have "works nd (run_begin put a ss nd)"
    unfolding works_def by (intro exI [of _ ss] exI [of _ Starting] exI [of _ p] exI [of _ nd1]) (simp add: run_begin_def)
  then show ?thesis ..
qed (simp add: run_begin_def)

lemma works_event: "run_event put ev ss nd = nd \<or> works nd (run_event put ev ss nd)"
proof (cases "\<exists>q. map_of (nd_runs nd) ss = Some (Running q)")
  case True
  then obtain q where q: "map_of (nd_runs nd) ss = Some (Running q)" by blast
  obtain p nd1 where b: "session_event put ev ss q nd = (p, nd1)" by fastforce
  have "queues_wf nd \<longrightarrow> (\<forall>q. p = Goes q \<longrightarrow> queue_wf q)"
    using q b session_event_queue by (fastforce simp: queues_wf_def)
  with q b session_event_frame [OF b] have "works nd (run_event put ev ss nd)"
    unfolding works_def by (intro exI [of _ ss] exI [of _ "Running q"] exI [of _ p] exI [of _ nd1]) (simp add: run_event_def)
  then show ?thesis ..
qed (auto simp: run_event_def split: option.splits run.splits)

lemma node_step_frame: "node_step half put nd nd' \<Longrightarrow> joins nd nd' \<or> works nd nd'"
proof (erule node_stepE)
  have refl: "joins nd nd" by (rule joins.stays) simp_all
  fix re_sync ss assume "nd' = run_begin put re_sync ss nd"
  with works_begin [of put re_sync ss nd] refl show ?thesis by metis
next
  have refl: "joins nd nd" by (rule joins.stays) simp_all
  fix ev ss assume "nd' = run_event put ev ss nd"
  with works_event [of put ev ss nd] refl show ?thesis by metis
next
  fix now assume "nd' = serve_re_sync put now nd"
  then have "joins nd nd'"
    by (intro joins.stays) (auto simp: serve_re_sync_def split: list.split prod.split)
  then show ?thesis by blast
next
  fix s assume "nd' = nd\<lparr>nd_store := s\<rparr>"
  then have "joins nd nd'" by (intro joins.stays) simp_all
  then show ?thesis by blast
qed (simp_all add: joins_configured joins_accept joins_reconnect)

lemma node_wf_works: "works nd nd' \<Longrightarrow> node_wf nd \<Longrightarrow> node_wf nd'"
  by (auto simp: works_def node_wf_def [of nd] intro!: node_wf_settle dest: node_wf_joins)

lemma deaf_to_works:
  assumes "works nd nd'" "deaf_to p ss nd"
  shows "deaf_to p ss nd'"
proof -
  from assms(1) obtain ss' r pr nd1 where w: "map_of (nd_runs nd) ss' = Some r" "r \<noteq> Lost" "joins nd nd1"
    "nd_runs nd1 = nd_runs nd" "nd' = settle ss' (pr, nd1)" by (auto simp: works_def)
  have "node_wf nd'" using assms by (auto simp: deaf_to_def dest: node_wf_works)
  with w deaf_to_joins [OF w(3) assms(2)] show ?thesis by (simp add: deaf_to_settle)
qed

lemma node_wf_step: "node_step half put nd nd' \<Longrightarrow> node_wf nd \<Longrightarrow> node_wf nd'"
  using node_step_frame node_wf_joins node_wf_works by blast

lemma deaf_to_step: "node_step half put nd nd' \<Longrightarrow> deaf_to p ss nd \<Longrightarrow> deaf_to p ss nd'"
  using node_step_frame deaf_to_joins deaf_to_works by blast

lemma node_wf_steps: "node_steps half put nd nd' \<Longrightarrow> node_wf nd \<Longrightarrow> node_wf nd'"
  unfolding node_steps_def by (induction rule: rtranclp_induct) (simp_all add: node_wf_step)

lemma deaf_to_steps: "node_steps half put nd nd' \<Longrightarrow> deaf_to p ss nd \<Longrightarrow> deaf_to p ss nd'"
  unfolding node_steps_def by (induction rule: rtranclp_induct) (simp_all add: deaf_to_step)

section \<open>Reconnecting\<close>

lemma in_map_filter: "y \<in> set (List.map_filter f xs) \<longleftrightarrow> (\<exists>x\<in>set xs. f x = Some y)"
  by (induction xs) (auto simp: List.map_filter_simps split: option.split)

lemma failed_peers_iff:
  assumes "trackers_wf st"
  shows "(p, us) \<in> set (failed_peers st) \<longleftrightarrow> (\<exists>t. map_of (rs_trackers st) p = Some t \<and> pt_session t = None \<and>
    us = (case pt_url t of Some u \<Rightarrow> [u] | None \<Rightarrow> []) @ pt_discovered t)"
proof -
  have "(p, us) \<in> set (failed_peers st) \<longleftrightarrow> (\<exists>q t. (q, t) \<in> set (rs_trackers st) \<and> pt_session t = None \<and>
      p = pt_peer_id t \<and> us = (case pt_url t of Some u \<Rightarrow> [u] | None \<Rightarrow> []) @ pt_discovered t)"
    unfolding failed_peers_def in_map_filter Bex_def split_paired_Ex prod.case
    by (intro ex_cong1 iffI; elim conjE) (simp_all split: if_splits)
  moreover have "(q, t) \<in> set (rs_trackers st) \<longleftrightarrow> map_of (rs_trackers st) q = Some t" for q t
    using assms by (simp add: trackers_wf_def)
  moreover have "map_of (rs_trackers st) q = Some t \<Longrightarrow> pt_peer_id t = q" for q t
    using assms by (simp add: trackers_wf_def)
  ultimately show ?thesis by blast
qed

text \<open>A known peer has a task that is not over, or is a failed one, with the urls known of it.\<close>

lemma failed_peers_complete:
  assumes "node_wf nd" "map_of (rs_trackers (nd_repl nd)) p = Some t"
    "\<forall>ss. ss_peer_id ss = p \<longrightarrow> map_of (nd_runs nd) ss = None"
  shows "(p, (case pt_url t of Some u \<Rightarrow> [u] | None \<Rightarrow> []) @ pt_discovered t) \<in> set (failed_peers (nd_repl nd))"
proof -
  have "tracked (nd_repl nd) p = None"
    using assms(1,3) by (cases "tracked (nd_repl nd) p") (fastforce simp: node_wf_defs)+
  with assms(1,2) show ?thesis by (simp add: failed_peers_iff node_wf_def tracked_def)
qed

text \<open>The reconnecting task makes \<open>n\<close> steps; \<open>mid\<close> is what the other tasks do after each of them.\<close>

primrec reconnects ::
  "(duration \<Rightarrow> duration) \<Rightarrow> 'n put \<Rightarrow> (nat \<Rightarrow> dial) \<Rightarrow> (nat \<Rightarrow> ('n, 'e) node \<Rightarrow> ('n, 'e) node) \<Rightarrow> nat \<Rightarrow>
   ('n, 'e) node \<Rightarrow> ('n, 'e) node" where
  "reconnects half put ds mid 0 nd = nd"
| "reconnects half put ds mid (Suc n) nd =
     mid n (reconnect_to_failed_peers half put (ds n) (reconnects half put ds mid n nd))"

lemma reconnect_moves:
  assumes "nd_reconnecting nd = Dialling (x # xs)"
  shows "nd_reconnecting (reconnect_to_failed_peers half put d nd) \<in>
    {Dead, Dialling xs} \<union> (if snd x = [] then {} else {Dialling ((fst x, tl (snd x)) # xs)})"
  using assms
  by (cases x; cases "snd x")
    (auto simp: reconnect_to_failed_peers_def split: prod.split option.split sum.split)

lemma reconnects_reach:
  assumes keeps: "\<And>i nd. nd_reconnecting (mid i nd) = nd_reconnecting nd"
    and "nd_reconnecting (reconnects half put ds mid m nd) = Dialling (before @ (p, us) # after)"
  shows "\<exists>n rest. nd_reconnecting (reconnects half put ds mid n nd) \<in> {Dead, Dialling ((p, us) # rest)}"
  using assms(2)
proof (induction "sum_list (map (\<lambda>x. Suc (length (snd x))) before)" arbitrary: before m rule: less_induct)
  case less
  show ?case
  proof (cases before)
    case Nil
    with less.prems show ?thesis by auto
  next
    case (Cons x b)
    let ?nd = "reconnects half put ds mid (Suc m) nd"
    have moved: "nd_reconnecting ?nd \<in> {Dead, Dialling (b @ (p, us) # after)} \<union>
        (if snd x = [] then {} else {Dialling (((fst x, tl (snd x)) # b) @ (p, us) # after)})"
      using reconnect_moves [of "reconnects half put ds mid m nd" x "b @ (p, us) # after" half put "ds m"]
        less.prems Cons by (simp add: keeps split: if_splits)
    have "nd_reconnecting ?nd = Dialling (b' @ (p, us) # after) \<Longrightarrow>
        sum_list (map (\<lambda>x. Suc (length (snd x))) b') < sum_list (map (\<lambda>x. Suc (length (snd x))) before) \<Longrightarrow> ?thesis" for b'
      by (rule less.hyps)
    note next_peer = this [of b] and next_url = this [of "(fst x, tl (snd x)) # b"]
    have smaller: "length (tl (snd x)) < length (snd x)" if "snd x \<noteq> []" using that by simp
    from moved consider "nd_reconnecting ?nd = Dead" | "nd_reconnecting ?nd = Dialling (b @ (p, us) # after)"
      | "snd x \<noteq> []" "nd_reconnecting ?nd = Dialling (((fst x, tl (snd x)) # b) @ (p, us) # after)"
      by (auto split: if_splits)
    then show ?thesis
    proof cases
      case 1
      then show ?thesis by blast
    next
      case 2
      then show ?thesis using next_peer Cons by simp
    next
      case 3
      then show ?thesis using next_url [OF 3(2)] smaller Cons by simp
    qed
  qed
qed

lemma failed_peer_reached:
  assumes "\<And>i nd. nd_reconnecting (mid i nd) = nd_reconnecting nd"
    and "nd_reconnecting nd = Asleep" "(p, us) \<in> set (failed_peers (nd_repl nd))"
  shows "\<exists>n rest. nd_reconnecting (reconnects half put ds mid n nd) \<in> {Dead, Dialling ((p, us) # rest)}"
proof -
  from split_list [OF assms(3)] obtain before after where "failed_peers (nd_repl nd) = before @ (p, us) # after" by blast
  with assms(1,2) have "nd_reconnecting (reconnects half put ds mid 1 nd) = Dialling (before @ (p, us) # after)"
    by (simp add: reconnect_to_failed_peers_def)
  then show ?thesis by (rule reconnects_reach [OF assms(1)])
qed

text \<open>A node that a peer names among its peers becomes a peer of itself.\<close>

lemma membership_adds_self:
  assumes "map_of (rs_trackers (nd_repl nd)) (nd_id nd) = None" "p \<in> set peers" "peer_id p = nd_id nd"
    and "distinct (map peer_id peers)"
  shows "\<exists>nd'. session_event put (Incoming now (Some (Inr (Some (MembershipUpdate peers))))) ss q nd = (Goes q, nd') \<and>
    (\<exists>t. map_of (rs_trackers (nd_repl nd')) (nd_id nd) = Some t \<and> pt_session t = None \<and> pt_discovered t = remdups (urls p))"
proof -
  have "\<exists>t. map_of (rs_trackers (fold learn_peer peers st)) (peer_id p) = Some t \<and> pt_session t = None \<and>
      pt_discovered t = remdups (urls p)"
    if "map_of (rs_trackers st) (peer_id p) = None" for st
    using that assms(2,4)
  proof (induction peers arbitrary: st)
    case (Cons x xs)
    show ?case
    proof (cases "peer_id x = peer_id p")
      case True
      with Cons.prems have "x = p" by auto
      with Cons.prems(1) obtain t where t: "map_of (rs_trackers (learn_peer x st)) (peer_id p) = Some t"
        "pt_session t = None" "pt_discovered t = remdups (urls p)" by (auto simp: learn_peer_def assoc_simps)
      with learn_peers_keep [OF t(1), of xs] show ?thesis by simp
    next
      case False
      with Cons.prems have "map_of (rs_trackers (learn_peer x st)) (peer_id p) = None"
        by (auto simp: learn_peer_def assoc_simps split: option.split)
      with Cons False show ?thesis by auto
    qed
  qed simp
  from this [of "nd_repl nd"] assms(1,3) show ?thesis
    by (simp add: session_event_def process_packet_def)
qed

section \<open>Sessions that hang\<close>

text \<open>An update of a counter the node does not have panics; an error that has a source is looked at forever.\<close>

inductive hanging :: "select_event \<Rightarrow> ('n, 'e) node \<Rightarrow> bool" where
  unknown_counter: "map_of (cr_limits (nd_store nd)) (cu_key u) = None \<Longrightarrow>
    hanging (Incoming now (Some (Inr (Some (CounterUpdateMsg u))))) nd"
| error_with_source: "hanging (Incoming now (Some (Inl (Err StatusErr (Some e), st)))) nd"

lemma session_hangs: "hanging ev nd \<Longrightarrow> session_event put ev ss q nd = (Hangs, nd)"
  by (induction rule: hanging.induct)
    (simp_all add: session_event_def process_packet_def on_counter_update_def is_disconnect_status)

lemma deaf_after_hang:
  assumes "node_wf nd" "map_of (nd_runs nd) ss = Some (Running q)" "tracked (nd_repl nd) p = Some ss"
    "\<not> p < nd_id nd" "hanging ev nd"
    and "\<forall>ss'. ss' \<noteq> ss \<and> ss_peer_id ss' = p \<longrightarrow> map_of (nd_runs nd) ss' = None \<or> map_of (nd_runs nd) ss' = Some Lost"
  shows "deaf_to p ss (run_event put ev ss nd)"
proof -
  have run: "run_event put ev ss nd = settle ss (Hangs, nd)"
    using assms(2) session_hangs [OF assms(5)] by (simp add: run_event_def)
  have "node_wf (settle ss (Hangs, nd))" using assms(1,2) by (intro node_wf_settle) simp_all
  with assms(3,4,6) show ?thesis
    by (auto simp: run deaf_to_def settle_def assoc_simps)
qed

section \<open>Re-synchronisation sends every counter\<close>

definition re_sync_updates :: "systime \<Rightarrow> 'e cr_storage \<Rightarrow> counter_update list" where
  "re_sync_updates now s =
     List.map_filter (\<lambda>k. Option.bind (map_of (cr_limits s) k) (re_sync_update now k)) (map fst (cr_limits s))"

lemma in_re_sync_updates:
  "u \<in> set (re_sync_updates now s) \<longleftrightarrow> (\<exists>k e. map_of (cr_limits s) k = Some e \<and> re_sync_update now k e = Some u)"
proof -
  have "map_of (cr_limits s) k = Some e \<Longrightarrow> k \<in> fst ` set (cr_limits s)" for k e
    by (metis domI dom_map_of_conv_image_fst)
  then show ?thesis
    unfolding re_sync_updates_def in_map_filter bind_eq_Some_conv set_map by blast
qed

text \<open>The receiver of the channel stays.\<close>

definition stays_open :: "'n put \<Rightarrow> nat \<Rightarrow> bool" where
  "stays_open put n \<longleftrightarrow> (\<forall>m net. fst (put n m net))"

definition put_all :: "'n put \<Rightarrow> nat \<Rightarrow> message list \<Rightarrow> 'n \<Rightarrow> 'n" where
  "put_all put n ms net = fold (\<lambda>m net. snd (put n (Inr m) net)) ms net"

lemma sender_send_open:
  assumes "stays_open put (sender_no out)"
  shows "sender_send put out (Inr m) net = (Inr (), snd (put (sender_no out) (Inr m) net))"
proof -
  have "fst (put (sender_no out) (Inr m) net)" using assms by (simp add: stays_open_def)
  then show ?thesis by (cases out) (simp_all add: sender_send_def case_prod_unfold)
qed

lemma re_sync_loop_sends:
  assumes "stays_open put (sender_no out)"
  shows "re_sync_loop (re_sync_forward put out) now s ks (True, net) =
    (True, put_all put (sender_no out) (map CounterUpdateMsg (List.map_filter
      (\<lambda>k. Option.bind (map_of (cr_limits s) k) (re_sync_update now k)) ks) @ [ReSyncEnd]) net)"
  by (induction ks arbitrary: net)
    (simp_all add: put_all_def re_sync_forward_def sender_send_open [OF assms] List.map_filter_simps split: option.split)

lemma serve_re_sync_sends:
  assumes "stays_open put (sender_no (ss_out ss))" "nd_requests nd = ss # rest"
  shows "serve_re_sync put now nd = nd\<lparr>nd_requests := rest, nd_net :=
    put_all put (sender_no (ss_out ss)) (map CounterUpdateMsg (re_sync_updates now (nd_store nd)) @ [ReSyncEnd]) (nd_net nd)\<rparr>"
  using assms
  by (simp add: serve_re_sync_def process_re_sync_def re_sync_loop_sends re_sync_updates_def del: map_append)

section \<open>Two sessions between two nodes\<close>

text \<open>A stream on which a peer answers the greeting: its hello, with the url it dialled when it was the one
  that dialled, its pong, and clocks that do not overflow.\<close>

definition greeted_by :: "(duration \<Rightarrow> duration) \<Rightarrow> string \<Rightarrow> string option \<Rightarrow> dial \<Rightarrow> bool" where
  "greeted_by half p url d \<longleftrightarrow> dl_connect d = None \<and> dl_stream d = None \<and> dl_start d \<le> dl_end d \<and>
     (\<exists>us t. dl_first d = Some (Inr (Some (HelloMsg \<lparr>sender_peer_id = p, sender_urls = us, receiver_url = url\<rparr>))) \<and>
        dl_second d = Some (Inr (Some (Pong t))) \<and>
        Option.bind (systime_add 0 (from_millis t)) (\<lambda>u. systime_add u (half (dl_end d - dl_start d))) \<noteq> None)"

text \<open>The session a node with id \<open>me\<close> has with \<open>p\<close> after setting up \<open>ss\<close>.\<close>

definition winner :: "string \<Rightarrow> string \<Rightarrow> session \<Rightarrow> session option \<Rightarrow> session" where
  "winner me p ss old = (case old of Some prev \<Rightarrow> if p < me then ss else prev | None \<Rightarrow> ss)"

lemma handshake_winner:
  assumes "start \<le> fin" "Option.bind (systime_add 0 (from_millis pong)) (\<lambda>u. systime_add u (half (fin - start))) \<noteq> None"
  shows "\<exists>kept closed st'. handshake half me h pong start fin url ss st = Some ((kept, closed), st') \<and>
    tracked st' (sender_peer_id h) = Some (winner me (sender_peer_id h) ss (tracked st (sender_peer_id h)))"
  using assms
  by (auto simp: handshake_def Let_def tracked_def winner_def assoc_simps split: option.split bind_splits)

lemma broker_handshake_winner:
  assumes "\<And>n. stays_open put n" "greeted_by half p url' d"
  shows "\<exists>kept net st. broker_handshake half put out url d nd = (Some (Inr kept), nd\<lparr>nd_repl := st, nd_net := net\<rparr>) \<and>
    tracked st p = Some (winner (nd_id nd) p \<lparr>ss_peer_id = p, ss_out = out\<rparr> (tracked (nd_repl nd) p))"
proof -
  from assms(2) obtain us t where d:
    "dl_first d = Some (Inr (Some (HelloMsg \<lparr>sender_peer_id = p, sender_urls = us, receiver_url = url'\<rparr>)))"
    "dl_second d = Some (Inr (Some (Pong t)))" "dl_start d \<le> dl_end d"
    "Option.bind (systime_add 0 (from_millis t)) (\<lambda>u. systime_add u (half (dl_end d - dl_start d))) \<noteq> None"
    by (auto simp: greeted_by_def)
  let ?h = "\<lparr>sender_peer_id = p, sender_urls = us, receiver_url = url'\<rparr>"
  let ?ss = "\<lparr>ss_peer_id = p, ss_out = out\<rparr>"
  obtain net where g: "greet put out url d nd = (Inr (?h, t), nd\<lparr>nd_net := net\<rparr>)"
    using d(1,2) by (simp add: greet_def sender_send_open assms(1) is_hello_def is_pong_def Let_def)
  from handshake_winner [of "dl_start d" "dl_end d" t half "nd_id nd" ?h url ?ss "nd_repl nd"] d(3,4) obtain kept closed st where
    "handshake half (nd_id nd) ?h t (dl_start d) (dl_end d) url ?ss (nd_repl nd) = Some ((kept, closed), st)"
    "tracked st p = Some (winner (nd_id nd) p ?ss (tracked (nd_repl nd) p))" by auto
  with g show ?thesis by (simp add: broker_handshake_def Let_def) blast
qed

lemma connect_winner:
  assumes "\<And>n. stays_open put n" "greeted_by half p url' d"
  shows "tracked (nd_repl (snd (connect_to_peer half put d url nd))) p =
    Some (winner (nd_id nd) p \<lparr>ss_peer_id = p, ss_out = ClientSender (nd_next nd)\<rparr> (tracked (nd_repl nd) p))"
proof -
  let ?nd = "nd\<lparr>nd_next := Suc (nd_next nd)\<rparr>"
  from broker_handshake_winner [OF assms, of "ClientSender (nd_next nd)" "Some url" ?nd] obtain kept net st where
    "broker_handshake half put (ClientSender (nd_next nd)) (Some url) d ?nd = (Some (Inr kept), ?nd\<lparr>nd_repl := st, nd_net := net\<rparr>)"
    "tracked st p = Some (winner (nd_id nd) p \<lparr>ss_peer_id = p, ss_out = ClientSender (nd_next nd)\<rparr> (tracked (nd_repl nd) p))"
    by auto
  moreover have "dl_connect d = None" "dl_stream d = None" using assms(2) by (simp_all add: greeted_by_def)
  ultimately show ?thesis by (simp add: connect_to_peer_def Let_def spawn_def split: option.split)
qed

lemma accept_winner:
  assumes "\<And>n. stays_open put n" "greeted_by half p url' d"
  shows "tracked (nd_repl (accept_stream half put d nd)) p =
    Some (winner (nd_id nd) p \<lparr>ss_peer_id = p, ss_out = ServerSender (nd_next nd)\<rparr> (tracked (nd_repl nd) p))"
proof -
  let ?nd = "nd\<lparr>nd_next := Suc (nd_next nd)\<rparr>"
  from broker_handshake_winner [OF assms, of "ServerSender (nd_next nd)" None ?nd] obtain kept net st where
    "broker_handshake half put (ServerSender (nd_next nd)) None d ?nd = (Some (Inr kept), ?nd\<lparr>nd_repl := st, nd_net := net\<rparr>)"
    "tracked st p = Some (winner (nd_id nd) p \<lparr>ss_peer_id = p, ss_out = ServerSender (nd_next nd)\<rparr> (tracked (nd_repl nd) p))"
    by auto
  then show ?thesis by (simp add: accept_stream_def Let_def spawn_def split: option.split)
qed

lemma node_id_joins: "joins nd nd' \<Longrightarrow> nd_id nd' = nd_id nd"
  by (auto elim: joins.cases)

lemma node_id_steps: "node_steps half put nd nd' \<Longrightarrow> nd_id nd' = nd_id nd"
  unfolding node_steps_def
proof (induction rule: rtranclp_induct)
  case (step y z)
  have "nd_id (settle ss (p, x)) = nd_id x" for ss p and x :: "('a, 'b) node" by (simp add: settle_def split: progress.split)
  with step node_step_frame [OF step(2)] show ?case by (auto simp: works_def node_id_joins)
qed simp

text \<open>A node dials a peer and is dialled by it.  The node takes other steps in between, which keep the first of
  the two sessions in the table.\<close>

inductive crosses ::
  "(duration \<Rightarrow> duration) \<Rightarrow> 'n put \<Rightarrow> string \<Rightarrow> dial \<Rightarrow> string \<Rightarrow> dial \<Rightarrow> bool \<Rightarrow> ('n, 'e) node \<Rightarrow> ('n, 'e) node \<Rightarrow> bool"
  for half :: "duration \<Rightarrow> duration" and put :: "'n put" and p :: string and d_out :: dial and url :: string and d_in :: dial where
  dials_first: "node_steps half put (snd (connect_to_peer half put d_out url nd)) nd1 \<Longrightarrow>
    tracked (nd_repl nd1) p = tracked (nd_repl (snd (connect_to_peer half put d_out url nd))) p \<Longrightarrow>
    crosses half put p d_out url d_in True nd (accept_stream half put d_in nd1)"
| accepts_first: "node_steps half put (accept_stream half put d_in nd) nd1 \<Longrightarrow>
    tracked (nd_repl nd1) p = tracked (nd_repl (accept_stream half put d_in nd)) p \<Longrightarrow>
    crosses half put p d_out url d_in False nd (snd (connect_to_peer half put d_out url nd1))"

definition dialled :: "session \<Rightarrow> bool" where
  "dialled ss = (case ss_out ss of ClientSender _ \<Rightarrow> True | ServerSender _ \<Rightarrow> False)"

lemma crosses_keeps:
  assumes "crosses half put p d_out url d_in first nd nd'" "\<And>n. stays_open put n"
    and "greeted_by half p u1 d_out" "greeted_by half p u2 d_in" "tracked (nd_repl nd) p = None"
  shows "\<exists>ss. tracked (nd_repl nd') p = Some ss \<and> ss_peer_id ss = p \<and> (dialled ss \<longleftrightarrow> (first \<longleftrightarrow> \<not> p < nd_id nd))"
  using assms(1)
proof cases
  case (dials_first nd1)
  from joins_connect [of half put d_out url nd] have "nd_id (snd (connect_to_peer half put d_out url nd)) = nd_id nd"
    by (cases "connect_to_peer half put d_out url nd") (simp add: node_id_joins)
  with dials_first(3,4) node_id_steps [OF dials_first(3)] connect_winner [OF assms(2,3), of url nd]
    accept_winner [OF assms(2,4), of nd1] dials_first(1,2) assms(5)
  show ?thesis by (simp add: winner_def dialled_def)
next
  case (accepts_first nd1)
  have "nd_id (accept_stream half put d_in nd) = nd_id nd" by (rule node_id_joins [OF joins_accept])
  with accepts_first(3,4) node_id_steps [OF accepts_first(3)] accept_winner [OF assms(2,4), of nd]
    connect_winner [OF assms(2,3), of url nd1] accepts_first(1,2) assms(5)
  show ?thesis by (simp add: winner_def dialled_def)
qed

section \<open>Receiving a re-synchronisation\<close>

text \<open>A running session receives packets, one after the other.\<close>

definition receive :: "'n put \<Rightarrow> systime \<Rightarrow> session \<Rightarrow> message list \<Rightarrow> ('n, 'e) node \<Rightarrow> ('n, 'e) node" where
  "receive put now ss ms nd = fold (\<lambda>m. run_event put (Incoming now (Some (Inr (Some m)))) ss) ms nd"

lemma receive_updates:
  assumes "map_of (nd_runs nd) ss = Some (Running q)" "fold_panic (on_counter_update now) us (nd_store nd) = Some s"
  shows "\<exists>rs. receive put now ss (map CounterUpdateMsg us) nd = nd\<lparr>nd_runs := rs, nd_store := s\<rparr> \<and>
    map_of rs ss = Some (Running q) \<and> (\<forall>ss'. ss' \<noteq> ss \<longrightarrow> map_of rs ss' = map_of (nd_runs nd) ss')"
  using assms
proof (induction us arbitrary: nd)
  case Nil
  then show ?case by (auto simp: receive_def intro!: exI [of _ "nd_runs nd"])
next
  case (Cons u us)
  then obtain s1 where s1: "on_counter_update now u (nd_store nd) = Some s1"
    "fold_panic (on_counter_update now) us s1 = Some s" by (auto split: bind_splits)
  let ?nd = "nd\<lparr>nd_runs := AList.update ss (Running q) (nd_runs nd), nd_store := s1\<rparr>"
  have "run_event put (Incoming now (Some (Inr (Some (CounterUpdateMsg u))))) ss nd = ?nd"
    using Cons.prems(1) s1(1) by (simp add: run_event_def session_event_def process_packet_def settle_def)
  moreover from Cons.IH [of ?nd] s1(2) obtain rs where
    "receive put now ss (map CounterUpdateMsg us) ?nd = nd\<lparr>nd_runs := rs, nd_store := s\<rparr>"
    "map_of rs ss = Some (Running q)" "\<forall>ss'. ss' \<noteq> ss \<longrightarrow> map_of rs ss' = map_of (nd_runs nd) ss'"
    by (auto simp: assoc_simps)
  ultimately show ?case by (auto simp: receive_def)
qed

text \<open>The end of a re-synchronisation is a packet that \<^verbatim>\<open>process_packet\<close> does not know.\<close>

lemma receive_end:
  assumes "map_of (nd_runs nd) ss = Some (Running q)"
  shows "receive put now ss [ReSyncEnd] nd =
    nd\<lparr>nd_runs := AList.delete ss (nd_runs nd), nd_repl := session_close (ss_peer_id ss) (nd_repl nd)\<rparr>"
  using assms by (simp add: receive_def run_event_def session_event_def process_packet_def settle_def)

lemma receive_re_sync:
  fixes put :: "'n put"
  assumes "map_of (nd_runs nd) ss = Some (Running q)" "fold_panic (on_counter_update now) us (nd_store nd) = Some s"
  defines "nd' \<equiv> receive put now ss (map CounterUpdateMsg us @ [ReSyncEnd]) nd"
  shows "nd_store nd' = s" "map_of (nd_runs nd') ss = None" "tracked (nd_repl nd') (ss_peer_id ss) = None"
proof -
  obtain rs where rs: "receive put now ss (map CounterUpdateMsg us) nd = nd\<lparr>nd_runs := rs, nd_store := s\<rparr>"
    "map_of rs ss = Some (Running q)" using receive_updates [OF assms(1,2), of put] by blast
  have "nd' = receive put now ss [ReSyncEnd] (nd\<lparr>nd_runs := rs, nd_store := s\<rparr>)"
    using rs(1) by (simp add: nd'_def receive_def)
  with receive_end [of "nd\<lparr>nd_runs := rs, nd_store := s\<rparr>" ss q put now] rs(2)
  show "nd_store nd' = s" "map_of (nd_runs nd') ss = None" "tracked (nd_repl nd') (ss_peer_id ss) = None"
    by (simp_all add: assoc_simps)
qed

end
