(* ===== verification/SessionProperties.thy ===== *)
theory SessionProperties
  imports StorageSamples Sessions
begin

text \<open>
  The properties of the replication sessions of a node, each with a witness.
\<close>

section \<open>Samples\<close>

text \<open>The channels as the list of what was put into them.\<close>

definition sample_put :: "(nat \<times> (status + message)) list put" where
  "sample_put n m net = (True, net @ [(n, m)])"

definition sample_half :: "duration \<Rightarrow> duration" where
  "sample_half d = d div 2"

definition hello_of :: "string \<Rightarrow> string option \<Rightarrow> hello" where
  "hello_of p url = \<lparr>sender_peer_id = p, sender_urls = [''http://'' @ p], receiver_url = url\<rparr>"

definition sample_dial :: "string \<Rightarrow> string option \<Rightarrow> dial" where
  "sample_dial p url = \<lparr>dl_connect = None, dl_stream = None, dl_first = Some (Inr (Some (HelloMsg (hello_of p url)))),
     dl_second = Some (Inr (Some (Pong 0))), dl_start = 0, dl_end = 0\<rparr>"

definition sample_broker :: "((nat \<times> (status + message)) list, string) node" where
  "sample_broker = broker_new ''a'' [] [] (cr_storage_new ''a'')"

definition sample_session :: session where
  "sample_session = \<lparr>ss_peer_id = ''b'', ss_out = ServerSender 0\<rparr>"

definition sample_accepted :: "((nat \<times> (status + message)) list, string) node" where
  "sample_accepted = accept_stream sample_half sample_put (sample_dial ''b'' (Some ''http://a'')) sample_broker"

definition sample_running :: "((nat \<times> (status + message)) list, string) node" where
  "sample_running = run_begin sample_put Sent sample_session sample_accepted"

lemmas session_sample_defs = sample_put_def sample_half_def hello_of_def sample_dial_def sample_broker_def
  sample_session_def accept_stream_def broker_handshake_def greet_def handshake_def learn_url_def Let_def is_hello_def is_pong_def
  sender_send_def broker_new_def cr_storage_new_def spawn_def systime_add_def from_millis_def skew_new_def as_millis_def

lemma sample_accepted_runs:
  "nd_runs sample_accepted = [(sample_session, Starting)]" "tracked (nd_repl sample_accepted) ''b'' = Some sample_session"
  by (simp_all add: session_sample_defs sample_accepted_def tracked_def)

lemma sample_running_runs:
  "nd_id sample_running = ''a''" "map_of (nd_runs sample_running) sample_session = Some (Running queue_new)"
  "map_of (nd_runs sample_running) ss \<noteq> None \<Longrightarrow> ss = sample_session"
  "tracked (nd_repl sample_running) ''b'' = Some sample_session" "cr_limits (nd_store sample_running) = []"
  "nd_requests sample_running = [sample_session]"
  using sample_accepted_runs
  by (auto simp: sample_running_def run_begin_def session_begin_def settle_def sample_accepted_def session_sample_defs
      assoc_simps split: if_splits)

lemma sample_reachable:
  "node_steps sample_half sample_put sample_broker sample_running"
proof -
  have "node_step sample_half sample_put sample_broker sample_accepted"
    unfolding sample_accepted_def by (rule node_step.accept)
  moreover have "node_step sample_half sample_put sample_accepted sample_running"
    unfolding sample_running_def by (rule node_step.session_begins)
  ultimately show ?thesis unfolding node_steps_def by auto
qed




definition sample_count :: "string \<Rightarrow> u64 \<Rightarrow> string cr_storage" where
  "sample_count who n = cr_storage_new who\<lparr>cr_limits :=
     [(''k'', \<lparr>ce_key = ''k'', ce_counter = global_counter, ce_value =
        \<lparr>cr_ourselves = who, cr_max_value = 10, cr_own = n, cr_others = [], cr_expiry = \<lparr>expiry = 60000000\<rparr>\<rparr>\<rparr>)]\<rparr>"

definition sample_sender :: "((nat \<times> (status + message)) list, string) node" where
  "sample_sender = (broker_new ''b'' [] [] (sample_count ''b'' 3))
     \<lparr>nd_requests := [\<lparr>ss_peer_id = ''a'', ss_out = ClientSender 0\<rparr>]\<rparr>"

definition sample_receiver :: "((nat \<times> (status + message)) list, string) node" where
  "sample_receiver = sample_running\<lparr>nd_store := sample_count ''a'' 4\<rparr>"

section \<open>The table of peers and the tasks\<close>



text \<open>C18: a session that meets an update of a counter the node does not have, or an error with a source,
  hangs for good and stays in the table.  When the peer does not have the smaller id, the node never
  has a working session with that peer again: it turns down every later one, and no new round of
  reconnecting takes the peer up.\<close>

theorem hung_session_deafens:
  assumes "node_steps half put (broker_new me us net s) nd"
    and "map_of (nd_runs nd) ss = Some (Running q)" and "tracked (nd_repl nd) p = Some ss"
    and "\<not> p < nd_id nd" and "hanging ev nd"
    and "\<forall>ss'. ss' \<noteq> ss \<and> ss_peer_id ss' = p \<longrightarrow> map_of (nd_runs nd) ss' = None \<or> map_of (nd_runs nd) ss' = Some Lost"
    and "node_steps half put (run_event put ev ss nd) nd'"
  shows "tracked (nd_repl nd') p = Some ss \<and> p \<notin> fst ` set (failed_peers (nd_repl nd')) \<and>
    (\<forall>ss' ev'. ss_peer_id ss' = p \<longrightarrow> run_event put ev' ss' nd' = nd')"
proof -
  have deaf: "deaf_to p ss nd'"
    using deaf_to_steps [OF assms(7) deaf_after_hang [OF node_wf_steps [OF assms(1) node_wf_new] assms(2-6)]] .
  have "run_event put ev' ss' nd' = nd'" if "ss_peer_id ss' = p" for ss' ev'
    using deaf that by (auto simp: deaf_to_def run_event_def split: option.split run.split)
  moreover have "p \<notin> fst ` set (failed_peers (nd_repl nd'))"
    using deaf failed_peers_iff [of "nd_repl nd'" p] by (auto simp: deaf_to_def node_wf_def tracked_def)
  ultimately show ?thesis using deaf by (simp add: deaf_to_def)
qed

theorem hung_session_deafens_witness:
  "tracked (nd_repl (accept_stream sample_half sample_put (sample_dial ''b'' (Some ''http://a'')) (run_event sample_put
       (Incoming 0 (Some (Inr (Some (CounterUpdateMsg \<lparr>cu_key = ''k'', cu_values = [(''b'', 1)], cu_expires_at = 60\<rparr>)))))
       sample_session sample_running))) ''b'' = Some sample_session"
proof -
  let ?ev = "Incoming 0 (Some (Inr (Some (CounterUpdateMsg \<lparr>cu_key = ''k'', cu_values = [(''b'', 1)], cu_expires_at = 60\<rparr>))))"
  let ?nd = "run_event sample_put ?ev sample_session sample_running"
  have steps: "node_steps sample_half sample_put ?nd (accept_stream sample_half sample_put (sample_dial ''b'' (Some ''http://a'')) ?nd)"
    unfolding node_steps_def using node_step.accept by blast
  have "hanging ?ev sample_running" by (rule hanging.unknown_counter) (simp add: sample_running_runs)
  moreover have "\<forall>ss'. ss' \<noteq> sample_session \<and> ss_peer_id ss' = ''b'' \<longrightarrow>
      map_of (nd_runs sample_running) ss' = None \<or> map_of (nd_runs sample_running) ss' = Some Lost"
    using sample_running_runs(3) by blast
  moreover have "\<not> ''b'' < nd_id sample_running" by (simp add: sample_running_runs(1))
  ultimately show ?thesis
    using hung_session_deafens [OF sample_reachable [unfolded sample_broker_def] sample_running_runs(2,4) _ _ _ steps]
    by blast
qed

section \<open>Errors of a stream\<close>

text \<open>C37: the check whether an error of a stream is a disconnect never says yes, and does not return for an
  error that has a source: the loop over the sources looks at the first error again and again.\<close>

theorem disconnect_never_seen:
  "is_disconnect (Err StatusErr src) \<noteq> Some True \<and> (is_disconnect (Err StatusErr src) = None \<longleftrightarrow> src \<noteq> None)"
  by (simp add: is_disconnect_status split: option.split)

section \<open>Two sessions between two nodes\<close>

text \<open>C19: two nodes dial each other at the same time.  Each sets up both sessions, the one it dialled and the one it
  accepted, in either order and with other steps in between that keep the first session in the table, and
  keeps one of the two.  They keep the two ends of the same stream exactly when they finished the streams in
  opposite orders; the node with the larger id keeps the session it finished last.  Channels stay open and
  the sums of the clocks do not overflow.\<close>

theorem duplicate_sessions_agree_iff:
  fixes A A' :: "('n, 'e) node" and B B' :: "('m, 'f) node"
  assumes "nd_id A \<noteq> nd_id B" and "\<And>n. stays_open putA n" and "\<And>n. stays_open putB n"
    and "tracked (nd_repl A) (nd_id B) = None" and "tracked (nd_repl B) (nd_id A) = None"
    and "greeted_by half (nd_id B) None outA" and "greeted_by half (nd_id B) (Some urlA) inA"
    and "greeted_by half (nd_id A) None outB" and "greeted_by half (nd_id A) (Some urlB) inB"
    and "crosses half putA (nd_id B) outA urlB inA firstA A A'" and "crosses half putB (nd_id A) outB urlA inB firstB B B'"
  shows "\<exists>x y. tracked (nd_repl A') (nd_id B) = Some x \<and> tracked (nd_repl B') (nd_id A) = Some y \<and>
    (dialled x \<longleftrightarrow> (firstA \<longleftrightarrow> \<not> nd_id B < nd_id A)) \<and> ((dialled x \<longleftrightarrow> \<not> dialled y) \<longleftrightarrow> (firstA \<longleftrightarrow> firstB))"
proof -
  from crosses_keeps [OF assms(10) assms(2,6,7,4)] obtain x where
    "tracked (nd_repl A') (nd_id B) = Some x" "dialled x \<longleftrightarrow> (firstA \<longleftrightarrow> \<not> nd_id B < nd_id A)" by blast
  moreover from crosses_keeps [OF assms(11) assms(3,8,9,5)] obtain y where
    "tracked (nd_repl B') (nd_id A) = Some y" "dialled y \<longleftrightarrow> (firstB \<longleftrightarrow> \<not> nd_id A < nd_id B)" by blast
  moreover have "nd_id B < nd_id A \<longleftrightarrow> \<not> nd_id A < nd_id B" using assms(1) by auto
  ultimately show ?thesis by blast
qed

text \<open>Nodes \<open>a\<close> and \<open>b\<close> dial each other, and both finish the stream that \<open>a\<close> dialled first: each keeps the
  stream it dialled, of which the other end is not in the table of the other.\<close>

definition sample_other :: "((nat \<times> (status + message)) list, string) node" where
  "sample_other = broker_new ''b'' [] [] (cr_storage_new ''b'')"

theorem duplicate_sessions_agree_iff_witness:
  "\<exists>x y. tracked (nd_repl (accept_stream sample_half sample_put (sample_dial ''b'' (Some ''http://a''))
         (snd (connect_to_peer sample_half sample_put (sample_dial ''b'' None) ''http://b'' sample_broker)))) ''b'' = Some x \<and>
     tracked (nd_repl (snd (connect_to_peer sample_half sample_put (sample_dial ''a'' None) ''http://a''
         (accept_stream sample_half sample_put (sample_dial ''a'' (Some ''http://b'')) sample_other)))) ''a'' = Some y \<and>
     dialled x \<and> dialled y"
proof -
  have ids: "nd_id sample_broker = ''a''" "nd_id sample_other = ''b''"
    by (simp_all add: sample_broker_def sample_other_def broker_new_def)
  have fresh: "tracked (nd_repl sample_broker) ''b'' = None" "tracked (nd_repl sample_other) ''a'' = None"
    by (simp_all add: sample_broker_def sample_other_def broker_new_def tracked_def)
  have open_all: "stays_open sample_put n" for n by (simp add: stays_open_def sample_put_def)
  have greeted: "greeted_by sample_half p url (sample_dial p url)" for p url
    by (simp add: greeted_by_def sample_dial_def hello_of_def systime_add_def from_millis_def sample_half_def)
  have refl: "node_steps sample_half sample_put nd nd" for nd :: "((nat \<times> (status + message)) list, string) node"
    by (simp add: node_steps_def)
  note ca = crosses.dials_first [OF refl HOL.refl] and cb = crosses.accepts_first [OF refl HOL.refl]
  from duplicate_sessions_agree_iff [of sample_broker sample_other sample_put sample_put sample_half, unfolded ids,
      OF _ open_all open_all fresh greeted greeted greeted greeted ca cb, of "''http://a''" "''http://b''"]
  show ?thesis by auto
qed

section \<open>Re-synchronisation\<close>

text \<open>C17: a re-synchronisation from one node to another.  The sender puts one update for every counter that is
  not empty and not expired on the stream, and a mark for the end.  The receiver, when it knows the
  counters, merges all of them; the mark ends its session, and the peer is one to dial again.\<close>

theorem re_sync_end_to_end:
  assumes "stays_open put (sender_no (ss_out out))" and "nd_requests peer = out # rest"
    and "map_of (nd_runs nd) ss = Some (Running q)"
    and "fold_panic (on_counter_update now) (re_sync_updates t (nd_store peer)) (nd_store nd) = Some s"
  defines "ms \<equiv> map CounterUpdateMsg (re_sync_updates t (nd_store peer)) @ [ReSyncEnd]"
  shows "nd_net (serve_re_sync put t peer) = put_all put (sender_no (ss_out out)) ms (nd_net peer) \<and>
    (\<forall>u. u \<in> set (re_sync_updates t (nd_store peer)) \<longleftrightarrow>
       (\<exists>k e. map_of (cr_limits (nd_store peer)) k = Some e \<and> re_sync_update t k e = Some u)) \<and>
    nd_store (receive put now ss ms nd) = s \<and> map_of (nd_runs (receive put now ss ms nd)) ss = None \<and>
    tracked (nd_repl (receive put now ss ms nd)) (ss_peer_id ss) = None"
  using serve_re_sync_sends [OF assms(1,2), of t] receive_re_sync [OF assms(3,4)]
  by (simp add: ms_def in_re_sync_updates)

theorem re_sync_end_to_end_witness:
  "re_sync_updates 0 (nd_store sample_sender) = [\<lparr>cu_key = ''k'', cu_values = [(''b'', 3)], cu_expires_at = 60\<rparr>] \<and>
   (\<exists>nd. receive sample_put 0 sample_session (map CounterUpdateMsg (re_sync_updates 0 (nd_store sample_sender)) @ [ReSyncEnd])
      sample_receiver = nd \<and>
    map_option (\<lambda>e. cr_read_at (ce_value e) 0) (map_of (cr_limits (nd_store nd)) ''k'') = Some 7 \<and>
    tracked (nd_repl nd) ''b'' = None)"
proof -
  have us: "re_sync_updates 0 (nd_store sample_sender) = [\<lparr>cu_key = ''k'', cu_values = [(''b'', 3)], cu_expires_at = 60\<rparr>]"
    by (simp add: sample_sender_def sample_count_def broker_new_def cr_storage_new_def re_sync_updates_def
        List.map_filter_simps re_sync_update_def cr_local_values_def expiry_expires_at_def from_micros_def as_secs_def)
  have "case fold_panic (on_counter_update 0) [\<lparr>cu_key = ''k'', cu_values = [(''b'', 3)], cu_expires_at = 60\<rparr>] (sample_count ''a'' 4)
      of None \<Rightarrow> False | Some s \<Rightarrow> map_option (\<lambda>e. cr_read_at (ce_value e) 0) (map_of (cr_limits s) ''k'') = Some 7"
    by (simp add: sample_count_def cr_storage_new_def on_counter_update_def systime_add_def from_secs_def
        cr_merge_at_def cr_from_def cr_into_inner_def cr_merge_value_def merge_at_def expiry_new_def since_epoch_def
        as_micros_def expired_at_def expiry_expires_at_def from_micros_def cr_read_at_def btree_map_def Let_def)
  moreover have "nd_store sample_receiver = sample_count ''a'' 4" by (simp add: sample_receiver_def)
  ultimately obtain s where
    s: "fold_panic (on_counter_update 0) (re_sync_updates 0 (nd_store sample_sender)) (nd_store sample_receiver) = Some s"
      "map_option (\<lambda>e. cr_read_at (ce_value e) 0) (map_of (cr_limits s) ''k'') = Some 7"
    unfolding us by (auto split: option.splits)
  have runs: "map_of (nd_runs sample_receiver) sample_session = Some (Running queue_new)" "ss_peer_id sample_session = ''b''"
    by (simp_all add: sample_receiver_def sample_running_runs) (simp add: sample_session_def)
  have out: "stays_open sample_put (sender_no (ss_out \<lparr>ss_peer_id = ''a'', ss_out = ClientSender 0\<rparr>))"
    "nd_requests sample_sender = [\<lparr>ss_peer_id = ''a'', ss_out = ClientSender 0\<rparr>]"
    by (simp_all add: stays_open_def sample_put_def sample_sender_def)
  from re_sync_end_to_end [OF out runs(1) s(1)] s(2) runs(2) us show ?thesis by auto
qed

end
