(* ===== verification/RedisScripts.thy ===== *)
theory RedisScripts
  imports Keys
begin

text \<open>
  The Lua scripts of the Redis storages (\<^verbatim>\<open>limitador/src/storage/redis/scripts.rs\<close>) and what is shared by
  the storages (\<^verbatim>\<open>redis/mod.rs\<close>).

  The Redis server, its Lua numbers and the client crate are external: they enter as the parameter
  \<open>rd\<close>, one command per Redis command the source uses, over an abstract server state.  A command that
  fails inside a script ends the script and keeps what the script wrote before.  Lua numbers are
  floating point: \<open>lua_number\<close> is the number nearest to an integer.  What the code relies on is
  \<open>redis_laws\<close>, stated over a view of the server: for every live key its value and the instant (in
  milliseconds) at which it expires.
\<close>

section \<open>Errors\<close>

record redis_error =
  rerr_text :: string
  is_timeout :: bool
  is_connection_dropped :: bool
  is_cluster_error :: bool
  is_connection_refusal :: bool
  is_no_script :: bool

definition redis_storage_err :: "redis_error \<Rightarrow> storage_err" where
  "redis_storage_err e =
     \<lparr>err_msg = rerr_text e, err_source = Some (rerr_text e),
      transient = (is_timeout e \<or> is_connection_dropped e \<or> is_cluster_error e \<or> is_connection_refusal e)\<rparr>"

section \<open>The server\<close>

type_synonym ('s, 'a) command = "'s \<Rightarrow> (redis_error + 'a) \<times> 's"

definition give :: "'a \<Rightarrow> ('s, 'a) command" where
  "give a s = (Inr a, s)"

definition and_then :: "('s, 'a) command \<Rightarrow> ('a \<Rightarrow> ('s, 'b) command) \<Rightarrow> ('s, 'b) command" where
  "and_then m f s = (case m s of (Inl e, s') \<Rightarrow> (Inl e, s') | (Inr a, s') \<Rightarrow> f a s')"

primrec each_command :: "('a \<Rightarrow> ('s, 'b) command) \<Rightarrow> 'a list \<Rightarrow> ('s, 'b list) command" where
  "each_command f [] = give []"
| "each_command f (x # xs) = and_then (f x) (\<lambda>y. and_then (each_command f xs) (\<lambda>ys. give (y # ys)))"

record 's redis =
  rd_get :: "bytes \<Rightarrow> ('s, string option) command"
  rd_exists :: "bytes \<Rightarrow> ('s, bool) command"
  rd_set_ex :: "bytes \<Rightarrow> int \<Rightarrow> int \<Rightarrow> ('s, unit) command"
  rd_incrby :: "bytes \<Rightarrow> u64 \<Rightarrow> ('s, int) command"
  rd_expire_nx :: "bytes \<Rightarrow> u64 \<Rightarrow> ('s, unit) command"
  rd_pexpire :: "bytes \<Rightarrow> int \<Rightarrow> ('s, unit) command"
  rd_ttl :: "bytes \<Rightarrow> ('s, int) command"
  rd_pttl :: "bytes \<Rightarrow> ('s, int) command"
  rd_pexpiretime :: "bytes \<Rightarrow> ('s, int) command"
  rd_del :: "bytes \<Rightarrow> ('s, unit) command"
  rd_flushdb :: "('s, unit) command"
  rd_sadd :: "bytes \<Rightarrow> bytes \<Rightarrow> ('s, unit) command"
  rd_smembers :: "bytes \<Rightarrow> ('s, bytes list) command"
  rd_hgetall :: "bytes \<Rightarrow> ('s, (string \<times> string) list) command"
  rd_hset :: "bytes \<Rightarrow> string \<Rightarrow> string \<Rightarrow> ('s, unit) command"
  rd_hdel :: "bytes \<Rightarrow> string \<Rightarrow> ('s, int) command"
  rd_script_load :: "string \<Rightarrow> ('s, unit) command"
  lua_number :: "int \<Rightarrow> int"
  lua_tonumber :: "string \<Rightarrow> int option"
  lua_tostring :: "int \<Rightarrow> string"
  lua_integer :: "int \<Rightarrow> int"
  lua_error :: redis_error
  parse_i64 :: "string \<Rightarrow> int option"
  bad_reply :: redis_error

text \<open>A value of a script's reply.\<close>

datatype reply = NilReply | Bulk string | Integer int

section \<open>The scripts\<close>

definition script_update_counter :: "'s redis \<Rightarrow> bytes \<Rightarrow> bytes \<Rightarrow> u64 \<Rightarrow> u64 \<Rightarrow> ('s, int) command" where
  "script_update_counter rd counter_k limit_k ttl delta =
     and_then (rd_incrby rd counter_k delta) (\<lambda>c.
       and_then
         (if lua_number rd c = lua_number rd (uint delta)
          then and_then (rd_expire_nx rd counter_k ttl) (\<lambda>_. rd_sadd rd limit_k counter_k)
          else give ())
         (\<lambda>_. give (lua_integer rd (lua_number rd c))))"

definition batch_update_one :: "'s redis \<Rightarrow> bytes \<times> bytes \<times> u64 \<times> u64 \<Rightarrow> ('s, int list) command" where
  "batch_update_one rd = (\<lambda>(counter_k, limit_k, ttl, delta).
     and_then (rd_incrby rd counter_k delta) (\<lambda>c.
       and_then
         (if lua_number rd c = lua_number rd (uint delta)
          then and_then (rd_expire_nx rd counter_k ttl) (\<lambda>_. rd_sadd rd limit_k counter_k)
          else give ())
         (\<lambda>_. and_then (rd_pexpiretime rd counter_k) (\<lambda>t.
            give [lua_integer rd (lua_number rd c), lua_integer rd (lua_number rd t)]))))"

definition batch_update_counters ::
  "'s redis \<Rightarrow> (bytes \<times> bytes \<times> u64 \<times> u64) list \<Rightarrow> ('s, int list) command" where
  "batch_update_counters rd rows =
     and_then (each_command (batch_update_one rd) rows) (\<lambda>rs. give (concat rs))"

definition values_and_ttls :: "'s redis \<Rightarrow> bytes list \<Rightarrow> ('s, reply list) command" where
  "values_and_ttls rd ks =
     and_then
       (each_command (\<lambda>k.
          and_then (rd_get rd k) (\<lambda>v. and_then (rd_pttl rd k) (\<lambda>t.
            give [case v of None \<Rightarrow> NilReply | Some txt \<Rightarrow> Bulk txt,
                  Integer (lua_integer rd (lua_number rd t))]))) ks)
       (\<lambda>rs. give (concat rs))"

text \<open>\<^verbatim>\<open>SCRIPT_RESERVE\<close>.  A row is the counter key, the reservation key, the limit key, the window in
  seconds and the maximum of one counter.  A packed field is an amount and an expiry around a colon;
  arithmetic on what is not a number ends the script.\<close>

record reserve_row =
  rw_counter :: bytes
  rw_reservations :: bytes
  rw_limit :: bytes
  rw_window :: u64
  rw_max :: u64

definition unpack_hold :: "'s redis \<Rightarrow> string \<Rightarrow> (int option \<times> int option) option" where
  "unpack_hold rd packed =
     map_option (\<lambda>i. (lua_tonumber rd (take i packed), lua_tonumber rd (drop (Suc i) packed)))
       (find_sub '':'' packed)"

primrec sum_holds ::
  "'s redis \<Rightarrow> bytes \<Rightarrow> int \<Rightarrow> (string \<times> string) list \<Rightarrow> int \<Rightarrow> ('s, int) command" where
  "sum_holds rd reservation_k now_ms [] acc = give acc"
| "sum_holds rd reservation_k now_ms (f # fs) acc =
     (case unpack_hold rd (snd f) of
        Some (amt, Some t) \<Rightarrow>
          if now_ms < t then
            (case amt of
               Some amt \<Rightarrow> sum_holds rd reservation_k now_ms fs (lua_number rd (acc + amt))
             | None \<Rightarrow> (\<lambda>s. (Inl (lua_error rd), s)))
          else and_then (rd_hdel rd reservation_k (fst f)) (\<lambda>_. sum_holds rd reservation_k now_ms fs acc)
      | _ \<Rightarrow> (\<lambda>s. (Inl (lua_error rd), s)))"

definition reserve_read ::
  "'s redis \<Rightarrow> int \<Rightarrow> reserve_row \<Rightarrow> ('s, int \<times> int \<times> int) command" where
  "reserve_read rd now_ms row =
     and_then (rd_exists rd (rw_counter row)) (\<lambda>there.
     and_then
       (if there then give ()
        else and_then (rd_set_ex rd (rw_counter row) 0 (lua_number rd (uint (rw_window row))))
               (\<lambda>_. rd_sadd rd (rw_limit row) (rw_counter row))) (\<lambda>_.
     and_then (rd_get rd (rw_counter row)) (\<lambda>v.
     and_then (rd_pttl rd (rw_counter row)) (\<lambda>t.
     and_then (rd_hgetall rd (rw_reservations row)) (\<lambda>fields.
     and_then (sum_holds rd (rw_reservations row) now_ms fields 0) (\<lambda>total.
       give
         (case Option.bind v (lua_tonumber rd) of Some i \<Rightarrow> i | None \<Rightarrow> 0,
          total,
          if lua_number rd t < 0 then lua_number rd (lua_number rd (uint (rw_window row)) * 1000)
          else lua_number rd t)))))))"

definition reserve_fits :: "'s redis \<Rightarrow> int \<Rightarrow> reserve_row \<Rightarrow> int \<times> int \<times> int \<Rightarrow> bool" where
  "reserve_fits rd check_amt row = (\<lambda>(value, total, _).
     \<not> lua_number rd (uint (rw_max row)) < lua_number rd (lua_number rd (value + total) + check_amt))"

definition reserve_write ::
  "'s redis \<Rightarrow> int \<Rightarrow> int \<Rightarrow> string \<Rightarrow> int \<Rightarrow> reserve_row \<times> int \<times> int \<times> int \<Rightarrow> ('s, unit) command" where
  "reserve_write rd hold_amt ttl_ms rid now_ms = (\<lambda>(row, _, _, window_ttl).
     (let until = lua_number rd (now_ms + ttl_ms);
          window_end = lua_number rd (now_ms + window_ttl);
          expires_at_ms = (if window_end < until then window_end else until)
      in and_then (rd_hset rd (rw_reservations row) rid
             (lua_tostring rd hold_amt @ '':'' @ lua_tostring rd expires_at_ms))
           (\<lambda>_. rd_pexpire rd (rw_reservations row) window_ttl)))"

definition script_reserve ::
  "'s redis \<Rightarrow> reserve_row list \<Rightarrow> u64 \<Rightarrow> u64 \<Rightarrow> int \<Rightarrow> string \<Rightarrow> int \<Rightarrow> ('s, int list) command" where
  "script_reserve rd rows check_arg hold_arg ttl_arg rid now_arg =
     (let check_amt = lua_number rd (uint check_arg); hold_amt = lua_number rd (uint hold_arg);
          ttl_ms = lua_number rd ttl_arg; now_ms = lua_number rd now_arg
      in and_then (each_command (reserve_read rd now_ms) rows) (\<lambda>reads.
           let admitted = list_all2 (reserve_fits rd check_amt) rows reads
           in and_then
                (if admitted \<and> 0 < hold_amt
                 then each_command (reserve_write rd hold_amt ttl_ms rid now_ms) (zip rows reads)
                 else give [])
                (\<lambda>_. give
                   (concat (map (\<lambda>(value, total, window_ttl).
                       [lua_integer rd value, lua_integer rd total, lua_integer rd window_ttl]) reads)
                    @ [if admitted then 1 else 0]))))"

section \<open>Reading the reply of a check\<close>

definition reply_i64 :: "'s redis \<Rightarrow> reply \<Rightarrow> redis_error + int option" where
  "reply_i64 rd r =
     (case r of
        NilReply \<Rightarrow> Inr None
      | Bulk txt \<Rightarrow> (case parse_i64 rd txt of Some i \<Rightarrow> Inr (Some i) | None \<Rightarrow> Inl (bad_reply rd))
      | Integer i \<Rightarrow> Inr (Some i))"

primrec replies_i64 :: "'s redis \<Rightarrow> reply list \<Rightarrow> redis_error + int option list" where
  "replies_i64 rd [] = Inr []"
| "replies_i64 rd (r # rs) =
     (case reply_i64 rd r of
        Inl e \<Rightarrow> Inl e
      | Inr i \<Rightarrow> (case replies_i64 rd rs of Inl e \<Rightarrow> Inl e | Inr is \<Rightarrow> Inr (i # is)))"

text \<open>\<^verbatim>\<open>as u64\<close> wraps a negative value around.\<close>

definition counter_of_reply :: "int option \<Rightarrow> int option \<Rightarrow> 'e counter \<Rightarrow> 'e counter" where
  "counter_of_reply val ttl c =
     set_expires_in
       (case ttl of
          Some x \<Rightarrow> if 0 \<le> x then from_millis (word_of_int x) else window c
        | None \<Rightarrow> window c)
       (set_remaining (saturating_sub (counter_max_value c)
          (word_of_int (case val of Some v \<Rightarrow> v | None \<Rightarrow> 0))) c)"

fun is_limited_loop ::
  "u64 \<Rightarrow> 'e counter list \<Rightarrow> int option list \<Rightarrow> authorization option \<Rightarrow>
   (authorization option \<times> 'e counter list) option" where
  "is_limited_loop delta [] res found = Some (found, [])"
| "is_limited_loop delta (c # cs) (val # ttl # res) found =
     (let value = word_of_int (case val of Some v \<Rightarrow> v | None \<Rightarrow> 0);
          found' = (if found = None \<and> checked_sub (counter_max_value c) (saturating_add value delta) = None
                    then Some (Limited (limit_name (limit c))) else found)
      in map_option (map_prod id ((#) (counter_of_reply val ttl c))) (is_limited_loop delta cs res found'))"
| "is_limited_loop delta (c # cs) res found = None"

text \<open>\<^verbatim>\<open>chunks(2)\<close> leaves a last chunk of one when the reply has an odd length; indexing it panics.\<close>

definition redis_is_limited ::
  "'e counter list \<Rightarrow> u64 \<Rightarrow> int option list \<Rightarrow> (authorization option \<times> 'e counter list) option" where
  "redis_is_limited cs delta res =
     (if odd (length res) then None else is_limited_loop delta cs res None)"

end
