(* ===== verification/Redis.thy ===== *)
theory Redis
  imports RedisScripts Backend
begin

text \<open>
  The blocking Redis storage (\<^verbatim>\<open>limitador/src/storage/redis/redis_sync.rs\<close>) and the asynchronous one
  (\<^verbatim>\<open>redis_async.rs\<close>).

  Every exchange with the server goes through the link of the call: before it the server may have
  moved on (its clock, other clients), and it may fail, with or without the server having executed
  it.  The state of the storage is the server's; the pool of the blocking storage may refuse a
  connection.
\<close>

section \<open>Exchanges\<close>

record 's redis_env =
  rn_now :: systime
  rn_pool :: "'s \<Rightarrow> string option"
  rn_link :: "'s \<Rightarrow> 's \<times> (redis_error \<times> bool) option"

definition exchange :: "'s redis_env \<Rightarrow> ('s, 'a) command \<Rightarrow> ('s, 'a) command" where
  "exchange env cmd s =
     (let (s, failure) = rn_link env s
      in case failure of
           None \<Rightarrow> cmd s
         | Some (e, executed) \<Rightarrow> (Inl e, if executed then snd (cmd s) else s))"

definition answer :: "(redis_error + 'a) \<times> 's \<Rightarrow> ('s, 'a) outcome" where
  "answer = (\<lambda>(r, s). Some (map_sum redis_storage_err id r, s))"

text \<open>\<^verbatim>\<open>self.conn_pool.get()?\<close>\<close>

definition pool_storage_err :: "string \<Rightarrow> storage_err" where
  "pool_storage_err msg = \<lparr>err_msg = msg, err_source = Some msg, transient = False\<rparr>"

definition pooled :: "'s redis_env \<Rightarrow> ('s \<Rightarrow> ((storage_err + 'a) \<times> 's) option) \<Rightarrow> 's \<Rightarrow> ('s, 'a) outcome" where
  "pooled env f s = (case rn_pool env s of Some msg \<Rightarrow> Some (Inl (pool_storage_err msg), s) | None \<Rightarrow> f s)"

text \<open>A read of a counter: \<^verbatim>\<open>get::<Vec<u8>, Option<i64>>\<close>, and \<^verbatim>\<open>u64::try_from(val).unwrap_or(0)\<close>.\<close>

definition get_i64 :: "'s redis \<Rightarrow> bytes \<Rightarrow> ('s, int option) command" where
  "get_i64 rd k =
     and_then (rd_get rd k) (\<lambda>v s.
       (reply_i64 rd (case v of None \<Rightarrow> NilReply | Some txt \<Rightarrow> Bulk txt), s))"

definition try_u64 :: "int \<Rightarrow> u64" where
  "try_u64 i = (if 0 \<le> i \<and> i < 2 ^ 64 then word_of_int i else 0)"

definition fits_after :: "int option \<Rightarrow> u64 \<Rightarrow> 'e counter \<Rightarrow> bool" where
  "fits_after val delta c =
     (case val of
        Some v \<Rightarrow> saturating_add (try_u64 v) delta \<le> counter_max_value c
      | None \<Rightarrow> checked_sub (counter_max_value c) delta \<noteq> None)"

section \<open>The blocking storage\<close>

definition sync_is_within_limits ::
  "'s redis \<Rightarrow> 'e codec \<Rightarrow> 's redis_env \<Rightarrow> 'e counter \<Rightarrow> u64 \<Rightarrow> 's \<Rightarrow> ('s, bool) outcome" where
  "sync_is_within_limits rd cd env c delta = pooled env (\<lambda>s. do {
     k \<leftarrow> key_for_counter cd c;
     (r, s) \<leftarrow> answer (exchange env (get_i64 rd k) s);
     Some (map_sum id (\<lambda>val. fits_after val delta c) r, s)
   })"

definition sync_update_counter ::
  "'s redis \<Rightarrow> 'e codec \<Rightarrow> 's redis_env \<Rightarrow> 'e counter \<Rightarrow> u64 \<Rightarrow> 's \<Rightarrow> ('s, unit) outcome" where
  "sync_update_counter rd cd env c delta = pooled env (\<lambda>s. do {
     k \<leftarrow> key_for_counter cd c;
     (r, s) \<leftarrow> answer (exchange env (script_update_counter rd k (key_for_counters_of_limit cd (limit c))
       (as_secs (window c)) delta) s);
     Some (map_sum id (\<lambda>_. ()) r, s)
   })"

definition sync_evaluate ::
  "'s redis \<Rightarrow> 'e codec \<Rightarrow> 's redis_env \<Rightarrow> 'e counter list \<Rightarrow> u64 \<Rightarrow> 's \<Rightarrow>
   (((storage_err + authorization option) \<times> 'e counter list) \<times> 's) option" where
  "sync_evaluate rd cd env cs delta s =
     (case rn_pool env s of
        Some msg \<Rightarrow> Some ((Inl (pool_storage_err msg), cs), s)
      | None \<Rightarrow> do {
          keys \<leftarrow> traverse (key_for_counter cd) cs;
          (r, s) \<leftarrow> answer (exchange env
            (and_then (values_and_ttls rd keys) (\<lambda>rs s. (replies_i64 rd rs, s))) s);
          (case r of
             Inl e \<Rightarrow> Some ((Inl e, cs), s)
           | Inr res \<Rightarrow> do {
               (found, cs') \<leftarrow> redis_is_limited cs delta res;
               Some ((Inr found, cs'), s)
             })
        })"

definition sync_check ::
  "'s redis \<Rightarrow> 'e codec \<Rightarrow> 's redis_env \<Rightarrow> 'e counter list \<Rightarrow> u64 \<Rightarrow> 's \<Rightarrow>
   (((storage_err + authorization) \<times> 'e counter list) \<times> 's) option" where
  "sync_check rd cd env cs delta s = do {
     ((r, cs'), s) \<leftarrow> sync_evaluate rd cd env cs delta s;
     Some ((map_sum id (\<lambda>found. case found of Some a \<Rightarrow> a | None \<Rightarrow> AuthOk) r, cs'), s)
   }"

definition sync_update_one ::
  "'s redis \<Rightarrow> 'e codec \<Rightarrow> 's redis_env \<Rightarrow> u64 \<Rightarrow> 'e counter \<Rightarrow> 's \<Rightarrow> ('s, unit) outcome" where
  "sync_update_one rd cd env delta c s = do {
     k \<leftarrow> key_for_counter cd c;
     (r, s) \<leftarrow> answer (exchange env (script_update_counter rd k (key_for_counters_of_limit cd (limit c))
       (as_secs (window c)) delta) s);
     Some (map_sum id (\<lambda>_. ()) r, s)
   }"

definition sync_check_and_update ::
  "'s redis \<Rightarrow> 'e codec \<Rightarrow> 's redis_env \<Rightarrow> 'e counter list \<Rightarrow> u64 \<Rightarrow> 's \<Rightarrow>
   (((storage_err + authorization) \<times> 'e counter list) \<times> 's) option" where
  "sync_check_and_update rd cd env cs delta s = do {
     ((r, cs'), s) \<leftarrow> sync_evaluate rd cd env cs delta s;
     (case r of
        Inl e \<Rightarrow> Some ((Inl e, cs'), s)
      | Inr (Some a) \<Rightarrow> Some ((Inr a, cs'), s)
      | Inr None \<Rightarrow> do {
          (r, s) \<leftarrow> pooled env (try_each (sync_update_one rd cd env delta) cs') s;
          Some ((map_sum id (\<lambda>_. AuthOk) r, cs'), s)
        })
   }"

text \<open>The counters of one limit; a \<^verbatim>\<open>ttl\<close> is read as \<^verbatim>\<open>u64\<close> here, so a negative one, of a key without
  expiry or gone since it was read, is an error of the client.\<close>

primrec sync_counters_of ::
  "'s redis \<Rightarrow> 'e cel \<Rightarrow> 'e codec \<Rightarrow> 's redis_env \<Rightarrow> 'e limit \<Rightarrow> bytes list \<Rightarrow> 'e counter list \<Rightarrow> 's \<Rightarrow>
   ('s, 'e counter list) outcome" where
  "sync_counters_of rd cel cd env l [] acc s = Some (Inr acc, s)"
| "sync_counters_of rd cel cd env l (k # ks) acc s = do {
     c \<leftarrow> counter_from_counter_key cel cd k l;
     (r, s) \<leftarrow> answer (exchange env (get_i64 rd k) s);
     (case r of
        Inl e \<Rightarrow> Some (Inl e, s)
      | Inr None \<Rightarrow> sync_counters_of rd cel cd env l ks acc s
      | Inr (Some val) \<Rightarrow> do {
          (r, s) \<leftarrow> answer (exchange env (and_then (rd_ttl rd k) (\<lambda>t s.
            (if t < 0 then Inl (bad_reply rd) else Inr t, s))) s);
          (case r of
             Inl e \<Rightarrow> Some (Inl e, s)
           | Inr t \<Rightarrow>
               sync_counters_of rd cel cd env l ks
                 (snd (hset_insert counter_key
                    (set_expires_in (from_secs (word_of_int t))
                      (set_remaining (saturating_sub (max_value l) (try_u64 val)) c)) acc)) s)
        })
   }"

primrec sync_counters_loop ::
  "'s redis \<Rightarrow> 'e cel \<Rightarrow> 'e codec \<Rightarrow> 's redis_env \<Rightarrow> 'e limit list \<Rightarrow> 'e counter list \<Rightarrow> 's \<Rightarrow>
   ('s, 'e counter list) outcome" where
  "sync_counters_loop rd cel cd env [] acc s = Some (Inr acc, s)"
| "sync_counters_loop rd cel cd env (l # ls) acc s = do {
     (r, s) \<leftarrow> answer (exchange env (rd_smembers rd (key_for_counters_of_limit cd l)) s);
     (case r of
        Inl e \<Rightarrow> Some (Inl e, s)
      | Inr ks \<Rightarrow> do {
          (r, s) \<leftarrow> sync_counters_of rd cel cd env l ks acc s;
          (case r of Inl e \<Rightarrow> Some (Inl e, s) | Inr acc \<Rightarrow> sync_counters_loop rd cel cd env ls acc s)
        })
   }"

definition sync_get_counters ::
  "'s redis \<Rightarrow> 'e cel \<Rightarrow> 'e codec \<Rightarrow> 's redis_env \<Rightarrow> 'e limit list \<Rightarrow> 's \<Rightarrow> ('s, 'e counter list) outcome" where
  "sync_get_counters rd cel cd env ls = pooled env (sync_counters_loop rd cel cd env ls [])"

definition sync_delete_one ::
  "'s redis \<Rightarrow> 'e codec \<Rightarrow> 's redis_env \<Rightarrow> 'e limit \<Rightarrow> 's \<Rightarrow> ('s, unit) outcome" where
  "sync_delete_one rd cd env l s = do {
     (r, s) \<leftarrow> answer (exchange env (rd_smembers rd (key_for_counters_of_limit cd l)) s);
     (case r of
        Inl e \<Rightarrow> Some (Inl e, s)
      | Inr ks \<Rightarrow> try_each (\<lambda>k s. answer (exchange env (rd_del rd k) s))
          (ks @ [key_for_counters_of_limit cd l]) s)
   }"

definition sync_delete_counters ::
  "'s redis \<Rightarrow> 'e codec \<Rightarrow> 's redis_env \<Rightarrow> 'e limit list \<Rightarrow> 's \<Rightarrow> ('s, unit) outcome" where
  "sync_delete_counters rd cd env ls = pooled env (try_each (sync_delete_one rd cd env) ls)"

definition sync_clear :: "'s redis \<Rightarrow> 's redis_env \<Rightarrow> 's \<Rightarrow> ('s, unit) outcome" where
  "sync_clear rd env = pooled env (\<lambda>s. answer (exchange env (rd_flushdb rd) s))"

text \<open>Reserving: the rows sent to the script, and what its reply makes of the counters.  Sums wrap.\<close>

definition row_of :: "'e codec \<Rightarrow> 'e counter \<Rightarrow> reserve_row option" where
  "row_of cd c = do {
     k \<leftarrow> key_for_counter cd c;
     rk \<leftarrow> key_for_reservations cd c;
     Some \<lparr>rw_counter = k, rw_reservations = rk, rw_limit = key_for_counters_of_limit cd (limit c),
           rw_window = as_secs (window c), rw_max = counter_max_value c\<rparr>
   }"

definition clipped_u64 :: "int \<Rightarrow> u64" where
  "clipped_u64 i = word_of_int (max i 0)"

definition as_i64 :: "nat \<Rightarrow> int" where
  "as_i64 n = sint (of_nat n :: u64)"

fun reserve_reply ::
  "bool \<Rightarrow> u64 \<Rightarrow> u64 \<Rightarrow> 'e counter list \<Rightarrow> int list \<Rightarrow> string option option \<Rightarrow>
   (string option option \<times> 'e counter list) option" where
  "reserve_reply admitted check_amt hold_amt [] raw found = Some (found, [])"
| "reserve_reply admitted check_amt hold_amt (c # cs) (v # t # w # raw) found =
     (let value = clipped_u64 v; outst = clipped_u64 t;
          granted = (if admitted then hold_amt else 0);
          left = (case checked_sub (counter_max_value c) (value + outst + granted) of
                    Some x \<Rightarrow> x | None \<Rightarrow> 0);
          found' = (if found = None \<and> counter_max_value c < value + outst + check_amt
                    then Some (limit_name (limit c)) else found)
      in map_option (map_prod id ((#) (set_expires_in (from_millis (clipped_u64 w)) (set_remaining left c))))
           (reserve_reply admitted check_amt hold_amt cs raw found'))"
| "reserve_reply admitted check_amt hold_amt (c # cs) raw found = None"

definition reserve_answer ::
  "u64 \<Rightarrow> u64 \<Rightarrow> 'e counter list \<Rightarrow> int list \<Rightarrow> (authorization \<times> 'e counter list) option" where
  "reserve_answer check_amt hold_amt cs raw = do {
     let admitted = (raw \<noteq> [] \<and> last raw = 1);
     (found, cs') \<leftarrow> reserve_reply admitted check_amt hold_amt cs raw None;
     Some (if admitted then AuthOk else Limited (case found of Some n \<Rightarrow> n | None \<Rightarrow> None), cs')
   }"

definition sync_reserve ::
  "'s redis \<Rightarrow> 'e codec \<Rightarrow> 's redis_env \<Rightarrow> 'e counter list \<Rightarrow> reservation_id \<Rightarrow> u64 \<Rightarrow> u64 \<Rightarrow> duration \<Rightarrow> 's \<Rightarrow>
   (((storage_err + authorization) \<times> 'e counter list) \<times> 's) option" where
  "sync_reserve rd cd env cs rid check_amt hold_amt ttl s =
     (case rn_pool env s of
        Some msg \<Rightarrow> Some ((Inl (pool_storage_err msg), cs), s)
      | None \<Rightarrow> do {
          rows \<leftarrow> traverse (row_of cd) cs;
          (r, s) \<leftarrow> answer (exchange env (script_reserve rd rows check_amt hold_amt
            (as_i64 (ttl div 10 ^ 6)) rid (as_i64 (rn_now env div 10 ^ 6))) s);
          (case r of
             Inl e \<Rightarrow> Some ((Inl e, cs), s)
           | Inr raw \<Rightarrow> do {
               (a, cs') \<leftarrow> reserve_answer check_amt hold_amt cs raw;
               Some ((Inr a, cs'), s)
             })
        })"

text \<open>A pipeline: one exchange, all of whose commands run; its answer is the first error.\<close>

primrec pipeline :: "('s, 'a) command list \<Rightarrow> ('s, 'a list) command" where
  "pipeline [] s = (Inr [], s)"
| "pipeline (m # ms) s =
     (let (r, s) = m s; (rs, s) = pipeline ms s
      in (case r of Inl e \<Rightarrow> Inl e | Inr a \<Rightarrow> map_sum id ((#) a) rs, s))"

definition sync_release_reservation ::
  "'s redis \<Rightarrow> 'e codec \<Rightarrow> 's redis_env \<Rightarrow> 'e counter list \<Rightarrow> reservation_id \<Rightarrow> 's \<Rightarrow> ('s, bool) outcome" where
  "sync_release_reservation rd cd env cs rid s =
     (if cs = [] then Some (Inr False, s)
      else pooled env (\<lambda>s. do {
        keys \<leftarrow> traverse (key_for_reservations cd) cs;
        (r, s) \<leftarrow> answer (exchange env (pipeline (map (\<lambda>k. rd_hdel rd k rid) keys)) s);
        Some (map_sum id (list_ex (\<lambda>n. 0 < n)) r, s)
      }) s)"

definition redis_storage ::
  "'s redis \<Rightarrow> 'e cel \<Rightarrow> 'e codec \<Rightarrow> ('s redis_env, 's, 'e) counter_storage" where
  "redis_storage rd cel cd =
     \<lparr>cs_is_within_limits = sync_is_within_limits rd cd,
      cs_add_counter = (\<lambda>env l s. Some (Inr (), s)),
      cs_update_counter = sync_update_counter rd cd,
      cs_check = sync_check rd cd,
      cs_check_and_update = sync_check_and_update rd cd,
      cs_get_counters = sync_get_counters rd cel cd,
      cs_delete_counters = sync_delete_counters rd cd,
      cs_clear = sync_clear rd,
      cs_reserve = sync_reserve rd cd,
      cs_release_reservation = sync_release_reservation rd cd\<rparr>"

end
