(* ===== verification/AsyncRedis.thy ===== *)
theory AsyncRedis
  imports Redis
begin

text \<open>
  The asynchronous Redis storage: \<^verbatim>\<open>limitador/src/storage/redis/redis_async.rs\<close>.  It shares the scripts
  and the exchanges of the blocking one, sends the updates of a checked update in one pipeline, and
  loads the script and repeats the pipeline when the server does not know the script.
\<close>

section \<open>Operations\<close>

definition aredis_is_within_limits ::
  "'s redis \<Rightarrow> 'e codec \<Rightarrow> 's redis_env \<Rightarrow> 'e counter \<Rightarrow> u64 \<Rightarrow> 's \<Rightarrow> ('s, bool) outcome" where
  "aredis_is_within_limits rd cd env c delta s = do {
     k \<leftarrow> key_for_counter cd c;
     (r, s) \<leftarrow> answer (exchange env (get_i64 rd k) s);
     Some (map_sum id (\<lambda>val. fits_after val delta c) r, s)
   }"

definition aredis_update_counter ::
  "'s redis \<Rightarrow> 'e codec \<Rightarrow> 's redis_env \<Rightarrow> 'e counter \<Rightarrow> u64 \<Rightarrow> 's \<Rightarrow> ('s, unit) outcome" where
  "aredis_update_counter rd cd env c delta s = do {
     k \<leftarrow> key_for_counter cd c;
     (r, s) \<leftarrow> answer (exchange env (script_update_counter rd k (key_for_counters_of_limit cd (limit c))
       (as_secs (window c)) delta) s);
     Some (map_sum id (\<lambda>_. ()) r, s)
   }"

definition aredis_evaluate ::
  "'s redis \<Rightarrow> 'e codec \<Rightarrow> 's redis_env \<Rightarrow> 'e counter list \<Rightarrow> u64 \<Rightarrow> 's \<Rightarrow>
   (((storage_err + authorization option) \<times> 'e counter list) \<times> 's) option" where
  "aredis_evaluate rd cd env cs delta s = do {
     keys \<leftarrow> traverse (key_for_counter cd) cs;
     (r, s) \<leftarrow> answer (exchange env
       (and_then (values_and_ttls rd keys) (\<lambda>rs s. (replies_i64 rd rs, s))) s);
     (case r of
        Inl e \<Rightarrow> Some ((Inl e, cs), s)
      | Inr res \<Rightarrow> do {
          (found, cs') \<leftarrow> redis_is_limited cs delta res;
          Some ((Inr found, cs'), s)
        })
   }"

definition aredis_check ::
  "'s redis \<Rightarrow> 'e codec \<Rightarrow> 's redis_env \<Rightarrow> 'e counter list \<Rightarrow> u64 \<Rightarrow> 's \<Rightarrow>
   (((storage_err + authorization) \<times> 'e counter list) \<times> 's) option" where
  "aredis_check rd cd env cs delta s = do {
     ((r, cs'), s) \<leftarrow> aredis_evaluate rd cd env cs delta s;
     Some ((map_sum id (\<lambda>found. case found of Some a \<Rightarrow> a | None \<Rightarrow> AuthOk) r, cs'), s)
   }"

definition update_commands ::
  "'s redis \<Rightarrow> 'e codec \<Rightarrow> u64 \<Rightarrow> bytes list \<Rightarrow> 'e counter list \<Rightarrow> ('s, int) command list" where
  "update_commands rd cd delta keys cs =
     map (\<lambda>(k, c). script_update_counter rd k (key_for_counters_of_limit cd (limit c)) (as_secs (window c)) delta)
       (zip keys cs)"

definition send_updates ::
  "'s redis \<Rightarrow> string \<Rightarrow> 's redis_env \<Rightarrow> ('s, int) command list \<Rightarrow> 's \<Rightarrow> (redis_error + unit) \<times> 's" where
  "send_updates rd script env cmds s =
     (let (r, s) = exchange env (pipeline cmds) s
      in case r of
           Inr _ \<Rightarrow> (Inr (), s)
         | Inl e \<Rightarrow>
             if is_no_script e then
               (let (r, s) = exchange env (rd_script_load rd script) s
                in case r of
                     Inl e \<Rightarrow> (Inl e, s)
                   | Inr _ \<Rightarrow> (let (r, s) = exchange env (pipeline cmds) s in (map_sum id (\<lambda>_. ()) r, s)))
             else (Inl e, s))"

definition aredis_check_and_update ::
  "'s redis \<Rightarrow> string \<Rightarrow> 'e codec \<Rightarrow> 's redis_env \<Rightarrow> 'e counter list \<Rightarrow> u64 \<Rightarrow> 's \<Rightarrow>
   (((storage_err + authorization) \<times> 'e counter list) \<times> 's) option" where
  "aredis_check_and_update rd script cd env cs delta s = do {
     keys \<leftarrow> traverse (key_for_counter cd) cs;
     ((r, cs'), s) \<leftarrow> aredis_evaluate rd cd env cs delta s;
     (case r of
        Inl e \<Rightarrow> Some ((Inl e, cs'), s)
      | Inr (Some a) \<Rightarrow> Some ((Inr a, cs'), s)
      | Inr None \<Rightarrow> do {
          (r, s) \<leftarrow> answer (send_updates rd script env (update_commands rd cd delta keys cs') s);
          Some ((map_sum id (\<lambda>_. AuthOk) r, cs'), s)
        })
   }"

text \<open>Here a negative \<^verbatim>\<open>ttl\<close> is read as zero.\<close>

primrec aredis_counters_of ::
  "'s redis \<Rightarrow> 'e cel \<Rightarrow> 'e codec \<Rightarrow> 's redis_env \<Rightarrow> 'e limit \<Rightarrow> bytes list \<Rightarrow> 'e counter list \<Rightarrow> 's \<Rightarrow>
   ('s, 'e counter list) outcome" where
  "aredis_counters_of rd cel cd env l [] acc s = Some (Inr acc, s)"
| "aredis_counters_of rd cel cd env l (k # ks) acc s = do {
     c \<leftarrow> counter_from_counter_key cel cd k l;
     (r, s) \<leftarrow> answer (exchange env (get_i64 rd k) s);
     (case r of
        Inl e \<Rightarrow> Some (Inl e, s)
      | Inr None \<Rightarrow> aredis_counters_of rd cel cd env l ks acc s
      | Inr (Some val) \<Rightarrow> do {
          (r, s) \<leftarrow> answer (exchange env (rd_ttl rd k) s);
          (case r of
             Inl e \<Rightarrow> Some (Inl e, s)
           | Inr t \<Rightarrow>
               aredis_counters_of rd cel cd env l ks
                 (snd (hset_insert counter_key
                    (set_expires_in (from_secs (try_u64 t))
                      (set_remaining (saturating_sub (max_value l) (try_u64 val)) c)) acc)) s)
        })
   }"

primrec aredis_counters_loop ::
  "'s redis \<Rightarrow> 'e cel \<Rightarrow> 'e codec \<Rightarrow> 's redis_env \<Rightarrow> 'e limit list \<Rightarrow> 'e counter list \<Rightarrow> 's \<Rightarrow>
   ('s, 'e counter list) outcome" where
  "aredis_counters_loop rd cel cd env [] acc s = Some (Inr acc, s)"
| "aredis_counters_loop rd cel cd env (l # ls) acc s = do {
     (r, s) \<leftarrow> answer (exchange env (rd_smembers rd (key_for_counters_of_limit cd l)) s);
     (case r of
        Inl e \<Rightarrow> Some (Inl e, s)
      | Inr ks \<Rightarrow> do {
          (r, s) \<leftarrow> aredis_counters_of rd cel cd env l ks acc s;
          (case r of Inl e \<Rightarrow> Some (Inl e, s) | Inr acc \<Rightarrow> aredis_counters_loop rd cel cd env ls acc s)
        })
   }"

definition aredis_get_counters ::
  "'s redis \<Rightarrow> 'e cel \<Rightarrow> 'e codec \<Rightarrow> 's redis_env \<Rightarrow> 'e limit list \<Rightarrow> 's \<Rightarrow> ('s, 'e counter list) outcome" where
  "aredis_get_counters rd cel cd env ls = aredis_counters_loop rd cel cd env ls []"

definition delete_counters_associated_with_limit ::
  "'s redis \<Rightarrow> 'e codec \<Rightarrow> 's redis_env \<Rightarrow> 'e limit \<Rightarrow> 's \<Rightarrow> ('s, unit) outcome" where
  "delete_counters_associated_with_limit rd cd env l s = do {
     (r, s) \<leftarrow> answer (exchange env (rd_smembers rd (key_for_counters_of_limit cd l)) s);
     (case r of
        Inl e \<Rightarrow> Some (Inl e, s)
      | Inr ks \<Rightarrow> try_each (\<lambda>k s. answer (exchange env (rd_del rd k) s))
          (ks @ [key_for_counters_of_limit cd l]) s)
   }"

definition aredis_delete_counters ::
  "'s redis \<Rightarrow> 'e codec \<Rightarrow> 's redis_env \<Rightarrow> 'e limit list \<Rightarrow> 's \<Rightarrow> ('s, unit) outcome" where
  "aredis_delete_counters rd cd env ls = try_each (delete_counters_associated_with_limit rd cd env) ls"

definition aredis_clear :: "'s redis \<Rightarrow> 's redis_env \<Rightarrow> 's \<Rightarrow> ('s, unit) outcome" where
  "aredis_clear rd env s = answer (exchange env (rd_flushdb rd) s)"

definition aredis_reserve ::
  "'s redis \<Rightarrow> 'e codec \<Rightarrow> 's redis_env \<Rightarrow> 'e counter list \<Rightarrow> reservation_id \<Rightarrow> u64 \<Rightarrow> u64 \<Rightarrow> duration \<Rightarrow> 's \<Rightarrow>
   (((storage_err + authorization) \<times> 'e counter list) \<times> 's) option" where
  "aredis_reserve rd cd env cs rid check_amt hold_amt ttl s = do {
     rows \<leftarrow> traverse (row_of cd) cs;
     (r, s) \<leftarrow> answer (exchange env (script_reserve rd rows check_amt hold_amt
       (as_i64 (ttl div 10 ^ 6)) rid (as_i64 (rn_now env div 10 ^ 6))) s);
     (case r of
        Inl e \<Rightarrow> Some ((Inl e, cs), s)
      | Inr raw \<Rightarrow> do {
          (a, cs') \<leftarrow> reserve_answer check_amt hold_amt cs raw;
          Some ((Inr a, cs'), s)
        })
   }"

definition aredis_release_reservation ::
  "'s redis \<Rightarrow> 'e codec \<Rightarrow> 's redis_env \<Rightarrow> 'e counter list \<Rightarrow> reservation_id \<Rightarrow> 's \<Rightarrow> ('s, bool) outcome" where
  "aredis_release_reservation rd cd env cs rid s =
     (if cs = [] then Some (Inr False, s)
      else do {
        keys \<leftarrow> traverse (key_for_reservations cd) cs;
        (r, s) \<leftarrow> answer (exchange env (pipeline (map (\<lambda>k. rd_hdel rd k rid) keys)) s);
        Some (map_sum id (list_ex (\<lambda>n. 0 < n)) r, s)
      })"

text \<open>What the cached storage reads on a miss.\<close>

fun pairs_with :: "'e counter list \<Rightarrow> int option list \<Rightarrow> (u64 \<times> duration) list option" where
  "pairs_with [] raw = Some []"
| "pairs_with (c # cs) [] = Some []"
| "pairs_with (c # cs) [_] = None"
| "pairs_with (c # cs) (v # t # raw) =
     map_option ((#) (clipped_u64 (case v of Some i \<Rightarrow> i | None \<Rightarrow> 0),
         case t of Some ms \<Rightarrow> if 0 \<le> ms then from_millis (word_of_int ms) else window c | None \<Rightarrow> window c))
       (pairs_with cs raw)"

definition values_and_window_ttls ::
  "'s redis \<Rightarrow> 'e codec \<Rightarrow> 's redis_env \<Rightarrow> 'e counter list \<Rightarrow> 's \<Rightarrow> ('s, (u64 \<times> duration) list) outcome" where
  "values_and_window_ttls rd cd env cs s = do {
     keys \<leftarrow> traverse (key_for_counter cd) cs;
     (r, s) \<leftarrow> answer (exchange env
       (and_then (values_and_ttls rd keys) (\<lambda>rs s. (replies_i64 rd rs, s))) s);
     (case r of
        Inl e \<Rightarrow> Some (Inl e, s)
      | Inr raw \<Rightarrow> do {
          rows \<leftarrow> pairs_with cs raw;
          Some (Inr rows, s)
        })
   }"

definition async_redis_storage ::
  "'s redis \<Rightarrow> string \<Rightarrow> 'e cel \<Rightarrow> 'e codec \<Rightarrow> ('s redis_env, 's, 'e) counter_storage" where
  "async_redis_storage rd script cel cd =
     \<lparr>cs_is_within_limits = aredis_is_within_limits rd cd,
      cs_add_counter = (\<lambda>env l s. Some (Inr (), s)),
      cs_update_counter = aredis_update_counter rd cd,
      cs_check = aredis_check rd cd,
      cs_check_and_update = aredis_check_and_update rd script cd,
      cs_get_counters = aredis_get_counters rd cel cd,
      cs_delete_counters = aredis_delete_counters rd cd,
      cs_clear = aredis_clear rd,
      cs_reserve = aredis_reserve rd cd,
      cs_release_reservation = aredis_release_reservation rd cd\<rparr>"

section \<open>It agrees with the blocking storage\<close>

text \<open>With a connection in the pool, the two storages answer alike in everything but the updates of a
  checked update and the listing of counters.\<close>

lemma pooled_open [simp]: "rn_pool env s = None \<Longrightarrow> pooled env f s = f s"
  by (simp add: pooled_def)

lemma aredis_evaluate_sync:
  "rn_pool env s = None \<Longrightarrow> sync_evaluate rd cd env cs delta s = aredis_evaluate rd cd env cs delta s"
  by (simp add: sync_evaluate_def aredis_evaluate_def)

lemma sync_delete_one_async: "sync_delete_one = delete_counters_associated_with_limit"
  by (intro ext) (simp add: sync_delete_one_def delete_counters_associated_with_limit_def)

lemma aredis_sync:
  assumes "rn_pool env s = None"
  shows "sync_is_within_limits rd cd env c delta s = aredis_is_within_limits rd cd env c delta s"
    "sync_update_counter rd cd env c delta s = aredis_update_counter rd cd env c delta s"
    "sync_check rd cd env cs delta s = aredis_check rd cd env cs delta s"
    "sync_delete_counters rd cd env ls s = aredis_delete_counters rd cd env ls s"
    "sync_clear rd env s = aredis_clear rd env s"
    "sync_reserve rd cd env cs rid check_amt hold_amt ttl s = aredis_reserve rd cd env cs rid check_amt hold_amt ttl s"
    "sync_release_reservation rd cd env cs rid s = aredis_release_reservation rd cd env cs rid s"
  using assms
  by (simp_all add: sync_is_within_limits_def aredis_is_within_limits_def sync_update_counter_def
      aredis_update_counter_def sync_check_def aredis_check_def aredis_evaluate_sync
      sync_delete_counters_def aredis_delete_counters_def sync_delete_one_async sync_clear_def
      aredis_clear_def sync_reserve_def aredis_reserve_def sync_release_reservation_def
      aredis_release_reservation_def)

end
