(* ===== verification/RedisStore.thy ===== *)
theory RedisStore
  imports AsyncRedis
begin

text \<open>
  The Redis storages as counter stores.  \<open>redis_laws\<close> states the documented behaviour of the commands
  that counting uses, over a view of the server: the value of every live key and the instant, in
  milliseconds of the server's clock, at which it expires.
\<close>

section \<open>The documented behaviour of the server\<close>

datatype rvalue = RInt int | RSet "bytes list" | RHash "(string \<times> string) list" | ROther

type_synonym 's redis_view = "'s \<Rightarrow> bytes \<Rightarrow> (rvalue \<times> int option) option"

definition pttl_of :: "'s redis_view \<Rightarrow> ('s \<Rightarrow> int) \<Rightarrow> 's \<Rightarrow> bytes \<Rightarrow> int" where
  "pttl_of view clock s k =
     (case view s k of None \<Rightarrow> - 2 | Some (_, None) \<Rightarrow> - 1 | Some (_, Some t) \<Rightarrow> t - clock s)"

definition redis_laws :: "'s redis \<Rightarrow> 's redis_view \<Rightarrow> ('s \<Rightarrow> int) \<Rightarrow> bool" where
  "redis_laws rd view clock \<longleftrightarrow>
     (\<forall>k s. view s k = None \<longrightarrow> rd_get rd k s = (Inr None, s)) \<and>
     (\<forall>k s i e. view s k = Some (RInt i, e) \<longrightarrow>
        (\<exists>txt. rd_get rd k s = (Inr (Some txt), s) \<and> parse_i64 rd txt = Some i)) \<and>
     (\<forall>k s. rd_pttl rd k s = (Inr (pttl_of view clock s k), s)) \<and>
     (\<forall>k s d. view s k = None \<longrightarrow> unat d < 2 ^ 63 \<longrightarrow>
        (\<exists>s'. rd_incrby rd k d s = (Inr (uint d), s') \<and> view s' = (view s)(k \<mapsto> (RInt (uint d), None)) \<and>
           clock s' = clock s)) \<and>
     (\<forall>k s d i e. view s k = Some (RInt i, e) \<longrightarrow> unat d < 2 ^ 63 \<longrightarrow> i + uint d < 2 ^ 63 \<longrightarrow>
        (\<exists>s'. rd_incrby rd k d s = (Inr (i + uint d), s') \<and> view s' = (view s)(k \<mapsto> (RInt (i + uint d), e)) \<and>
           clock s' = clock s)) \<and>
     (\<forall>k s t v. view s k = Some (v, None) \<longrightarrow> 0 < t \<longrightarrow> unat t \<le> 2 ^ 50 \<longrightarrow>
        (\<exists>s'. rd_expire_nx rd k t s = (Inr (), s') \<and>
           view s' = (view s)(k \<mapsto> (v, Some (clock s + 1000 * uint t))) \<and> clock s' = clock s)) \<and>
     (\<forall>k s t v e. view s k = Some (v, Some e) \<longrightarrow> 0 < t \<longrightarrow> unat t \<le> 2 ^ 50 \<longrightarrow>
        (\<exists>s'. rd_expire_nx rd k t s = (Inr (), s') \<and> view s' = view s \<and> clock s' = clock s)) \<and>
     (\<forall>k s m. view s k = None \<longrightarrow>
        (\<exists>s'. rd_sadd rd k m s = (Inr (), s') \<and> view s' = (view s)(k \<mapsto> (RSet [m], None)) \<and> clock s' = clock s)) \<and>
     (\<forall>k s m ms e. view s k = Some (RSet ms, e) \<longrightarrow>
        (\<exists>s' ms'. rd_sadd rd k m s = (Inr (), s') \<and> set ms' = insert m (set ms) \<and>
           view s' = (view s)(k \<mapsto> (RSet ms', e)) \<and> clock s' = clock s))"

lemma redis_lawsD:
  assumes "redis_laws rd view clock"
  shows law_get_none: "view s k = None \<Longrightarrow> rd_get rd k s = (Inr None, s)"
    and law_get: "view s k = Some (RInt i, e) \<Longrightarrow>
      \<exists>txt. rd_get rd k s = (Inr (Some txt), s) \<and> parse_i64 rd txt = Some i"
    and law_pttl: "rd_pttl rd k s = (Inr (pttl_of view clock s k), s)"
    and law_incr_new: "view s k = None \<Longrightarrow> unat d < 2 ^ 63 \<Longrightarrow>
      \<exists>s'. rd_incrby rd k d s = (Inr (uint d), s') \<and> view s' = (view s)(k \<mapsto> (RInt (uint d), None)) \<and>
        clock s' = clock s"
    and law_incr: "view s k = Some (RInt i, e) \<Longrightarrow> unat d < 2 ^ 63 \<Longrightarrow> i + uint d < 2 ^ 63 \<Longrightarrow>
      \<exists>s'. rd_incrby rd k d s = (Inr (i + uint d), s') \<and> view s' = (view s)(k \<mapsto> (RInt (i + uint d), e)) \<and>
        clock s' = clock s"
    and law_arm: "view s k = Some (v, None) \<Longrightarrow> 0 < t \<Longrightarrow> unat t \<le> 2 ^ 50 \<Longrightarrow>
      \<exists>s'. rd_expire_nx rd k t s = (Inr (), s') \<and>
        view s' = (view s)(k \<mapsto> (v, Some (clock s + 1000 * uint t))) \<and> clock s' = clock s"
    and law_armed: "view s k = Some (v, Some x) \<Longrightarrow> 0 < t \<Longrightarrow> unat t \<le> 2 ^ 50 \<Longrightarrow>
      \<exists>s'. rd_expire_nx rd k t s = (Inr (), s') \<and> view s' = view s \<and> clock s' = clock s"
    and law_sadd_new: "view s k = None \<Longrightarrow>
      \<exists>s'. rd_sadd rd k m s = (Inr (), s') \<and> view s' = (view s)(k \<mapsto> (RSet [m], None)) \<and> clock s' = clock s"
    and law_sadd: "view s k = Some (RSet ms, e) \<Longrightarrow>
      \<exists>s' ms'. rd_sadd rd k m s = (Inr (), s') \<and> set ms' = insert m (set ms) \<and>
        view s' = (view s)(k \<mapsto> (RSet ms', e)) \<and> clock s' = clock s"
  using assms unfolding redis_laws_def by simp_all

section \<open>Counting on the server\<close>

text \<open>The integer a counter key stands for, and a key that can hold the counters of a limit.\<close>

definition int_at :: "'s redis_view \<Rightarrow> 's \<Rightarrow> bytes \<Rightarrow> int option" where
  "int_at view s k =
     (case view s k of None \<Rightarrow> Some 0 | Some (RInt i, _) \<Rightarrow> Some i | _ \<Rightarrow> None)"

definition set_at :: "'s redis_view \<Rightarrow> 's \<Rightarrow> bytes \<Rightarrow> bool" where
  "set_at view s k \<longleftrightarrow> (case view s k of None \<Rightarrow> True | Some (RSet _, _) \<Rightarrow> True | _ \<Rightarrow> False)"

text \<open>Every counter on the server runs out.\<close>

definition runs_out :: "'s redis_view \<Rightarrow> 's \<Rightarrow> bytes \<Rightarrow> bool" where
  "runs_out view s k \<longleftrightarrow> (\<forall>i. view s k \<noteq> Some (RInt i, None))"

lemma int_at_cases:
  assumes "int_at view s k = Some i"
  obtains "view s k = None" "i = 0" | e where "view s k = Some (RInt i, e)"
  using assms by (auto simp: int_at_def split: option.splits prod.splits rvalue.splits)

lemma sadd_result:
  assumes "redis_laws rd view clock" "set_at view s lk"
  shows "\<exists>s' ms e. rd_sadd rd lk m s = (Inr (), s') \<and> view s' = (view s)(lk \<mapsto> (RSet ms, e)) \<and> m \<in> set ms \<and>
    clock s' = clock s"
proof (cases "view s lk")
  case None
  from law_sadd_new [OF assms(1) None, of m] show ?thesis by fastforce
next
  case (Some p)
  with assms(2) obtain ms e where "view s lk = Some (RSet ms, e)"
    by (cases p) (auto simp: set_at_def split: rvalue.splits)
  from law_sadd [OF assms(1) this, of m] show ?thesis by fastforce
qed

lemma expire_nx_result:
  assumes "redis_laws rd view clock" "view s k = Some (v, e)" "0 < t" "unat t \<le> 2 ^ 50"
  shows "\<exists>s' x. rd_expire_nx rd k t s = (Inr (), s') \<and> view s' = (view s)(k \<mapsto> (v, Some x)) \<and> clock s' = clock s"
proof (cases e)
  case None
  from law_arm [OF assms(1) _ assms(3,4)] assms(2) None show ?thesis by metis
next
  case (Some x)
  with assms(2) have v: "view s k = Some (v, Some x)" by simp
  from law_armed [OF assms(1) v assms(3,4)] obtain s' where
    "rd_expire_nx rd k t s = (Inr (), s')" "view s' = view s" "clock s' = clock s" by blast
  moreover have "(view s)(k \<mapsto> (v, Some x)) = view s" using v by (simp add: fun_upd_idem)
  ultimately show ?thesis by metis
qed

text \<open>The view \<open>w\<close> comes from \<open>v\<close> by storing \<open>i\<close> with some running expiry under \<open>k\<close>, and by registering
  the key in the set \<open>lk\<close> at most.\<close>

definition counted :: "(bytes \<Rightarrow> (rvalue \<times> int option) option) \<Rightarrow> bytes \<Rightarrow> int \<Rightarrow> bytes \<Rightarrow>
    (bytes \<Rightarrow> (rvalue \<times> int option) option) \<Rightarrow> bool" where
  "counted v k i lk w \<longleftrightarrow>
     (\<exists>x. w k = Some (RInt i, Some x)) \<and> (\<forall>j. j \<noteq> k \<longrightarrow> j \<noteq> lk \<longrightarrow> w j = v j) \<and>
     (w lk = v lk \<or> (\<exists>ms e. w lk = Some (RSet ms, e)))"

lemma register_result:
  assumes laws: "redis_laws rd view clock" and v: "view s k = Some (RInt i, e)"
    and lk: "set_at view s lk" "lk \<noteq> k" and t: "0 < t" "unat t \<le> 2 ^ 50"
  shows "\<exists>s'. and_then (rd_expire_nx rd k t) (\<lambda>_. rd_sadd rd lk k) s = (Inr (), s') \<and>
    counted (view s) k i lk (view s') \<and> clock s' = clock s"
proof -
  from expire_nx_result [OF laws v t] obtain s1 x where
    s1: "rd_expire_nx rd k t s = (Inr (), s1)" "view s1 = (view s)(k \<mapsto> (RInt i, Some x))" "clock s1 = clock s"
    by (elim exE conjE) (rule that; assumption)
  then have "set_at view s1 lk" using lk by (simp add: set_at_def)
  from sadd_result [OF laws this, of k] obtain s2 ms y where
    "rd_sadd rd lk k s1 = (Inr (), s2)" "view s2 = (view s1)(lk \<mapsto> (RSet ms, y))" "clock s2 = clock s1"
    by (elim exE conjE) (rule that; assumption)
  with s1 lk(2) show ?thesis
    by (intro exI [of _ s2]) (simp add: and_then_def counted_def)
qed

text \<open>One run of the update script: the counter grows by the delta, keeps a running expiry and
  otherwise starts one.\<close>

lemma incrby_result:
  assumes laws: "redis_laws rd view clock" and i: "int_at view s k = Some i" "0 \<le> i" "i + uint d < 2 ^ 63"
    and out: "runs_out view s k"
  shows "\<exists>s' e. rd_incrby rd k d s = (Inr (i + uint d), s') \<and> view s' = (view s)(k \<mapsto> (RInt (i + uint d), e)) \<and>
    clock s' = clock s \<and> (e = None \<longrightarrow> i = 0)"
proof -
  have "uint d < 2 ^ 63" using i(2,3) by linarith
  then have "int (unat d) < int (2 ^ 63)" by (simp flip: uint_nat)
  then have d: "unat d < 2 ^ 63" by (simp only: of_nat_less_iff)
  from i(1) show ?thesis
  proof (cases rule: int_at_cases)
    case 1
    from law_incr_new [OF laws 1(1) d] 1(2) show ?thesis by (elim exE conjE) auto
  next
    case (2 e)
    with out have "e \<noteq> None" by (auto simp: runs_out_def)
    with law_incr [OF laws 2 d i(3)] show ?thesis by (elim exE conjE) auto
  qed
qed

lemma script_update_result:
  assumes laws: "redis_laws rd view clock" and i: "int_at view s k = Some i" "0 \<le> i" "i + uint d < 2 ^ 63"
    and lk: "set_at view s lk" "lk \<noteq> k" and t: "0 < t" "unat t \<le> 2 ^ 50" and out: "runs_out view s k"
  shows "\<exists>c s'. script_update_counter rd k lk t d s = (Inr c, s') \<and>
    counted (view s) k (i + uint d) lk (view s') \<and> clock s' = clock s"
proof -
  let ?n = "i + uint d"
  from incrby_result [OF laws i out] obtain s1 e where
    s1: "rd_incrby rd k d s = (Inr ?n, s1)" "view s1 = (view s)(k \<mapsto> (RInt ?n, e))" "clock s1 = clock s"
      "e = None \<longrightarrow> i = 0"
    by (elim exE conjE) (rule that; assumption)
  have k1: "view s1 k = Some (RInt ?n, e)" and set1: "set_at view s1 lk"
    using lk s1(2) by (simp_all add: set_at_def)
  show ?thesis
  proof (cases "lua_number rd ?n = lua_number rd (uint d)")
    case True
    from register_result [OF laws k1 set1 lk(2) t] obtain s2 where
      s2: "and_then (rd_expire_nx rd k t) (\<lambda>_. rd_sadd rd lk k) s1 = (Inr (), s2)"
        "counted (view s1) k ?n lk (view s2)" "clock s2 = clock s1"
      by (elim exE conjE) (rule that; assumption)
    have "counted (view s) k ?n lk (view s2)" using s2(2) s1(2) lk(2) by (auto simp: counted_def)
    with True s1 s2 show ?thesis by (simp add: script_update_counter_def and_then_def give_def)
  next
    case False
    with s1(4) obtain x where "e = Some x" by (cases e) auto
    then have "counted (view s) k ?n lk (view s1)" using s1(2) lk(2) by (simp add: counted_def)
    with False s1 show ?thesis by (simp add: script_update_counter_def and_then_def give_def)
  qed
qed

section \<open>Updating a list of counters\<close>

definition row_ok :: "'s redis_view \<Rightarrow> u64 \<Rightarrow> 's \<Rightarrow> bytes \<times> bytes \<times> u64 \<Rightarrow> bool" where
  "row_ok view d s = (\<lambda>(k, lk, t).
     (\<exists>i. int_at view s k = Some i \<and> 0 \<le> i \<and> i + uint d < 2 ^ 63) \<and> runs_out view s k \<and>
     set_at view s lk \<and> 0 < t \<and> unat t \<le> 2 ^ 50)"

definition update_rows :: "'s redis \<Rightarrow> u64 \<Rightarrow> (bytes \<times> bytes \<times> u64) list \<Rightarrow> ('s, int) command list" where
  "update_rows rd d rows = map (\<lambda>(k, lk, t). script_update_counter rd k lk t d) rows"

lemma counted_frame:
  assumes "counted (view s) k i lk (view s')" "j \<noteq> k" "j \<noteq> lk"
  shows "int_at view s' j = int_at view s j" "runs_out view s' j \<longleftrightarrow> runs_out view s j"
    "set_at view s' j \<longleftrightarrow> set_at view s j"
  using assms by (simp_all add: counted_def int_at_def runs_out_def set_at_def)

lemma counted_set:
  assumes "counted (view s) k i lk (view s')" "set_at view s j" "j \<noteq> k"
  shows "set_at view s' j"
proof (cases "j = lk")
  case True
  with assms show ?thesis by (auto simp: counted_def set_at_def)
next
  case False
  with assms counted_frame(3) [OF assms(1) assms(3)] show ?thesis by simp
qed

lemma pipeline_updates:
  assumes laws: "redis_laws rd view clock"
    and "\<forall>row\<in>set rows. row_ok view d s row" "distinct (map fst rows)"
    and "fst ` set rows \<inter> (fst \<circ> snd) ` set rows = {}"
  shows "\<exists>rs s'. pipeline (update_rows rd d rows) s = (Inr rs, s') \<and>
    (\<forall>j. j \<notin> fst ` set rows \<longrightarrow> j \<notin> (fst \<circ> snd) ` set rows \<longrightarrow> view s' j = view s j) \<and>
    (\<forall>k\<in>fst ` set rows. \<exists>i x. int_at view s k = Some i \<and> view s' k = Some (RInt (i + uint d), Some x))"
  using assms(2-4)
proof (induction rows arbitrary: s)
  case (Cons row rows)
  obtain k lk t where row: "row = (k, lk, t)" by (cases row)
  from Cons.prems(1) row obtain i where i: "int_at view s k = Some i" "0 \<le> i" "i + uint d < 2 ^ 63"
    "set_at view s lk" "0 < t" "unat t \<le> 2 ^ 50" "runs_out view s k"
    by (auto simp: row_ok_def)
  have lk: "lk \<noteq> k" using Cons.prems(3) row by auto
  from script_update_result [OF laws i(1-4) lk i(5-7)] obtain c s1 where
    s1: "script_update_counter rd k lk t d s = (Inr c, s1)" "counted (view s) k (i + uint d) lk (view s1)"
    by (elim exE conjE) (rule that; assumption)
  have ok: "\<forall>row\<in>set rows. row_ok view d s1 row"
  proof clarify
    fix k' lk' t' assume m: "(k', lk', t') \<in> set rows"
    then have "k' \<in> fst ` set rows" by force
    then have ne: "k' \<noteq> k" "k' \<noteq> lk" "lk' \<noteq> k"
      using Cons.prems(2,3) m row by (auto simp: image_iff Bex_def)
    have "row_ok view d s (k', lk', t')" using Cons.prems(1) m by simp
    then show "row_ok view d s1 (k', lk', t')"
      using counted_frame [OF s1(2) ne(1,2)] counted_set [OF s1(2) _ ne(3)] by (simp add: row_ok_def)
  qed
  have "distinct (map fst rows)" "fst ` set rows \<inter> (fst \<circ> snd) ` set rows = {}"
    using Cons.prems(2,3) by auto
  from Cons.IH [OF ok this] obtain rs s' where
    s': "pipeline (update_rows rd d rows) s1 = (Inr rs, s')"
      "\<forall>j. j \<notin> fst ` set rows \<longrightarrow> j \<notin> (fst \<circ> snd) ` set rows \<longrightarrow> view s' j = view s1 j"
      "\<forall>k\<in>fst ` set rows. \<exists>i x. int_at view s1 k = Some i \<and> view s' k = Some (RInt (i + uint d), Some x)"
    by (elim exE conjE) (rule that; assumption)
  have run: "pipeline (update_rows rd d (row # rows)) s = (Inr (c # rs), s')"
    using s1(1) s'(1) by (simp add: update_rows_def row)
  have frame: "\<forall>j. j \<notin> fst ` set (row # rows) \<longrightarrow> j \<notin> (fst \<circ> snd) ` set (row # rows) \<longrightarrow> view s' j = view s j"
    using s'(2) s1(2) by (simp add: row counted_def)
  have k: "k \<notin> fst ` set rows" "k \<notin> (fst \<circ> snd) ` set rows"
    using Cons.prems(2,3) row by auto
  with s'(2) s1(2) obtain x where "view s' k = Some (RInt (i + uint d), Some x)" by (auto simp: counted_def)
  moreover have "\<exists>i x. int_at view s k' = Some i \<and> view s' k' = Some (RInt (i + uint d), Some x)"
    if k': "k' \<in> fst ` set rows" for k'
  proof -
    have ne: "k' \<noteq> k" "k' \<noteq> lk" using k' k(1) Cons.prems(3) row by auto
    from bspec [OF s'(3) k'] show ?thesis unfolding counted_frame(1) [OF s1(2) ne] .
  qed
  ultimately have "\<forall>k\<in>fst ` set (row # rows). \<exists>i x. int_at view s k = Some i \<and> view s' k = Some (RInt (i + uint d), Some x)"
    using i(1) by (simp add: row)
  with run frame show ?case by blast
qed (simp add: update_rows_def)

lemma try_each_pipeline:
  assumes "pipeline (map f xs) s = (Inr rs, s')"
  shows "try_each (\<lambda>x s. Some (map_sum g (\<lambda>_. ()) (fst (f x s)), snd (f x s))) xs s = Some (Inr (), s')"
  using assms
proof (induction xs arbitrary: s rs)
  case (Cons x xs)
  obtain r s1 where x: "f x s = (r, s1)" by fastforce
  obtain r2 s2 where xs: "pipeline (map f xs) s1 = (r2, s2)" by fastforce
  from Cons.prems x xs obtain a b where "r = Inr a" "r2 = Inr b" "s2 = s'"
    by (cases r; cases r2) auto
  with Cons.IH [of s1 b] x xs show ?case by simp
qed simp

section \<open>Reading a list of counters\<close>

lemma each_command_pure:
  "(\<And>x. x \<in> set xs \<Longrightarrow> f x s = (Inr (g x), s)) \<Longrightarrow> each_command f xs s = (Inr (map g xs), s)"
  by (induction xs) (simp_all add: give_def and_then_def)

lemma replies_i64_append:
  "replies_i64 rd as = Inr xs \<Longrightarrow> replies_i64 rd bs = Inr ys \<Longrightarrow> replies_i64 rd (as @ bs) = Inr (xs @ ys)"
  by (induction as arbitrary: xs) (auto split: sum.splits)

definition shown :: "'s redis_view \<Rightarrow> 's \<Rightarrow> bytes \<Rightarrow> int option" where
  "shown view s k = (if view s k = None then None else int_at view s k)"

definition stored_int :: "'s redis_view \<Rightarrow> 's \<Rightarrow> bytes \<Rightarrow> int" where
  "stored_int view s k = (case int_at view s k of Some i \<Rightarrow> i | None \<Rightarrow> 0)"

lemma shown_stored: "(case shown view s k of Some v \<Rightarrow> v | None \<Rightarrow> 0) = stored_int view s k"
  by (simp add: shown_def stored_int_def int_at_def)

lemma values_and_ttls_result:
  assumes laws: "redis_laws rd view clock" and "\<forall>k\<in>set ks. int_at view s k \<noteq> None"
  shows "\<exists>t. and_then (values_and_ttls rd ks) (\<lambda>rs s. (replies_i64 rd rs, s)) s =
    (Inr (concat (map (\<lambda>k. [shown view s k, Some (t k)]) ks)), s)"
proof -
  define t where "t k = lua_integer rd (lua_number rd (pttl_of view clock s k))" for k
  have "\<exists>v. rd_get rd k s = (Inr v, s) \<and>
      replies_i64 rd [case v of None \<Rightarrow> NilReply | Some txt \<Rightarrow> Bulk txt, Integer (t k)] = Inr [shown view s k, Some (t k)]"
    if "k \<in> set ks" for k
  proof -
    from that assms(2) obtain i where i: "int_at view s k = Some i" by auto
    then show ?thesis
    proof (cases rule: int_at_cases)
      case 1
      with law_get_none [OF laws 1(1)] show ?thesis by (simp add: reply_i64_def shown_def)
    next
      case (2 e)
      from law_get [OF laws 2] obtain raw where "rd_get rd k s = (Inr (Some raw), s)" "parse_i64 rd raw = Some i"
        by (elim exE conjE) (rule that; assumption)
      with 2 i show ?thesis by (simp add: reply_i64_def shown_def)
    qed
  qed
  then have "\<forall>k\<in>set ks. \<exists>v. rd_get rd k s = (Inr v, s) \<and>
      replies_i64 rd [case v of None \<Rightarrow> NilReply | Some txt \<Rightarrow> Bulk txt, Integer (t k)] = Inr [shown view s k, Some (t k)]"
    by blast
  from bchoice [OF this] obtain v where v: "\<forall>k\<in>set ks. rd_get rd k s = (Inr (v k), s) \<and>
      replies_i64 rd [case v k of None \<Rightarrow> NilReply | Some txt \<Rightarrow> Bulk txt, Integer (t k)] = Inr [shown view s k, Some (t k)]"
    by blast
  let ?g = "\<lambda>k. [case v k of None \<Rightarrow> NilReply | Some txt \<Rightarrow> Bulk txt, Integer (t k)]"
  have run: "values_and_ttls rd ks s = (Inr (concat (map ?g ks)), s)"
    unfolding values_and_ttls_def and_then_def
    by (subst each_command_pure [where g = ?g]) (simp_all add: give_def v law_pttl [OF laws] t_def)
  have "replies_i64 rd (concat (map ?g ks')) = Inr (concat (map (\<lambda>k. [shown view s k, Some (t k)]) ks'))"
    if "set ks' \<subseteq> set ks" for ks'
    using that
  proof (induction ks')
    case (Cons k ks')
    then have k: "k \<in> set ks" and sub: "set ks' \<subseteq> set ks" by simp_all
    from replies_i64_append [OF conjunct2 [OF bspec [OF v k]] Cons.IH [OF sub]] show ?case by simp
  qed simp
  from this [of ks] run show ?thesis by (auto simp: and_then_def)
qed

lemma is_limited_loop_result:
  "is_limited_loop delta cs (concat (map (\<lambda>c. [v c, t c]) cs)) found =
     Some (fold (\<lambda>c acc. if acc = None \<and> checked_sub (counter_max_value c)
          (saturating_add (word_of_int (case v c of Some i \<Rightarrow> i | None \<Rightarrow> 0)) delta) = None
        then Some (Limited (limit_name (limit c))) else acc) cs found,
       map (\<lambda>c. counter_of_reply (v c) (t c) c) cs)"
  by (induction cs arbitrary: found) (simp_all add: Let_def)

section \<open>They are counter stores\<close>

text \<open>\<open>keyb\<close> names the key under which the server keeps a counter, for the counters \<open>K\<close> in play.\<close>

definition redis_used :: "'s redis_view \<Rightarrow> (counter_key \<Rightarrow> bytes) \<Rightarrow> 's redis_env \<Rightarrow> 's \<Rightarrow> counter_key \<Rightarrow> u64" where
  "redis_used view keyb env s k = word_of_int (stored_int view s (keyb k))"

definition redis_row :: "'e codec \<Rightarrow> (counter_key \<Rightarrow> bytes) \<Rightarrow> 'e counter \<Rightarrow> bytes \<times> bytes \<times> u64" where
  "redis_row cd keyb c = (keyb (counter_key c), key_for_counters_of_limit cd (limit c), seconds (limit c))"

text \<open>A call the storages handle: the server behaves as documented and nothing else talks to it
  meanwhile, the counters and the sets of their limits have keys of their own, no counter leaves the
  range of Redis integers, and the windows are in the range of expiry times.\<close>

definition redis_ready ::
  "'s redis \<Rightarrow> 's redis_view \<Rightarrow> ('s \<Rightarrow> int) \<Rightarrow> 'e codec \<Rightarrow> (counter_key \<Rightarrow> bytes) \<Rightarrow> counter_key set \<Rightarrow> 's redis_env \<Rightarrow>
   'e counter list \<Rightarrow> u64 \<Rightarrow> 's \<Rightarrow> bool" where
  "redis_ready rd view clock cd keyb K env cs delta s \<longleftrightarrow>
     redis_laws rd view clock \<and> (\<forall>s. rn_link env s = (s, None)) \<and> (\<forall>s. rn_pool env s = None) \<and>
     inj_on keyb K \<and> distinct (map counter_key cs) \<and>
     (\<forall>c\<in>set cs. counter_key c \<in> K \<and> key_for_counter cd c = Some (keyb (counter_key c)) \<and>
        key_for_counters_of_limit cd (limit c) \<notin> keyb ` K \<and> row_ok view delta s (redis_row cd keyb c))"

lemma apart_image: "x \<notin> f ` A \<Longrightarrow> a \<in> A \<Longrightarrow> x \<noteq> f a"
  by blast

lemma exchange_quiet: "(\<forall>s. rn_link env s = (s, None)) \<Longrightarrow> exchange env cmd s = cmd s"
  by (simp add: exchange_def)

lemma redis_readyD:
  assumes "redis_ready rd view clock cd keyb K env cs delta s"
  shows "redis_laws rd view clock" "\<forall>s. rn_link env s = (s, None)" "rn_pool env s' = None" "inj_on keyb K"
    "distinct (map counter_key cs)" "c \<in> set cs \<Longrightarrow> counter_key c \<in> K"
    "c \<in> set cs \<Longrightarrow> key_for_counter cd c = Some (keyb (counter_key c))"
    "c \<in> set cs \<Longrightarrow> key_for_counters_of_limit cd (limit c) \<notin> keyb ` K"
    "c \<in> set cs \<Longrightarrow> row_ok view delta s (redis_row cd keyb c)"
    "c \<in> set cs \<Longrightarrow> int_at view s (keyb (counter_key c)) \<noteq> None"
  using assms by (auto simp: redis_ready_def row_ok_def redis_row_def)

lemma redis_keys:
  "redis_ready rd view clock cd keyb K env cs delta s \<Longrightarrow>
   traverse (key_for_counter cd) cs = Some (map (\<lambda>c. keyb (counter_key c)) cs)"
  by (rule traverse_total) (rule redis_readyD(7))

lemma reply_annotates:
  assumes "word_of_int (case v of Some i \<Rightarrow> i | None \<Rightarrow> 0) = u (counter_key c)"
  shows "annotates u c (counter_of_reply v t c)"
  using assms by (simp add: annotates_def counter_of_reply_def set_expires_in_def set_remaining_def)

lemma redis_evaluate_ready:
  assumes ready: "redis_ready rd view clock cd keyb K env cs delta s"
  shows "\<exists>found cs'. aredis_evaluate rd cd env cs delta s = Some ((Inr found, cs'), s) \<and>
    ((case found of Some a \<Rightarrow> a | None \<Rightarrow> AuthOk) = AuthOk \<longleftrightarrow> (\<forall>c\<in>set cs. admits (redis_used view keyb env s) delta c)) \<and>
    (found = None \<longleftrightarrow> (\<forall>c\<in>set cs. admits (redis_used view keyb env s) delta c)) \<and>
    list_all2 (annotates (redis_used view keyb env s)) cs cs' \<and> map key cs' = map key cs"
proof -
  let ?u = "redis_used view keyb env s" and ?k = "\<lambda>c. keyb (counter_key c)"
  let ?over = "\<lambda>c. checked_sub (counter_max_value c) (saturating_add (?u (counter_key c)) delta) = None"
  note laws = redis_readyD(1) [OF ready]
  have "\<forall>k\<in>set (map ?k cs). int_at view s k \<noteq> None" using redis_readyD(10) [OF ready] by auto
  from values_and_ttls_result [OF laws this] obtain t where
    read: "and_then (values_and_ttls rd (map ?k cs)) (\<lambda>rs s. (replies_i64 rd rs, s)) s =
      (Inr (concat (map (\<lambda>k. [shown view s k, Some (t k)]) (map ?k cs))), s)" by blast
  let ?cs = "map (\<lambda>c. counter_of_reply (shown view s (?k c)) (Some (t (?k c))) c) cs"
  have even: "even (length (concat (map (\<lambda>c. [shown view s (?k c), Some (t (?k c))]) cs)))"
    by (simp add: length_concat comp_def sum_list_triv)
  have val: "word_of_int (case shown view s (?k c) of Some i \<Rightarrow> i | None \<Rightarrow> 0) = ?u (counter_key c)" for c
    by (simp only: shown_stored redis_used_def)
  have limited: "redis_is_limited cs delta (concat (map (\<lambda>c. [shown view s (?k c), Some (t (?k c))]) cs)) =
      Some (first_limited ?over (\<lambda>c. c) cs, ?cs)"
    using even unfolding redis_is_limited_def is_limited_loop_result val first_limited_def by simp
  have run: "aredis_evaluate rd cd env cs delta s = Some ((Inr (first_limited ?over (\<lambda>c. c) cs), ?cs), s)"
    using read limited
    by (simp add: aredis_evaluate_def redis_keys [OF ready] exchange_quiet [OF redis_readyD(2) [OF ready]] answer_def comp_def)
  have over: "?over c \<longleftrightarrow> \<not> admits ?u delta c" for c :: "'b counter"
    by (simp add: admits_def checked_sub_def)
  have none: "first_limited ?over (\<lambda>c. c) cs = None \<longleftrightarrow> (\<forall>c\<in>set cs. admits ?u delta c)"
    using first_limited_None [of ?over "\<lambda>c. c" cs] over by blast
  have "(case first_limited ?over (\<lambda>c. c) cs of Some a \<Rightarrow> a | None \<Rightarrow> AuthOk) = AuthOk \<longleftrightarrow>
      first_limited ?over (\<lambda>c. c) cs = None"
    using first_limited_SomeD [of ?over "\<lambda>c. c" cs] by (cases "first_limited ?over (\<lambda>c. c) cs") auto
  moreover have "list_all2 (annotates ?u) cs ?cs"
    unfolding list_all2_map2
    by (rule list.rel_refl) (rule reply_annotates [where u = ?u], rule val)
  moreover have "map key ?cs = map key cs"
    by (simp add: counter_of_reply_def set_expires_in_def set_remaining_def key_def)
  ultimately show ?thesis using run none
    by (intro exI [of _ "first_limited ?over (\<lambda>c. c) cs"] exI [of _ ?cs] conjI) (assumption | simp only:)+
qed

lemma same_key:
  assumes "key c' = key c"
  shows "key_for_counter cd c' = key_for_counter cd c" "limit c' = limit c" "window c' = window c"
proof -
  show "key_for_counter cd c' = key_for_counter cd c" using assms key_for_counter_key by metis
  have "limit (key c') = limit (key c)" using assms by simp
  then show "limit c' = limit c" by (simp add: key_def)
  then show "window c' = window c" by (simp add: window_def)
qed

lemma redis_updates_ready:
  assumes ready: "redis_ready rd view clock cd keyb K env cs delta s"
  shows "\<exists>rs s'. pipeline (update_rows rd delta (map (redis_row cd keyb) cs)) s = (Inr rs, s') \<and>
    (\<forall>k. k \<in> K \<longrightarrow> redis_used view keyb env s' k =
       redis_used view keyb env s k + (if k \<in> counter_key ` set cs then delta else 0))"
proof -
  let ?rows = "map (redis_row cd keyb) cs"
  have keys: "fst ` set ?rows = (\<lambda>c. keyb (counter_key c)) ` set cs"
    and sets: "(fst \<circ> snd) ` set ?rows = (\<lambda>c. key_for_counters_of_limit cd (limit c)) ` set cs"
    by (auto simp: redis_row_def image_iff)
  have inK: "c \<in> set cs \<Longrightarrow> counter_key c \<in> K" for c by (rule redis_readyD(6) [OF ready])
  have apart: "keyb k \<notin> (fst \<circ> snd) ` set ?rows" if k: "k \<in> K" for k
  proof
    assume "keyb k \<in> (fst \<circ> snd) ` set ?rows"
    then obtain c where "c \<in> set cs" "keyb k = key_for_counters_of_limit cd (limit c)"
      unfolding sets by (rule imageE)
    with apart_image [OF redis_readyD(8) [OF ready this(1)] k] show False by simp
  qed
  have inj: "keyb j = keyb k \<longleftrightarrow> j = k" if "j \<in> K" "k \<in> K" for j k
    using that redis_readyD(4) [OF ready] by (auto simp: inj_on_def)
  have ok: "\<forall>row\<in>set ?rows. row_ok view delta s row" using redis_readyD(9) [OF ready] by auto
  have dist: "distinct (map fst ?rows)"
    using redis_readyD(5) [OF ready] inK by (auto simp: redis_row_def distinct_map inj_on_def inj comp_def)
  have "fst ` set ?rows \<inter> (fst \<circ> snd) ` set ?rows = {}"
    unfolding keys using apart inK by blast
  from pipeline_updates [OF redis_readyD(1) [OF ready] ok dist this] obtain rs s' where
    s': "pipeline (update_rows rd delta ?rows) s = (Inr rs, s')"
      "\<forall>j. j \<notin> fst ` set ?rows \<longrightarrow> j \<notin> (fst \<circ> snd) ` set ?rows \<longrightarrow> view s' j = view s j"
      "\<forall>k\<in>fst ` set ?rows. \<exists>i x. int_at view s k = Some i \<and> view s' k = Some (RInt (i + uint delta), Some x)"
    by (elim exE conjE) (rule that; assumption)
  have "redis_used view keyb env s' k =
      redis_used view keyb env s k + (if k \<in> counter_key ` set cs then delta else 0)" if k: "k \<in> K" for k
  proof (cases "k \<in> counter_key ` set cs")
    case True
    then have "keyb k \<in> fst ` set ?rows" unfolding keys by auto
    from bspec [OF s'(3) this] True show ?thesis
      by (auto simp: redis_used_def stored_int_def int_at_def)
  next
    case False
    then have "keyb k \<notin> fst ` set ?rows" unfolding keys using inj k inK by auto
    with s'(2) apart [OF k] have "view s' (keyb k) = view s (keyb k)" by blast
    with False show ?thesis by (simp add: redis_used_def stored_int_def int_at_def)
  qed
  with s'(1) show ?thesis by blast
qed

lemma update_commands_rows:
  assumes ready: "redis_ready rd view clock cd keyb K env cs delta s" and same: "map key cs' = map key cs"
  shows "update_commands rd cd delta (map (\<lambda>c. keyb (counter_key c)) cs) cs' =
    update_rows rd delta (map (redis_row cd keyb) cs)"
proof -
  have len: "length cs' = length cs" using same by (metis length_map)
  have "limit (cs' ! i) = limit (cs ! i) \<and> window (cs' ! i) = window (cs ! i)" if "i < length cs" for i
    using same_key(2,3) [of "cs' ! i" "cs ! i"] same that len by (metis nth_map)
  then show ?thesis
    by (intro nth_equalityI) (simp_all add: update_commands_def update_rows_def redis_row_def len window_def)
qed

lemma sync_updates:
  assumes ready: "redis_ready rd view clock cd keyb K env cs delta s" and same: "map key cs' = map key cs"
    and run: "pipeline (update_rows rd delta (map (redis_row cd keyb) cs)) s = (Inr rs, s')"
  shows "try_each (sync_update_one rd cd env delta) cs' s = Some (Inr (), s')"
proof -
  let ?f = "\<lambda>c. script_update_counter rd (the (key_for_counter cd c)) (key_for_counters_of_limit cd (limit c))
    (as_secs (window c)) delta"
  have len: "length cs' = length cs" using same by (metis length_map)
  have same_i: "key (cs' ! i) = key (cs ! i)" if "i < length cs" for i using same that len by (metis nth_map)
  have key: "key_for_counter cd c' \<noteq> None" if "c' \<in> set cs'" for c'
  proof -
    from that obtain i where "i < length cs" "c' = cs' ! i" using len by (metis in_set_conv_nth)
    with same_key(1) [OF same_i] redis_readyD(7) [OF ready nth_mem] show ?thesis by simp
  qed
  have "map ?f cs' = update_rows rd delta (map (redis_row cd keyb) cs)"
    using same_key [OF same_i] redis_readyD(7) [OF ready nth_mem]
    by (intro nth_equalityI) (simp_all add: update_rows_def redis_row_def len window_def)
  from try_each_pipeline [of ?f cs', unfolded this, OF run, of redis_storage_err]
  have "try_each (\<lambda>c s. Some (map_sum redis_storage_err (\<lambda>_. ()) (fst (?f c s)), snd (?f c s))) cs' s = Some (Inr (), s')" .
  moreover have "try_each (sync_update_one rd cd env delta) xs s =
      try_each (\<lambda>c s. Some (map_sum redis_storage_err (\<lambda>_. ()) (fst (?f c s)), snd (?f c s))) xs s"
    if "set xs \<subseteq> set cs'" for xs s
    using that
  proof (induction xs arbitrary: s)
    case (Cons c xs)
    with key [of c] show ?case
      by (auto simp: sync_update_one_def exchange_quiet [OF redis_readyD(2) [OF ready]] answer_def sum.map_comp
          comp_def split: prod.split sum.split)
  qed simp
  ultimately show ?thesis by simp
qed

lemma redis_report_ready:
  assumes ready: "redis_ready rd view clock cd keyb K env (c # cs) delta s"
  shows "\<exists>s'. aredis_update_counter rd cd env c delta s = Some (Inr (), s') \<and>
    redis_ready rd view clock cd keyb K env cs delta s' \<and>
    (\<forall>k. k \<in> K \<longrightarrow> redis_used view keyb env s' k =
       redis_used view keyb env s k + (if k = counter_key c then delta else 0))"
proof -
  let ?k = "keyb (counter_key c)" and ?lk = "key_for_counters_of_limit cd (limit c)"
  note D = redis_readyD [OF ready]
  have c: "counter_key c \<in> K" "key_for_counter cd c = Some ?k" "?lk \<notin> keyb ` K" using D(6-8) [of c] by simp_all
  have inj: "keyb j = keyb k \<longleftrightarrow> j = k" if "j \<in> K" "k \<in> K" for j k
    using that D(4) by (auto simp: inj_on_def)
  from D(9) [of c] obtain i where i: "int_at view s ?k = Some i" "0 \<le> i" "i + uint delta < 2 ^ 63"
    "set_at view s ?lk" "0 < seconds (limit c)" "unat (seconds (limit c)) \<le> 2 ^ 50" "runs_out view s ?k"
    by (auto simp: row_ok_def redis_row_def)
  have "?lk \<noteq> ?k" using c(1,3) by auto
  from script_update_result [OF D(1) i(1-4) this i(5-7)] obtain n s' where
    s': "script_update_counter rd ?k ?lk (seconds (limit c)) delta s = (Inr n, s')"
      "counted (view s) ?k (i + uint delta) ?lk (view s')"
    by (elim exE conjE) (rule that; assumption)
  have run: "aredis_update_counter rd cd env c delta s = Some (Inr (), s')"
    using s'(1) by (simp add: aredis_update_counter_def c(2) exchange_quiet [OF D(2)] answer_def window_def)
  have other: "keyb k \<noteq> ?k" "keyb k \<noteq> ?lk" if "k \<in> K" "k \<noteq> counter_key c" for k
    using that inj [OF that(1) c(1)] apart_image [OF c(3) that(1)] by simp_all
  have used: "redis_used view keyb env s' k =
      redis_used view keyb env s k + (if k = counter_key c then delta else 0)" if k: "k \<in> K" for k
  proof (cases "k = counter_key c")
    case True
    with s'(2) i(1) show ?thesis by (auto simp: counted_def redis_used_def stored_int_def int_at_def)
  next
    case False
    with counted_frame(1) [OF s'(2) other [OF k False]] show ?thesis by (simp add: redis_used_def stored_int_def)
  qed
  have "row_ok view delta s' (redis_row cd keyb d)" if d: "d \<in> set cs" for d
  proof -
    have "counter_key d \<in> counter_key ` set cs" using d by (rule imageI)
    then have ne: "counter_key d \<noteq> counter_key c" using D(5) by auto
    have dK: "counter_key d \<in> K" using D(6) [of d] d by simp
    have "key_for_counters_of_limit cd (limit d) \<noteq> ?k" using apart_image [OF D(8) c(1), of d] d by simp
    with D(9) [of d] d counted_frame(1,2) [OF s'(2) other [OF dK ne]] counted_set [OF s'(2)] show ?thesis
      by (simp add: row_ok_def redis_row_def)
  qed
  then have "redis_ready rd view clock cd keyb K env cs delta s'"
    using ready by (simp add: redis_ready_def)
  with run used show ?thesis by blast
qed

lemma redis_checks:
  assumes ready: "redis_ready rd view clock cd keyb K env cs d s"
  shows "\<exists>a cs' s'. aredis_check rd cd env cs d s = Some ((Inr a, cs'), s') \<and>
    (a = AuthOk \<longleftrightarrow> (\<forall>c\<in>set cs. admits (redis_used view keyb env s) d c)) \<and>
    list_all2 (annotates (redis_used view keyb env s)) cs cs' \<and>
    (\<forall>k. k \<in> K \<longrightarrow> redis_used view keyb env s' k = redis_used view keyb env s k)"
proof -
  from redis_evaluate_ready [OF ready] obtain found cs' where
    ev: "aredis_evaluate rd cd env cs d s = Some ((Inr found, cs'), s)"
      "(case found of Some a \<Rightarrow> a | None \<Rightarrow> AuthOk) = AuthOk \<longleftrightarrow> (\<forall>c\<in>set cs. admits (redis_used view keyb env s) d c)"
      "list_all2 (annotates (redis_used view keyb env s)) cs cs'"
    by (elim exE conjE) (rule that; assumption)
  then show ?thesis by (simp add: aredis_check_def)
qed

text \<open>Both storages answer a checked update with what was read, and on admission run the update script
  once for every counter.\<close>

lemma redis_checked_updates:
  assumes ready: "redis_ready rd view clock cd keyb K env cs d s"
  shows "\<exists>a cs' s'. aredis_check_and_update rd script cd env cs d s = Some ((Inr a, cs'), s') \<and>
    sync_check_and_update rd cd env cs d s = Some ((Inr a, cs'), s') \<and>
    (a = AuthOk \<longleftrightarrow> (\<forall>c\<in>set cs. admits (redis_used view keyb env s) d c)) \<and>
    list_all2 (annotates (redis_used view keyb env s)) cs cs' \<and>
    (\<forall>k. k \<in> K \<longrightarrow> redis_used view keyb env s' k =
       redis_used view keyb env s k + (if a = AuthOk \<and> k \<in> counter_key ` set cs then d else 0))"
proof -
  let ?u = "redis_used view keyb env s"
  from redis_evaluate_ready [OF ready] obtain found cs' where
    ev: "aredis_evaluate rd cd env cs d s = Some ((Inr found, cs'), s)"
      "(case found of Some a \<Rightarrow> a | None \<Rightarrow> AuthOk) = AuthOk \<longleftrightarrow> (\<forall>c\<in>set cs. admits ?u d c)"
      "found = None \<longleftrightarrow> (\<forall>c\<in>set cs. admits ?u d c)"
      "list_all2 (annotates ?u) cs cs'" "map key cs' = map key cs"
    by (elim exE conjE) (rule that; assumption)
  have open_pool: "rn_pool env x = None" for x by (rule redis_readyD(3) [OF ready])
  have sync: "sync_evaluate rd cd env cs d s = Some ((Inr found, cs'), s)"
    using ev(1) aredis_evaluate_sync [OF open_pool, of rd cd cs d s] by simp
  show ?thesis
  proof (cases found)
    case None
    from redis_updates_ready [OF ready] obtain rs s' where
      s': "pipeline (update_rows rd d (map (redis_row cd keyb) cs)) s = (Inr rs, s')"
        "\<forall>k. k \<in> K \<longrightarrow> redis_used view keyb env s' k = ?u k + (if k \<in> counter_key ` set cs then d else 0)"
      by (elim exE conjE) (rule that; assumption)
    have "sync_check_and_update rd cd env cs d s = Some ((Inr AuthOk, cs'), s')"
      using sync None sync_updates [OF ready ev(5) s'(1)] open_pool by (simp add: sync_check_and_update_def)
    moreover have "aredis_check_and_update rd script cd env cs d s = Some ((Inr AuthOk, cs'), s')"
      using ev(1) None s'(1)
      by (simp add: aredis_check_and_update_def redis_keys [OF ready] update_commands_rows [OF ready ev(5)]
          send_updates_def exchange_quiet [OF redis_readyD(2) [OF ready]] answer_def)
    ultimately show ?thesis using None ev(2,4) s'(2) by simp
  next
    case (Some a)
    with ev(2,3) have "a \<noteq> AuthOk" "\<not> (\<forall>c\<in>set cs. admits ?u d c)" by auto
    with Some ev(1,4) sync show ?thesis
      by (simp add: sync_check_and_update_def aredis_check_and_update_def redis_keys [OF ready])
  qed
qed

interpretation aredis: reporting_store "async_redis_storage rd script cel cd" "redis_used view keyb"
  "redis_ready rd view clock cd keyb K" "\<lambda>env k. k \<in> K"
  for rd :: "'s redis" and script view clock keyb K and cel :: "'e cel" and cd :: "'e codec"
proof unfold_locales
  fix env and cs :: "'e counter list" and d and s :: 's and c
  assume ready: "redis_ready rd view clock cd keyb K env cs d s"
  from redis_checks [OF ready] show "\<exists>a cs' s'. cs_check (async_redis_storage rd script cel cd) env cs d s = Some ((Inr a, cs'), s') \<and>
      (a = AuthOk \<longleftrightarrow> (\<forall>c\<in>set cs. admits (redis_used view keyb env s) d c)) \<and>
      list_all2 (annotates (redis_used view keyb env s)) cs cs' \<and>
      (\<forall>k. k \<in> K \<longrightarrow> redis_used view keyb env s' k = redis_used view keyb env s k)"
    by (simp add: async_redis_storage_def)
  from redis_checked_updates [OF ready, of script]
  show "\<exists>a cs' s'. cs_check_and_update (async_redis_storage rd script cel cd) env cs d s = Some ((Inr a, cs'), s') \<and>
      (a = AuthOk \<longleftrightarrow> (\<forall>c\<in>set cs. admits (redis_used view keyb env s) d c)) \<and>
      list_all2 (annotates (redis_used view keyb env s)) cs cs' \<and>
      (\<forall>k. k \<in> K \<longrightarrow> redis_used view keyb env s' k =
         redis_used view keyb env s k + (if a = AuthOk \<and> k \<in> counter_key ` set cs then d else 0))"
    by (elim exE conjE) (simp add: async_redis_storage_def)
  show "counter_key c \<in> K" if "c \<in> set cs" using redis_readyD(6) [OF ready that] .
next
  fix env and cs :: "'e counter list" and d and s :: 's and c
  assume "redis_ready rd view clock cd keyb K env (c # cs) d s"
  from redis_report_ready [OF this]
  show "\<exists>s'. cs_update_counter (async_redis_storage rd script cel cd) env c d s = Some (Inr (), s') \<and>
      redis_ready rd view clock cd keyb K env cs d s' \<and>
      (\<forall>k. k \<in> K \<longrightarrow> redis_used view keyb env s' k =
         redis_used view keyb env s k + (if k = counter_key c then d else 0))"
    by (simp add: async_redis_storage_def)
qed

interpretation sredis: reporting_store "redis_storage rd cel cd" "redis_used view keyb"
  "redis_ready rd view clock cd keyb K" "\<lambda>env k. k \<in> K"
  for rd :: "'s redis" and view clock keyb K and cel :: "'e cel" and cd :: "'e codec"
proof unfold_locales
  fix env and cs :: "'e counter list" and d and s :: 's and c
  assume ready: "redis_ready rd view clock cd keyb K env cs d s"
  from redis_checks [OF ready] show "\<exists>a cs' s'. cs_check (redis_storage rd cel cd) env cs d s = Some ((Inr a, cs'), s') \<and>
      (a = AuthOk \<longleftrightarrow> (\<forall>c\<in>set cs. admits (redis_used view keyb env s) d c)) \<and>
      list_all2 (annotates (redis_used view keyb env s)) cs cs' \<and>
      (\<forall>k. k \<in> K \<longrightarrow> redis_used view keyb env s' k = redis_used view keyb env s k)"
    by (simp add: redis_storage_def aredis_sync(3) [OF redis_readyD(3) [OF ready]])
  from redis_checked_updates [OF ready, of "[]"]
  show "\<exists>a cs' s'. cs_check_and_update (redis_storage rd cel cd) env cs d s = Some ((Inr a, cs'), s') \<and>
      (a = AuthOk \<longleftrightarrow> (\<forall>c\<in>set cs. admits (redis_used view keyb env s) d c)) \<and>
      list_all2 (annotates (redis_used view keyb env s)) cs cs' \<and>
      (\<forall>k. k \<in> K \<longrightarrow> redis_used view keyb env s' k =
         redis_used view keyb env s k + (if a = AuthOk \<and> k \<in> counter_key ` set cs then d else 0))"
    by (elim exE conjE) (simp add: redis_storage_def)
  show "counter_key c \<in> K" if "c \<in> set cs" using redis_readyD(6) [OF ready that] .
next
  fix env and cs :: "'e counter list" and d and s :: 's and c
  assume ready: "redis_ready rd view clock cd keyb K env (c # cs) d s"
  from redis_report_ready [OF ready]
  show "\<exists>s'. cs_update_counter (redis_storage rd cel cd) env c d s = Some (Inr (), s') \<and>
      redis_ready rd view clock cd keyb K env cs d s' \<and>
      (\<forall>k. k \<in> K \<longrightarrow> redis_used view keyb env s' k =
         redis_used view keyb env s k + (if k = counter_key c then d else 0))"
    by (simp add: redis_storage_def aredis_sync(2) [OF redis_readyD(3) [OF ready]])
qed

end
