(* ===== verification/CountersCache.thy ===== *)
theory CountersCache
  imports Expiring Counters
begin

text \<open>
  The local counters of the cached Redis storage: \<^verbatim>\<open>limitador/src/storage/redis/counters_cache.rs\<close>.

  The cache and the queue of updates share their values (\<^verbatim>\<open>Arc<CachedCounterValue>\<close>): a value lives in
  a cell, and both hold the number of the cell.  An atomic that another task may have changed between
  a load and the exchange that follows it is seen through \<open>meanwhile\<close>.  Gauges and histograms are
  left out.
\<close>

section \<open>Cached values\<close>

record cached_value =
  cv_value :: atomic_value
  cv_initial :: u64
  cv_authority :: bool

definition cv_from_authority :: "systime \<Rightarrow> 'e counter \<Rightarrow> u64 \<Rightarrow> cached_value option" where
  "cv_from_authority now c v = do {
     e \<leftarrow> systime_add now (window c);
     Some \<lparr>cv_value = value_new v e, cv_initial = v, cv_authority = True\<rparr>
   }"

definition cv_load_from_authority_asap :: "systime \<Rightarrow> 'e counter \<Rightarrow> u64 \<Rightarrow> cached_value option" where
  "cv_load_from_authority_asap now c temp = do {
     e \<leftarrow> systime_add now (window c);
     Some \<lparr>cv_value = value_new temp e, cv_initial = 0, cv_authority = False\<rparr>
   }"

definition cv_add_from_authority :: "u64 \<Rightarrow> systime \<Rightarrow> cached_value \<Rightarrow> cached_value" where
  "cv_add_from_authority delta expire_at cv =
     \<lparr>cv_value = snd (add_and_set_expiry delta expire_at (cv_value cv)),
      cv_initial = cv_initial cv + delta, cv_authority = True\<rparr>"

definition cv_delta :: "systime \<Rightarrow> 'e counter \<Rightarrow> u64 \<Rightarrow> cached_value \<Rightarrow> (u64 \<times> cached_value) option" where
  "cv_delta now c delta cv = do {
     (v, av) \<leftarrow> value_update delta (window c) now (cv_value cv);
     Some (v, cv\<lparr>cv_value := av, cv_initial := (if v = delta then 0 else cv_initial cv)\<rparr>)
   }"

definition pending_offset :: "u64 \<Rightarrow> u64 \<Rightarrow> u64" where
  "pending_offset start val =
     (if start = 0 then val else case checked_sub val start of Some writes \<Rightarrow> writes | None \<Rightarrow> val)"

definition cv_pending_writes_and_value ::
  "systime \<Rightarrow> (u64 \<Rightarrow> u64) \<Rightarrow> cached_value \<Rightarrow> (unit + u64 \<times> u64) \<times> cached_value" where
  "cv_pending_writes_and_value now meanwhile cv =
     (let start = cv_initial cv;
          val = value_at (cv_value cv) now;
          cell = meanwhile start;
          (ok, cell') = compare_exchange start val cell
      in (if ok then Inr (pending_offset start val, val) else if cell = 0 then Inr (0, 0) else Inl (),
          cv\<lparr>cv_initial := cell'\<rparr>))"

definition cv_pending_writes ::
  "systime \<Rightarrow> (u64 \<Rightarrow> u64) \<Rightarrow> cached_value \<Rightarrow> (unit + u64) \<times> cached_value" where
  "cv_pending_writes now meanwhile cv = map_prod (map_sum id fst) id (cv_pending_writes_and_value now meanwhile cv)"

definition cv_no_pending_writes :: "systime \<Rightarrow> cached_value \<Rightarrow> bool" where
  "cv_no_pending_writes now cv \<longleftrightarrow>
     (let val = value_at (cv_value cv) now
      in (case checked_sub val (cv_initial cv) of Some x \<Rightarrow> x | None \<Rightarrow> val) = 0)"

definition cv_revert_writes :: "(u64 \<Rightarrow> u64) \<Rightarrow> u64 \<Rightarrow> cached_value \<Rightarrow> (unit + unit) \<times> cached_value" where
  "cv_revert_writes meanwhile writes cv =
     (let newer = cv_initial cv
      in if writes < newer then
           let cell = meanwhile newer;
               (ok, cell') = compare_exchange newer (newer - writes) cell
           in (if \<not> ok \<and> cell \<noteq> 0 then Inl () else Inr (), cv\<lparr>cv_initial := cell'\<rparr>)
         else (Inr (), cv))"

definition cv_hits :: "systime \<Rightarrow> cached_value \<Rightarrow> u64" where
  "cv_hits now cv = value_at (cv_value cv) now"

definition cv_remaining :: "systime \<Rightarrow> 'e counter \<Rightarrow> cached_value \<Rightarrow> u64" where
  "cv_remaining now c cv = saturating_sub (counter_max_value c) (cv_hits now cv)"

text \<open>In 128 bits, so without overflow.\<close>

definition cv_is_limited :: "systime \<Rightarrow> 'e counter \<Rightarrow> u64 \<Rightarrow> cached_value \<Rightarrow> bool" where
  "cv_is_limited now c delta cv \<longleftrightarrow> uint (counter_max_value c) < uint (cv_hits now cv) + uint delta"

definition cv_ttl :: "systime \<Rightarrow> cached_value \<Rightarrow> duration" where
  "cv_ttl now cv = value_ttl now (cv_value cv)"

definition cv_requires_fast_flush :: "systime \<Rightarrow> duration \<Rightarrow> cached_value \<Rightarrow> bool" where
  "cv_requires_fast_flush now within cv \<longleftrightarrow> \<not> cv_authority cv \<or> value_ttl now (cv_value cv) \<le> within"

section \<open>The cache and its queue\<close>

record 'e batcher =
  updates :: "(counter_key \<times> 'e counter \<times> nat) list"
  bt_notified :: bool
  bt_interval :: duration
  priority_flush :: bool
  permits :: nat

record 'e counters_cache =
  cells :: "(nat \<times> cached_value) list"
  next_cell :: nat
  cache :: "(counter_key \<times> nat) list"
  the_batcher :: "'e batcher"

definition batcher_new :: "duration \<Rightarrow> nat \<Rightarrow> 'e batcher" where
  "batcher_new period max_cached =
     \<lparr>updates = [], bt_notified = False, bt_interval = period, priority_flush = False, permits = max_cached\<rparr>"

definition counters_cache_build :: "nat \<Rightarrow> duration \<Rightarrow> 'e counters_cache" where
  "counters_cache_build max_cached period =
     \<lparr>cells = [], next_cell = 0, cache = [], the_batcher = batcher_new period max_cached\<rparr>"

definition new_cell :: "cached_value \<Rightarrow> 'e counters_cache \<Rightarrow> nat \<times> 'e counters_cache" where
  "new_cell cv s = (next_cell s, s\<lparr>cells := (next_cell s, cv) # cells s, next_cell := Suc (next_cell s)\<rparr>)"

definition set_cell :: "nat \<Rightarrow> cached_value \<Rightarrow> 'e counters_cache \<Rightarrow> 'e counters_cache" where
  "set_cell r cv s = s\<lparr>cells := AList.update r cv (cells s)\<rparr>"

definition queued :: "counter_key \<Rightarrow> 'e counters_cache \<Rightarrow> nat option" where
  "queued k s = map_option snd (map_of (updates (the_batcher s)) k)"

definition cached_insert :: "counter_key env \<Rightarrow> counter_key \<Rightarrow> nat \<Rightarrow> 'e counters_cache \<Rightarrow> 'e counters_cache" where
  "cached_insert env k r s = s\<lparr>cache := cache_insert (env_evicts env) k r (cache s)\<rparr>"

text \<open>\<^verbatim>\<open>Batcher::add\<close>.  With all permits taken the call waits, and has no result.\<close>

definition batcher_add ::
  "counter_key env \<Rightarrow> 'e counter \<Rightarrow> nat \<Rightarrow> 'e counters_cache \<Rightarrow> 'e counters_cache option" where
  "batcher_add env c r s = do {
     cv \<leftarrow> map_of (cells s) r;
     let priority = cv_requires_fast_flush (env_now env) (bt_interval (the_batcher s)) cv;
     s \<leftarrow> (case queued (counter_key c) s of
         Some q \<Rightarrow>
           if q = r then Some s
           else (case cv_pending_writes (env_now env) id cv of
               (Inl _, _) \<Rightarrow> None
             | (Inr writes, cv) \<Rightarrow> do {
                 target \<leftarrow> map_of (cells s) q;
                 (_, target) \<leftarrow> cv_delta (env_now env) c writes target;
                 Some (set_cell q target (set_cell r cv s))
               })
       | None \<Rightarrow>
           if permits (the_batcher s) = 0 then None
           else Some (s\<lparr>the_batcher := (the_batcher s)
             \<lparr>updates := updates (the_batcher s) @ [(counter_key c, c, r)], permits := permits (the_batcher s) - 1\<rparr>\<rparr>));
     Some (s\<lparr>the_batcher := (the_batcher s)
       \<lparr>priority_flush := (priority_flush (the_batcher s) \<or> priority), bt_notified := True\<rparr>\<rparr>)
   }"

definition batch_ready :: "nat \<Rightarrow> 'e batcher \<Rightarrow> bool \<times> 'e batcher" where
  "batch_ready mx b =
     (if mx \<le> length (updates b) then (True, b)
      else if priority_flush b then (True, b\<lparr>priority_flush := False\<rparr>)
      else (False, b))"

text \<open>The wait of \<^verbatim>\<open>consume\<close>: what other tasks do to the state before they notify, or the interval
  running out.  \<open>None\<close> while it still waits.\<close>

datatype 'e wake = Notified "'e counters_cache \<Rightarrow> 'e counters_cache" | Elapsed

fun wait_for_batch :: "nat \<Rightarrow> 'e wake list \<Rightarrow> 'e counters_cache \<Rightarrow> 'e counters_cache option" where
  "wait_for_batch mx [] s = None"
| "wait_for_batch mx (Elapsed # ws) s = Some s"
| "wait_for_batch mx (Notified f # ws) s =
     (let s = f s; (ready, b) = batch_ready mx (the_batcher s); s = s\<lparr>the_batcher := b\<rparr>
      in if ready then Some s else wait_for_batch mx ws s)"

definition until_ready :: "nat \<Rightarrow> 'e wake list \<Rightarrow> 'e counters_cache \<Rightarrow> 'e counters_cache option" where
  "until_ready mx ws s =
     (let (ready, b) = batch_ready mx (the_batcher s); s = s\<lparr>the_batcher := b\<rparr>
      in if ready then Some s else wait_for_batch mx ws s)"

definition is_urgent :: "systime \<Rightarrow> 'e counters_cache \<Rightarrow> counter_key \<times> 'e counter \<times> nat \<Rightarrow> bool" where
  "is_urgent now s = (\<lambda>(k, c, r).
     (case map_of (cells s) r of
        Some cv \<Rightarrow> cv_requires_fast_flush now (bt_interval (the_batcher s)) cv
      | None \<Rightarrow> False))"

definition batch_of :: "systime \<Rightarrow> nat \<Rightarrow> 'e counters_cache \<Rightarrow> (counter_key \<times> 'e counter \<times> nat) list" where
  "batch_of now mx s =
     (let urgent = take mx (filter (is_urgent now s) (updates (the_batcher s)))
      in urgent @ take (mx - length urgent) (updates (the_batcher s)))"

definition settle_one ::
  "systime \<Rightarrow> counter_key \<times> 'e counter \<times> nat \<Rightarrow> 'e counters_cache \<Rightarrow> 'e counters_cache" where
  "settle_one now = (\<lambda>(k, c, r) s.
     (case queued k s of
        Some q \<Rightarrow>
          (case map_of (cells s) q of
             Some cv \<Rightarrow>
               if cv_no_pending_writes now cv
               then s\<lparr>the_batcher := (the_batcher s)
                 \<lparr>updates := AList.delete k (updates (the_batcher s)), permits := permits (the_batcher s) + 1\<rparr>\<rparr>
               else s
           | None \<Rightarrow> s)
      | None \<Rightarrow> s))"

text \<open>\<^verbatim>\<open>Batcher::consume\<close>: the consumer gets every counter of the batch once.\<close>

definition consume ::
  "counter_key env \<Rightarrow> nat \<Rightarrow> 'e wake list \<Rightarrow>
   ((counter_key \<times> 'e counter \<times> nat) list \<Rightarrow> 'x \<times> 'e counters_cache \<Rightarrow> (('err + 'a) \<times> 'x \<times> 'e counters_cache) option) \<Rightarrow>
   'x \<times> 'e counters_cache \<Rightarrow> (('err + 'a) \<times> 'x \<times> 'e counters_cache) option" where
  "consume env mx ws consumer = (\<lambda>(x, s). do {
     s \<leftarrow> until_ready mx ws s;
     let batch = batch_of (env_now env) mx s;
     (r, x, s) \<leftarrow> consumer (hset_collect fst batch) (x, s);
     Some (r, x, case r of Inl _ \<Rightarrow> s | Inr _ \<Rightarrow> fold (settle_one (env_now env)) batch s)
   })"

section \<open>Operations of the cache\<close>

definition cc_get :: "counter_key env \<Rightarrow> 'e counter \<Rightarrow> 'e counters_cache \<Rightarrow> nat option \<times> 'e counters_cache" where
  "cc_get env c s =
     (case map_of (cache s) (counter_key c) of
        Some r \<Rightarrow> (Some r, s)
      | None \<Rightarrow>
          (case queued (counter_key c) s of
             Some r \<Rightarrow> (Some r, cached_insert env (counter_key c) r s)
           | None \<Rightarrow> (None, s)))"

definition cc_return_pending_writes ::
  "counter_key env \<Rightarrow> 'e counter \<Rightarrow> u64 \<Rightarrow> u64 \<Rightarrow> 'e counters_cache \<Rightarrow> ((unit + unit) \<times> 'e counters_cache) option" where
  "cc_return_pending_writes env c val writes s =
     (if writes = 0 then Some (Inr (), s)
      else (case fst (cc_get env c s) of
          Some r \<Rightarrow> do {
            let s = snd (cc_get env c s);
            cv \<leftarrow> map_of (cells s) r;
            let (res, cv) = cv_revert_writes id writes cv;
            Some (res, set_cell r cv s)
          }
        | None \<Rightarrow> do {
            cv \<leftarrow> cv_from_authority (env_now env) c val;
            (_, cv) \<leftarrow> cv_delta (env_now env) c writes cv;
            let (r, s) = new_cell cv s;
            Some (Inr (), cached_insert env (counter_key c) r s)
          }))"

definition cc_apply_remote_delta ::
  "counter_key env \<Rightarrow> 'e counter \<Rightarrow> u64 \<Rightarrow> u64 \<Rightarrow> systime \<Rightarrow> 'e counters_cache \<Rightarrow> (nat \<times> 'e counters_cache) option" where
  "cc_apply_remote_delta env c redis_val remote_deltas exp s =
     (if env_now env < exp then
        (case fst (cc_get env c s) of
           Some r \<Rightarrow> do {
             let s = snd (cc_get env c s);
             cv \<leftarrow> map_of (cells s) r;
             Some (r, set_cell r (cv_add_from_authority remote_deltas exp cv) s)
           }
         | None \<Rightarrow> do {
             cv \<leftarrow> cv_from_authority (env_now env) c redis_val;
             let (r, s) = new_cell cv s;
             Some (r, cached_insert env (counter_key c) r s)
           })
      else do {
        cv \<leftarrow> cv_load_from_authority_asap (env_now env) c redis_val;
        Some (new_cell cv s)
      })"

text \<open>\<^verbatim>\<open>increase_by\<close>: the initialiser given to \<^verbatim>\<open>get_with_by_ref\<close>, the lookup that runs it on a miss, and the
  whole call.  The call is not atomic: other tasks run between the lookup, the addition and the
  queueing, and an entry may be evicted; the theory \<open>CacheRaces\<close> interleaves them.\<close>

definition cc_increase_init ::
  "counter_key env \<Rightarrow> 'e counter \<Rightarrow> 'e counters_cache \<Rightarrow> (nat \<times> 'e counters_cache) option" where
  "cc_increase_init env c s =
     (case queued (counter_key c) s of
        Some r \<Rightarrow> Some (r, s)
      | None \<Rightarrow> do {
          cv \<leftarrow> cv_load_from_authority_asap (env_now env) c 0;
          Some (new_cell cv s)
        })"

definition cc_increase_get ::
  "counter_key env \<Rightarrow> 'e counter \<Rightarrow> 'e counters_cache \<Rightarrow> (nat \<times> 'e counters_cache) option" where
  "cc_increase_get env c s =
     (case map_of (cache s) (counter_key c) of
        Some r \<Rightarrow> Some (r, s)
      | None \<Rightarrow> do {
          (r, s) \<leftarrow> cc_increase_init env c s;
          Some (r, cached_insert env (counter_key c) r s)
        })"

definition cc_increase_by ::
  "counter_key env \<Rightarrow> 'e counter \<Rightarrow> u64 \<Rightarrow> 'e counters_cache \<Rightarrow> 'e counters_cache option" where
  "cc_increase_by env c delta s = do {
     (r, s) \<leftarrow> cc_increase_get env c s;
     cv \<leftarrow> map_of (cells s) r;
     (_, cv) \<leftarrow> cv_delta (env_now env) c delta cv;
     batcher_add env c r (set_cell r cv s)
   }"

lemma cc_increase_get_alt:
  "cc_increase_get env c s =
     (case fst (cc_get env c s) of
        Some r \<Rightarrow> Some (r, snd (cc_get env c s))
      | None \<Rightarrow> do {
          cv \<leftarrow> cv_load_from_authority_asap (env_now env) c 0;
          let (r, s) = new_cell cv s;
          Some (r, cached_insert env (counter_key c) r s)
        })"
  by (simp add: cc_increase_get_def cc_increase_init_def cc_get_def split: option.split bind_split)

end
