(* ===== verification/WriteBehind.thy ===== *)
theory WriteBehind
  imports CountersCache
begin

text \<open>
  The life of one cached counter between the local writers and the background flush, as steps: a local
  write, the flush taking the pending writes, and the answer of the server or its failure, after which
  the writes taken are returned.  Writes may come between any two of these.  The state carries how much
  was written, how much the server acknowledged and how much a failed flush lost.
\<close>

section \<open>One flush\<close>

lemma take_pending_value:
  assumes "cv_initial cv \<le> value_at (cv_value cv) now"
  shows "cv_pending_writes_and_value now id cv =
    (Inr (value_at (cv_value cv) now - cv_initial cv, value_at (cv_value cv) now),
     cv\<lparr>cv_initial := value_at (cv_value cv) now\<rparr>)"
  using assms by (simp add: cv_pending_writes_and_value_def compare_exchange_def pending_offset_def checked_sub_def Let_def)

text \<open>After a flush without writes in between, the cached value is the server's and nothing is pending.\<close>

lemma flush_reconciles:
  assumes "cv_initial cv \<le> value_at (cv_value cv) now" "\<not> expired_at (av_expiry (cv_value cv)) now"
    and "cv_pending_writes_and_value now id cv = (Inr (writes, known), cv1)"
    and "known \<le> answered" "since_epoch now < since_epoch exp"
  defines "cv2 \<equiv> cv_add_from_authority (answered - known) exp cv1"
  shows "cv_hits now cv2 = answered \<and> cv_no_pending_writes now cv2 \<and> writes = known - cv_initial cv"
proof -
  have open_value: "value_at (cv_value cv) now = av_value (cv_value cv)" using assms(2) by (simp add: value_at_def)
  from assms(3) have t: "writes = known - cv_initial cv" "known = av_value (cv_value cv)" "cv1 = cv\<lparr>cv_initial := known\<rparr>"
    unfolding take_pending_value [OF assms(1)] by (auto simp: open_value)
  have "cv_hits now cv2 = answered"
    using assms(5) t by (simp add: cv2_def cv_hits_def cv_add_from_authority_def add_and_set_expiry_def value_at_def
        expired_at_def expiry_store_def word_less_nat_alt word_le_nat_alt)
  moreover have "cv_initial cv2 = answered" using t by (simp add: cv2_def cv_add_from_authority_def)
  ultimately show ?thesis using t by (simp add: cv_no_pending_writes_def cv_hits_def checked_sub_def Let_def)
qed

section \<open>Steps\<close>

record write_behind =
  wb_cell :: cached_value
  wb_flight :: "(u64 \<times> u64) option"
  wb_made :: nat
  wb_sent :: nat
  wb_lost :: nat

abbreviation wb_value :: "write_behind \<Rightarrow> u64" where
  "wb_value w \<equiv> av_value (cv_value (wb_cell w))"

definition wb_open :: "systime \<Rightarrow> write_behind \<Rightarrow> bool" where
  "wb_open now w \<longleftrightarrow> \<not> expired_at (av_expiry (cv_value (wb_cell w))) now"

datatype wb_event = Write systime u64 | Take systime | Acknowledge systime u64 systime | Fail

inductive wb_step :: "'e counter \<Rightarrow> wb_event \<Rightarrow> write_behind \<Rightarrow> write_behind \<Rightarrow> bool" for c where
  wrote: "wb_open now w \<Longrightarrow> unat (wb_value w) + unat d < 2 ^ 64 \<Longrightarrow>
    cv_delta now c d (wb_cell w) = Some (v, cv) \<Longrightarrow>
    wb_step c (Write now d) w (w\<lparr>wb_cell := cv, wb_made := wb_made w + unat d\<rparr>)"
| took: "wb_open now w \<Longrightarrow> wb_flight w = None \<Longrightarrow>
    cv_pending_writes_and_value now id (wb_cell w) = (Inr (n, known), cv) \<Longrightarrow>
    wb_step c (Take now) w (w\<lparr>wb_cell := cv, wb_flight := Some (n, known)\<rparr>)"
| acknowledge: "wb_open now w \<Longrightarrow> wb_flight w = Some (n, known) \<Longrightarrow> known \<le> answered \<Longrightarrow>
    unat (wb_value w) + unat (answered - known) < 2 ^ 64 \<Longrightarrow>
    wb_step c (Acknowledge now answered exp) w
      (w\<lparr>wb_cell := cv_add_from_authority (answered - known) exp (wb_cell w), wb_flight := None,
         wb_sent := wb_sent w + unat n\<rparr>)"
| fail: "wb_flight w = Some (n, known) \<Longrightarrow> cv_revert_writes id n (wb_cell w) = (r, cv) \<Longrightarrow>
    wb_step c Fail w
      (w\<lparr>wb_cell := cv, wb_flight := None,
         wb_lost := wb_lost w + (if n < cv_initial (wb_cell w) then 0 else unat n)\<rparr>)"

inductive wb_run :: "'e counter \<Rightarrow> wb_event list \<Rightarrow> write_behind \<Rightarrow> write_behind \<Rightarrow> bool" for c where
  wb_nil: "wb_run c [] w w"
| wb_cons: "wb_step c ev w w' \<Longrightarrow> wb_run c evs w' w'' \<Longrightarrow> wb_run c (ev # evs) w w''"

inductive_simps wb_run_simps: "wb_run c [] w w'" "wb_run c (ev # evs) w w'"

definition wb_start :: "cached_value \<Rightarrow> write_behind" where
  "wb_start cv = \<lparr>wb_cell = cv, wb_flight = None, wb_made = 0, wb_sent = 0, wb_lost = 0\<rparr>"

section \<open>Conservation\<close>

definition wb_flying :: "write_behind \<Rightarrow> nat" where
  "wb_flying w = (case wb_flight w of Some (n, _) \<Rightarrow> unat n | None \<Rightarrow> 0)"

definition wb_inv :: "write_behind \<Rightarrow> bool" where
  "wb_inv w \<longleftrightarrow> unat (cv_initial (wb_cell w)) \<le> unat (wb_value w) \<and> wb_flying w \<le> unat (cv_initial (wb_cell w)) \<and>
     wb_made w = wb_sent w + wb_flying w + (unat (wb_value w) - unat (cv_initial (wb_cell w))) + wb_lost w"

lemma wb_inv_start: "cv_initial cv = av_value (cv_value cv) \<Longrightarrow> wb_inv (wb_start cv)"
  by (simp add: wb_inv_def wb_start_def wb_flying_def)

lemma wb_step_inv:
  assumes "wb_step c ev w w'" "wb_inv w"
  shows "wb_inv w'"
  using assms
proof cases
  case (wrote now d v cv)
  have upd: "av_value (cv_value cv) = wb_value w + d" "v = wb_value w + d"
    "cv_initial cv = (if v = d then 0 else cv_initial (wb_cell w))"
    using wrote(3,5)
    by (auto simp: cv_delta_def value_update_def update_if_expired_def wb_open_def expired_at_def Let_def
        bind_eq_Some_conv split: if_splits)
  have sum: "unat (wb_value w + d) = unat (wb_value w) + unat d" using wrote(4) by (rule unat_add_no_overflow)
  have "v = d \<longleftrightarrow> wb_value w = 0" using upd(2) by simp
  then have "unat (cv_initial cv) = unat (cv_initial (wb_cell w))"
    using upd(3) assms(2) by (auto simp: wb_inv_def)
  with wrote(2) assms(2) upd(1) sum show ?thesis by (auto simp: wb_inv_def wb_flying_def)
next
  case (took now n known cv)
  have val: "value_at (cv_value (wb_cell w)) now = wb_value w"
    using took(3) by (simp add: value_at_def wb_open_def)
  have le: "cv_initial (wb_cell w) \<le> wb_value w" using assms(2) by (simp add: wb_inv_def word_le_nat_alt)
  with took(5) take_pending_value [of "wb_cell w" now] have
    "n = wb_value w - cv_initial (wb_cell w)" "cv = (wb_cell w)\<lparr>cv_initial := wb_value w\<rparr>"
    unfolding val by auto
  with took(2,4) assms(2) unat_sub [OF le] show ?thesis by (simp add: wb_inv_def wb_flying_def)
next
  case (acknowledge now n known answered exp)
  have v: "unat (wb_value w + (answered - known)) = unat (wb_value w) + unat (answered - known)"
    using acknowledge(6) by (rule unat_add_no_overflow)
  moreover have "unat (cv_initial (wb_cell w) + (answered - known)) = unat (cv_initial (wb_cell w)) + unat (answered - known)"
    using acknowledge(6) assms(2) by (intro unat_add_no_overflow) (simp add: wb_inv_def)
  ultimately show ?thesis using acknowledge(2,4) assms(2)
    by (simp add: wb_inv_def wb_flying_def cv_add_from_authority_def add_and_set_expiry_def)
next
  case (fail n known r cv)
  have n: "unat n \<le> unat (cv_initial (wb_cell w))" using assms(2) fail(3) by (simp add: wb_inv_def wb_flying_def)
  show ?thesis
  proof (cases "n < cv_initial (wb_cell w)")
    case True
    then have "cv = (wb_cell w)\<lparr>cv_initial := cv_initial (wb_cell w) - n\<rparr>"
      using fail(4) by (simp add: cv_revert_writes_def compare_exchange_def Let_def)
    moreover have "unat (cv_initial (wb_cell w) - n) = unat (cv_initial (wb_cell w)) - unat n"
      using True by (intro unat_sub) simp
    ultimately show ?thesis using fail(2,3) assms(2) True n by (auto simp: wb_inv_def wb_flying_def)
  next
    case False
    then have "cv = wb_cell w" using fail(4) by (simp add: cv_revert_writes_def Let_def)
    with fail(2,3) assms(2) False n show ?thesis by (simp add: wb_inv_def wb_flying_def)
  qed
qed

lemma wb_run_inv: "wb_run c evs w w' \<Longrightarrow> wb_inv w \<Longrightarrow> wb_inv w'"
  by (induction rule: wb_run.induct) (auto dest: wb_step_inv)

text \<open>Nothing is lost as long as no flush fails.\<close>

lemma wb_run_lost: "wb_run c evs w w' \<Longrightarrow> Fail \<notin> set evs \<Longrightarrow> wb_lost w' = wb_lost w"
  by (induction rule: wb_run.induct) (auto elim: wb_step.cases)

text \<open>A failed first flush of a window loses what it took: the initial value it leaves is what it took, and
  only a larger one is reverted.\<close>

lemma first_flush_lost:
  assumes "cv_initial cv = 0" "\<not> expired_at (av_expiry (cv_value cv)) now"
  shows "\<exists>cv1. cv_pending_writes_and_value now id cv = (Inr (av_value (cv_value cv), av_value (cv_value cv)), cv1) \<and>
    cv_revert_writes id (av_value (cv_value cv)) cv1 = (Inr (), cv1) \<and> cv_no_pending_writes now cv1"
  using assms take_pending_value [of cv now]
  by (simp add: value_at_def cv_revert_writes_def cv_no_pending_writes_def checked_sub_def Let_def)

end
