(* ===== verification/RedisSamples.thy ===== *)
theory RedisSamples
  imports StorageSamples RedisStore WriteBehind
begin

text \<open>
  A concrete Redis server for the witnesses: an association list under a clock that stands still, with
  exact Lua numbers and integers written in unary.
\<close>

record sample_server =
  ss_clock :: int
  ss_data :: "(bytes \<times> rvalue \<times> int option) list"

definition sample_view :: "sample_server redis_view" where
  "sample_view s = map_of (ss_data s)"

definition put :: "bytes \<Rightarrow> rvalue \<times> int option \<Rightarrow> sample_server \<Rightarrow> sample_server" where
  "put k v s = s\<lparr>ss_data := AList.update k v (ss_data s)\<rparr>"

definition remove :: "bytes \<Rightarrow> sample_server \<Rightarrow> sample_server" where
  "remove k s = s\<lparr>ss_data := AList.delete k (ss_data s)\<rparr>"

lemma view_put [simp]: "sample_view (put k v s) = (sample_view s)(k \<mapsto> v)" "ss_clock (put k v s) = ss_clock s"
  by (simp_all add: sample_view_def put_def update_conv')

lemma view_remove [simp]: "sample_view (remove k s) = (sample_view s)(k := None)" "ss_clock (remove k s) = ss_clock s"
  by (simp_all add: sample_view_def remove_def delete_conv')

definition unary_text :: "int \<Rightarrow> string" where
  "unary_text i = (if i < 0 then CHR ''-'' # unary (nat (- i)) else unary (nat i))"

definition unary_value :: "string \<Rightarrow> int option" where
  "unary_value t = Some (case t of CHR ''-'' # u \<Rightarrow> - int (length u) | _ \<Rightarrow> int (length t))"

lemma unary_round_trip [simp]: "unary_value (unary_text i) = Some i"
  by (cases "nat i") (auto simp: unary_value_def unary_text_def unary_def split: list.splits char.splits)

definition sample_error :: redis_error where
  "sample_error = \<lparr>rerr_text = ''error'', is_timeout = False, is_connection_dropped = False, is_cluster_error = False,
     is_connection_refusal = False, is_no_script = False\<rparr>"

definition with_entry ::
  "bytes \<Rightarrow> ((rvalue \<times> int option) option \<Rightarrow> (redis_error + 'a) \<times> (sample_server \<Rightarrow> sample_server)) \<Rightarrow>
   (sample_server, 'a) command" where
  "with_entry k f s = (let (r, g) = f (sample_view s k) in (r, g s))"

definition sample_redis :: "sample_server redis" where
  "sample_redis =
     \<lparr>rd_get = (\<lambda>k. with_entry k (\<lambda>v. (case v of None \<Rightarrow> Inr None | Some (RInt i, _) \<Rightarrow> Inr (Some (unary_text i))
          | _ \<Rightarrow> Inl sample_error, id))),
      rd_exists = (\<lambda>k. with_entry k (\<lambda>v. (Inr (v \<noteq> None), id))),
      rd_set_ex = (\<lambda>k i t s. (Inr (), put k (RInt i, Some (ss_clock s + 1000 * t)) s)),
      rd_incrby = (\<lambda>k d. with_entry k (\<lambda>v. case v of
            None \<Rightarrow> (Inr (uint d), put k (RInt (uint d), None))
          | Some (RInt i, e) \<Rightarrow> (Inr (i + uint d), put k (RInt (i + uint d), e))
          | _ \<Rightarrow> (Inl sample_error, id))),
      rd_expire_nx = (\<lambda>k t. with_entry k (\<lambda>v. (Inr (), case v of
            Some (x, None) \<Rightarrow> (\<lambda>s. put k (x, Some (ss_clock s + 1000 * uint t)) s) | _ \<Rightarrow> id))),
      rd_pexpire = (\<lambda>k t. with_entry k (\<lambda>v. (Inr (), case v of
            Some (x, _) \<Rightarrow> (\<lambda>s. put k (x, Some (ss_clock s + t)) s) | _ \<Rightarrow> id))),
      rd_ttl = (\<lambda>k s. (Inr (pttl_of sample_view ss_clock s k div 1000), s)),
      rd_pttl = (\<lambda>k s. (Inr (pttl_of sample_view ss_clock s k), s)),
      rd_pexpiretime = (\<lambda>k s. (Inr (pttl_of sample_view ss_clock s k + ss_clock s), s)),
      rd_del = (\<lambda>k s. (Inr (), remove k s)),
      rd_flushdb = (\<lambda>s. (Inr (), s\<lparr>ss_data := []\<rparr>)),
      rd_sadd = (\<lambda>k m. with_entry k (\<lambda>v. case v of
            None \<Rightarrow> (Inr (), put k (RSet [m], None))
          | Some (RSet ms, e) \<Rightarrow> (Inr (), put k (RSet (m # ms), e))
          | _ \<Rightarrow> (Inl sample_error, id))),
      rd_smembers = (\<lambda>k. with_entry k (\<lambda>v. (case v of
            None \<Rightarrow> Inr [] | Some (RSet ms, _) \<Rightarrow> Inr (remdups ms) | _ \<Rightarrow> Inl sample_error, id))),
      rd_hgetall = (\<lambda>k. with_entry k (\<lambda>v. (case v of
            None \<Rightarrow> Inr [] | Some (RHash fs, _) \<Rightarrow> Inr fs | _ \<Rightarrow> Inl sample_error, id))),
      rd_hset = (\<lambda>k f x. with_entry k (\<lambda>v. case v of
            None \<Rightarrow> (Inr (), put k (RHash [(f, x)], None))
          | Some (RHash fs, e) \<Rightarrow> (Inr (), put k (RHash (AList.update f x fs), e))
          | _ \<Rightarrow> (Inl sample_error, id))),
      rd_hdel = (\<lambda>k f. with_entry k (\<lambda>v. case v of
            None \<Rightarrow> (Inr 0, id)
          | Some (RHash fs, e) \<Rightarrow>
              (Inr (if f \<in> fst ` set fs then 1 else 0),
               if AList.delete f fs = [] then remove k else put k (RHash (AList.delete f fs), e))
          | _ \<Rightarrow> (Inl sample_error, id))),
      rd_script_load = (\<lambda>_ s. (Inr (), s)),
      lua_number = (\<lambda>i. i), lua_tonumber = unary_value, lua_tostring = unary_text, lua_integer = (\<lambda>i. i),
      lua_error = sample_error, parse_i64 = unary_value, bad_reply = sample_error\<rparr>"

lemma sample_redis_laws: "redis_laws sample_redis sample_view ss_clock"
  unfolding redis_laws_def
  by (intro conjI allI impI; simp add: sample_redis_def with_entry_def) (metis list.simps(15))

definition sample_redis_env :: "sample_server redis_env" where
  "sample_redis_env = \<lparr>rn_now = 0, rn_pool = (\<lambda>_. None), rn_link = (\<lambda>s. (s, None))\<rparr>"

definition sample_keyb :: "counter_key \<Rightarrow> bytes" where
  "sample_keyb k = text_key (lk_namespace (ck_limit k)) ''counter'' (if ck_variables k = [] then ''{}'' else ''{user}'')"

definition sample_server_new :: sample_server where
  "sample_server_new = \<lparr>ss_clock = 0, ss_data = []\<rparr>"

definition sample_redis_limiter :: "(sample_server, string) rate_limiter" where
  "sample_redis_limiter =
     \<lparr>storage = \<lparr>limits = [(''ns'', [global_limit, user_limit])], counters = sample_server_new\<rparr>,
      reservation_limits = reservation_limits_default\<rparr>"

definition sample_played :: "counter_key set" where
  "sample_played = {counter_key global_counter, counter_key user_counter}"

lemma sample_redis_counters:
  "counters_that_apply sample_cel ''ns'' sample_ctx sample_redis_limiter = Some (Inr [global_counter, user_counter])"
  by (simp add: counters_that_apply_def sample_redis_limiter_def get_limits_def sample_collect del: collect_counters.simps)

lemma sample_redis_empty: "sample_view (counters (storage sample_redis_limiter)) k = None"
  by (simp add: sample_view_def sample_redis_limiter_def sample_server_new_def)

lemma sample_redis_used: "redis_used sample_view sample_keyb env (counters (storage sample_redis_limiter)) k = 0"
  by (simp add: redis_used_def stored_int_def int_at_def sample_redis_empty)

lemma sample_redis_keys:
  "key_for_counter sample_codec global_counter = Some (sample_keyb (counter_key global_counter))"
  "key_for_counter sample_codec user_counter = Some (sample_keyb (counter_key user_counter))"
  "key_for_counters_of_limit sample_codec (limit global_counter) \<notin> sample_keyb ` sample_played"
  "key_for_counters_of_limit sample_codec (limit user_counter) \<notin> sample_keyb ` sample_played"
  "inj_on sample_keyb sample_played"
  by (simp_all add: sample_keys sample_played_def sample_keyb_def text_key_def)
    (simp_all add: key_for_counter_def key_for_counters_of_limit_def counter_id_def counter_namespace_def
      sample_codec_def text_key_def sample_defs)

lemma sample_played_in [simp]:
  "counter_key global_counter \<in> sample_played" "counter_key user_counter \<in> sample_played"
  "counter_key global_counter \<noteq> counter_key user_counter"
  by (simp_all add: sample_played_def sample_keys)

lemma sample_redis_window [simp]: "seconds (limit global_counter) = 60" "seconds (limit user_counter) = 60"
  by (simp_all add: sample_defs)

lemma sample_redis_ready:
  "redis_ready sample_redis sample_view ss_clock sample_codec sample_keyb sample_played sample_redis_env
     [global_counter, user_counter] 2 (counters (storage sample_redis_limiter))"
  unfolding redis_ready_def
  by (simp add: sample_redis_laws sample_redis_keys row_ok_def redis_row_def int_at_def set_at_def runs_out_def
      sample_redis_empty sample_redis_env_def)

end
