(* ===== verification/RedisReserve.thy ===== *)
theory RedisReserve
  imports RedisStore
begin

text \<open>
  Reservations in Redis: \<^verbatim>\<open>SCRIPT_RESERVE\<close> holds an amount on all counters of a call or on none.
  \<open>reserve_laws\<close> states the documented behaviour of the further commands the script uses.  Lua numbers
  are exact up to \<open>2 ^ 53\<close>, and numbers below \<open>10 ^ 14\<close> are printed digit by digit.
\<close>

section \<open>The documented behaviour of the server\<close>

definition reserve_laws :: "'s redis \<Rightarrow> 's redis_view \<Rightarrow> ('s \<Rightarrow> int) \<Rightarrow> bool" where
  "reserve_laws rd view clock \<longleftrightarrow> redis_laws rd view clock \<and>
     (\<forall>k s. rd_exists rd k s = (Inr (view s k \<noteq> None), s)) \<and>
     (\<forall>k s i t. 0 < t \<longrightarrow> t \<le> 2 ^ 40 \<longrightarrow> (\<exists>s'. rd_set_ex rd k i t s = (Inr (), s') \<and>
        view s' = (view s)(k \<mapsto> (RInt i, Some (clock s + 1000 * t))) \<and> clock s' = clock s)) \<and>
     (\<forall>k s i e. view s k = Some (RInt i, e) \<longrightarrow> 0 \<le> i \<longrightarrow> i \<le> 2 ^ 53 \<longrightarrow>
        (\<exists>txt. rd_get rd k s = (Inr (Some txt), s) \<and> lua_tonumber rd txt = Some i)) \<and>
     (\<forall>k s. view s k = None \<longrightarrow> rd_hgetall rd k s = (Inr [], s)) \<and>
     (\<forall>k s fs e. view s k = Some (RHash fs, e) \<longrightarrow> rd_hgetall rd k s = (Inr fs, s)) \<and>
     (\<forall>k f s fs e. view s k = Some (RHash fs, e) \<longrightarrow> (\<exists>s' n. rd_hdel rd k f s = (Inr n, s') \<and> clock s' = clock s \<and>
        view s' = (view s)(k := if AList.delete f fs = [] then None else Some (RHash (AList.delete f fs), e)))) \<and>
     (\<forall>k f x s. view s k = None \<longrightarrow> (\<exists>s'. rd_hset rd k f x s = (Inr (), s') \<and> clock s' = clock s \<and>
        view s' = (view s)(k \<mapsto> (RHash [(f, x)], None)))) \<and>
     (\<forall>k f x s fs e. view s k = Some (RHash fs, e) \<longrightarrow> (\<exists>s'. rd_hset rd k f x s = (Inr (), s') \<and> clock s' = clock s \<and>
        view s' = (view s)(k \<mapsto> (RHash (AList.update f x fs), e)))) \<and>
     (\<forall>k s v e t. view s k = Some (v, e) \<longrightarrow> 0 < t \<longrightarrow> t \<le> 2 ^ 53 \<longrightarrow> (\<exists>s'. rd_pexpire rd k t s = (Inr (), s') \<and>
        clock s' = clock s \<and> view s' = (view s)(k \<mapsto> (v, Some (clock s + t))))) \<and>
     (\<forall>i. \<bar>i\<bar> \<le> 2 ^ 53 \<longrightarrow> lua_number rd i = i \<and> lua_integer rd i = i) \<and>
     (\<forall>i. 0 \<le> i \<longrightarrow> i < 10 ^ 14 \<longrightarrow> lua_tonumber rd (lua_tostring rd i) = Some i \<and>
        find_sub '':'' (lua_tostring rd i) = None)"

lemma reserve_lawsD:
  assumes "reserve_laws rd view clock"
  shows rlaw_base: "redis_laws rd view clock"
    and rlaw_exists: "rd_exists rd k s = (Inr (view s k \<noteq> None), s)"
    and rlaw_set: "0 < t \<Longrightarrow> t \<le> 2 ^ 40 \<Longrightarrow> \<exists>s'. rd_set_ex rd k i t s = (Inr (), s') \<and>
        view s' = (view s)(k \<mapsto> (RInt i, Some (clock s + 1000 * t))) \<and> clock s' = clock s"
    and rlaw_get: "view s k = Some (RInt i, e) \<Longrightarrow> 0 \<le> i \<Longrightarrow> i \<le> 2 ^ 53 \<Longrightarrow>
        \<exists>txt. rd_get rd k s = (Inr (Some txt), s) \<and> lua_tonumber rd txt = Some i"
    and rlaw_hgetall_none: "view s k = None \<Longrightarrow> rd_hgetall rd k s = (Inr [], s)"
    and rlaw_hgetall: "view s k = Some (RHash fs, e) \<Longrightarrow> rd_hgetall rd k s = (Inr fs, s)"
    and rlaw_hdel: "view s k = Some (RHash fs, e) \<Longrightarrow> \<exists>s' n. rd_hdel rd k f s = (Inr n, s') \<and> clock s' = clock s \<and>
        view s' = (view s)(k := if AList.delete f fs = [] then None else Some (RHash (AList.delete f fs), e))"
    and rlaw_hset_new: "view s k = None \<Longrightarrow> \<exists>s'. rd_hset rd k f x s = (Inr (), s') \<and> clock s' = clock s \<and>
        view s' = (view s)(k \<mapsto> (RHash [(f, x)], None))"
    and rlaw_hset: "view s k = Some (RHash fs, e) \<Longrightarrow> \<exists>s'. rd_hset rd k f x s = (Inr (), s') \<and> clock s' = clock s \<and>
        view s' = (view s)(k \<mapsto> (RHash (AList.update f x fs), e))"
    and rlaw_pexpire: "view s k = Some (v, e) \<Longrightarrow> 0 < t \<Longrightarrow> t \<le> 2 ^ 53 \<Longrightarrow> \<exists>s'. rd_pexpire rd k t s = (Inr (), s') \<and>
        clock s' = clock s \<and> view s' = (view s)(k \<mapsto> (v, Some (clock s + t)))"
    and rlaw_number: "\<bar>i\<bar> \<le> 2 ^ 53 \<Longrightarrow> lua_number rd i = i" "\<bar>i\<bar> \<le> 2 ^ 53 \<Longrightarrow> lua_integer rd i = i"
    and rlaw_text: "0 \<le> i \<Longrightarrow> i < 10 ^ 14 \<Longrightarrow> lua_tonumber rd (lua_tostring rd i) = Some i"
      "0 \<le> i \<Longrightarrow> i < 10 ^ 14 \<Longrightarrow> find_sub '':'' (lua_tostring rd i) = None"
  using assms unfolding reserve_laws_def by simp_all

section \<open>Amounts held\<close>

definition fields_at :: "'s redis_view \<Rightarrow> 's \<Rightarrow> bytes \<Rightarrow> (string \<times> string) list" where
  "fields_at view s rk = (case view s rk of Some (RHash fs, _) \<Rightarrow> fs | _ \<Rightarrow> [])"

definition field_ok :: "'s redis \<Rightarrow> string \<times> string \<Rightarrow> bool" where
  "field_ok rd f \<longleftrightarrow> (\<exists>a t. unpack_hold rd (snd f) = Some (Some a, Some t) \<and> 0 \<le> a)"

definition live_hold :: "'s redis \<Rightarrow> int \<Rightarrow> string \<times> string \<Rightarrow> int" where
  "live_hold rd now f =
     (case unpack_hold rd (snd f) of Some (Some a, Some t) \<Rightarrow> if now < t then a else 0 | _ \<Rightarrow> 0)"

definition held_at :: "'s redis \<Rightarrow> 's redis_view \<Rightarrow> 's \<Rightarrow> int \<Rightarrow> bytes \<Rightarrow> int" where
  "held_at rd view s now rk = (\<Sum>f \<leftarrow> fields_at view s rk. live_hold rd now f)"

definition hash_ok :: "'s redis \<Rightarrow> 's redis_view \<Rightarrow> 's \<Rightarrow> bytes \<Rightarrow> bool" where
  "hash_ok rd view s rk \<longleftrightarrow>
     (case view s rk of None \<Rightarrow> True | Some (RHash _, _) \<Rightarrow> True | _ \<Rightarrow> False) \<and>
     distinct (map fst (fields_at view s rk)) \<and> (\<forall>f\<in>set (fields_at view s rk). field_ok rd f)"

lemma hash_ok_cases:
  assumes "hash_ok rd view s rk"
  obtains "view s rk = None" "fields_at view s rk = []"
  | fs e where "view s rk = Some (RHash fs, e)" "fields_at view s rk = fs"
  using assms by (auto simp: hash_ok_def fields_at_def split: option.splits prod.splits rvalue.splits)

lemma live_hold_nonneg: "field_ok rd f \<Longrightarrow> 0 \<le> live_hold rd now f"
  by (auto simp: field_ok_def live_hold_def)

lemma sum_live_nonneg: "\<forall>f\<in>set fs. field_ok rd f \<Longrightarrow> 0 \<le> (\<Sum>f\<leftarrow>fs. live_hold rd now f)"
  by (intro sum_list_nonneg) (auto simp: live_hold_nonneg)

lemma delete_expired:
  assumes "distinct (map fst fs)" "f \<in> set fs" "live_hold rd now f = 0"
  shows "(\<Sum>g\<leftarrow>AList.delete (fst f) fs. live_hold rd now g) = (\<Sum>g\<leftarrow>fs. live_hold rd now g)"
  using assms
proof (induction fs)
  case (Cons g fs)
  show ?case
  proof (cases "f = g")
    case True
    with Cons.prems have "fst f \<notin> fst ` set fs" by simp
    then have "AList.delete (fst f) fs = fs" by (simp add: delete_id)
    with True Cons.prems show ?thesis by (cases g) simp
  next
    case False
    with Cons.prems(2) have "fst f \<in> fst ` set fs" by simp
    moreover have "fst g \<notin> fst ` set fs" using Cons.prems(1) by simp
    ultimately have "fst f \<noteq> fst g" by metis
    then show ?thesis using Cons False by (cases g) auto
  qed
qed simp

lemma set_delete: "set (AList.delete k fs) \<subseteq> set fs"
  by (induction fs) auto

lemma hdel_expired:
  assumes laws: "reserve_laws rd view clock" and ok: "hash_ok rd view s rk"
    and f: "f \<in> set (fields_at view s rk)" "live_hold rd now f = 0"
  shows "\<exists>s' n. rd_hdel rd rk (fst f) s = (Inr n, s') \<and> clock s' = clock s \<and> hash_ok rd view s' rk \<and>
    fields_at view s' rk = AList.delete (fst f) (fields_at view s rk) \<and>
    held_at rd view s' now rk = held_at rd view s now rk \<and> (\<forall>j. j \<noteq> rk \<longrightarrow> view s' j = view s j)"
  using ok
proof (cases rule: hash_ok_cases)
  case 1
  with f show ?thesis by simp
next
  case (2 fs e)
  from rlaw_hdel [OF laws 2(1), of "fst f"] obtain s' n where s': "rd_hdel rd rk (fst f) s = (Inr n, s')" "clock s' = clock s"
    "view s' = (view s)(rk := if AList.delete (fst f) fs = [] then None else Some (RHash (AList.delete (fst f) fs), e))"
    by (elim exE conjE) (rule that; assumption)
  have fields: "fields_at view s' rk = AList.delete (fst f) fs" using s'(3) by (simp add: fields_at_def)
  have "hash_ok rd view s' rk"
    using ok s'(3) fields 2(2) distinct_delete [of fs "fst f"] set_delete [of "fst f" fs]
    by (auto simp: hash_ok_def)
  moreover have "held_at rd view s' now rk = held_at rd view s now rk"
    using delete_expired [of fs f rd now] ok f 2(2) by (simp add: held_at_def fields hash_ok_def)
  ultimately show ?thesis using s' fields 2(2) by auto
qed

lemma delete_keeps_others: "g \<in> set fs \<Longrightarrow> fst g \<noteq> k \<Longrightarrow> g \<in> set (AList.delete k fs)"
  by (induction fs) auto

lemma sum_holds_result:
  assumes laws: "reserve_laws rd view clock"
    and "hash_ok rd view s rk" "set fs \<subseteq> set (fields_at view s rk)" "distinct (map fst fs)"
    and "0 \<le> acc" "acc + (\<Sum>f\<leftarrow>fs. live_hold rd now f) \<le> 2 ^ 53"
  shows "\<exists>s'. sum_holds rd rk now fs acc s = (Inr (acc + (\<Sum>f\<leftarrow>fs. live_hold rd now f)), s') \<and> clock s' = clock s \<and>
    hash_ok rd view s' rk \<and> held_at rd view s' now rk = held_at rd view s now rk \<and>
    fst ` set (fields_at view s' rk) \<subseteq> fst ` set (fields_at view s rk) \<and> (\<forall>j. j \<noteq> rk \<longrightarrow> view s' j = view s j)"
  using assms(2-)
proof (induction fs arbitrary: s acc)
  case (Cons f fs)
  from Cons.prems have "field_ok rd f" and fs_ok: "\<forall>g\<in>set fs. field_ok rd g" by (auto simp: hash_ok_def)
  then obtain a t where f: "unpack_hold rd (snd f) = Some (Some a, Some t)" "0 \<le> a" by (auto simp: field_ok_def)
  note nonneg = sum_live_nonneg [OF fs_ok, of now]
  show ?case
  proof (cases "now < t")
    case True
    then have live: "live_hold rd now f = a" using f by (simp add: live_hold_def)
    have "\<bar>acc + a\<bar> \<le> 2 ^ 53" using Cons.prems(4,5) live f(2) nonneg by simp
    note num = rlaw_number(1) [OF laws this]
    have sub: "set fs \<subseteq> set (fields_at view s rk)" and dist: "distinct (map fst fs)" using Cons.prems(2,3) by simp_all
    have "0 \<le> acc + a" "acc + a + (\<Sum>f\<leftarrow>fs. live_hold rd now f) \<le> 2 ^ 53" using Cons.prems(4,5) live f(2) by simp_all
    from Cons.IH [OF Cons.prems(1) sub dist this] show ?thesis
      using True f num live by (simp add: add.assoc)
  next
    case False
    then have dead: "live_hold rd now f = 0" using f by (simp add: live_hold_def)
    have "f \<in> set (fields_at view s rk)" using Cons.prems(2) by simp
    from hdel_expired [OF laws Cons.prems(1) this dead] obtain s1 n where
      s1: "rd_hdel rd rk (fst f) s = (Inr n, s1)" "clock s1 = clock s" "hash_ok rd view s1 rk"
        "fields_at view s1 rk = AList.delete (fst f) (fields_at view s rk)"
        "held_at rd view s1 now rk = held_at rd view s now rk" "\<forall>j. j \<noteq> rk \<longrightarrow> view s1 j = view s j"
      by (elim exE conjE) (rule that; assumption)
    have sub: "set fs \<subseteq> set (fields_at view s1 rk)"
    proof
      fix g assume "g \<in> set fs"
      moreover from this have "fst g \<noteq> fst f" using Cons.prems(3) by simp (metis image_eqI)
      ultimately show "g \<in> set (fields_at view s1 rk)"
        unfolding s1(4) using Cons.prems(2) by (intro delete_keeps_others) auto
    qed
    have dist: "distinct (map fst fs)" using Cons.prems(3) by simp
    have le: "acc + (\<Sum>f\<leftarrow>fs. live_hold rd now f) \<le> 2 ^ 53" using Cons.prems(5) dead by simp
    from Cons.IH [OF s1(3) sub dist Cons.prems(4) le] obtain s' where
      s': "sum_holds rd rk now fs acc s1 = (Inr (acc + (\<Sum>f\<leftarrow>fs. live_hold rd now f)), s')" "clock s' = clock s1"
        "hash_ok rd view s' rk" "held_at rd view s' now rk = held_at rd view s1 now rk"
        "fst ` set (fields_at view s' rk) \<subseteq> fst ` set (fields_at view s1 rk)" "\<forall>j. j \<noteq> rk \<longrightarrow> view s' j = view s1 j"
      by (elim exE conjE) (rule that; assumption)
    have "fst ` set (fields_at view s1 rk) \<subseteq> fst ` set (fields_at view s rk)"
      using set_delete [of "fst f" "fields_at view s rk"] unfolding s1(4) by blast
    with s'(5) have keys: "fst ` set (fields_at view s' rk) \<subseteq> fst ` set (fields_at view s rk)" by blast
    have run: "sum_holds rd rk now (f # fs) acc s = (Inr (acc + (\<Sum>f\<leftarrow>f # fs. live_hold rd now f)), s')"
      using False f(1) s1(1) s'(1) dead by (simp add: and_then_def)
    show ?thesis using s1 s' by (intro exI [of _ s'] conjI run keys) simp_all
  qed
qed (simp add: give_def)

section \<open>Reading a counter and its reservations\<close>

text \<open>What the script can handle of one counter: integers in the exact range, a running window, and a
  hash of well-formed reservations.\<close>

definition window_runs :: "'s redis_view \<Rightarrow> ('s \<Rightarrow> int) \<Rightarrow> 's \<Rightarrow> bytes \<Rightarrow> bool" where
  "window_runs view clock s k \<longleftrightarrow>
     (\<forall>v e. view s k = Some (v, e) \<longrightarrow> (\<exists>t. e = Some t \<and> clock s < t \<and> t - clock s \<le> 2 ^ 52))"

definition row_ready :: "'s redis \<Rightarrow> 's redis_view \<Rightarrow> ('s \<Rightarrow> int) \<Rightarrow> int \<Rightarrow> 's \<Rightarrow> reserve_row \<Rightarrow> bool" where
  "row_ready rd view clock now s row \<longleftrightarrow>
     (\<exists>i. int_at view s (rw_counter row) = Some i \<and> 0 \<le> i \<and> i \<le> 2 ^ 53) \<and>
     window_runs view clock s (rw_counter row) \<and> hash_ok rd view s (rw_reservations row) \<and>
     held_at rd view s now (rw_reservations row) \<le> 2 ^ 53 \<and> set_at view s (rw_limit row) \<and>
     0 < uint (rw_window row) \<and> uint (rw_window row) \<le> 2 ^ 40"

definition row_apart :: "reserve_row \<Rightarrow> bool" where
  "row_apart row \<longleftrightarrow> rw_counter row \<noteq> rw_reservations row \<and> rw_counter row \<noteq> rw_limit row \<and>
     rw_reservations row \<noteq> rw_limit row"

lemma row_apartD:
  assumes "row_apart row"
  shows "rw_counter row \<noteq> rw_reservations row" "rw_reservations row \<noteq> rw_counter row" "rw_counter row \<noteq> rw_limit row"
    "rw_limit row \<noteq> rw_counter row" "rw_reservations row \<noteq> rw_limit row" "rw_limit row \<noteq> rw_reservations row"
  using assms by (auto simp: row_apart_def)

text \<open>The counter exists afterwards, with the value it stood for and a running window.\<close>

lemma start_window_result:
  assumes laws: "reserve_laws rd view clock" and ready: "row_ready rd view clock now s row" and apart: "row_apart row"
    and i: "int_at view s (rw_counter row) = Some i"
  shows "\<exists>s' t. (if view s (rw_counter row) \<noteq> None then give ()
       else and_then (rd_set_ex rd (rw_counter row) 0 (lua_number rd (uint (rw_window row))))
              (\<lambda>_. rd_sadd rd (rw_limit row) (rw_counter row))) s = (Inr (), s') \<and>
    view s' (rw_counter row) = Some (RInt i, Some t) \<and> clock s < t \<and> t - clock s \<le> 2 ^ 52 \<and> clock s' = clock s \<and>
    set_at view s' (rw_limit row) \<and> (\<forall>j. j \<noteq> rw_counter row \<longrightarrow> j \<noteq> rw_limit row \<longrightarrow> view s' j = view s j)"
  using i
proof (cases rule: int_at_cases)
  case 1
  let ?k = "rw_counter row" and ?w = "uint (rw_window row)"
  have w: "0 < ?w" "?w \<le> 2 ^ 40" "\<bar>?w\<bar> \<le> 2 ^ 53" using ready by (simp_all add: row_ready_def)
  from rlaw_set [OF laws w(1,2), of ?k 0 s] obtain s1 where
    s1: "rd_set_ex rd ?k 0 ?w s = (Inr (), s1)" "view s1 = (view s)(?k \<mapsto> (RInt 0, Some (clock s + 1000 * ?w)))"
      "clock s1 = clock s"
    by (elim exE conjE) (rule that; assumption)
  have "set_at view s1 (rw_limit row)" using ready s1(2) by (simp add: row_ready_def set_at_def row_apartD [OF apart])
  from sadd_result [OF rlaw_base [OF laws] this, of ?k] obtain s2 ms e where
    "rd_sadd rd (rw_limit row) ?k s1 = (Inr (), s2)" "view s2 = (view s1)(rw_limit row \<mapsto> (RSet ms, e))" "clock s2 = clock s1"
    by (elim exE conjE) (rule that; assumption)
  with s1 1 w show ?thesis
    by (simp add: and_then_def rlaw_number(1) [OF laws w(3)] set_at_def row_apartD [OF apart])
next
  case (2 e)
  with ready obtain t where "e = Some t" "clock s < t" "t - clock s \<le> 2 ^ 52"
    by (auto simp: row_ready_def window_runs_def)
  with 2 ready show ?thesis by (simp add: give_def row_ready_def)
qed

lemma hgetall_result:
  assumes "reserve_laws rd view clock" "hash_ok rd view s rk"
  shows "rd_hgetall rd rk s = (Inr (fields_at view s rk), s)"
  using assms(2) by (cases rule: hash_ok_cases)
    (simp_all add: rlaw_hgetall_none [OF assms(1)] rlaw_hgetall [OF assms(1)])

lemma hash_frame:
  assumes "view s' rk = view s rk"
  shows "hash_ok rd view s' rk = hash_ok rd view s rk" "held_at rd view s' now rk = held_at rd view s now rk"
    "fields_at view s' rk = fields_at view s rk"
  using assms by (simp_all add: hash_ok_def held_at_def fields_at_def)

text \<open>One round of the first loop: it reports value and amount held, and changes neither.\<close>

lemma reserve_read_result:
  assumes laws: "reserve_laws rd view clock" and ready: "row_ready rd view clock now s row" and apart: "row_apart row"
    and i: "int_at view s (rw_counter row) = Some i"
  shows "\<exists>w s'. reserve_read rd now row s = (Inr (i, held_at rd view s now (rw_reservations row), w), s') \<and>
    0 < w \<and> w \<le> 2 ^ 52 \<and> row_ready rd view clock now s' row \<and> int_at view s' (rw_counter row) = Some i \<and>
    held_at rd view s' now (rw_reservations row) = held_at rd view s now (rw_reservations row) \<and>
    fst ` set (fields_at view s' (rw_reservations row)) \<subseteq> fst ` set (fields_at view s (rw_reservations row)) \<and>
    (\<forall>j. j \<noteq> rw_counter row \<longrightarrow> j \<noteq> rw_reservations row \<longrightarrow> j \<noteq> rw_limit row \<longrightarrow> view s' j = view s j) \<and>
    clock s' = clock s"
proof -
  let ?k = "rw_counter row" and ?rk = "rw_reservations row"
  from start_window_result [OF assms] obtain s1 t where
    s1: "(if view s ?k \<noteq> None then give ()
         else and_then (rd_set_ex rd ?k 0 (lua_number rd (uint (rw_window row)))) (\<lambda>_. rd_sadd rd (rw_limit row) ?k)) s =
       (Inr (), s1)"
      "view s1 ?k = Some (RInt i, Some t)" "clock s < t" "t - clock s \<le> 2 ^ 52" "clock s1 = clock s"
      "set_at view s1 (rw_limit row)" "\<forall>j. j \<noteq> ?k \<longrightarrow> j \<noteq> rw_limit row \<longrightarrow> view s1 j = view s j"
    by (elim exE conjE) (rule that; assumption)
  have pre: "0 \<le> i" "i \<le> 2 ^ 53" "hash_ok rd view s ?rk" "held_at rd view s now ?rk \<le> 2 ^ 53"
    using ready i by (auto simp: row_ready_def)
  have same: "view s1 ?rk = view s ?rk" using s1(7) by (simp add: row_apartD [OF apart])
  have frame: "hash_ok rd view s1 ?rk = hash_ok rd view s ?rk" "held_at rd view s1 now ?rk = held_at rd view s now ?rk"
    "fields_at view s1 ?rk = fields_at view s ?rk"
    by (rule hash_frame, rule same)+
  have ok1: "hash_ok rd view s1 ?rk" using pre(3) frame(1) by simp
  have "0 + (\<Sum>f\<leftarrow>fields_at view s1 ?rk. live_hold rd now f) \<le> 2 ^ 53"
    using pre(4) frame(2) by (simp add: held_at_def)
  from sum_holds_result [OF laws ok1 subset_refl _ _ this] ok1 obtain s2 where
    s2: "sum_holds rd ?rk now (fields_at view s1 ?rk) 0 s1 = (Inr (held_at rd view s1 now ?rk), s2)" "clock s2 = clock s1"
      "hash_ok rd view s2 ?rk" "held_at rd view s2 now ?rk = held_at rd view s1 now ?rk"
      "fst ` set (fields_at view s2 ?rk) \<subseteq> fst ` set (fields_at view s1 ?rk)" "\<forall>j. j \<noteq> ?rk \<longrightarrow> view s2 j = view s1 j"
    by (simp add: hash_ok_def held_at_def) blast
  from rlaw_get [OF laws s1(2) pre(1,2)] obtain raw where
    raw: "rd_get rd ?k s1 = (Inr (Some raw), s1)" "lua_tonumber rd raw = Some i"
    by (elim exE conjE) (rule that; assumption)
  have pttl: "rd_pttl rd ?k s1 = (Inr (t - clock s), s1)"
    using law_pttl [OF rlaw_base [OF laws], of ?k s1] s1(2,5) by (simp add: pttl_of_def)
  have num: "lua_number rd (t - clock s) = t - clock s" using s1(3,4) by (intro rlaw_number(1) [OF laws]) simp
  have run: "reserve_read rd now row s = (Inr (i, held_at rd view s now ?rk, t - clock s), s2)"
    using s1(1,3) raw pttl num s2(1) hgetall_result [OF laws ok1] frame(2)
    by (simp add: reserve_read_def and_then_def give_def rlaw_exists [OF laws])
  have k2: "view s2 ?k = Some (RInt i, Some t)" "set_at view s2 (rw_limit row)"
    using s2(6) s1(2,6) by (simp_all add: row_apartD [OF apart] set_at_def)
  have "row_ready rd view clock now s2 row"
    using ready k2 s1(3-5) s2(2-4) frame(2) i pre
    by (auto simp: row_ready_def window_runs_def int_at_def)
  with run k2 s1 s2 frame show ?thesis by (auto simp: int_at_def)
qed

section \<open>The two loops\<close>

definition rows_apart :: "reserve_row list \<Rightarrow> bool" where
  "rows_apart rows \<longleftrightarrow> distinct (map rw_counter rows) \<and> distinct (map rw_reservations rows) \<and>
     (\<forall>r\<in>set rows. \<forall>q\<in>set rows. rw_counter r \<noteq> rw_reservations q \<and> rw_counter r \<noteq> rw_limit q \<and>
        rw_reservations r \<noteq> rw_limit q)"

lemma rows_apart_Cons:
  assumes "rows_apart (row # rows)"
  shows "row_apart row" "rows_apart rows"
    "q \<in> set rows \<Longrightarrow> rw_counter q \<noteq> rw_counter row \<and> rw_counter q \<noteq> rw_reservations row \<and> rw_counter q \<noteq> rw_limit row \<and>
      rw_reservations q \<noteq> rw_counter row \<and> rw_reservations q \<noteq> rw_reservations row \<and> rw_reservations q \<noteq> rw_limit row \<and>
      rw_limit q \<noteq> rw_counter row \<and> rw_limit q \<noteq> rw_reservations row"
  using assms by (auto simp: rows_apart_def row_apart_def image_iff)

lemma row_ready_frame:
  assumes "view s' (rw_counter row) = view s (rw_counter row)" "view s' (rw_reservations row) = view s (rw_reservations row)"
    and "set_at view s' (rw_limit row)" "clock s' = clock s" "row_ready rd view clock now s row"
  shows "row_ready rd view clock now s' row"
  using assms by (simp add: row_ready_def window_runs_def int_at_def hash_ok_def held_at_def fields_at_def)

definition same_content :: "'s redis \<Rightarrow> 's redis_view \<Rightarrow> int \<Rightarrow> 's \<Rightarrow> 's \<Rightarrow> reserve_row \<Rightarrow> bool" where
  "same_content rd view now s s' row \<longleftrightarrow>
     int_at view s' (rw_counter row) = int_at view s (rw_counter row) \<and>
     held_at rd view s' now (rw_reservations row) = held_at rd view s now (rw_reservations row) \<and>
     fst ` set (fields_at view s' (rw_reservations row)) \<subseteq> fst ` set (fields_at view s (rw_reservations row))"

lemma same_content_view:
  "view s' (rw_counter row) = view s (rw_counter row) \<Longrightarrow> view s' (rw_reservations row) = view s (rw_reservations row) \<Longrightarrow>
   same_content rd view now s s' row"
  by (simp add: same_content_def int_at_def held_at_def fields_at_def)

lemma same_content_trans:
  "same_content rd view now s s1 row \<Longrightarrow> same_content rd view now s1 s2 row \<Longrightarrow> same_content rd view now s s2 row"
  by (simp add: same_content_def) (elim conjE, rule subset_trans)

definition read_of :: "'s redis \<Rightarrow> 's redis_view \<Rightarrow> int \<Rightarrow> 's \<Rightarrow> reserve_row \<Rightarrow> int \<times> int \<times> int \<Rightarrow> bool" where
  "read_of rd view now s row = (\<lambda>(v, t, w). int_at view s (rw_counter row) = Some v \<and>
     t = held_at rd view s now (rw_reservations row) \<and> 0 < w \<and> w \<le> 2 ^ 52)"

lemma reserve_reads:
  assumes laws: "reserve_laws rd view clock"
    and "\<forall>row\<in>set rows. row_ready rd view clock now s row" "rows_apart rows"
  shows "\<exists>reads s'. each_command (reserve_read rd now) rows s = (Inr reads, s') \<and>
    list_all2 (read_of rd view now s) rows reads \<and>
    (\<forall>row\<in>set rows. row_ready rd view clock now s' row \<and> same_content rd view now s s' row) \<and>
    (\<forall>j. (\<forall>row\<in>set rows. j \<noteq> rw_counter row \<and> j \<noteq> rw_reservations row \<and> j \<noteq> rw_limit row) \<longrightarrow> view s' j = view s j) \<and>
    clock s' = clock s"
  using assms(2,3)
proof (induction rows arbitrary: s)
  case (Cons row rows)
  note apart = rows_apart_Cons [OF Cons.prems(2)]
  have ready: "row_ready rd view clock now s row" using Cons.prems(1) by simp
  then obtain i where i: "int_at view s (rw_counter row) = Some i" by (auto simp: row_ready_def)
  from reserve_read_result [OF laws ready apart(1) i] obtain w s1 where
    s1: "reserve_read rd now row s = (Inr (i, held_at rd view s now (rw_reservations row), w), s1)" "0 < w" "w \<le> 2 ^ 52"
      "row_ready rd view clock now s1 row" "int_at view s1 (rw_counter row) = Some i"
      "held_at rd view s1 now (rw_reservations row) = held_at rd view s now (rw_reservations row)"
      "fst ` set (fields_at view s1 (rw_reservations row)) \<subseteq> fst ` set (fields_at view s (rw_reservations row))"
      "\<forall>j. j \<noteq> rw_counter row \<longrightarrow> j \<noteq> rw_reservations row \<longrightarrow> j \<noteq> rw_limit row \<longrightarrow> view s1 j = view s j"
      "clock s1 = clock s"
    by (elim exE conjE) (rule that; assumption)
  have row1: "same_content rd view now s s1 row" using s1(5-7) i by (simp add: same_content_def)
  have others: "row_ready rd view clock now s1 q" "same_content rd view now s s1 q" if q: "q \<in> set rows" for q
  proof -
    have view: "view s1 (rw_counter q) = view s (rw_counter q)" "view s1 (rw_reservations q) = view s (rw_reservations q)"
      using s1(8) apart(3) [OF q] by simp_all
    have q_ready: "row_ready rd view clock now s q" using Cons.prems(1) q by simp
    have "set_at view s1 (rw_limit q)"
    proof (cases "rw_limit q = rw_limit row")
      case True
      with s1(4) show ?thesis by (simp add: row_ready_def)
    next
      case False
      with s1(8) apart(3) [OF q] have "view s1 (rw_limit q) = view s (rw_limit q)" by simp
      with q_ready show ?thesis by (simp add: row_ready_def set_at_def)
    qed
    from view this s1(9) q_ready show "row_ready rd view clock now s1 q" by (rule row_ready_frame)
    from view show "same_content rd view now s s1 q" by (rule same_content_view)
  qed
  have "\<forall>q\<in>set rows. row_ready rd view clock now s1 q" using others(1) by blast
  from Cons.IH [OF this apart(2)] obtain reads s' where
    s': "each_command (reserve_read rd now) rows s1 = (Inr reads, s')" "list_all2 (read_of rd view now s1) rows reads"
      "\<forall>q\<in>set rows. row_ready rd view clock now s' q \<and> same_content rd view now s1 s' q"
      "\<forall>j. (\<forall>q\<in>set rows. j \<noteq> rw_counter q \<and> j \<noteq> rw_reservations q \<and> j \<noteq> rw_limit q) \<longrightarrow> view s' j = view s1 j"
      "clock s' = clock s1"
    by (elim exE conjE) (rule that; assumption)
  have view: "view s' (rw_counter row) = view s1 (rw_counter row)" "view s' (rw_reservations row) = view s1 (rw_reservations row)"
    using s'(4) apart(3) by (metis, metis)
  have set: "set_at view s' (rw_limit row)"
  proof (cases "\<exists>q\<in>set rows. rw_limit q = rw_limit row")
    case True
    with s'(3) show ?thesis by (auto simp: row_ready_def)
  next
    case False
    with s'(4) apart(3) have "view s' (rw_limit row) = view s1 (rw_limit row)" by metis
    with s1(4) show ?thesis by (simp add: row_ready_def set_at_def)
  qed
  have ready': "row_ready rd view clock now s' row"
    using view set s'(5) s1(4) by (rule row_ready_frame)
  have "same_content rd view now s1 s' row" using view by (rule same_content_view)
  with row1 have row': "same_content rd view now s s' row" by (rule same_content_trans)
  have others': "\<forall>q\<in>set rows. row_ready rd view clock now s' q \<and> same_content rd view now s s' q"
    using s'(3) others(2) by (blast intro: same_content_trans)
  have "list_all2 (read_of rd view now s) rows reads"
    using s'(2)
  proof (rule list.rel_mono_strong)
    fix q r assume "q \<in> set rows" "read_of rd view now s1 q r"
    with others(2) [of q] show "read_of rd view now s q r" by (auto simp: read_of_def same_content_def)
  qed
  moreover have "read_of rd view now s row (i, held_at rd view s now (rw_reservations row), w)"
    using i s1(2,3) by (simp add: read_of_def)
  ultimately show ?case using s1(1,8,9) s'(1,4,5) ready' row' others' by (simp add: and_then_def give_def)
qed (simp add: give_def)

lemma packed_hold:
  assumes laws: "reserve_laws rd view clock" and "0 \<le> a" "a < 10 ^ 14" "0 \<le> t" "t < 10 ^ 14"
  shows "unpack_hold rd (lua_tostring rd a @ '':'' @ lua_tostring rd t) = Some (Some a, Some t)"
proof -
  have past: "find_sub '':'' xs = None \<Longrightarrow> find_sub '':'' (xs @ '':'' @ ys) = Some (length xs)" for xs ys
    by (induction xs) (auto split: if_splits)
  show ?thesis
    using past [OF rlaw_text(2) [OF laws assms(2,3)]] rlaw_text(1) [OF laws assms(2,3)] rlaw_text(1) [OF laws assms(4,5)]
    by (simp add: unpack_hold_def)
qed

lemma update_fresh: "k \<notin> fst ` set fs \<Longrightarrow> AList.update k v fs = fs @ [(k, v)]"
  by (induction fs) auto

lemma hset_result:
  assumes laws: "reserve_laws rd view clock" and ok: "hash_ok rd view s rk" and fresh: "f \<notin> fst ` set (fields_at view s rk)"
  shows "\<exists>s' e. rd_hset rd rk f x s = (Inr (), s') \<and> clock s' = clock s \<and>
    view s' = (view s)(rk \<mapsto> (RHash (fields_at view s rk @ [(f, x)]), e))"
  using ok
proof (cases rule: hash_ok_cases)
  case 1
  with rlaw_hset_new [OF laws 1(1), of f x] show ?thesis by fastforce
next
  case (2 fs e)
  with rlaw_hset [OF laws 2(1), of f x] fresh show ?thesis by (fastforce simp: update_fresh)
qed

text \<open>The amounts and times of a reservation in the range the script prints exactly.\<close>

definition hold_range :: "int \<Rightarrow> int \<Rightarrow> int \<Rightarrow> bool" where
  "hold_range hold ttl now \<longleftrightarrow> 0 < hold \<and> hold < 10 ^ 14 \<and> 0 < ttl \<and> 0 \<le> now \<and> now + ttl < 10 ^ 14"

lemma reserve_write_result:
  assumes laws: "reserve_laws rd view clock" and ok: "hash_ok rd view s (rw_reservations row)"
    and fresh: "rid \<notin> fst ` set (fields_at view s (rw_reservations row))"
    and range: "hold_range hold ttl now" and w: "0 < w" "w \<le> 2 ^ 52"
  shows "\<exists>s'. reserve_write rd hold ttl rid now (row, v, u, w) s = (Inr (), s') \<and>
    held_at rd view s' now (rw_reservations row) = held_at rd view s now (rw_reservations row) + hold \<and>
    (\<forall>j. j \<noteq> rw_reservations row \<longrightarrow> view s' j = view s j)"
proof -
  let ?rk = "rw_reservations row" and ?until = "if now + w < now + ttl then now + w else now + ttl"
  let ?x = "lua_tostring rd hold @ '':'' @ lua_tostring rd ?until"
  have r: "0 \<le> hold" "hold < 10 ^ 14" "0 \<le> ?until" "?until < 10 ^ 14" "now < ?until"
    using range w by (auto simp: hold_range_def)
  have "\<bar>now + ttl\<bar> \<le> 2 ^ 53" "\<bar>now + w\<bar> \<le> 2 ^ 53" using range w by (simp_all add: hold_range_def)
  note num = this [THEN rlaw_number(1) [OF laws]]
  from hset_result [OF laws ok fresh, of ?x] obtain s1 e where
    s1: "rd_hset rd ?rk rid ?x s = (Inr (), s1)" "view s1 = (view s)(?rk \<mapsto> (RHash (fields_at view s ?rk @ [(rid, ?x)]), e))"
    by (elim exE conjE) (rule that; assumption)
  have "view s1 ?rk = Some (RHash (fields_at view s ?rk @ [(rid, ?x)]), e)" "w \<le> 2 ^ 53" using s1(2) w by simp_all
  from rlaw_pexpire [OF laws this(1) w(1) this(2)] obtain s2 where
    s2: "rd_pexpire rd ?rk w s1 = (Inr (), s2)"
      "view s2 = (view s1)(?rk \<mapsto> (RHash (fields_at view s ?rk @ [(rid, ?x)]), Some (clock s1 + w)))"
    by (elim exE conjE) (rule that; assumption)
  have "live_hold rd now (rid, ?x) = hold"
    using packed_hold [OF laws r(1-4)] r(5) by (simp add: live_hold_def)
  then have "held_at rd view s2 now ?rk = held_at rd view s now ?rk + hold"
    using s2(2) by (simp add: held_at_def fields_at_def)
  moreover have "reserve_write rd hold ttl rid now (row, v, u, w) s = (Inr (), s2)"
    using s1(1) s2(1) by (simp only: reserve_write_def num Let_def prod.case and_then_def sum.case)
  ultimately show ?thesis using s1(2) s2(2) by simp
qed

lemma reserve_writes:
  assumes laws: "reserve_laws rd view clock" and range: "hold_range hold ttl now"
    and "list_all2 (\<lambda>row (v, t, w). 0 < w \<and> w \<le> 2 ^ 52) rows reads" "distinct (map rw_reservations rows)"
    and "\<forall>row\<in>set rows. hash_ok rd view s (rw_reservations row) \<and> rid \<notin> fst ` set (fields_at view s (rw_reservations row))"
  shows "\<exists>us s'. each_command (reserve_write rd hold ttl rid now) (zip rows reads) s = (Inr us, s') \<and>
    (\<forall>row\<in>set rows. held_at rd view s' now (rw_reservations row) = held_at rd view s now (rw_reservations row) + hold) \<and>
    (\<forall>j. j \<notin> rw_reservations ` set rows \<longrightarrow> view s' j = view s j)"
  using assms(3-)
proof (induction rows reads arbitrary: s rule: list_all2_induct)
  case (Cons row rows read reads)
  obtain v t w where read: "read = (v, t, w)" by (cases read)
  with Cons.hyps(1) have w: "0 < w" "w \<le> 2 ^ 52" by simp_all
  have row: "hash_ok rd view s (rw_reservations row)" "rid \<notin> fst ` set (fields_at view s (rw_reservations row))"
    using Cons.prems(2) by simp_all
  from reserve_write_result [OF laws row range w, of v t] obtain s1 where
    s1: "reserve_write rd hold ttl rid now (row, v, t, w) s = (Inr (), s1)"
      "held_at rd view s1 now (rw_reservations row) = held_at rd view s now (rw_reservations row) + hold"
      "\<forall>j. j \<noteq> rw_reservations row \<longrightarrow> view s1 j = view s j"
    by (elim exE conjE) (rule that; assumption)
  have new: "rw_reservations row \<notin> rw_reservations ` set rows" using Cons.prems(1) by simp
  have view: "view s1 (rw_reservations q) = view s (rw_reservations q)" if "q \<in> set rows" for q
    using s1(3) new that by (metis image_eqI)
  have dist: "distinct (map rw_reservations rows)" using Cons.prems(1) by simp
  have ok1: "\<forall>q\<in>set rows. hash_ok rd view s1 (rw_reservations q) \<and> rid \<notin> fst ` set (fields_at view s1 (rw_reservations q))"
    using Cons.prems(2) view by (simp add: hash_ok_def fields_at_def)
  from Cons.IH [OF dist ok1] obtain us s' where
    s': "each_command (reserve_write rd hold ttl rid now) (zip rows reads) s1 = (Inr us, s')"
      "\<forall>q\<in>set rows. held_at rd view s' now (rw_reservations q) = held_at rd view s1 now (rw_reservations q) + hold"
      "\<forall>j. j \<notin> rw_reservations ` set rows \<longrightarrow> view s' j = view s1 j"
    by (elim exE conjE) (rule that; assumption)
  have "held_at rd view s' now (rw_reservations row) = held_at rd view s now (rw_reservations row) + hold"
    using s'(3) new s1(2) by (simp add: held_at_def fields_at_def)
  moreover have "\<forall>q\<in>set rows. held_at rd view s' now (rw_reservations q) = held_at rd view s now (rw_reservations q) + hold"
    using s'(2) view by (simp add: held_at_def fields_at_def)
  ultimately show ?case using s1(1,3) s'(1,3) read by (simp add: and_then_def give_def)
qed (simp add: give_def)

section \<open>The script and the storages\<close>

text \<open>Room on a counter for an amount, next to what is counted and held.\<close>

definition row_fits :: "'s redis \<Rightarrow> 's redis_view \<Rightarrow> int \<Rightarrow> 's \<Rightarrow> u64 \<Rightarrow> reserve_row \<Rightarrow> bool" where
  "row_fits rd view now s amt row \<longleftrightarrow>
     stored_int view s (rw_counter row) + held_at rd view s now (rw_reservations row) + uint amt \<le> uint (rw_max row)"

text \<open>A call the script handles: rows in range, sums and maxima exact, and an id not in use.\<close>

definition reserve_ready ::
  "'s redis \<Rightarrow> 's redis_view \<Rightarrow> ('s \<Rightarrow> int) \<Rightarrow> u64 \<Rightarrow> u64 \<Rightarrow> int \<Rightarrow> string \<Rightarrow> int \<Rightarrow> reserve_row list \<Rightarrow> 's \<Rightarrow> bool" where
  "reserve_ready rd view clock check_amt hold_amt ttl rid now rows s \<longleftrightarrow>
     reserve_laws rd view clock \<and> rows_apart rows \<and> 0 < ttl \<and> 0 \<le> now \<and> now + ttl < 10 ^ 14 \<and> uint hold_amt < 10 ^ 14 \<and>
     (\<forall>row\<in>set rows. row_ready rd view clock now s row \<and> rid \<notin> fst ` set (fields_at view s (rw_reservations row)) \<and>
        stored_int view s (rw_counter row) + held_at rd view s now (rw_reservations row) + uint check_amt \<le> 2 ^ 53 \<and>
        uint (rw_max row) \<le> 2 ^ 53)"

lemma held_nonneg: "hash_ok rd view s rk \<Longrightarrow> 0 \<le> held_at rd view s now rk"
  by (simp add: held_at_def hash_ok_def sum_live_nonneg)

lemma reserve_fits_row:
  assumes laws: "reserve_laws rd view clock" and "row_ready rd view clock now s row" "read_of rd view now s row r"
    and le: "stored_int view s (rw_counter row) + held_at rd view s now (rw_reservations row) + uint amt \<le> 2 ^ 53"
      "uint (rw_max row) \<le> 2 ^ 53"
  shows "reserve_fits rd (lua_number rd (uint amt)) row r \<longleftrightarrow> row_fits rd view now s amt row"
proof -
  obtain v t w where r: "r = (v, t, w)" by (cases r)
  with assms(2,3) have v: "0 \<le> v" "stored_int view s (rw_counter row) = v" "t = held_at rd view s now (rw_reservations row)"
    by (auto simp: read_of_def row_ready_def stored_int_def)
  have t: "0 \<le> t" using assms(2) v(3) by (simp add: row_ready_def held_nonneg)
  have "\<bar>uint amt\<bar> \<le> 2 ^ 53" "\<bar>v + t\<bar> \<le> 2 ^ 53" "\<bar>v + t + uint amt\<bar> \<le> 2 ^ 53" "\<bar>uint (rw_max row)\<bar> \<le> 2 ^ 53"
    using le v t uint_ge_0 [of amt] uint_ge_0 [of "rw_max row"] by linarith+
  note num = this [THEN rlaw_number(1) [OF laws]]
  show ?thesis unfolding reserve_fits_def r prod.case num row_fits_def v(2) v(3) [symmetric] by (simp add: not_less)
qed

lemma reads_exact:
  assumes laws: "reserve_laws rd view clock" and "\<forall>row\<in>set rows. row_ready rd view clock now s row"
    and "list_all2 (read_of rd view now s) rows reads" "(v, t, w) \<in> set reads"
  shows "lua_integer rd v = v" "lua_integer rd t = t" "lua_integer rd w = w"
proof -
  from assms(4) obtain i where "i < length reads" "reads ! i = (v, t, w)" by (auto simp: in_set_conv_nth)
  with assms(3) have "rows ! i \<in> set rows" "read_of rd view now s (rows ! i) (v, t, w)"
    by (auto simp: list_all2_conv_all_nth)
  then obtain row where row: "row \<in> set rows" "read_of rd view now s row (v, t, w)" by blast
  with assms(2) have ready: "row_ready rd view clock now s row" by simp
  then have "0 \<le> t" using row(2) by (simp add: row_ready_def read_of_def held_nonneg)
  with row(2) ready have "\<bar>v\<bar> \<le> 2 ^ 53" "\<bar>t\<bar> \<le> 2 ^ 53" "\<bar>w\<bar> \<le> 2 ^ 53" by (auto simp: row_ready_def read_of_def)
  then show "lua_integer rd v = v" "lua_integer rd t = t" "lua_integer rd w = w" by (simp_all add: rlaw_number(2) [OF laws])
qed

lemma reads_fit:
  assumes ready: "reserve_ready rd view clock check_amt hold_amt ttl rid now rows s"
    and reads: "list_all2 (read_of rd view now s) rows reads"
  shows "list_all2 (reserve_fits rd (lua_number rd (uint check_amt))) rows reads \<longleftrightarrow>
      (\<forall>row\<in>set rows. row_fits rd view now s check_amt row)"
    and "concat (map (\<lambda>(v, t, w). [lua_integer rd v, lua_integer rd t, lua_integer rd w]) reads) =
      concat (map (\<lambda>(v, t, w). [v, t, w]) reads)"
proof -
  have laws: "reserve_laws rd view clock" and rows: "\<forall>row\<in>set rows. row_ready rd view clock now s row"
    using ready by (simp_all add: reserve_ready_def)
  have "reserve_fits rd (lua_number rd (uint check_amt)) (rows ! i) (reads ! i) \<longleftrightarrow> row_fits rd view now s check_amt (rows ! i)"
    if "i < length rows" for i
    using that reads rows ready by (intro reserve_fits_row [OF laws]) (auto simp: list_all2_conv_all_nth reserve_ready_def)
  with reads show "list_all2 (reserve_fits rd (lua_number rd (uint check_amt))) rows reads \<longleftrightarrow>
      (\<forall>row\<in>set rows. row_fits rd view now s check_amt row)"
    by (auto simp: list_all2_conv_all_nth all_set_conv_all_nth)
  show "concat (map (\<lambda>(v, t, w). [lua_integer rd v, lua_integer rd t, lua_integer rd w]) reads) =
      concat (map (\<lambda>(v, t, w). [v, t, w]) reads)"
    using reads_exact [OF laws rows reads] by (intro arg_cong [where f = concat] map_cong) auto
qed

lemma script_reserve_result:
  assumes ready: "reserve_ready rd view clock check_amt hold_amt ttl rid now rows s"
  defines "admitted \<equiv> \<forall>row\<in>set rows. row_fits rd view now s check_amt row"
  shows "\<exists>reads s'. script_reserve rd rows check_amt hold_amt ttl rid now s =
      (Inr (concat (map (\<lambda>(v, t, w). [v, t, w]) reads) @ [if admitted then 1 else 0]), s') \<and> length reads = length rows \<and>
    (\<forall>row\<in>set rows. int_at view s' (rw_counter row) = int_at view s (rw_counter row) \<and>
       held_at rd view s' now (rw_reservations row) =
         held_at rd view s now (rw_reservations row) + (if admitted then uint hold_amt else 0))"
proof -
  have laws: "reserve_laws rd view clock" and apart: "rows_apart rows"
    and rows: "\<forall>row\<in>set rows. row_ready rd view clock now s row" and dist: "distinct (map rw_reservations rows)"
    using ready by (simp_all add: reserve_ready_def rows_apart_def)
  have bounds: "\<bar>ttl\<bar> \<le> 2 ^ 53" "\<bar>now\<bar> \<le> 2 ^ 53" "\<bar>uint hold_amt\<bar> \<le> 2 ^ 53" using ready by (simp_all add: reserve_ready_def)
  note num = bounds [THEN rlaw_number(1) [OF laws]]
  from reserve_reads [OF laws rows apart] obtain reads s1 where
    s1: "each_command (reserve_read rd now) rows s = (Inr reads, s1)" "list_all2 (read_of rd view now s) rows reads"
      "\<forall>row\<in>set rows. row_ready rd view clock now s1 row \<and> same_content rd view now s s1 row"
    by (elim exE conjE) (rule that; assumption)
  note fits = reads_fit [OF ready s1(2), folded admitted_def]
  have content: "\<forall>row\<in>set rows. int_at view s1 (rw_counter row) = int_at view s (rw_counter row) \<and>
      held_at rd view s1 now (rw_reservations row) = held_at rd view s now (rw_reservations row)"
    using s1(3) by (simp add: same_content_def)
  have len: "length reads = length rows" using s1(2) by (simp add: list_all2_lengthD)
  show ?thesis
  proof (cases "admitted \<and> 0 < uint hold_amt")
    case False
    then have "script_reserve rd rows check_amt hold_amt ttl rid now s =
        (Inr (concat (map (\<lambda>(v, t, w). [v, t, w]) reads) @ [if admitted then 1 else 0]), s1)"
      using s1(1) fits num by (auto simp: script_reserve_def Let_def and_then_def give_def)
    moreover have "(if admitted then uint hold_amt else 0) = 0" using False uint_ge_0 [of hold_amt] by auto
    ultimately show ?thesis using content len by auto
  next
    case True
    have range: "hold_range (uint hold_amt) ttl now" using True ready by (simp add: hold_range_def reserve_ready_def)
    have ws: "list_all2 (\<lambda>row (v, t, w). 0 < w \<and> w \<le> 2 ^ 52) rows reads"
      using s1(2) by (rule list.rel_mono_strong) (auto simp: read_of_def)
    have hashes: "\<forall>row\<in>set rows. hash_ok rd view s1 (rw_reservations row) \<and>
        rid \<notin> fst ` set (fields_at view s1 (rw_reservations row))"
    proof
      fix row assume row: "row \<in> set rows"
      have "rid \<notin> fst ` set (fields_at view s (rw_reservations row))" using ready row by (simp add: reserve_ready_def)
      then show "hash_ok rd view s1 (rw_reservations row) \<and> rid \<notin> fst ` set (fields_at view s1 (rw_reservations row))"
        using bspec [OF s1(3) row] unfolding row_ready_def same_content_def by blast
    qed
    from reserve_writes [OF laws range ws dist hashes] obtain us s2 where
      s2: "each_command (reserve_write rd (uint hold_amt) ttl rid now) (zip rows reads) s1 = (Inr us, s2)"
        "\<forall>row\<in>set rows. held_at rd view s2 now (rw_reservations row) = held_at rd view s1 now (rw_reservations row) + uint hold_amt"
        "\<forall>j. j \<notin> rw_reservations ` set rows \<longrightarrow> view s2 j = view s1 j"
      by (elim exE conjE) (rule that; assumption)
    have "script_reserve rd rows check_amt hold_amt ttl rid now s =
        (Inr (concat (map (\<lambda>(v, t, w). [v, t, w]) reads) @ [if admitted then 1 else 0]), s2)"
      using s1(1) s2(1) fits num True by (simp add: script_reserve_def Let_def and_then_def give_def)
    moreover have "int_at view s2 (rw_counter row) = int_at view s1 (rw_counter row)" if "row \<in> set rows" for row
    proof -
      have "rw_counter row \<notin> rw_reservations ` set rows" using apart that by (auto simp: rows_apart_def)
      with s2(3) show ?thesis by (simp add: int_at_def)
    qed
    ultimately show ?thesis using content s2(2) True len by auto
  qed
qed

lemma reserve_reply_total:
  "length reads = length cs \<Longrightarrow> \<exists>found' cs'. reserve_reply admitted check_amt hold_amt cs
     (concat (map (\<lambda>(v, t, w). [v, t, w]) reads) @ rest) found = Some (found', cs')"
  by (induction reads cs arbitrary: found rule: list_induct2) (simp, fastforce simp: Let_def)

lemma redis_reserves:
  assumes rows: "traverse (row_of cd) cs = Some rows" and quiet: "\<forall>s. rn_link env s = (s, None)"
    and ready: "reserve_ready rd view clock check_amt hold_amt (as_i64 (ttl div 10 ^ 6)) rid (as_i64 (rn_now env div 10 ^ 6)) rows s"
  defines "now \<equiv> as_i64 (rn_now env div 10 ^ 6)"
  shows "\<exists>a cs' s'. aredis_reserve rd cd env cs rid check_amt hold_amt ttl s = Some ((Inr a, cs'), s') \<and>
    (a = AuthOk \<longleftrightarrow> (\<forall>row\<in>set rows. row_fits rd view now s check_amt row)) \<and>
    (\<forall>row\<in>set rows. int_at view s' (rw_counter row) = int_at view s (rw_counter row) \<and>
       held_at rd view s' now (rw_reservations row) =
         held_at rd view s now (rw_reservations row) + (if a = AuthOk then uint hold_amt else 0))"
proof -
  define ok where "ok \<longleftrightarrow> (\<forall>row\<in>set rows. row_fits rd view now s check_amt row)"
  from script_reserve_result [OF ready, folded now_def, folded ok_def] obtain reads s' where
    s': "script_reserve rd rows check_amt hold_amt (as_i64 (ttl div 10 ^ 6)) rid now s =
        (Inr (concat (map (\<lambda>(v, t, w). [v, t, w]) reads) @ [if ok then 1 else 0]), s')" "length reads = length rows"
      "\<forall>row\<in>set rows. int_at view s' (rw_counter row) = int_at view s (rw_counter row) \<and>
         held_at rd view s' now (rw_reservations row) =
           held_at rd view s now (rw_reservations row) + (if ok then uint hold_amt else 0)"
    by (elim exE conjE) (rule that; assumption)
  have len: "length reads = length cs" using s'(2) rows by (simp add: traverse_eq_Some list_all2_lengthD)
  from reserve_reply_total [OF this, of ok check_amt hold_amt "[if ok then 1 else 0]" None] obtain found cs' where
    "reserve_reply ok check_amt hold_amt cs (concat (map (\<lambda>(v, t, w). [v, t, w]) reads) @ [if ok then 1 else 0]) None = Some (found, cs')"
    by (elim exE) (rule that; assumption)
  then have "reserve_answer check_amt hold_amt cs (concat (map (\<lambda>(v, t, w). [v, t, w]) reads) @ [if ok then 1 else 0]) =
      Some (if ok then AuthOk else Limited (case found of Some n \<Rightarrow> n | None \<Rightarrow> None), cs')"
    by (cases ok) (simp_all add: reserve_answer_def Let_def)
  then have "aredis_reserve rd cd env cs rid check_amt hold_amt ttl s =
      Some ((Inr (if ok then AuthOk else Limited (case found of Some n \<Rightarrow> n | None \<Rightarrow> None)), cs'), s')"
    using s'(1) rows by (simp add: aredis_reserve_def exchange_quiet [OF quiet] answer_def now_def)
  with s'(3) show ?thesis unfolding ok_def [symmetric] by auto
qed

end
