(* ===== verification/RedisProperties.thy ===== *)
theory RedisProperties
  imports RedisSamples RedisReserve WriteBehind
begin

text \<open>The properties of the Redis storages and of the write-behind cache in front of them.\<close>

section \<open>Samples\<close>

lemma sample_reserve_laws: "reserve_laws sample_redis sample_view ss_clock"
proof -
  have "find_sub '':'' (unary n) = None" for n
    by (induction n) (simp_all add: unary_def)
  then have unary: "0 \<le> i \<Longrightarrow> find_sub '':'' (unary_text i) = None" for i
    by (simp add: unary_text_def)
  show ?thesis
    unfolding reserve_laws_def
    by (rule conjI, rule sample_redis_laws)
      (intro conjI allI impI; simp add: sample_redis_def with_entry_def unary)
qed

definition sample_row :: reserve_row where
  "sample_row = \<lparr>rw_counter = sample_keyb (counter_key global_counter),
     rw_reservations = sample_keyb (counter_key global_counter) @ '',reservations'',
     rw_limit = key_for_counters_of_limit sample_codec (limit global_counter), rw_window = 60, rw_max = 10\<rparr>"

lemma sample_rows: "traverse (row_of sample_codec) [global_counter] = Some [sample_row]"
  by (simp add: row_of_def key_for_reservations_def sample_redis_keys sample_row_def sample_keys)
    (simp add: sample_defs window_def from_secs_def as_secs_def)

lemma sample_reserve_ready:
  "reserve_ready sample_redis sample_view ss_clock 2 2 (as_i64 (10 ^ 9 div 10 ^ 6)) ''r''
     (as_i64 (rn_now sample_redis_env div 10 ^ 6)) [sample_row] sample_server_new"
proof -
  have none: "sample_view sample_server_new k = None" for k by (simp add: sample_view_def sample_server_new_def)
  have "rw_limit sample_row \<noteq> rw_counter sample_row" "rw_limit sample_row \<noteq> rw_reservations sample_row"
    using sample_redis_keys(3) by (auto simp: sample_row_def sample_played_def)
      (simp add: key_for_counters_of_limit_def sample_keyb_def sample_keys sample_codec_def text_key_def sample_defs)
  moreover have "rw_reservations sample_row \<noteq> rw_counter sample_row" by (simp add: sample_row_def)
  ultimately have "rows_apart [sample_row]" by (auto simp: rows_apart_def)
  then show ?thesis
    by (simp add: reserve_ready_def sample_reserve_laws row_ready_def int_at_def window_runs_def hash_ok_def fields_at_def
        held_at_def set_at_def stored_int_def none as_i64_def sample_redis_env_def)
      (simp add: sample_row_def)
qed

section \<open>Counting\<close>

text \<open>C12: the asynchronous limiter over Redis limits a request exactly when some counter of it lacks room.
  The counters in play grow by the delta when the request is admitted, and stay as they are when not;
  the limits stay.  The server keeps the documented behaviour of its commands, and no other client writes meanwhile.\<close>

theorem redis_checked_update:
  assumes "counters_that_apply cel ns ctx rl = Some (Inr ctrs)"
    and "redis_ready rd view clock cd keyb K env ctrs delta (counters (storage rl))"
  defines "used \<equiv> \<lambda>st. redis_used view keyb env (counters (storage st))"
  shows "\<exists>r rl'. async_check_rate_limited_and_update (async_redis_storage rd script cel cd) cel env ns ctx delta rl =
      Some (Inr r, rl') \<and>
    (limited r \<longleftrightarrow> (\<exists>c\<in>set ctrs. counter_max_value c < saturating_add (used rl (counter_key c)) delta)) \<and>
    (\<forall>k. k \<in> K \<longrightarrow> used rl' k = used rl k + (if \<not> limited r \<and> k \<in> counter_key ` set ctrs then delta else 0)) \<and>
    limits (storage rl') = limits (storage rl)"
  using aredis.limiter_check_and_update [OF assms(1,2), of script]
  by (simp add: used_def admits_def not_le async_check_and_update)

theorem redis_checked_update_witness:
  "\<exists>r rl'. async_check_rate_limited_and_update (async_redis_storage sample_redis ''sha'' sample_cel sample_codec) sample_cel
      sample_redis_env ''ns'' sample_ctx 2 sample_redis_limiter = Some (Inr r, rl') \<and> \<not> limited r \<and>
    redis_used sample_view sample_keyb sample_redis_env (counters (storage rl')) (counter_key user_counter) = 2"
proof -
  let ?used = "\<lambda>rl. redis_used sample_view sample_keyb sample_redis_env (counters (storage rl))"
  obtain r rl' where r: "async_check_rate_limited_and_update (async_redis_storage sample_redis ''sha'' sample_cel sample_codec)
        sample_cel sample_redis_env ''ns'' sample_ctx 2 sample_redis_limiter = Some (Inr r, rl')"
      "limited r \<longleftrightarrow> (\<exists>c\<in>set [global_counter, user_counter].
         counter_max_value c < saturating_add (?used sample_redis_limiter (counter_key c)) 2)"
      "\<forall>k. k \<in> sample_played \<longrightarrow> ?used rl' k = ?used sample_redis_limiter k
         + (if \<not> limited r \<and> k \<in> counter_key ` set [global_counter, user_counter] then 2 else 0)"
    using redis_checked_update [OF sample_redis_counters sample_redis_ready, of "''sha''"]
    by (elim exE conjE) (rule that; assumption)
  have "\<not> limited r" using r(2) by (simp add: sample_redis_used sample_keys saturating_add_def)
  with r(1) r(3) [THEN spec, of "counter_key user_counter"] show ?thesis by (auto simp: sample_redis_used)
qed

text \<open>Counting in Redis never makes a counter that stays: after the update script the counter holds the
  old value plus the delta and runs out at some instant, whether or not it existed before.\<close>

lemma redis_counters_run_out:
  assumes "redis_laws rd view clock" and "int_at view s k = Some i" and "0 \<le> i" and "i + uint delta < 2 ^ 63"
    and "set_at view s limit_k" and "limit_k \<noteq> k" and "0 < secs" and "unat secs \<le> 2 ^ 50" and "runs_out view s k"
  shows "\<exists>c s' t. script_update_counter rd k limit_k secs delta s = (Inr c, s') \<and>
    view s' k = Some (RInt (i + uint delta), Some t) \<and> (\<forall>j. j \<noteq> k \<longrightarrow> j \<noteq> limit_k \<longrightarrow> view s' j = view s j)"
  using script_update_result [OF assms] by (auto simp: counted_def)

lemma redis_counters_run_out_sample:
  "\<exists>c s' t. script_update_counter sample_redis ''k'' ''limits'' 60 3 sample_server_new = (Inr c, s') \<and>
    sample_view s' ''k'' = Some (RInt 3, Some t)"
  using redis_counters_run_out [OF sample_redis_laws, of sample_server_new "''k''" 0 3 "''limits''" 60]
  by (auto simp: int_at_def set_at_def runs_out_def sample_view_def sample_server_new_def)

text \<open>C25: a checked update through the blocking Redis storage, which runs the update script once per counter
  and waits for each, and through the asynchronous one, which sends all of them in one pipeline, give the
  same answer, the same counters with the same budgets and the same state of the server, under the
  conditions of \<open>redis_ready\<close>: the server keeps the documented behaviour of its commands, every command
  gets through, the pool has a connection, no other client writes meanwhile, and the counters have
  different keys and room below \<open>2 ^ 63\<close>.\<close>

theorem redis_storages_agree:
  assumes "counters_that_apply cel ns ctx rl = Some (Inr ctrs)"
    and "redis_ready rd view clock cd keyb K env ctrs delta (counters (storage rl))"
  shows "\<exists>r rl'. check_rate_limited_and_update (redis_storage rd cel cd) cel env ns ctx delta rl = Some (Inr r, rl') \<and>
    async_check_rate_limited_and_update (async_redis_storage rd script cel cd) cel env ns ctx delta rl = Some (Inr r, rl')"
proof -
  from redis_checked_updates [OF assms(2), of script] obtain a ctrs' s' where
    "aredis_check_and_update rd script cd env ctrs delta (counters (storage rl)) = Some ((Inr a, ctrs'), s')"
    "sync_check_and_update rd cd env ctrs delta (counters (storage rl)) = Some ((Inr a, ctrs'), s')"
    by (elim exE conjE) (rule that; assumption)
  then show ?thesis
    by (simp add: async_check_and_update check_rate_limited_and_update_def assms(1) storage_check_and_update_def
        redis_storage_def async_redis_storage_def Let_def)
qed

theorem redis_storages_agree_witness:
  "check_rate_limited_and_update (redis_storage sample_redis sample_cel sample_codec) sample_cel sample_redis_env ''ns''
      sample_ctx 2 sample_redis_limiter =
   async_check_rate_limited_and_update (async_redis_storage sample_redis ''sha'' sample_cel sample_codec) sample_cel
      sample_redis_env ''ns'' sample_ctx 2 sample_redis_limiter"
  using redis_storages_agree [OF sample_redis_counters sample_redis_ready, of "''sha''"] by auto

section \<open>Reserving\<close>

text \<open>C13: reserving in Redis holds the amount on every counter of the call or on none.  It is admitted exactly
  when every counter has room for the amount next to what is counted and what live reservations hold,
  and it changes no counter's value.  Integers stay in the range Lua numbers represent exactly.\<close>

theorem redis_reservation_all_or_nothing:
  assumes "traverse (row_of cd) cs = Some rows" and "\<forall>s. rn_link env s = (s, None)"
    and "reserve_ready rd view clock check_amt hold_amt (as_i64 (ttl div 10 ^ 6)) rid (as_i64 (rn_now env div 10 ^ 6)) rows s"
  defines "now \<equiv> as_i64 (rn_now env div 10 ^ 6)"
  shows "\<exists>a cs' s'. aredis_reserve rd cd env cs rid check_amt hold_amt ttl s = Some ((Inr a, cs'), s') \<and>
    (a = AuthOk \<longleftrightarrow> (\<forall>row\<in>set rows. stored_int view s (rw_counter row)
       + held_at rd view s now (rw_reservations row) + uint check_amt \<le> uint (rw_max row))) \<and>
    (\<forall>row\<in>set rows. int_at view s' (rw_counter row) = int_at view s (rw_counter row) \<and>
       held_at rd view s' now (rw_reservations row) =
         held_at rd view s now (rw_reservations row) + (if a = AuthOk then uint hold_amt else 0))"
  using redis_reserves [OF assms(1-3)] unfolding now_def row_fits_def .

theorem redis_reservation_all_or_nothing_witness:
  "\<exists>cs' s'. aredis_reserve sample_redis sample_codec sample_redis_env [global_counter] ''r'' 2 2 (10 ^ 9) sample_server_new =
      Some ((Inr AuthOk, cs'), s') \<and> held_at sample_redis sample_view s' 0 (rw_reservations sample_row) = 2"
proof -
  have quiet: "\<forall>s. rn_link sample_redis_env s = (s, None)" and now: "as_i64 (rn_now sample_redis_env div 10 ^ 6) = 0"
    by (simp_all add: sample_redis_env_def as_i64_def)
  have "stored_int sample_view sample_server_new k = 0" "held_at sample_redis sample_view sample_server_new 0 k = 0" for k
    by (simp_all add: stored_int_def int_at_def held_at_def fields_at_def sample_view_def sample_server_new_def)
  moreover have "uint (rw_max sample_row) = 10" by (simp add: sample_row_def)
  ultimately show ?thesis
    using redis_reservation_all_or_nothing [OF sample_rows quiet sample_reserve_ready] unfolding now by auto
qed

section \<open>Writing behind\<close>

text \<open>C15: the cached storage loses no write as long as no flush fails.  In every interleaving of local writes and
  flushes of one counter inside its window, what was written is what the server acknowledged, plus what
  is on its way, plus what is pending, plus what failed flushes lost; the last is nothing unless a
  flush failed.  A write is one step here, the reset of the initial value that may end it included.\<close>

theorem write_behind_conserves:
  assumes "wb_run c evs (wb_start cv) w" and "cv_initial cv = av_value (cv_value cv)"
  shows "cv_initial (wb_cell w) \<le> av_value (cv_value (wb_cell w)) \<and>
    wb_made w = wb_sent w + wb_flying w + unat (av_value (cv_value (wb_cell w)) - cv_initial (wb_cell w)) + wb_lost w \<and>
    (Fail \<notin> set evs \<longrightarrow> wb_lost w = 0)"
proof -
  have inv: "wb_inv w" using wb_run_inv [OF assms(1) wb_inv_start [OF assms(2)]] .
  then have le: "cv_initial (wb_cell w) \<le> av_value (cv_value (wb_cell w))" by (simp add: wb_inv_def word_le_nat_alt)
  from inv wb_run_lost [OF assms(1)] show ?thesis by (simp add: wb_inv_def unat_sub [OF le] wb_start_def word_le_nat_alt)
qed

definition sample_cached :: cached_value where
  "sample_cached = \<lparr>cv_value = \<lparr>av_value = 4, av_expiry = \<lparr>expiry = 1000\<rparr>\<rparr>, cv_initial = 4, cv_authority = True\<rparr>"

theorem write_behind_conserves_witness:
  "\<exists>w. wb_run global_counter [Write 0 3, Take 0] (wb_start sample_cached) w \<and>
    wb_made w = 3 \<and> wb_flying w = 3 \<and> wb_lost w = 0"
proof -
  let ?w1 = "(wb_start sample_cached)\<lparr>wb_cell := sample_cached\<lparr>cv_value := \<lparr>av_value = 7, av_expiry = \<lparr>expiry = 1000\<rparr>\<rparr>\<rparr>,
      wb_made := 3\<rparr>"
  let ?w = "?w1\<lparr>wb_cell := (wb_cell ?w1)\<lparr>cv_initial := 7\<rparr>, wb_flight := Some (3, 7)\<rparr>"
  have open_windows: "wb_open 0 (wb_start sample_cached)" "wb_open 0 ?w1"
    by (simp_all add: wb_open_def wb_start_def sample_cached_def expired_at_def since_epoch_def as_micros_def)
  have ttl: "as_micros (window global_counter) < 2 ^ 64"
    by (simp add: sample_defs window_def from_secs_def as_micros_def)
  have "cv_delta 0 global_counter 3 sample_cached =
      Some (7, sample_cached\<lparr>cv_value := \<lparr>av_value = 7, av_expiry = \<lparr>expiry = 1000\<rparr>\<rparr>\<rparr>)"
    using ttl by (simp add: cv_delta_def value_update_def update_if_expired_def sample_cached_def since_epoch_def as_micros_def)
  then have first: "wb_step global_counter (Write 0 3) (wb_start sample_cached) ?w1"
    using wb_step.wrote [OF open_windows(1), of 3 global_counter] by (simp add: wb_start_def sample_cached_def)
  have "cv_pending_writes_and_value 0 id (wb_cell ?w1) = (Inr (3, 7), (wb_cell ?w1)\<lparr>cv_initial := 7\<rparr>)"
    by (simp add: cv_pending_writes_and_value_def sample_cached_def value_at_def expired_at_def since_epoch_def as_micros_def
        compare_exchange_def pending_offset_def checked_sub_def)
  then have "wb_step global_counter (Take 0) ?w1 ?w"
    using wb_step.took [OF open_windows(2), of 3 7 _ global_counter] by (simp add: wb_start_def)
  with first have run: "wb_run global_counter [Write 0 3, Take 0] (wb_start sample_cached) ?w"
    by (auto simp: wb_run_simps)
  moreover have "wb_lost ?w = 0" using write_behind_conserves [OF run] by (simp add: sample_cached_def)
  ultimately show ?thesis by (intro exI [of _ ?w]) (simp add: wb_flying_def)
qed

text \<open>C26: one flush without writes in between reconciles the cached counter with the server: it takes exactly
  the writes not sent yet, and afterwards the cached value is the server's and nothing is pending.\<close>

theorem flush_reconciles_counter:
  assumes "cv_initial cv \<le> value_at (cv_value cv) now" and "\<not> expired_at (av_expiry (cv_value cv)) now"
    and "cv_pending_writes_and_value now id cv = (Inr (writes, known), cv1)"
    and "known \<le> answered" and "since_epoch now < since_epoch exp"
  defines "cv2 \<equiv> cv_add_from_authority (answered - known) exp cv1"
  shows "cv_hits now cv2 = answered \<and> cv_no_pending_writes now cv2 \<and> writes = known - cv_initial cv"
  using flush_reconciles [OF assms(1-5)] by (simp add: cv2_def)

theorem flush_reconciles_counter_witness:
  "cv_hits 0 (cv_add_from_authority (12 - 9) 1000000 (sample_cached\<lparr>cv_value := \<lparr>av_value = 9, av_expiry = \<lparr>expiry = 1000\<rparr>\<rparr>, cv_initial := 9\<rparr>))
     = 12"
proof -
  let ?cv = "sample_cached\<lparr>cv_value := \<lparr>av_value = 9, av_expiry = \<lparr>expiry = 1000\<rparr>\<rparr>\<rparr>"
  have "cv_pending_writes_and_value 0 id ?cv = (Inr (5, 9), ?cv\<lparr>cv_initial := 9\<rparr>)"
    by (simp add: cv_pending_writes_and_value_def sample_cached_def value_at_def expired_at_def since_epoch_def as_micros_def
        compare_exchange_def pending_offset_def checked_sub_def)
  from flush_reconciles_counter [OF _ _ this, of 12 1000000] show ?thesis
    by (simp add: sample_cached_def value_at_def expired_at_def since_epoch_def as_micros_def)
qed

text \<open>C38: a failed first flush of a window loses its writes.  It has taken all of them and left an initial value
  equal to what it took; handing the writes back only lowers a larger one, so nothing is pending
  afterwards and the server never learns of them.\<close>

theorem failed_first_flush_loses_writes:
  assumes "cv_initial cv = 0" and "\<not> expired_at (av_expiry (cv_value cv)) now"
  shows "\<exists>cv1. cv_pending_writes_and_value now id cv = (Inr (av_value (cv_value cv), av_value (cv_value cv)), cv1) \<and>
    cv_revert_writes id (av_value (cv_value cv)) cv1 = (Inr (), cv1) \<and> cv_no_pending_writes now cv1"
  using first_flush_lost [OF assms] .

theorem failed_first_flush_loses_writes_witness:
  "\<exists>cv1. cv_pending_writes_and_value 0 id (sample_cached\<lparr>cv_initial := 0\<rparr>) = (Inr (4, 4), cv1) \<and> cv_no_pending_writes 0 cv1"
  using failed_first_flush_loses_writes [of "sample_cached\<lparr>cv_initial := 0\<rparr>" 0]
  by (auto simp: sample_cached_def expired_at_def since_epoch_def as_micros_def)

end
