(* ===== verification/CachedRedis.thy ===== *)
theory CachedRedis
  imports CountersCache AsyncRedis Reservations
begin

text \<open>
  The cached Redis storage: \<^verbatim>\<open>limitador/src/storage/redis/redis_cached.rs\<close>.  Counters are read and
  written in the local cache; the background task \<open>flush_batcher_and_update_counters\<close> sends what is
  pending to the server and folds in what other instances wrote.  A call that waits for room in the
  queue has no result, like one that panics.
\<close>

section \<open>State\<close>

record ('s, 'e) cached_redis =
  cached_counters :: "'e counters_cache"
  redis_server :: 's
  cached_reservations :: registry
  partitioned :: bool

record 's cached_env =
  xe_local :: "counter_key env"
  xe_redis :: "'s redis_env"

abbreviation xe_now :: "'s cached_env \<Rightarrow> systime" where
  "xe_now env \<equiv> env_now (xe_local env)"

section \<open>Checking\<close>

primrec annotate_cached ::
  "counter_key env \<Rightarrow> u64 \<Rightarrow> nat \<Rightarrow> 'e counter list \<Rightarrow> 'e counters_cache \<Rightarrow> authorization option \<Rightarrow>
   (authorization option \<times> nat list \<times> 'e counter list \<times> 'e counters_cache) option" where
  "annotate_cached env delta idx [] s found = Some (found, [], [], s)"
| "annotate_cached env delta idx (c # cs) s found =
     (case cc_get env c s of
        (Some r, s) \<Rightarrow> do {
          cv \<leftarrow> map_of (cells s) r;
          let found' = (if found = None \<and> cv_is_limited (env_now env) c delta cv
                        then Some (Limited (limit_name (limit c))) else found);
          let ttl = cv_ttl (env_now env) cv;
          let c' = set_expires_in (if ttl = 0 then window c else ttl)
            (set_remaining (cv_remaining (env_now env) c cv) c);
          (found, missing, cs', s) \<leftarrow> annotate_cached env delta (Suc idx) cs s found';
          Some (found, missing, c' # cs', s)
        }
      | (None, s) \<Rightarrow> do {
          (found, missing, cs', s) \<leftarrow> annotate_cached env delta (Suc idx) cs s found;
          Some (found, idx # missing, c # cs', s)
        })"

definition resolve_miss ::
  "u64 \<Rightarrow> nat \<times> u64 \<times> duration \<Rightarrow> 'e counter list \<times> authorization option \<Rightarrow>
   'e counter list \<times> authorization option" where
  "resolve_miss delta = (\<lambda>(i, val, ttl) (cs, found).
     (let c = cs ! i;
          found' = (if found = None \<and> checked_sub (counter_max_value c) (saturating_add val delta) = None
                    then Some (Limited (limit_name (limit c))) else found)
      in (cs[i := set_expires_in (if ttl = 0 then window c else ttl)
            (set_remaining (saturating_sub (counter_max_value c) val) c)], found')))"

definition check_reading_misses ::
  "'s redis \<Rightarrow> 'e codec \<Rightarrow> 's cached_env \<Rightarrow> 'e counter list \<Rightarrow> u64 \<Rightarrow> ('s, 'e) cached_redis \<Rightarrow>
   (((storage_err + authorization) \<times> 'e counter list) \<times> ('s, 'e) cached_redis) option" where
  "check_reading_misses rd cd env cs delta st = do {
     (found, missing, cs, cc) \<leftarrow> annotate_cached (xe_local env) delta 0 cs (cached_counters st) None;
     let st = st\<lparr>cached_counters := cc\<rparr>;
     if missing = [] then Some ((Inr (case found of Some a \<Rightarrow> a | None \<Rightarrow> AuthOk), cs), st)
     else do {
       (r, server) \<leftarrow> values_and_window_ttls rd cd (xe_redis env) (map ((!) cs) missing) (redis_server st);
       let st = st\<lparr>redis_server := server\<rparr>;
       (case r of
          Inl e \<Rightarrow> Some ((Inl e, cs), st)
        | Inr fetched \<Rightarrow>
            let (cs, found) = fold (resolve_miss delta) (zip missing fetched) (cs, found)
            in Some ((Inr (case found of Some a \<Rightarrow> a | None \<Rightarrow> AuthOk), cs), st))
     }
   }"

definition fresh_miss ::
  "u64 \<Rightarrow> nat \<Rightarrow> 'e counter list \<times> authorization option \<Rightarrow> 'e counter list \<times> authorization option" where
  "fresh_miss delta i = (\<lambda>(cs, found).
     (let c = cs ! i;
          found' = (if found = None \<and> checked_sub (counter_max_value c) delta = None
                    then Some (Limited (limit_name (limit c))) else found)
      in (cs[i := set_expires_in (window c) (set_remaining (counter_max_value c) c)], found')))"

definition check_assuming_fresh_misses ::
  "counter_key env \<Rightarrow> 'e counter list \<Rightarrow> u64 \<Rightarrow> 'e counters_cache \<Rightarrow>
   (authorization \<times> 'e counter list \<times> 'e counters_cache) option" where
  "check_assuming_fresh_misses env cs delta cc = do {
     (found, missing, cs, cc) \<leftarrow> annotate_cached env delta 0 cs cc None;
     let (cs, found) = fold (fresh_miss delta) missing (cs, found);
     Some (case found of Some a \<Rightarrow> a | None \<Rightarrow> AuthOk, cs, cc)
   }"

section \<open>The storage\<close>

definition cached_is_within_limits ::
  "'s redis \<Rightarrow> 'e codec \<Rightarrow> 's cached_env \<Rightarrow> 'e counter \<Rightarrow> u64 \<Rightarrow> ('s, 'e) cached_redis \<Rightarrow>
   (('s, 'e) cached_redis, bool) outcome" where
  "cached_is_within_limits rd cd env c delta st = do {
     ((r, _), st) \<leftarrow> check_reading_misses rd cd env [c] delta st;
     Some (map_sum id (\<lambda>a. a = AuthOk) r, st)
   }"

definition cached_update_counter ::
  "'s cached_env \<Rightarrow> 'e counter \<Rightarrow> u64 \<Rightarrow> ('s, 'e) cached_redis \<Rightarrow> (('s, 'e) cached_redis, unit) outcome" where
  "cached_update_counter env c delta st = do {
     cc \<leftarrow> cc_increase_by (xe_local env) c delta (cached_counters st);
     Some (Inr (), st\<lparr>cached_counters := cc\<rparr>)
   }"

definition cached_check_and_update ::
  "'s cached_env \<Rightarrow> 'e counter list \<Rightarrow> u64 \<Rightarrow> ('s, 'e) cached_redis \<Rightarrow>
   (((storage_err + authorization) \<times> 'e counter list) \<times> ('s, 'e) cached_redis) option" where
  "cached_check_and_update env cs delta st = do {
     (auth, cs, cc) \<leftarrow> check_assuming_fresh_misses (xe_local env) cs delta (cached_counters st);
     cc \<leftarrow> (if auth = AuthOk then fold_panic (\<lambda>c. cc_increase_by (xe_local env) c delta) cs cc else Some cc);
     Some ((Inr auth, cs), st\<lparr>cached_counters := cc\<rparr>)
   }"

primrec cached_values ::
  "counter_key env \<Rightarrow> 'e counter list \<Rightarrow> 'e counters_cache \<Rightarrow> ((u64 \<times> duration) option list \<times> 'e counters_cache) option" where
  "cached_values env [] s = Some ([], s)"
| "cached_values env (c # cs) s = do {
     let (r, s) = cc_get env c s;
     row \<leftarrow> (case r of
         None \<Rightarrow> Some None
       | Some r \<Rightarrow> map_option (\<lambda>cv. Some (cv_hits (env_now env) cv, cv_ttl (env_now env) cv)) (map_of (cells s) r));
     (rows, s) \<leftarrow> cached_values env cs s;
     Some (row # rows, s)
   }"

definition cached_reserve ::
  "'s redis \<Rightarrow> 'e codec \<Rightarrow> 's cached_env \<Rightarrow> 'e counter list \<Rightarrow> reservation_id \<Rightarrow> u64 \<Rightarrow> u64 \<Rightarrow> duration \<Rightarrow>
   ('s, 'e) cached_redis \<Rightarrow> (((storage_err + authorization) \<times> 'e counter list) \<times> ('s, 'e) cached_redis) option" where
  "cached_reserve rd cd env cs rid check_amt hold_amt ttl st = do {
     (rows, cc) \<leftarrow> cached_values (xe_local env) cs (cached_counters st);
     let st = st\<lparr>cached_counters := cc\<rparr>;
     let missing = filter (\<lambda>i. rows ! i = None) [0..<length rows];
     (r, server) \<leftarrow> (if missing = [] then Some (Inr [], redis_server st)
       else values_and_window_ttls rd cd (xe_redis env) (map ((!) cs) missing) (redis_server st));
     let st = st\<lparr>redis_server := server\<rparr>;
     (case r of
        Inl e \<Rightarrow> Some ((Inl e, cs), st)
      | Inr fetched \<Rightarrow> do {
          let rows = fold (\<lambda>(i, row) rows. rows[i := Some row]) (zip missing fetched) rows;
          vts \<leftarrow> traverse (\<lambda>row. row) rows;
          (a, cs, reg) \<leftarrow> registry_reserve (env_evicts (xe_local env)) cs vts
            \<lparr>req_id = rid, check_amount = check_amt, hold_amount = hold_amt, req_ttl = ttl, req_now = xe_now env\<rparr>
            (cached_reservations st);
          Some ((Inr a, cs), st\<lparr>cached_reservations := reg\<rparr>)
        })
   }"

definition cached_release_reservation ::
  "'s cached_env \<Rightarrow> 'e counter list \<Rightarrow> reservation_id \<Rightarrow> ('s, 'e) cached_redis \<Rightarrow>
   (('s, 'e) cached_redis, bool) outcome" where
  "cached_release_reservation env cs rid st =
     (let (b, reg) = registry_release (xe_now env) cs rid (cached_reservations st)
      in Some (Inr b, st\<lparr>cached_reservations := reg\<rparr>))"

definition on_server ::
  "('s \<Rightarrow> ((storage_err + 'a) \<times> 's) option) \<Rightarrow> ('s, 'e) cached_redis \<Rightarrow> (('s, 'e) cached_redis, 'a) outcome" where
  "on_server f st = map_option (map_prod id (\<lambda>s. st\<lparr>redis_server := s\<rparr>)) (f (redis_server st))"

definition cached_redis_storage ::
  "'s redis \<Rightarrow> 'e cel \<Rightarrow> 'e codec \<Rightarrow> ('s cached_env, ('s, 'e) cached_redis, 'e) counter_storage" where
  "cached_redis_storage rd cel cd =
     \<lparr>cs_is_within_limits = cached_is_within_limits rd cd,
      cs_add_counter = (\<lambda>env l s. Some (Inr (), s)),
      cs_update_counter = cached_update_counter,
      cs_check = check_reading_misses rd cd,
      cs_check_and_update = cached_check_and_update,
      cs_get_counters = (\<lambda>env ls. on_server (aredis_get_counters rd cel cd (xe_redis env) ls)),
      cs_delete_counters = (\<lambda>env ls. on_server (aredis_delete_counters rd cd (xe_redis env) ls)),
      cs_clear = (\<lambda>env. on_server (aredis_clear rd (xe_redis env))),
      cs_reserve = cached_reserve rd cd,
      cs_release_reservation = cached_release_reservation\<rparr>"

definition cached_redis_new :: "nat \<Rightarrow> duration \<Rightarrow> 's \<Rightarrow> ('s, 'e) cached_redis" where
  "cached_redis_new max_cached flushing_period server =
     \<lparr>cached_counters = counters_cache_build max_cached flushing_period, redis_server = server,
      cached_reservations = registry_new, partitioned = False\<rparr>"

section \<open>Flushing\<close>

definition flip_partitioned :: "bool \<Rightarrow> bool \<Rightarrow> bool \<times> bool" where
  "flip_partitioned new cell = (if cell = (\<not> new) then (True, new) else (False, cell))"

text \<open>A row of a flush: the counter, its last known value, the writes sent (then the remote ones) and the
  expiry the server answered.\<close>

type_synonym 'e flush_row = "'e counter \<times> u64 \<times> u64 \<times> systime"

primrec take_pending ::
  "systime \<Rightarrow> (counter_key \<times> 'e counter \<times> nat) list \<Rightarrow> 'e counters_cache \<Rightarrow> ('e flush_row list \<times> 'e counters_cache) option" where
  "take_pending now [] s = Some ([], s)"
| "take_pending now (e # es) s = (case e of (k, c, r) \<Rightarrow> do {
     cv \<leftarrow> map_of (cells s) r;
     (case cv_pending_writes_and_value now id cv of
        (Inl _, _) \<Rightarrow> None
      | (Inr (delta, known), cv) \<Rightarrow> do {
          (rows, s) \<leftarrow> take_pending now es (set_cell r cv s);
          Some (if 0 < delta then (c, known, delta, 0) # rows else rows, s)
        })
   })"

definition flush_key :: "'e codec \<Rightarrow> 'e flush_row \<Rightarrow> (bytes \<times> bytes \<times> u64 \<times> u64) option" where
  "flush_key cd = (\<lambda>(c, _, delta, _).
     map_option (\<lambda>k. (k, key_for_counters_of_limit cd (limit c), as_secs (window c), delta)) (key_for_counter cd c))"

fun match_reply :: "'e flush_row list \<Rightarrow> int list \<Rightarrow> 'e flush_row list option" where
  "match_reply [] raw = Some []"
| "match_reply (row # rows) [] = Some (row # rows)"
| "match_reply (row # rows) [_] = None"
| "match_reply ((c, val, delta, exp) # rows) (v # t # raw) =
     map_option ((#) (c, try_u64 v, saturating_sub (try_u64 v) val, from_millis (try_u64 t))) (match_reply rows raw)"

definition flush_updates ::
  "'s redis \<Rightarrow> 'e codec \<Rightarrow> systime \<Rightarrow> 's redis_env \<Rightarrow> (counter_key \<times> 'e counter \<times> nat) list \<Rightarrow> 's \<times> 'e counters_cache \<Rightarrow>
   (('e flush_row list \<times> storage_err + 'e flush_row list) \<times> 's \<times> 'e counters_cache) option" where
  "flush_updates rd cd now env batch = (\<lambda>(server, s).
     if batch = [] then Some (Inr [], server, s)
     else do {
       (rows, s) \<leftarrow> take_pending now batch s;
       args \<leftarrow> traverse (flush_key cd) rows;
       let (r, server) = exchange env (batch_update_counters rd args) server;
       (case r of
          Inl e \<Rightarrow> Some (Inl (rows, redis_storage_err e), server, s)
        | Inr raw \<Rightarrow> do {
            rows \<leftarrow> match_reply rows raw;
            Some (Inr rows, server, s)
          })
     })"

definition flush_batcher_and_update_counters ::
  "'s redis \<Rightarrow> 'e codec \<Rightarrow> 's cached_env \<Rightarrow> nat \<Rightarrow> 'e wake list \<Rightarrow> ('s, 'e) cached_redis \<Rightarrow> ('s, 'e) cached_redis option" where
  "flush_batcher_and_update_counters rd cd env mx ws st = do {
     (r, server, cc) \<leftarrow> consume (xe_local env) mx ws (flush_updates rd cd (xe_now env) (xe_redis env))
       (redis_server st, cached_counters st);
     let st = st\<lparr>redis_server := server\<rparr>;
     (case r of
        Inr rows \<Rightarrow> do {
          cc \<leftarrow> fold_panic (\<lambda>(c, new_value, remote_deltas, exp) cc.
            map_option snd (cc_apply_remote_delta (xe_local env) c new_value remote_deltas exp cc)) rows cc;
          Some (st\<lparr>cached_counters := cc, partitioned := snd (flip_partitioned False (partitioned st))\<rparr>)
        }
      | Inl (rows, err) \<Rightarrow>
          if is_transient err then do {
            cc \<leftarrow> fold_panic (\<lambda>(c, old_value, pending, _) cc.
              map_option snd (cc_return_pending_writes (xe_local env) c old_value pending cc)) rows cc;
            Some (st\<lparr>cached_counters := cc, partitioned := snd (flip_partitioned True (partitioned st))\<rparr>)
          }
          else None)
   }"

end
