(* ===== verification/CachedStore.thy ===== *)
theory CachedStore
  imports CachedRedis Admission Backend
begin

text \<open>
  The cached Redis storage as a counter store.  The cache and its queue of updates hold shared cells;
  \<open>cache_wf\<close> says that they agree on the cell of a counter and that no two counters share one; lookups and
  additions that run to their end one after the other keep it.  For a request all of whose counters are
  cached or queued, the storage then satisfies the contract of the other storages without asking the
  server.  What interleaved additions do is in \<open>CacheRaces\<close>.
\<close>

section \<open>The cells of the counters\<close>

definition cell_of :: "'e counters_cache \<Rightarrow> counter_key \<Rightarrow> nat option" where
  "cell_of s k = (case map_of (cache s) k of Some r \<Rightarrow> Some r | None \<Rightarrow> queued k s)"

definition cache_wf :: "'e counters_cache \<Rightarrow> bool" where
  "cache_wf s \<longleftrightarrow>
     (\<forall>k r q. map_of (cache s) k = Some r \<longrightarrow> queued k s = Some q \<longrightarrow> q = r) \<and>
     (\<forall>j k r. cell_of s j = Some r \<longrightarrow> cell_of s k = Some r \<longrightarrow> j = k) \<and>
     (\<forall>k r. cell_of s k = Some r \<longrightarrow> map_of (cells s) r \<noteq> None) \<and>
     (\<forall>r. map_of (cells s) r \<noteq> None \<longrightarrow> r < next_cell s)"

lemma cache_wfI:
  assumes "\<And>k r q. map_of (cache s) k = Some r \<Longrightarrow> queued k s = Some q \<Longrightarrow> q = r"
    and "\<And>j k r. cell_of s j = Some r \<Longrightarrow> cell_of s k = Some r \<Longrightarrow> j = k"
    and "\<And>k r. cell_of s k = Some r \<Longrightarrow> map_of (cells s) r \<noteq> None"
    and "\<And>r. map_of (cells s) r \<noteq> None \<Longrightarrow> r < next_cell s"
  shows "cache_wf s"
  using assms unfolding cache_wf_def by blast

lemma cache_wfD:
  assumes "cache_wf s"
  shows "map_of (cache s) k = Some r \<Longrightarrow> queued k s = Some q \<Longrightarrow> q = r"
    and "cell_of s j = Some r \<Longrightarrow> cell_of s k = Some r \<Longrightarrow> j = k"
    and "cell_of s k = Some r \<Longrightarrow> map_of (cells s) r \<noteq> None"
    and "map_of (cells s) r \<noteq> None \<Longrightarrow> r < next_cell s"
  using assms unfolding cache_wf_def by blast+

text \<open>The cache may only have lost entries, or learned the cell that the queue has.\<close>

definition shrinks :: "counter_key env \<Rightarrow> 'e counters_cache \<Rightarrow> 'e counters_cache \<Rightarrow> bool" where
  "shrinks env s s' \<longleftrightarrow> cells s' = cells s \<and> next_cell s' = next_cell s \<and> the_batcher s' = the_batcher s \<and>
     (\<forall>k r. map_of (cache s') k = Some r \<longrightarrow> cell_of s k = Some r) \<and>
     (\<forall>k. \<not> env_evicts env k \<longrightarrow> cell_of s' k = cell_of s k)"

lemma queued_cell: "cache_wf s \<Longrightarrow> queued k s = Some q \<Longrightarrow> cell_of s k = Some q"
  by (auto simp: cache_wf_def cell_of_def split: option.split)

lemma shrinks_queued: "shrinks env s s' \<Longrightarrow> queued k s' = queued k s"
  by (simp add: shrinks_def queued_def)

lemma cache_wf_mono:
  assumes wf: "cache_wf s" and same: "cells s' = cells s" "next_cell s' = next_cell s"
    and cached: "\<And>k r. map_of (cache s') k = Some r \<Longrightarrow> cell_of s k = Some r"
    and queued: "\<And>k q. queued k s' = Some q \<Longrightarrow> queued k s = Some q"
  shows "cache_wf s'" "cell_of s' k = Some r \<Longrightarrow> cell_of s k = Some r"
proof -
  show sub: "cell_of s' k = Some r \<Longrightarrow> cell_of s k = Some r" for k r
    using cached queued queued_cell [OF wf] by (auto simp: cell_of_def [of s'] split: option.splits)
  show "cache_wf s'"
  proof (rule cache_wfI)
    show "q = r" if "map_of (cache s') k = Some r" "queued k s' = Some q" for k r q
      using cached [OF that(1)] queued_cell [OF wf queued [OF that(2)]] by simp
  qed (use sub cache_wfD(2-4) [OF wf] same in \<open>metis+\<close>)
qed

lemma shrinks_cell: "cache_wf s \<Longrightarrow> shrinks env s s' \<Longrightarrow> cell_of s' k = Some r \<Longrightarrow> cell_of s k = Some r"
  by (rule cache_wf_mono(2)) (auto simp: shrinks_def queued_def)

lemma cache_wf_shrinks: "cache_wf s \<Longrightarrow> shrinks env s s' \<Longrightarrow> cache_wf s'"
  by (rule cache_wf_mono(1)) (auto simp: shrinks_def queued_def)

lemma cell_of_cong: "cache s' = cache s \<Longrightarrow> updates (the_batcher s') = updates (the_batcher s) \<Longrightarrow> cell_of s' = cell_of s"
  by (rule ext) (simp add: cell_of_def queued_def split: option.split)

lemma cache_wf_cong:
  assumes "cache_wf s" "cache s' = cache s" "updates (the_batcher s') = updates (the_batcher s)"
    "next_cell s' = next_cell s" "\<And>r. map_of (cells s') r = None \<longleftrightarrow> map_of (cells s) r = None"
  shows "cache_wf s'"
proof -
  have "queued k s' = queued k s" for k using assms(3) by (simp add: queued_def)
  with assms cell_of_cong [OF assms(2,3)] show ?thesis by (simp add: cache_wf_def)
qed

lemma cache_wf_set_cell: "cache_wf s \<Longrightarrow> map_of (cells s) r \<noteq> None \<Longrightarrow> cache_wf (set_cell r cv s)"
  by (erule cache_wf_cong) (auto simp: set_cell_def assoc_simps)

lemma cells_set_cell [simp]: "map_of (cells (set_cell r cv s)) q = (if q = r then Some cv else map_of (cells s) q)"
  by (simp add: set_cell_def assoc_simps)

lemma cell_of_set_cell [simp]: "cell_of (set_cell r cv s) = cell_of s"
  by (rule cell_of_cong) (simp_all add: set_cell_def)

section \<open>The operations keep the cells apart\<close>

lemma cc_get_cell: "fst (cc_get env c s) = cell_of s (counter_key c)"
  by (simp add: cc_get_def cell_of_def split: option.split)

lemma cc_get_shrinks:
  assumes "cache_wf s"
  shows "shrinks env s (snd (cc_get env c s))"
proof -
  have "cell_of (cached_insert env k q s) j = (if env_evicts env j then queued j s else cell_of s j)"
    if "queued k s = Some q" for j k q
    using queued_cell [OF assms that] that
    by (auto simp: cell_of_def cached_insert_def queued_def assoc_simps split: option.splits)
  then show ?thesis
    using queued_cell [OF assms]
    by (auto simp: cc_get_def shrinks_def cached_insert_def cell_of_def [of s] assoc_simps split: option.splits if_splits)
qed

lemma cache_wf_get: "cache_wf s \<Longrightarrow> cache_wf (snd (cc_get env c s))"
  using cache_wf_shrinks cc_get_shrinks by blast

text \<open>A new cell becomes the cell of a counter that had none.\<close>

lemma cache_wf_new:
  fixes env cv
  assumes "cache_wf s" "cell_of s k = None"
  defines "s' \<equiv> cached_insert env k (next_cell s) (snd (new_cell cv s))"
  shows "cache_wf s'" "cell_of s' k = (if env_evicts env k then None else Some (next_cell s))"
    "map_of (cells s') (next_cell s) = Some cv" "cell_of s' j = Some (next_cell s) \<Longrightarrow> j = k"
    "\<not> env_evicts env j \<Longrightarrow> j \<noteq> k \<Longrightarrow> cell_of s' j = cell_of s j"
    "r \<noteq> next_cell s \<Longrightarrow> map_of (cells s') r = map_of (cells s) r" "the_batcher s' = the_batcher s"
proof -
  have fresh: "cell_of s j \<noteq> Some (next_cell s)" for j
    using cache_wfD(3,4) [OF assms(1)] by (metis less_irrefl)
  have q: "queued j s' = queued j s" for j by (simp add: s'_def queued_def cached_insert_def new_cell_def)
  have c: "map_of (cache s') j = (if env_evicts env j then None else if j = k then Some (next_cell s) else map_of (cache s) j)"
    for j by (simp add: s'_def cached_insert_def new_cell_def assoc_simps)
  have none: "queued k s = None" using assms(2) by (simp add: cell_of_def split: option.splits)
  have cell: "cell_of s' j = (if env_evicts env j then queued j s else if j = k then Some (next_cell s) else cell_of s j)" for j
    using none by (simp add: cell_of_def q c split: option.split)
  show "cell_of s' k = (if env_evicts env k then None else Some (next_cell s))" by (simp add: cell none)
  have old: "j \<noteq> k \<or> r \<noteq> next_cell s \<Longrightarrow> cell_of s' j = Some r \<Longrightarrow> cell_of s j = Some r" for j r
    using queued_cell [OF assms(1)] by (auto simp: cell split: if_splits)
  show new: "cell_of s' j = Some (next_cell s) \<Longrightarrow> j = k" for j using old [of j "next_cell s"] fresh [of j] by blast
  show "map_of (cells s') (next_cell s) = Some cv" "the_batcher s' = the_batcher s"
    by (simp_all add: s'_def cached_insert_def new_cell_def)
  show other: "r \<noteq> next_cell s \<Longrightarrow> map_of (cells s') r = map_of (cells s) r" for r
    by (simp add: s'_def cached_insert_def new_cell_def)
  show "\<not> env_evicts env j \<Longrightarrow> j \<noteq> k \<Longrightarrow> cell_of s' j = cell_of s j" by (simp add: cell)
  have "next_cell s' = Suc (next_cell s)" by (simp add: s'_def cached_insert_def new_cell_def)
  note wf = cache_wfD [OF assms(1)] and defs = this c q none
  show "cache_wf s'"
  proof (rule cache_wfI)
    show "q = r" if "map_of (cache s') i = Some r" "queued i s' = Some q" for i r q
      using that wf(1) by (auto simp: defs split: if_splits)
    show "i = j" if "cell_of s' i = Some r" "cell_of s' j = Some r" for i j r
      using that new [of i] new [of j] old [of i r] old [of j r] wf(2) [of i r j] by (cases "r = next_cell s") auto
    show "map_of (cells s') r \<noteq> None" if "cell_of s' i = Some r" for i r
      using that \<open>map_of (cells s') (next_cell s) = Some cv\<close> other [of r] old [of i r] wf(3) [of i r]
      by (cases "r = next_cell s") auto
    show "r < next_cell s'" if "map_of (cells s') r \<noteq> None" for r
      using that other [of r] wf(4) [of r] by (cases "r = next_cell s") (auto simp: defs)
  qed
qed

text \<open>Queueing the cell of a counter.\<close>

lemma batcher_add_result:
  assumes "cache_wf s" "map_of (cells s) r = Some cv" "cell_of s (counter_key c) = None \<or> cell_of s (counter_key c) = Some r"
    and "\<forall>j. cell_of s j = Some r \<longrightarrow> j = counter_key c"
    and "batcher_add env c r s = Some s'"
  shows "cache_wf s'" "cells s' = cells s" "cell_of s' = (cell_of s)(counter_key c := Some r)"
proof -
  have q: "queued (counter_key c) s = None \<or> queued (counter_key c) s = Some r"
    using queued_cell [OF assms(1)] assms(3) by (cases "queued (counter_key c) s") fastforce+
  let ?k = "counter_key c"
  have s': "cells s' = cells s \<and> next_cell s' = next_cell s \<and> cache s' = cache s \<and>
      (\<forall>j. queued j s' = (if j = ?k then Some r else queued j s))"
    using assms(2,5) q
    by (auto simp: batcher_add_def queued_def Let_def map_add_def split: if_splits option.splits)
  show "cells s' = cells s" using s' by simp
  show cell: "cell_of s' = (cell_of s)(?k := Some r)"
    using s' assms(3) by (auto simp: cell_of_def fun_eq_iff split: option.splits)
  note wf = cache_wfD [OF assms(1)]
  show "cache_wf s'"
  proof (rule cache_wfI)
    show "q = r'" if "map_of (cache s') i = Some r'" "queued i s' = Some q" for i r' q
      using that s' assms(3) wf(1) by (auto simp: cell_of_def split: if_splits)
    show "i = j" if "cell_of s' i = Some r'" "cell_of s' j = Some r'" for i j r'
      using that assms(4) wf(2) by (auto simp: cell split: if_splits)
    show "map_of (cells s') r' \<noteq> None" if "cell_of s' i = Some r'" for i r'
      using that s' assms(2) wf(3) [of i r'] by (auto simp: cell split: if_splits)
    show "r' < next_cell s'" if "map_of (cells s') r' \<noteq> None" for r' using that s' wf(4) by simp
  qed
qed

text \<open>After \<^verbatim>\<open>get\<close> the cell of a counter is still its own, and no other counter's.\<close>

lemma cc_get_own:
  fixes env
  assumes "cache_wf s" "cell_of s (counter_key c) = Some r"
  defines "s1 \<equiv> snd (cc_get env c s)"
  shows "cell_of s1 (counter_key c) = None \<or> cell_of s1 (counter_key c) = Some r"
    "\<forall>j. cell_of s1 j = Some r \<longrightarrow> j = counter_key c"
proof -
  have sub: "cell_of s1 j = Some q \<Longrightarrow> cell_of s j = Some q" for j q
    unfolding s1_def by (rule shrinks_cell [OF assms(1) cc_get_shrinks [OF assms(1)]])
  show "cell_of s1 (counter_key c) = None \<or> cell_of s1 (counter_key c) = Some r"
    using sub [of "counter_key c"] assms(2) by (cases "cell_of s1 (counter_key c)") auto
  show "\<forall>j. cell_of s1 j = Some r \<longrightarrow> j = counter_key c"
    using sub cache_wfD(2) [OF assms(1)] assms(2) by blast
qed

lemma cache_wf_increase:
  assumes "cache_wf s" "cc_increase_by env c d s = Some s'"
  shows "cache_wf s'"
proof (cases "cell_of s (counter_key c)")
  case (Some r)
  let ?s = "snd (cc_get env c s)"
  from assms(2) Some obtain cv v cv' where cv: "map_of (cells ?s) r = Some cv" "cv_delta (env_now env) c d cv = Some (v, cv')"
    and add: "batcher_add env c r (set_cell r cv' ?s) = Some s'"
    by (auto simp: cc_increase_by_def cc_increase_get_alt cc_get_cell split: bind_splits)
  show ?thesis
  proof (rule batcher_add_result(1) [OF _ _ _ _ add])
    show "cache_wf (set_cell r cv' ?s)" using cache_wf_set_cell [OF cache_wf_get [OF assms(1)]] cv(1) by simp
    show "map_of (cells (set_cell r cv' ?s)) r = Some cv'" by simp
  qed (use cc_get_own [OF assms(1) Some] in simp_all)
next
  case None
  from assms(2) None obtain cv0 cv v cv' where
    add: "batcher_add env c (next_cell s)
      (set_cell (next_cell s) cv' (cached_insert env (counter_key c) (next_cell s) (snd (new_cell cv0 s)))) = Some s'"
    by (auto simp: cc_increase_by_def cc_increase_get_alt cc_get_cell new_cell_def split: bind_splits)
  note new = cache_wf_new [OF assms(1) None, where env = env and cv = cv0]
  show ?thesis
  proof (rule batcher_add_result(1) [OF _ _ _ _ add])
    show "cache_wf (set_cell (next_cell s) cv' (cached_insert env (counter_key c) (next_cell s) (snd (new_cell cv0 s))))"
      using cache_wf_set_cell [OF new(1)] new(3) by simp
  qed (use new(2,4) in simp_all)
qed

lemma cache_wf_get_set:
  assumes "cache_wf s" "map_of (cells (snd (cc_get env c s))) r \<noteq> None"
  shows "cache_wf (set_cell r cv (snd (cc_get env c s)))"
  using assms by (simp add: cache_wf_set_cell cache_wf_get)

section \<open>Requests on cached counters\<close>

definition cell_hits :: "systime \<Rightarrow> 'e counters_cache \<Rightarrow> counter_key \<Rightarrow> u64" where
  "cell_hits now s k = (case Option.bind (cell_of s k) (map_of (cells s)) of Some cv \<Rightarrow> cv_hits now cv | None \<Rightarrow> 0)"

text \<open>Every counter of the request is cached or queued, the queue has room for those that are not in it yet, and
  no addition leaves the 64 bits.\<close>

definition warm :: "counter_key env \<Rightarrow> 'e counter list \<Rightarrow> u64 \<Rightarrow> 'e counters_cache \<Rightarrow> bool" where
  "warm env cs d s \<longleftrightarrow> cache_wf s \<and> distinct (map counter_key cs) \<and>
     length (filter (\<lambda>c. queued (counter_key c) s = None) cs) \<le> permits (the_batcher s) \<and>
     (\<forall>c\<in>set cs. cell_of s (counter_key c) \<noteq> None \<and> in_time (env_now env) c \<and> \<not> env_evicts env (counter_key c) \<and>
        unat (cell_hits (env_now env) s (counter_key c)) + unat d < 2 ^ 64)"

lemma warmD:
  assumes "warm env cs d s"
  shows "cache_wf s" "distinct (map counter_key cs)"
    "length (filter (\<lambda>c. queued (counter_key c) s = None) cs) \<le> permits (the_batcher s)"
    "c \<in> set cs \<Longrightarrow> cell_of s (counter_key c) \<noteq> None" "c \<in> set cs \<Longrightarrow> in_time (env_now env) c"
    "c \<in> set cs \<Longrightarrow> \<not> env_evicts env (counter_key c)"
    "c \<in> set cs \<Longrightarrow> unat (cell_hits (env_now env) s (counter_key c)) + unat d < 2 ^ 64"
  using assms by (simp_all add: warm_def)

lemma shrinks_trans:
  assumes "cache_wf s" "shrinks env s s1" "shrinks env s1 s2"
  shows "shrinks env s s2"
proof -
  have "map_of (cache s2) k = Some r \<Longrightarrow> cell_of s k = Some r" for k r
    using assms(3) shrinks_cell [OF assms(1,2), of k r] by (simp add: shrinks_def)
  with assms(2,3) show ?thesis unfolding shrinks_def by auto
qed

lemma shrinks_hits: "shrinks env s s' \<Longrightarrow> \<not> env_evicts env k \<Longrightarrow> cell_hits now s' k = cell_hits now s k"
  by (simp add: shrinks_def cell_hits_def)

lemma warm_shrinks: "warm env cs d s \<Longrightarrow> shrinks env s s' \<Longrightarrow> warm env cs d s'"
  using cache_wf_shrinks [of s env s'] shrinks_hits [of env s s']
  by (auto simp: warm_def shrinks_queued) (simp_all add: shrinks_def)

lemma annotated_member:
  assumes "list_all2 (annotates u) cs cs'" "c' \<in> set cs'"
  shows "\<exists>c\<in>set cs. counter_key c' = counter_key c \<and> in_time now c' = in_time now c"
  using assms
  by (induction rule: list_all2_induct) (auto simp: annotates_def counter_key_def in_time_def window_def)

lemma annotated_keys: "list_all2 (annotates u) cs cs' \<Longrightarrow> map counter_key cs' = map counter_key cs"
  by (induction rule: list_all2_induct) (simp_all add: annotates_def counter_key_def)

lemma warm_annotated:
  assumes "warm env cs d s" "list_all2 (annotates u) cs cs'"
  shows "warm env cs' d s"
proof -
  have "length (filter (\<lambda>c. queued (counter_key c) s = None) cs') \<le> permits (the_batcher s)"
    using warmD(3) [OF assms(1)]
      arg_cong [OF annotated_keys [OF assms(2)], of "\<lambda>ks. length (filter (\<lambda>k. queued k s = None) ks)"]
    by (simp add: filter_map comp_def)
  moreover have "cell_of s (counter_key c') \<noteq> None \<and> in_time (env_now env) c' \<and> \<not> env_evicts env (counter_key c') \<and>
      unat (cell_hits (env_now env) s (counter_key c')) + unat d < 2 ^ 64" if "c' \<in> set cs'" for c'
    using annotated_member [OF assms(2) that, of "env_now env"] warmD(4-7) [OF assms(1)] by auto
  ultimately show ?thesis
    using warmD(1,2) [OF assms(1)] annotated_keys [OF assms(2)] by (simp add: warm_def)
qed

section \<open>Counting\<close>

lemma cv_delta_hits:
  assumes "in_time now c"
  shows "\<exists>v cv'. cv_delta now c d cv = Some (v, cv') \<and> cv_hits now cv' = cv_hits now cv + d"
  using value_update_in_time [OF assms, of d "cv_value cv"]
  by (auto simp: cv_delta_def cv_hits_def)

lemma batcher_add_returns:
  assumes "map_of (cells s) r = Some cv" "queued (counter_key c) s = None \<and> 0 < permits (the_batcher s) \<or> queued (counter_key c) s = Some r"
  shows "\<exists>s'. batcher_add env c r s = Some s' \<and> (\<forall>j. queued j s' = (if j = counter_key c then Some r else queued j s)) \<and>
    permits (the_batcher s') = permits (the_batcher s) - (if queued (counter_key c) s = None then 1 else 0)"
  using assms by (auto simp: batcher_add_def Let_def queued_def map_add_def split: option.splits)

lemma increase_warm:
  assumes "warm env (c # cs) d s"
  shows "\<exists>s'. cc_increase_by env c d s = Some s' \<and> warm env cs d s' \<and>
    (\<forall>k. \<not> env_evicts env k \<longrightarrow>
       cell_hits (env_now env) s' k = cell_hits (env_now env) s k + (if k = counter_key c then d else 0))"
proof -
  let ?k = "counter_key c" and ?s = "snd (cc_get env c s)" and ?now = "env_now env"
  note w = warmD [OF assms] and wf = cache_wfD [OF warmD(1) [OF assms]]
  have c: "in_time ?now c" "\<not> env_evicts env ?k" using w(5,6) [of c] by simp_all
  obtain r where r: "cell_of s ?k = Some r" using w(4) [of c] by auto
  have sh: "shrinks env s ?s" by (rule cc_get_shrinks [OF w(1)])
  then have cells: "cells ?s = cells s" "the_batcher ?s = the_batcher s" by (simp_all add: shrinks_def)
  obtain cv where cv: "map_of (cells s) r = Some cv" using wf(3) [OF r] by blast
  obtain v cv' where d: "cv_delta ?now c d cv = Some (v, cv')" "cv_hits ?now cv' = cv_hits ?now cv + d"
    using cv_delta_hits [OF c(1)] by blast
  let ?t = "set_cell r cv' ?s"
  have t: "queued j ?t = queued j s" "the_batcher ?t = the_batcher s" for j
    using cells by (simp_all add: queued_def set_cell_def)
  have m: "map_of (cells ?t) r = Some cv'" by simp
  have room: "queued ?k s = None \<and> 0 < permits (the_batcher s) \<or> queued ?k s = Some r"
    using w(3) queued_cell [OF w(1), of ?k] r by (cases "queued ?k s") (auto split: if_splits)
  from batcher_add_returns [of ?t r cv' c env, unfolded t, OF m room] obtain s' where s': "batcher_add env c r ?t = Some s'"
    and q: "\<forall>j. queued j s' = (if j = ?k then Some r else queued j s)"
      "permits (the_batcher s') = permits (the_batcher s) - (if queued ?k s = None then 1 else 0)"
    by blast
  have inc: "cc_increase_by env c d s = Some s'"
    using r cells cv d(1) s' by (simp add: cc_increase_by_def cc_increase_get_alt cc_get_cell)
  have own: "cell_of ?t ?k = None \<or> cell_of ?t ?k = Some r" "\<forall>j. cell_of ?t j = Some r \<longrightarrow> j = ?k"
    using cc_get_own [OF w(1) r, of env] by simp_all
  have "cache_wf ?t" using cache_wf_get_set [OF w(1)] cells cv by simp
  note add = batcher_add_result [OF this _ own s']
  have cell: "cell_of s' j = (if j = ?k then Some r else cell_of s j)" if "\<not> env_evicts env j" for j
    using that add(3) [of cv'] sh by (simp add: shrinks_def)
  have hits: "cell_hits ?now s' j = cell_hits ?now s j + (if j = ?k then d else 0)" if "\<not> env_evicts env j" for j
  proof (cases "j = ?k")
    case True
    with cell [OF that] add(2) [of cv'] cells cv r d(2) show ?thesis by (simp add: cell_hits_def)
  next
    case False
    then have "cell_of s j \<noteq> Some r" using wf(2) [of j r ?k] r by blast
    with False cell [OF that] add(2) [of cv'] cells show ?thesis
      by (cases "cell_of s j") (simp_all add: cell_hits_def)
  qed
  have "warm env cs d s'"
  proof -
    have other: "counter_key c' \<noteq> ?k" if "c' \<in> set cs" for c' using w(2) that by (force simp: image_iff)
    have "filter (\<lambda>c. queued (counter_key c) s' = None) cs = filter (\<lambda>c. queued (counter_key c) s = None) cs"
      using q(1) other by (intro filter_cong) simp_all
    moreover have "length (filter (\<lambda>c. queued (counter_key c) s = None) cs) \<le> permits (the_batcher s')"
      using w(3) q(2) by (auto split: if_splits)
    moreover have "cell_of s' (counter_key c') \<noteq> None \<and> in_time ?now c' \<and> \<not> env_evicts env (counter_key c') \<and>
        unat (cell_hits ?now s' (counter_key c')) + unat d < 2 ^ 64" if "c' \<in> set cs" for c'
      using w(4-7) [of c'] cell [of "counter_key c'"] hits [of "counter_key c'"] other [OF that] that by simp
    ultimately show ?thesis using cache_wf_increase [OF w(1) inc] w(2) by (simp add: warm_def)
  qed
  with inc hits show ?thesis by blast
qed

lemma increase_all_warm:
  assumes "warm env cs d s"
  shows "\<exists>s'. fold_panic (\<lambda>c. cc_increase_by env c d) cs s = Some s' \<and>
    (\<forall>k. \<not> env_evicts env k \<longrightarrow>
       cell_hits (env_now env) s' k = cell_hits (env_now env) s k + (if k \<in> counter_key ` set cs then d else 0))"
  using assms
proof (induction cs arbitrary: s)
  case (Cons c cs)
  from increase_warm [OF Cons.prems] obtain s1 where s1: "cc_increase_by env c d s = Some s1" "warm env cs d s1"
    "\<forall>k. \<not> env_evicts env k \<longrightarrow> cell_hits (env_now env) s1 k = cell_hits (env_now env) s k + (if k = counter_key c then d else 0)"
    by blast
  from Cons.IH [OF s1(2)] obtain s2 where s2: "fold_panic (\<lambda>c. cc_increase_by env c d) cs s1 = Some s2"
    "\<forall>k. \<not> env_evicts env k \<longrightarrow> cell_hits (env_now env) s2 k = cell_hits (env_now env) s1 k + (if k \<in> counter_key ` set cs then d else 0)"
    by blast
  have "counter_key c \<notin> counter_key ` set cs" using warmD(2) [OF Cons.prems] by simp
  with s1 s2 show ?case by auto
qed simp

section \<open>Checking\<close>

definition over_cell :: "systime \<Rightarrow> u64 \<Rightarrow> 'e counters_cache \<Rightarrow> 'e counter \<Rightarrow> bool" where
  "over_cell now d s c \<longleftrightarrow> uint (counter_max_value c) < uint (cell_hits now s (counter_key c)) + uint d"

lemma over_cell_admits:
  assumes "unat (cell_hits now s (counter_key c)) + unat d < 2 ^ 64"
  shows "over_cell now d s c \<longleftrightarrow> \<not> admits (cell_hits now s) d c"
proof -
  have "unat (saturating_add (cell_hits now s (counter_key c)) d) = unat (cell_hits now s (counter_key c)) + unat d"
    using assms by (simp add: unat_saturating_add)
  then show ?thesis unfolding over_cell_def admits_def word_le_nat_alt uint_nat by linarith
qed

lemma annotate_warm:
  assumes "cache_wf s" "\<forall>c\<in>set cs. cell_of s (counter_key c) \<noteq> None \<and> \<not> env_evicts env (counter_key c)"
  shows "\<exists>cs' s'. annotate_cached env d idx cs s found =
      Some (fold (\<lambda>c acc. if acc = None \<and> over_cell (env_now env) d s c then Some (Limited (limit_name (limit c))) else acc)
        cs found, [], cs', s') \<and>
    shrinks env s s' \<and> list_all2 (annotates (cell_hits (env_now env) s)) cs cs'"
  using assms
proof (induction cs arbitrary: idx s found)
  case Nil
  then show ?case by (auto simp: shrinks_def cell_of_def)
next
  case (Cons c cs)
  let ?now = "env_now env"
  obtain r where r: "cell_of s (counter_key c) = Some r" using Cons.prems(2) by auto
  obtain cv where cv: "map_of (cells s) r = Some cv" using cache_wfD(3) [OF Cons.prems(1) r] by blast
  obtain s1 where get: "cc_get env c s = (Some r, s1)" using r cc_get_cell [of env c s] by (cases "cc_get env c s") simp
  then have sh: "shrinks env s s1" using cc_get_shrinks [OF Cons.prems(1), of env c] by simp
  have hits: "cell_hits ?now s1 (counter_key c') = cell_hits ?now s (counter_key c')" if "c' \<in> set cs" for c'
    using shrinks_hits [OF sh] Cons.prems(2) that by simp
  let ?f = "\<lambda>s c acc. if acc = None \<and> over_cell ?now d s c then Some (Limited (limit_name (limit c))) else acc"
  have "\<forall>c\<in>set cs. cell_of s1 (counter_key c) \<noteq> None \<and> \<not> env_evicts env (counter_key c)"
    using Cons.prems(2) sh by (simp add: shrinks_def)
  from Cons.IH [OF cache_wf_shrinks [OF Cons.prems(1) sh] this, of "Suc idx" "?f s c found"] obtain cs' s' where
    ih: "annotate_cached env d (Suc idx) cs s1 (?f s c found) = Some (fold (?f s1) cs (?f s c found), [], cs', s')"
      "shrinks env s1 s'" "list_all2 (annotates (cell_hits ?now s1)) cs cs'" by blast
  have same: "fold (?f s1) cs x = fold (?f s) cs x" for x
    using hits by (intro fold_cong) (simp_all add: over_cell_def)
  have rest: "list_all2 (annotates (cell_hits ?now s)) cs cs'"
    using ih(3) hits by (auto simp: annotates_def elim!: list.rel_mono_strong)
  have cells: "map_of (cells s1) r = Some cv" using sh cv by (simp add: shrinks_def)
  have h: "cell_hits ?now s (counter_key c) = cv_hits ?now cv" using r cv by (simp add: cell_hits_def)
  have lim: "cv_is_limited ?now c d cv = over_cell ?now d s c" by (simp add: cv_is_limited_def over_cell_def h)
  let ?c = "set_expires_in (if cv_ttl ?now cv = 0 then window c else cv_ttl ?now cv) (set_remaining (cv_remaining ?now c cv) c)"
  have "annotate_cached env d idx (c # cs) s found = Some (fold (?f s) (c # cs) found, [], ?c # cs', s')"
    using ih(1) by (simp add: Let_def get cells lim same)
  moreover have "annotates (cell_hits ?now s) c ?c" by (simp add: annotates_def cv_remaining_def h)
  ultimately show ?case using rest shrinks_trans [OF Cons.prems(1) sh ih(2)]
    by (intro exI [of _ "?c # cs'"] exI [of _ s']) simp
qed

section \<open>The contract\<close>

definition cached_used :: "'s cached_env \<Rightarrow> ('s, 'e) cached_redis \<Rightarrow> counter_key \<Rightarrow> u64" where
  "cached_used env st = cell_hits (xe_now env) (cached_counters st)"

definition cached_ready :: "'s cached_env \<Rightarrow> 'e counter list \<Rightarrow> u64 \<Rightarrow> ('s, 'e) cached_redis \<Rightarrow> bool" where
  "cached_ready env cs d st = warm (xe_local env) cs d (cached_counters st)"

abbreviation cached_keeps :: "'s cached_env \<Rightarrow> counter_key \<Rightarrow> bool" where
  "cached_keeps env k \<equiv> \<not> env_evicts (xe_local env) k"

lemma annotate_ready:
  assumes "cached_ready env cs d st"
  shows "\<exists>a cs' s'. annotate_cached (xe_local env) d 0 cs (cached_counters st) None = Some (a, [], cs', s') \<and>
    (a = None \<longleftrightarrow> (\<forall>c\<in>set cs. admits (cached_used env st) d c)) \<and> (\<forall>x. a = Some x \<longrightarrow> x \<noteq> AuthOk) \<and>
    list_all2 (annotates (cached_used env st)) cs cs' \<and> warm (xe_local env) cs d s' \<and>
    (\<forall>k. cached_keeps env k \<longrightarrow> cell_hits (xe_now env) s' k = cached_used env st k)"
proof -
  note w = assms [unfolded cached_ready_def]
  let ?over = "over_cell (xe_now env) d (cached_counters st)"
  from annotate_warm [OF warmD(1) [OF w], of cs "xe_local env" d 0 None] warmD(4,6) [OF w] obtain cs' s' where
    a: "annotate_cached (xe_local env) d 0 cs (cached_counters st) None = Some (first_limited ?over (\<lambda>c. c) cs, [], cs', s')"
      "shrinks (xe_local env) (cached_counters st) s'" "list_all2 (annotates (cell_hits (xe_now env) (cached_counters st))) cs cs'"
    by (auto simp: first_limited_def)
  have "first_limited ?over (\<lambda>c. c) cs = None \<longleftrightarrow> (\<forall>c\<in>set cs. admits (cached_used env st) d c)"
    using over_cell_admits [OF warmD(7) [OF w]] by (simp add: first_limited_None cached_used_def)
  moreover have "first_limited ?over (\<lambda>c. c) cs = Some x \<Longrightarrow> x \<noteq> AuthOk" for x
    by (auto dest: first_limited_SomeD)
  ultimately show ?thesis
    using a warm_shrinks [OF w a(2)] shrinks_hits [OF a(2)] by (auto simp: cached_used_def)
qed

interpretation cached: reporting_store "cached_redis_storage rd cel cd" cached_used cached_ready cached_keeps
  for rd :: "'s redis" and cel :: "'e cel" and cd :: "'e codec"
proof unfold_locales
  fix env :: "'s cached_env" and cs :: "'e counter list" and d and s :: "('s, 'e) cached_redis" and c
  assume ready: "cached_ready env cs d s"
  from annotate_ready [OF ready] obtain a cs' s' where
    a: "annotate_cached (xe_local env) d 0 cs (cached_counters s) None = Some (a, [], cs', s')"
      "a = None \<longleftrightarrow> (\<forall>c\<in>set cs. admits (cached_used env s) d c)" "\<forall>x. a = Some x \<longrightarrow> x \<noteq> AuthOk"
      "list_all2 (annotates (cached_used env s)) cs cs'" "warm (xe_local env) cs d s'"
      "\<forall>k. cached_keeps env k \<longrightarrow> cell_hits (xe_now env) s' k = cached_used env s k" by blast
  let ?auth = "case a of Some x \<Rightarrow> x | None \<Rightarrow> AuthOk"
  have auth: "?auth = AuthOk \<longleftrightarrow> (\<forall>c\<in>set cs. admits (cached_used env s) d c)" using a(2,3) by (cases a) auto
  show "\<exists>a cs' s'. cs_check (cached_redis_storage rd cel cd) env cs d s = Some ((Inr a, cs'), s') \<and>
      (a = AuthOk \<longleftrightarrow> (\<forall>c\<in>set cs. admits (cached_used env s) d c)) \<and>
      list_all2 (annotates (cached_used env s)) cs cs' \<and>
      (\<forall>k. cached_keeps env k \<longrightarrow> cached_used env s' k = cached_used env s k)"
    using a(1,4,6) auth
    by (intro exI [of _ ?auth] exI [of _ cs'] exI [of _ "s\<lparr>cached_counters := s'\<rparr>"])
      (simp add: cached_redis_storage_def check_reading_misses_def cached_used_def)
  show "\<exists>a cs' s'. cs_check_and_update (cached_redis_storage rd cel cd) env cs d s = Some ((Inr a, cs'), s') \<and>
      (a = AuthOk \<longleftrightarrow> (\<forall>c\<in>set cs. admits (cached_used env s) d c)) \<and>
      list_all2 (annotates (cached_used env s)) cs cs' \<and>
      (\<forall>k. cached_keeps env k \<longrightarrow> cached_used env s' k =
         cached_used env s k + (if a = AuthOk \<and> k \<in> counter_key ` set cs then d else 0))"
  proof -
    from increase_all_warm [OF warm_annotated [OF a(5,4)]] obtain s2 where
      s2: "fold_panic (\<lambda>c. cc_increase_by (xe_local env) c d) cs' s' = Some s2"
        "\<forall>k. cached_keeps env k \<longrightarrow> cell_hits (xe_now env) s2 k =
           cell_hits (xe_now env) s' k + (if k \<in> counter_key ` set cs' then d else 0)" by blast
    have "counter_key ` set cs' = counter_key ` set cs" using annotated_keys [OF a(4)] by (metis set_map)
    with a(1,4,6) auth s2 show ?thesis
      by (intro exI [of _ ?auth] exI [of _ cs'] exI [of _ "s\<lparr>cached_counters := if ?auth = AuthOk then s2 else s'\<rparr>"])
        (auto simp: cached_redis_storage_def cached_check_and_update_def check_assuming_fresh_misses_def cached_used_def)
  qed
  show "cached_keeps env (counter_key c)" if "c \<in> set cs"
    using warmD(6) [OF ready [unfolded cached_ready_def] that] .
next
  fix env :: "'s cached_env" and cs :: "'e counter list" and d and s :: "('s, 'e) cached_redis" and c
  assume "cached_ready env (c # cs) d s"
  from increase_warm [OF this [unfolded cached_ready_def]]
  show "\<exists>s'. cs_update_counter (cached_redis_storage rd cel cd) env c d s = Some (Inr (), s') \<and> cached_ready env cs d s' \<and>
      (\<forall>k. cached_keeps env k \<longrightarrow> cached_used env s' k = cached_used env s k + (if k = counter_key c then d else 0))"
    by (auto simp: cached_redis_storage_def cached_update_counter_def cached_ready_def cached_used_def)
qed

text \<open>A checked update never asks the server.\<close>

lemma cached_server_untouched:
  assumes "check_rate_limited_and_update (cached_redis_storage rd cel cd) cel env ns ctx delta rl = Some (r, rl')"
  shows "redis_server (counters (storage rl')) = redis_server (counters (storage rl))"
proof -
  have "redis_server st' = redis_server st" if "cached_check_and_update env cs delta st = Some (x, st')" for cs st x st'
    using that by (auto simp: cached_check_and_update_def split: bind_splits)
  then show ?thesis
    using assms
    by (auto simp: check_rate_limited_and_update_def storage_check_and_update_def cached_redis_storage_def Let_def
        split: bind_splits sum.splits if_splits prod.splits)
qed

end
