(* ===== verification/CacheRaces.thy ===== *)
theory CacheRaces
  imports CachedStore
begin

text \<open>
  Concurrent additions to the cache of the cached Redis storage.  \<^verbatim>\<open>CountersCache::increase_by\<close> looks the
  counter up, adds to the value it found and queues that value for the flush, and other tasks run in
  between: other callers, the eviction of cached entries, and the flush, which takes what is pending,
  settles the queue and folds in the server's answer.  So a counter can get a second value while the
  first waits to be queued, and the cache and the queue may hold different ones.

  A step is one access of a task: a lookup, the run of the initialiser of \<^verbatim>\<open>get_with_by_ref\<close> (the model does
  not rely on moka running one at a time), the insertion of what it made, \<^verbatim>\<open>AtomicExpiringValue::update\<close>, the
  reset of the initial value that may follow it, and \<^verbatim>\<open>Batcher::add\<close>, which runs under the lock of its
  entry.  A caller that waits for a permit takes no step.  Taking the pending writes of a value, its
  settlement (under the lock of the entry) and the application of an answer are one step each.
\<close>

section \<open>Tasks\<close>

text \<open>How far a caller of \<^verbatim>\<open>increase_by\<close> is: it has found or made a value that is to be inserted in the cache,
  it has the value, it has added and has to reset the initial value, it has added and has to queue
  the value.\<close>

datatype 'e writer =
    Idle
  | Found "'e counter" u64 nat
  | Got "'e counter" u64 nat
  | Due "'e counter" nat
  | Wrote "'e counter" nat

fun has_to_queue :: "'e writer \<Rightarrow> nat \<Rightarrow> bool" where
  "has_to_queue (Due c q) r = (q = r)"
| "has_to_queue (Wrote c q) r = (q = r)"
| "has_to_queue _ r = False"

record 'e cache_run =
  run_cache :: "'e counters_cache"
  run_now :: systime
  run_callers :: "nat \<Rightarrow> 'e writer"

datatype cache_event =
    Looks nat | Inserts nat | Adds nat | Resets nat | Queues nat | Reads | Evicts | Passes
  | Takes | Settles | Wakes | Answers | AnswersLate | GivesBack

definition moves :: "nat \<Rightarrow> 'e writer \<Rightarrow> 'e counters_cache \<Rightarrow> 'e cache_run \<Rightarrow> 'e cache_run" where
  "moves i p s \<sigma> = \<sigma>\<lparr>run_cache := s, run_callers := (run_callers \<sigma>)(i := p)\<rparr>"

text \<open>An answer of the server meets a value whose window is open and whose count is not behind what was sent
  of it.\<close>

definition answer_in_time :: "systime \<Rightarrow> 'e counter \<Rightarrow> 'e counters_cache \<Rightarrow> bool" where
  "answer_in_time now c s \<longleftrightarrow>
     (\<forall>r cv. cell_of s (counter_key c) = Some r \<longrightarrow> map_of (cells s) r = Some cv \<longrightarrow>
        \<not> expired_at (av_expiry (cv_value cv)) now \<and> cv_initial cv \<le> av_value (cv_value cv))"

inductive cache_step :: "cache_event \<Rightarrow> 'e cache_run \<Rightarrow> 'e cache_run \<Rightarrow> bool" where
  hit: "run_callers \<sigma> i = Idle \<Longrightarrow> map_of (cache (run_cache \<sigma>)) (counter_key c) = Some r \<Longrightarrow>
    cache_step (Looks i) \<sigma> (moves i (Got c d r) (run_cache \<sigma>) \<sigma>)"
| miss: "run_callers \<sigma> i = Idle \<Longrightarrow> map_of (cache (run_cache \<sigma>)) (counter_key c) = None \<Longrightarrow>
    env_now env = run_now \<sigma> \<Longrightarrow> cc_increase_init env c (run_cache \<sigma>) = Some (r, s) \<Longrightarrow>
    cache_step (Looks i) \<sigma> (moves i (Found c d r) s \<sigma>)"
| insert: "run_callers \<sigma> i = Found c d r \<Longrightarrow>
    cache_step (Inserts i) \<sigma> (moves i (Got c d r) (cached_insert env (counter_key c) r (run_cache \<sigma>)) \<sigma>)"
| add: "run_callers \<sigma> i = Got c d r \<Longrightarrow> map_of (cells (run_cache \<sigma>)) r = Some cv \<Longrightarrow>
    value_update d (window c) (run_now \<sigma>) (cv_value cv) = Some (v, av) \<Longrightarrow>
    cache_step (Adds i) \<sigma> (moves i (if v = d then Due c r else Wrote c r)
      (set_cell r (cv\<lparr>cv_value := av\<rparr>) (run_cache \<sigma>)) \<sigma>)"
| reset: "run_callers \<sigma> i = Due c r \<Longrightarrow> map_of (cells (run_cache \<sigma>)) r = Some cv \<Longrightarrow>
    cache_step (Resets i) \<sigma> (moves i (Wrote c r) (set_cell r (cv\<lparr>cv_initial := 0\<rparr>) (run_cache \<sigma>)) \<sigma>)"
| queue: "run_callers \<sigma> i = Wrote c r \<Longrightarrow> env_now env = run_now \<sigma> \<Longrightarrow>
    batcher_add env c r (run_cache \<sigma>) = Some s \<Longrightarrow> cache_step (Queues i) \<sigma> (moves i Idle s \<sigma>)"
| read: "cache_step Reads \<sigma> (\<sigma>\<lparr>run_cache := snd (cc_get env c (run_cache \<sigma>))\<rparr>)"
| evict: "cache_step Evicts \<sigma>
    (\<sigma>\<lparr>run_cache := (run_cache \<sigma>)\<lparr>cache := filter (\<lambda>p. fst p \<notin> K) (cache (run_cache \<sigma>))\<rparr>\<rparr>)"
| pass: "run_now \<sigma> \<le> t \<Longrightarrow> as_micros t < 2 ^ 64 \<Longrightarrow> cache_step Passes \<sigma> (\<sigma>\<lparr>run_now := t\<rparr>)"
| take: "e \<in> set (updates (the_batcher (run_cache \<sigma>))) \<Longrightarrow>
    take_pending (run_now \<sigma>) [e] (run_cache \<sigma>) = Some (rows, s) \<Longrightarrow> cache_step Takes \<sigma> (\<sigma>\<lparr>run_cache := s\<rparr>)"
| settle: "cache_step Settles \<sigma> (\<sigma>\<lparr>run_cache := settle_one (run_now \<sigma>) e (run_cache \<sigma>)\<rparr>)"
| wake: "cache_step Wakes \<sigma> (\<sigma>\<lparr>run_cache := (run_cache \<sigma>)
    \<lparr>the_batcher := snd (batch_ready mx (the_batcher (run_cache \<sigma>)))\<rparr>\<rparr>)"
| answer: "env_now env = run_now \<sigma> \<Longrightarrow> run_now \<sigma> < exp \<Longrightarrow> answer_in_time (run_now \<sigma>) c (run_cache \<sigma>) \<Longrightarrow>
    cc_apply_remote_delta env c v d exp (run_cache \<sigma>) = Some (r, s) \<Longrightarrow>
    cache_step Answers \<sigma> (\<sigma>\<lparr>run_cache := s\<rparr>)"
| answer_late: "env_now env = run_now \<sigma> \<Longrightarrow> run_now \<sigma> < exp \<Longrightarrow> \<not> answer_in_time (run_now \<sigma>) c (run_cache \<sigma>) \<Longrightarrow>
    cc_apply_remote_delta env c v d exp (run_cache \<sigma>) = Some (r, s) \<Longrightarrow>
    cache_step AnswersLate \<sigma> (\<sigma>\<lparr>run_cache := s\<rparr>)"
| give_back: "env_now env = run_now \<sigma> \<Longrightarrow> cc_return_pending_writes env c v w (run_cache \<sigma>) = Some (x, s) \<Longrightarrow>
    cache_step GivesBack \<sigma> (\<sigma>\<lparr>run_cache := s\<rparr>)"

text \<open>An answer whose expiry has passed makes a value that the flush drops, so it is no step.\<close>

inductive cache_runs :: "cache_event list \<Rightarrow> 'e cache_run \<Rightarrow> 'e cache_run \<Rightarrow> bool" where
  nil: "cache_runs [] \<sigma> \<sigma>"
| cons: "cache_step ev \<sigma> \<sigma>' \<Longrightarrow> cache_runs evs \<sigma>' \<sigma>'' \<Longrightarrow> cache_runs (ev # evs) \<sigma> \<sigma>''"

inductive_simps cache_runs_simps: "cache_runs [] \<sigma> \<sigma>'" "cache_runs (ev # evs) \<sigma> \<sigma>'"

definition cache_run_new :: "nat \<Rightarrow> duration \<Rightarrow> systime \<Rightarrow> 'e cache_run" where
  "cache_run_new max_cached period t =
     \<lparr>run_cache = counters_cache_build max_cached period, run_now = t, run_callers = (\<lambda>_. Idle)\<rparr>"

section \<open>Unsent writes\<close>

definition unsent :: "systime \<Rightarrow> 'e counters_cache \<Rightarrow> nat \<Rightarrow> bool" where
  "unsent now s r \<longleftrightarrow> (\<exists>cv. map_of (cells s) r = Some cv \<and> \<not> cv_no_pending_writes now cv)"

definition in_reach :: "'e cache_run \<Rightarrow> nat \<Rightarrow> bool" where
  "in_reach \<sigma> r \<longleftrightarrow> (\<exists>k. queued k (run_cache \<sigma>) = Some r) \<or> (\<exists>i. has_to_queue (run_callers \<sigma> i) r)"

definition none_stranded :: "'e cache_run \<Rightarrow> bool" where
  "none_stranded \<sigma> \<longleftrightarrow> (\<forall>r. unsent (run_now \<sigma>) (run_cache \<sigma>) r \<longrightarrow> in_reach \<sigma> r)"

lemma none_stranded_mono:
  assumes "none_stranded \<sigma>"
    and "\<And>r. unsent (run_now \<sigma>') (run_cache \<sigma>') r \<Longrightarrow> unsent (run_now \<sigma>) (run_cache \<sigma>) r \<or> in_reach \<sigma>' r"
    and "\<And>r. in_reach \<sigma> r \<Longrightarrow> unsent (run_now \<sigma>') (run_cache \<sigma>') r \<Longrightarrow> in_reach \<sigma>' r"
  shows "none_stranded \<sigma>'"
  using assms unfolding none_stranded_def by blast

lemma unsent_set_cell [simp]:
  "unsent now (set_cell r cv s) q \<longleftrightarrow> (if q = r then \<not> cv_no_pending_writes now cv else unsent now s q)"
  by (simp add: unsent_def)

lemma unsent_cong: "cells s' = cells s \<Longrightarrow> unsent now s' = unsent now s"
  by (simp add: fun_eq_iff unsent_def)

lemma queued_set_cell [simp]: "queued k (set_cell r cv s) = queued k s"
  by (simp add: queued_def set_cell_def)

lemma queued_insert [simp]: "queued j (cached_insert env k r s) = queued j s"
  and cells_insert [simp]: "cells (cached_insert env k r s) = cells s"
  by (simp_all add: queued_def cached_insert_def)

lemma in_reach_moves:
  "in_reach (moves i p s \<sigma>) r \<longleftrightarrow>
     (\<exists>k. queued k s = Some r) \<or> has_to_queue p r \<or> (\<exists>j. j \<noteq> i \<and> has_to_queue (run_callers \<sigma> j) r)"
  by (auto simp: in_reach_def moves_def)

lemma moves_fields [simp]: "run_now (moves i p s \<sigma>) = run_now \<sigma>" "run_cache (moves i p s \<sigma>) = s"
  by (simp_all add: moves_def)

text \<open>A new value has nothing unsent.\<close>

lemma no_pending_new: "cv_no_pending_writes now \<lparr>cv_value = value_new v e, cv_initial = v, cv_authority = a\<rparr>"
  by (simp add: cv_no_pending_writes_def value_new_def value_at_def checked_sub_def Let_def)

lemma unsent_new_cell: "unsent now (snd (new_cell cv s)) r \<Longrightarrow> cv_no_pending_writes now cv \<Longrightarrow> unsent now s r"
  by (auto simp: unsent_def new_cell_def split: if_splits)

lemma no_pending_taken:
  "cv_pending_writes_and_value now id cv = (x, cv') \<Longrightarrow> cv_no_pending_writes now cv'"
  by (auto simp: cv_pending_writes_and_value_def cv_no_pending_writes_def compare_exchange_def checked_sub_def Let_def)

lemma no_pending_answered:
  assumes "\<not> expired_at (av_expiry (cv_value cv)) now" "cv_initial cv \<le> av_value (cv_value cv)"
    and "cv_no_pending_writes now cv"
  shows "cv_no_pending_writes now (cv_add_from_authority d exp cv)"
proof -
  have "av_value (cv_value cv) - cv_initial cv = 0"
    using assms by (simp add: cv_no_pending_writes_def value_at_def checked_sub_def split: if_splits)
  then have "av_value (cv_value cv) = cv_initial cv" by simp
  then show ?thesis
    by (simp add: cv_no_pending_writes_def cv_add_from_authority_def add_and_set_expiry_def value_at_def
        checked_sub_def)
qed

lemma later_no_pending:
  assumes "now \<le> t" "as_micros t < 2 ^ 64" "cv_no_pending_writes now cv"
  shows "cv_no_pending_writes t cv"
proof -
  have "unat (since_epoch now) \<le> unat (since_epoch t)"
    using assms(1,2) div_le_mono [OF assms(1), of 1000]
    by (simp add: since_epoch_def unat_of_nat_u64 as_micros_def)
  then have "value_at (cv_value cv) t = 0 \<or> value_at (cv_value cv) t = value_at (cv_value cv) now"
    by (auto simp: value_at_def expired_at_def word_le_nat_alt)
  then show ?thesis using assms(3) by (auto simp: cv_no_pending_writes_def checked_sub_def Let_def split: if_splits)
qed

section \<open>The operations of the tasks\<close>

lemma init_keeps:
  assumes "cc_increase_init env c s = Some (r, s')"
  shows "unsent now s' q \<Longrightarrow> unsent now s q" "queued k s' = queued k s"
proof -
  consider (old) "s' = s"
    | (new) e where "s' = snd (new_cell \<lparr>cv_value = value_new 0 e, cv_initial = 0, cv_authority = False\<rparr> s)"
    using assms
    by (auto simp: cc_increase_init_def cv_load_from_authority_asap_def split: option.splits bind_splits) (metis snd_conv)
  note cases = this
  show "unsent now s' q \<Longrightarrow> unsent now s q"
    using unsent_new_cell no_pending_new by (cases rule: cases) blast+
  show "queued k s' = queued k s" by (cases rule: cases) (simp_all add: queued_def new_cell_def)
qed

text \<open>Queueing a value: afterwards it is in the queue, or its writes are in the value that was there.\<close>

lemma batcher_add_keeps:
  assumes "batcher_add env c r s = Some s'"
  shows "queued k s = Some q \<Longrightarrow> queued k s' = Some q"
    and "unsent (env_now env) s' x \<Longrightarrow> (\<exists>k. queued k s' = Some x) \<or> x \<noteq> r \<and> unsent (env_now env) s x"
proof -
  let ?k = "counter_key c" and ?now = "env_now env"
  consider (fresh) "queued ?k s = None" "cells s' = cells s" "\<forall>j. queued j s' = (if j = ?k then Some r else queued j s)"
    | (same) "queued ?k s = Some r" "cells s' = cells s" "\<forall>j. queued j s' = queued j s"
    | (merged) q w cv cv' target' where "queued ?k s = Some q" "q \<noteq> r"
      "cv_pending_writes_and_value ?now id cv = (w, cv')" "cells s' = cells (set_cell q target' (set_cell r cv' s))"
      "\<forall>j. queued j s' = queued j s"
    using assms
    by (auto simp: batcher_add_def queued_def Let_def map_add_def set_cell_def cv_pending_writes_def map_prod_def
        split: if_splits option.splits bind_splits prod.splits sum.splits)
  note cases = this
  show "queued k s = Some q \<Longrightarrow> queued k s' = Some q" by (cases rule: cases) auto
  assume x: "unsent ?now s' x"
  show "(\<exists>k. queued k s' = Some x) \<or> x \<noteq> r \<and> unsent ?now s x"
  proof (cases rule: cases)
    case (merged q w cv cv' target')
    then have "x = q \<or> x \<noteq> r \<and> unsent ?now s x"
      using x no_pending_taken [OF merged(3)] unsent_cong [OF merged(4), of ?now] by (auto split: if_splits)
    then show ?thesis using merged(1,5) by auto
  next
    case fresh
    then show ?thesis using x unsent_cong [OF fresh(2)] by auto
  next
    case same
    then show ?thesis using x unsent_cong [OF same(2)] by auto
  qed
qed

lemma settle_keeps:
  "cells (settle_one now e s) = cells s"
  "queued k s = Some r \<Longrightarrow> queued k (settle_one now e s) = Some r \<or> \<not> unsent now s r"
  by (auto simp: settle_one_def queued_def unsent_def assoc_simps split: prod.splits option.splits if_splits)

lemma take_keeps:
  assumes "take_pending now [e] s = Some (rows, s')"
  shows "unsent now s' r \<Longrightarrow> unsent now s r" "queued k s' = queued k s"
proof -
  obtain j c q where e: "e = (j, c, q)" by (cases e)
  from assms obtain cv x cv' where "cv_pending_writes_and_value now id cv = (x, cv')" "s' = set_cell q cv' s"
    by (auto simp: e split: bind_splits prod.splits sum.splits)
  with no_pending_taken show "unsent now s' r \<Longrightarrow> unsent now s r" "queued k s' = queued k s"
    by (auto split: if_splits)
qed

lemma get_keeps: "cells (snd (cc_get env c s)) = cells s" "queued k (snd (cc_get env c s)) = queued k s"
  by (simp_all add: cc_get_def split: option.split)

lemma answer_keeps:
  assumes "cc_apply_remote_delta env c v d exp s = Some (r, s')" "env_now env < exp" "answer_in_time (env_now env) c s"
  shows "unsent (env_now env) s' q \<Longrightarrow> unsent (env_now env) s q" "queued k s' = queued k s"
proof -
  let ?now = "env_now env" and ?s = "snd (cc_get env c s)"
  consider (known) cv where "cell_of s (counter_key c) = Some r" "map_of (cells s) r = Some cv"
      "s' = set_cell r (cv_add_from_authority d exp cv) ?s"
    | (new) e where "s' = cached_insert env (counter_key c) r
        (snd (new_cell \<lparr>cv_value = value_new v e, cv_initial = v, cv_authority = True\<rparr> s))"
    using assms(1,2)
    by (auto simp: cc_apply_remote_delta_def cc_get_cell get_keeps cv_from_authority_def new_cell_def Let_def
        split: option.splits bind_splits)
  note cases = this
  show "queued k s' = queued k s"
    by (cases rule: cases) (simp_all add: get_keeps, simp add: queued_def new_cell_def)
  assume q: "unsent ?now s' q"
  show "unsent ?now s q"
  proof (cases rule: cases)
    case (known cv)
    have "\<not> expired_at (av_expiry (cv_value cv)) ?now" "cv_initial cv \<le> av_value (cv_value cv)"
      using assms(3) known(1,2) by (simp_all add: answer_in_time_def)
    from no_pending_answered [OF this] q known show ?thesis
      by (auto simp: unsent_def get_keeps split: if_splits)
  next
    case (new e)
    then show ?thesis using q unsent_new_cell [OF _ no_pending_new] unsent_cong [OF cells_insert] by metis
  qed
qed

section \<open>Nothing is stranded\<close>

lemma none_stranded_flush:
  assumes "none_stranded \<sigma>" and "\<And>r. unsent (run_now \<sigma>) s r \<Longrightarrow> unsent (run_now \<sigma>) (run_cache \<sigma>) r"
    and "\<And>k. queued k s = queued k (run_cache \<sigma>)"
  shows "none_stranded (\<sigma>\<lparr>run_cache := s\<rparr>)"
  by (rule none_stranded_mono [OF assms(1)]) (use assms(2,3) in \<open>auto simp: in_reach_def\<close>)

lemma none_stranded_caller:
  assumes "none_stranded \<sigma>" and "\<And>k r. queued k (run_cache \<sigma>) = Some r \<Longrightarrow> queued k s = Some r"
    and "\<And>r. unsent (run_now \<sigma>) s r \<Longrightarrow>
      unsent (run_now \<sigma>) (run_cache \<sigma>) r \<and> (has_to_queue (run_callers \<sigma> i) r \<longrightarrow> has_to_queue p r) \<or>
      has_to_queue p r \<or> (\<exists>k. queued k s = Some r)"
  shows "none_stranded (moves i p s \<sigma>)"
proof (rule none_stranded_mono [OF assms(1)])
  fix r
  show "unsent (run_now \<sigma>) (run_cache \<sigma>) r \<or> in_reach (moves i p s \<sigma>) r"
    if "unsent (run_now (moves i p s \<sigma>)) (run_cache (moves i p s \<sigma>)) r"
    using assms(3) [of r] that by (auto simp: in_reach_moves)
  show "in_reach (moves i p s \<sigma>) r"
    if "in_reach \<sigma> r" "unsent (run_now (moves i p s \<sigma>)) (run_cache (moves i p s \<sigma>)) r"
    using that assms(2) assms(3) [of r] unfolding in_reach_moves in_reach_def [of \<sigma>] by (auto, metis)
qed

lemma none_stranded_settle:
  assumes "none_stranded \<sigma>"
  shows "none_stranded (\<sigma>\<lparr>run_cache := settle_one (run_now \<sigma>) e (run_cache \<sigma>)\<rparr>)"
  unfolding none_stranded_def
proof (intro allI impI)
  fix r
  assume "unsent (run_now (\<sigma>\<lparr>run_cache := settle_one (run_now \<sigma>) e (run_cache \<sigma>)\<rparr>))
    (run_cache (\<sigma>\<lparr>run_cache := settle_one (run_now \<sigma>) e (run_cache \<sigma>)\<rparr>)) r"
  then have r: "unsent (run_now \<sigma>) (run_cache \<sigma>) r" by (simp add: unsent_cong [OF settle_keeps(1)])
  with assms have "in_reach \<sigma> r" by (simp add: none_stranded_def)
  with r settle_keeps(2) [of _ "run_cache \<sigma>" r "run_now \<sigma>" e]
  show "in_reach (\<sigma>\<lparr>run_cache := settle_one (run_now \<sigma>) e (run_cache \<sigma>)\<rparr>) r"
    by (auto simp: in_reach_def)
qed

lemma step_none_stranded:
  assumes "cache_step ev \<sigma> \<sigma>'" "ev \<notin> {AnswersLate, GivesBack}" "none_stranded \<sigma>"
  shows "none_stranded \<sigma>'"
  using assms
proof (induction rule: cache_step.induct)
  case (hit \<sigma> i c r d)
  then show ?case by (intro none_stranded_caller) simp_all
next
  case (miss \<sigma> i c env r s d)
  then show ?case using init_keeps [OF miss.hyps(4)] by (intro none_stranded_caller) auto
next
  case (insert \<sigma> i c d r env)
  then show ?case by (intro none_stranded_caller) (auto simp: unsent_cong [OF cells_insert])
next
  case (add \<sigma> i c d r cv v av)
  then show ?case by (intro none_stranded_caller) (auto split: if_splits)
next
  case (reset \<sigma> i c r cv)
  then show ?case by (intro none_stranded_caller) (auto split: if_splits)
next
  case (queue \<sigma> i c r env s)
  then show ?case
    using batcher_add_keeps [OF queue.hyps(3)] by (intro none_stranded_caller) auto
next
  case (read \<sigma> env c)
  then show ?case by (intro none_stranded_flush) (auto simp: unsent_cong [OF get_keeps(1)] get_keeps(2))
next
  case (evict \<sigma> K)
  then show ?case by (intro none_stranded_flush) (simp_all add: unsent_def queued_def)
next
  case (pass \<sigma> t)
  then show ?case
    using later_no_pending [OF pass.hyps] by (intro none_stranded_mono [OF pass.prems(2)]) (auto simp: unsent_def in_reach_def)
next
  case (take e \<sigma> rows s)
  then show ?case using take_keeps [OF take.hyps(2)] by (intro none_stranded_flush) auto
next
  case (settle \<sigma> e)
  then show ?case by (intro none_stranded_settle) simp_all
next
  case (wake \<sigma> mx)
  then show ?case by (intro none_stranded_flush) (simp_all add: unsent_def queued_def batch_ready_def)
next
  case (answer env \<sigma> exp c v d r s)
  then show ?case
    using answer_keeps [OF answer.hyps(4)] by (intro none_stranded_flush) auto
qed simp_all

lemma run_none_stranded:
  assumes "cache_runs evs (cache_run_new max_cached period t) \<sigma>" "AnswersLate \<notin> set evs" "GivesBack \<notin> set evs"
  shows "none_stranded \<sigma>"
proof -
  have "none_stranded (cache_run_new max_cached period t)"
    by (simp add: none_stranded_def cache_run_new_def unsent_def counters_cache_build_def)
  moreover have "none_stranded \<sigma> \<Longrightarrow> AnswersLate \<notin> set evs \<Longrightarrow> GivesBack \<notin> set evs \<Longrightarrow> none_stranded \<sigma>'"
    if "cache_runs evs \<sigma> \<sigma>'" for evs and \<sigma> \<sigma>' :: "'a cache_run"
    using that by induction (auto dest: step_none_stranded)
  ultimately show ?thesis using assms by blast
qed

section \<open>A caller alone\<close>

text \<open>A caller whose steps no other task separates does what \<open>cc_increase_by\<close> does.\<close>

lemma update_twice: "AList.update k v (AList.update k w xs) = AList.update k v xs"
  by (induction xs) auto

lemma set_cell_twice: "set_cell r a (set_cell r b s) = set_cell r a s"
  by (simp add: set_cell_def update_twice)

lemma cache_runs_append: "cache_runs evs \<sigma> \<sigma>' \<Longrightarrow> cache_runs evs' \<sigma>' \<sigma>'' \<Longrightarrow> cache_runs (evs @ evs') \<sigma> \<sigma>''"
  by (induction rule: cache_runs.induct) (auto intro: cache_runs.cons)

lemma moves_moves: "moves i p s (moves i q s' \<sigma>) = moves i p s \<sigma>"
  by (simp add: moves_def)

lemma caller_moves [simp]: "run_callers (moves i p s \<sigma>) i = p"
  by (simp add: moves_def)

lemma get_alone:
  assumes "cc_increase_get env c (run_cache \<sigma>) = Some (r, s)" "env_now env = run_now \<sigma>" "run_callers \<sigma> i = Idle"
  shows "\<exists>evs. set evs \<subseteq> {Looks i, Inserts i} \<and> cache_runs evs \<sigma> (moves i (Got c d r) s \<sigma>)"
proof (cases "map_of (cache (run_cache \<sigma>)) (counter_key c)")
  case (Some q)
  with assms(1) have s: "s = run_cache \<sigma>" "q = r" by (simp_all add: cc_increase_get_def)
  with Some cache_step.hit [OF assms(3), of c r d] show ?thesis
    by (intro exI [of _ "[Looks i]"]) (auto simp: cache_runs_simps)
next
  case None
  with assms(1) obtain s0 where s: "cc_increase_init env c (run_cache \<sigma>) = Some (r, s0)"
    "s = cached_insert env (counter_key c) r s0"
    by (auto simp: cc_increase_get_def split: bind_splits)
  have "cache_step (Looks i) \<sigma> (moves i (Found c d r) s0 \<sigma>)"
    by (rule cache_step.miss [OF assms(3) None assms(2) s(1)])
  moreover have "cache_step (Inserts i) (moves i (Found c d r) s0 \<sigma>) (moves i (Got c d r) s \<sigma>)"
    using cache_step.insert [of "moves i (Found c d r) s0 \<sigma>" i c d r env] s(2) by (simp add: moves_moves)
  ultimately show ?thesis
    by (intro exI [of _ "[Looks i, Inserts i]"]) (auto simp: cache_runs_simps)
qed

lemma add_alone:
  assumes "run_callers \<sigma> i = Got c d r" "map_of (cells (run_cache \<sigma>)) r = Some cv"
    and "cv_delta (run_now \<sigma>) c d cv = Some (v, cv')"
  shows "\<exists>evs. set evs \<subseteq> {Adds i, Resets i} \<and>
    cache_runs evs \<sigma> (moves i (Wrote c r) (set_cell r cv' (run_cache \<sigma>)) \<sigma>)"
proof -
  from assms(3) obtain av where av: "value_update d (window c) (run_now \<sigma>) (cv_value cv) = Some (v, av)"
    "cv' = cv\<lparr>cv_value := av, cv_initial := (if v = d then 0 else cv_initial cv)\<rparr>"
    by (auto simp: cv_delta_def split: bind_splits)
  let ?s = "set_cell r (cv\<lparr>cv_value := av\<rparr>) (run_cache \<sigma>)"
  note step = cache_step.add [OF assms(1,2) av(1)]
  show ?thesis
  proof (cases "v = d")
    case True
    have "cache_step (Resets i) (moves i (Due c r) ?s \<sigma>) (moves i (Wrote c r) (set_cell r cv' (run_cache \<sigma>)) \<sigma>)"
      using cache_step.reset [of "moves i (Due c r) ?s \<sigma>" i c r "cv\<lparr>cv_value := av\<rparr>"] True av(2)
      by (simp add: moves_moves set_cell_twice)
    with step True show ?thesis by (intro exI [of _ "[Adds i, Resets i]"]) (auto simp: cache_runs_simps)
  next
    case False
    with av(2) have "cv' = cv\<lparr>cv_value := av\<rparr>" by simp
    with step False show ?thesis by (intro exI [of _ "[Adds i]"]) (auto simp: cache_runs_simps)
  qed
qed

lemma increase_alone:
  assumes "cc_increase_by env c d (run_cache \<sigma>) = Some s" "env_now env = run_now \<sigma>" "run_callers \<sigma> i = Idle"
  shows "\<exists>evs. set evs \<subseteq> {Looks i, Inserts i, Adds i, Resets i, Queues i} \<and> cache_runs evs \<sigma> (moves i Idle s \<sigma>)"
proof -
  from assms(1) obtain r s1 cv v cv' where
    get: "cc_increase_get env c (run_cache \<sigma>) = Some (r, s1)" and cv: "map_of (cells s1) r = Some cv"
    and delta: "cv_delta (env_now env) c d cv = Some (v, cv')"
    and add: "batcher_add env c r (set_cell r cv' s1) = Some s"
    by (auto simp: cc_increase_by_def split: bind_splits)
  let ?got = "moves i (Got c d r) s1 \<sigma>" and ?wrote = "moves i (Wrote c r) (set_cell r cv' s1) \<sigma>"
  from get_alone [OF get assms(2,3)] obtain evs where evs: "set evs \<subseteq> {Looks i, Inserts i}" "cache_runs evs \<sigma> ?got" by blast
  have "\<exists>evs. set evs \<subseteq> {Adds i, Resets i} \<and> cache_runs evs ?got ?wrote"
    using add_alone [of ?got i c d r cv v cv'] cv delta assms(2) by (simp add: moves_moves)
  then obtain evs' where evs': "set evs' \<subseteq> {Adds i, Resets i}" "cache_runs evs' ?got ?wrote" by blast
  have "cache_step (Queues i) ?wrote (moves i Idle s \<sigma>)"
    using cache_step.queue [of ?wrote i c r env s] add assms(2) by (simp add: moves_moves)
  then have "cache_runs [Queues i] ?wrote (moves i Idle s \<sigma>)" by (auto simp: cache_runs_simps)
  from cache_runs_append [OF cache_runs_append [OF evs(2) evs'(2)] this] evs(1) evs'(1) show ?thesis
    by (intro exI [of _ "(evs @ evs') @ [Queues i]"]) auto
qed

section \<open>A reset that comes late\<close>

text \<open>Taking the pending writes of a value whose window is open and of which nothing was sent yet.\<close>

lemma take_first:
  assumes "map_of (cells s) r = Some cv" "\<not> expired_at (av_expiry (cv_value cv)) now"
    and "0 < av_value (cv_value cv)" "cv_initial cv = 0"
  shows "take_pending now [(k, c, r)] s =
    Some ([(c, av_value (cv_value cv), av_value (cv_value cv), 0)], set_cell r (cv\<lparr>cv_initial := av_value (cv_value cv)\<rparr>) s)"
  using assms
  by (simp add: cv_pending_writes_and_value_def value_at_def compare_exchange_def pending_offset_def Let_def)

lemma reset_after_take:
  assumes caller: "run_callers \<sigma> i = Due c r" and e: "(k, c', r) \<in> set (updates (the_batcher (run_cache \<sigma>)))"
    and cv: "map_of (cells (run_cache \<sigma>)) r = Some cv" "\<not> expired_at (av_expiry (cv_value cv)) (run_now \<sigma>)"
      "0 < av_value (cv_value cv)" "cv_initial cv = 0"
  defines "row \<equiv> (c', av_value (cv_value cv), av_value (cv_value cv), 0)"
  shows "\<exists>s1 \<sigma>2 s2. take_pending (run_now \<sigma>) [(k, c', r)] (run_cache \<sigma>) = Some ([row], s1) \<and>
    cache_runs [Takes, Resets i] \<sigma> \<sigma>2 \<and>
    take_pending (run_now \<sigma>2) [(k, c', r)] (run_cache \<sigma>2) = Some ([row], s2)"
proof -
  let ?cv = "cv\<lparr>cv_initial := av_value (cv_value cv)\<rparr>"
  let ?s = "set_cell r ?cv (run_cache \<sigma>)" and ?t = "set_cell r (cv\<lparr>cv_initial := 0\<rparr>) (run_cache \<sigma>)"
  note first = take_first [OF cv, where k = k and c = c']
  have "cache_step Takes \<sigma> (\<sigma>\<lparr>run_cache := ?s\<rparr>)" by (rule cache_step.take [OF e first])
  moreover have "cache_step (Resets i) (\<sigma>\<lparr>run_cache := ?s\<rparr>) (moves i (Wrote c r) ?t \<sigma>)"
    using cache_step.reset [of "\<sigma>\<lparr>run_cache := ?s\<rparr>" i c r ?cv] caller
    by (simp add: set_cell_twice moves_def)
  moreover have "take_pending (run_now \<sigma>) [(k, c', r)] ?t = Some ([row], set_cell r ?cv ?t)"
    using take_first [of ?t r "cv\<lparr>cv_initial := 0\<rparr>" "run_now \<sigma>" k c'] cv
    by (simp add: row_def del: take_pending.simps)
  ultimately show ?thesis
    using first unfolding row_def
    by (intro exI [of _ ?s] exI [of _ "moves i (Wrote c r) ?t \<sigma>"] exI [of _ "set_cell r ?cv ?t"])
      (auto simp: cache_runs_simps simp del: take_pending.simps)
qed

end
