(* ===== verification/CachedProperties.thy ===== *)
theory CachedProperties
  imports RedisSamples CacheRaces
begin

text \<open>The properties of the cached Redis storage, each with a witness.\<close>

section \<open>Samples\<close>

definition sample_cell :: "u64 \<Rightarrow> cached_value" where
  "sample_cell n = \<lparr>cv_value = \<lparr>av_value = n, av_expiry = \<lparr>expiry = 60000000\<rparr>\<rparr>, cv_initial = n, cv_authority = True\<rparr>"

definition sample_cache :: "string counters_cache" where
  "sample_cache = (counters_cache_build 8 1000)
     \<lparr>cells := [(0, sample_cell 3), (1, sample_cell 0)], next_cell := 2,
      cache := [(counter_key global_counter, 0), (counter_key user_counter, 1)]\<rparr>"

definition sample_cached_env :: "sample_server cached_env" where
  "sample_cached_env = \<lparr>xe_local = at 0, xe_redis = sample_redis_env\<rparr>"

definition sample_cached_limiter :: "((sample_server, string) cached_redis, string) rate_limiter" where
  "sample_cached_limiter =
     \<lparr>storage = \<lparr>limits = [(''ns'', [global_limit, user_limit])],
        counters = \<lparr>cached_counters = sample_cache, redis_server = sample_server_new, cached_reservations = registry_new,
          partitioned = False\<rparr>\<rparr>,
      reservation_limits = reservation_limits_default\<rparr>"

lemma sample_cache_cells:
  "cell_of sample_cache k = (if k = counter_key global_counter then Some 0 else if k = counter_key user_counter then Some 1 else None)"
  "queued k sample_cache = None" "permits (the_batcher sample_cache) = 8"
  by (simp_all add: cell_of_def sample_cache_def queued_def counters_cache_build_def batcher_new_def)

lemma sample_cache_wf: "cache_wf sample_cache"
  by (rule cache_wfI) (auto simp: sample_cache_cells split: if_splits, auto simp: sample_cache_def split: if_splits)

lemma sample_cache_hits:
  "cell_hits 0 sample_cache k = (if k = counter_key global_counter then 3 else 0)"
  by (simp add: cell_hits_def sample_cache_cells sample_keys)
    (simp add: sample_cache_def sample_cell_def cv_hits_def value_at_def expired_at_def since_epoch_def as_micros_def)

lemma sample_cached_counters:
  "counters_that_apply sample_cel ''ns'' sample_ctx sample_cached_limiter = Some (Inr [global_counter, user_counter])"
  by (simp add: counters_that_apply_def sample_cached_limiter_def get_limits_def sample_collect del: collect_counters.simps)

lemma sample_cached_ready:
  "cached_ready sample_cached_env [global_counter, user_counter] 2 (counters (storage sample_cached_limiter))"
  using sample_call_ok
  by (simp add: cached_ready_def warm_def sample_cached_limiter_def sample_cached_env_def sample_cache_wf sample_cache_cells
      sample_cache_hits call_ok_def)

section \<open>Counting\<close>

text \<open>C14: a request all of whose counters are cached or queued.  The asynchronous limiter over the cached
  Redis storage limits it exactly when some counter lacks room in the cached view, and does not ask the
  server; the counters of an admitted request grow by the delta, no other counter moves, and the limits
  stay.  Besides, \<open>cached_ready\<close> asks that the cache and the queue agree on the cell of every counter, that
  the queue has room for the counters it does not have yet, that the counters of the request are
  different, have a window the clock can represent and are not evicted meanwhile, and that no sum passes
  \<open>2 ^ 64\<close>.\<close>

theorem cached_checked_update:
  assumes "counters_that_apply cel ns ctx rl = Some (Inr ctrs)" and "cached_ready env ctrs delta (counters (storage rl))"
  defines "used \<equiv> \<lambda>st. cached_used env (counters (storage st))"
  shows "\<exists>r rl'. async_check_rate_limited_and_update (cached_redis_storage rd cel cd) cel env ns ctx delta rl = Some (Inr r, rl') \<and>
    (limited r \<longleftrightarrow> (\<exists>c\<in>set ctrs. counter_max_value c < saturating_add (used rl (counter_key c)) delta)) \<and>
    (\<forall>k. \<not> env_evicts (xe_local env) k \<longrightarrow> used rl' k =
       used rl k + (if \<not> limited r \<and> k \<in> counter_key ` set ctrs then delta else 0)) \<and>
    redis_server (counters (storage rl')) = redis_server (counters (storage rl)) \<and>
    limits (storage rl') = limits (storage rl)"
proof -
  let ?used = "\<lambda>st. cached_used env (counters (storage st))"
  from cached.limiter_check_and_update [OF assms(1,2), of rd cel cd] obtain r rl' where
    r: "check_rate_limited_and_update (cached_redis_storage rd cel cd) cel env ns ctx delta rl = Some (Inr r, rl')"
      "limited r \<longleftrightarrow> (\<exists>c\<in>set ctrs. \<not> admits (?used rl) delta c)"
      "\<forall>k. \<not> env_evicts (xe_local env) k \<longrightarrow> ?used rl' k =
         ?used rl k + (if \<not> limited r \<and> k \<in> counter_key ` set ctrs then delta else 0)"
      "limits (storage rl') = limits (storage rl)"
    by (elim exE conjE) (rule that; assumption)
  with cached_server_untouched [OF r(1)] show ?thesis
    by (auto simp: async_check_and_update used_def admits_def not_le)
qed

theorem cached_checked_update_witness:
  "\<exists>r rl'. async_check_rate_limited_and_update (cached_redis_storage sample_redis sample_cel sample_codec) sample_cel
      sample_cached_env ''ns'' sample_ctx 2 sample_cached_limiter = Some (Inr r, rl') \<and> \<not> limited r \<and>
    cached_used sample_cached_env (counters (storage rl')) (counter_key global_counter) = 5"
proof -
  let ?used = "\<lambda>rl. cached_used sample_cached_env (counters (storage rl))"
  obtain r rl' where r: "async_check_rate_limited_and_update (cached_redis_storage sample_redis sample_cel sample_codec) sample_cel
        sample_cached_env ''ns'' sample_ctx 2 sample_cached_limiter = Some (Inr r, rl')"
      "limited r \<longleftrightarrow> (\<exists>c\<in>set [global_counter, user_counter].
         counter_max_value c < saturating_add (?used sample_cached_limiter (counter_key c)) 2)"
      "\<forall>k. \<not> env_evicts (xe_local sample_cached_env) k \<longrightarrow> ?used rl' k = ?used sample_cached_limiter k
         + (if \<not> limited r \<and> k \<in> counter_key ` set [global_counter, user_counter] then 2 else 0)"
    using cached_checked_update [OF sample_cached_counters sample_cached_ready, of sample_redis sample_codec]
    by (elim exE conjE) (rule that; assumption)
  have used: "?used sample_cached_limiter k = (if k = counter_key global_counter then 3 else 0)" for k
    using sample_cache_hits [of k] sample_call_ok
    by (simp add: cached_used_def sample_cached_env_def sample_cached_limiter_def call_ok_def)
  have keep: "\<not> env_evicts (xe_local sample_cached_env) (counter_key global_counter)"
    using sample_call_ok by (simp add: sample_cached_env_def call_ok_def)
  have "\<not> limited r" using r(2) by (simp add: used sample_keys saturating_add_def)
  with r(1) r(3) [THEN spec, of "counter_key global_counter"] keep show ?thesis by (auto simp: used)
qed

section \<open>Interleaved additions\<close>


definition sample_value :: "u64 \<Rightarrow> cached_value" where
  "sample_value n = \<lparr>cv_value = \<lparr>av_value = n, av_expiry = expiry_new (window global_counter)\<rparr>, cv_initial = 0,
     cv_authority = False\<rparr>"

definition sample_cells :: "(nat \<times> cached_value) list \<Rightarrow> string counters_cache" where
  "sample_cells xs = (counters_cache_build 8 1000)\<lparr>cells := xs, next_cell := length xs\<rparr>"

definition sample_run :: "string writer \<Rightarrow> string writer \<Rightarrow> string counters_cache \<Rightarrow> string cache_run" where
  "sample_run p q s = \<lparr>run_cache = s, run_now = 0, run_callers = (\<lambda>_. Idle)(0 := p, 1 := q)\<rparr>"

lemma sample_run_simps [simp]:
  "run_cache (sample_run p q s) = s" "run_now (sample_run p q s) = 0"
  "run_callers (sample_run p q s) 0 = p" "run_callers (sample_run p q s) (Suc 0) = q"
  "moves 0 p' s' (sample_run p q s) = sample_run p' q s'" "moves (Suc 0) q' s' (sample_run p q s) = sample_run p q' s'"
  by (simp_all add: sample_run_def moves_def fun_eq_iff)

lemma sample_run_new: "cache_run_new 8 1000 0 = sample_run Idle Idle (sample_cells [])"
  by (simp add: sample_run_def cache_run_new_def sample_cells_def counters_cache_build_def fun_eq_iff)

lemma sample_value_facts:
  "cv_load_from_authority_asap 0 global_counter 0 = Some (sample_value 0)"
  "value_update d (window global_counter) 0 (cv_value (sample_value n)) = Some (n + d, cv_value (sample_value (n + d)))"
  "(sample_value n)\<lparr>cv_value := cv_value (sample_value m)\<rparr> = sample_value m"
  "(sample_value n)\<lparr>cv_initial := 0\<rparr> = sample_value n"
  "cv_no_pending_writes 0 (sample_value n) \<longleftrightarrow> n = 0" "\<not> cv_authority (sample_value n)"
  "\<not> expired_at (av_expiry (cv_value (sample_value n))) 0"
proof -
  have time: "in_time 0 global_counter" using sample_call_ok by (simp add: call_ok_def)
  note t = in_time_facts [OF time]
  show "cv_load_from_authority_asap 0 global_counter 0 = Some (sample_value 0)"
    using t(3) by (simp add: cv_load_from_authority_asap_def sample_value_def value_new_def)
  show opens: "\<not> expired_at (av_expiry (cv_value (sample_value n))) 0" for n
    using t by (simp add: sample_value_def expired_at_def expiry_new_def word_le_nat_alt)
  have "as_micros (window global_counter) < 2 ^ 64"
    by (simp add: sample_defs window_def from_secs_def as_micros_def)
  then show "value_update d (window global_counter) 0 (cv_value (sample_value n)) = Some (n + d, cv_value (sample_value (n + d)))"
    using opens [of n] by (simp add: value_update_def update_if_expired_def expired_at_def sample_value_def Let_def)
  show "cv_no_pending_writes 0 (sample_value n) \<longleftrightarrow> n = 0"
    using opens [of n] by (simp add: cv_no_pending_writes_def value_at_def checked_sub_def) (simp add: sample_value_def)
qed (simp_all add: sample_value_def)


text \<open>C39: the reset of the initial value can come late.  A caller that opened a window has added and is about to
  reset the initial value; meanwhile another caller has queued the value and the flush has taken its writes.
  The reset makes all of them pending again: the next flush takes, and sends, the same writes a second
  time.\<close>

theorem late_reset_sends_twice:
  assumes "run_callers \<sigma> i = Due c r" and "(k, c', r) \<in> set (updates (the_batcher (run_cache \<sigma>)))"
    and "map_of (cells (run_cache \<sigma>)) r = Some cv" and "\<not> expired_at (av_expiry (cv_value cv)) (run_now \<sigma>)"
    and "0 < av_value (cv_value cv)" and "cv_initial cv = 0"
  defines "row \<equiv> (c', av_value (cv_value cv), av_value (cv_value cv), 0)"
  shows "\<exists>s1 \<sigma>2 s2. take_pending (run_now \<sigma>) [(k, c', r)] (run_cache \<sigma>) = Some ([row], s1) \<and>
    cache_runs [Takes, Resets i] \<sigma> \<sigma>2 \<and>
    take_pending (run_now \<sigma>2) [(k, c', r)] (run_cache \<sigma>2) = Some ([row], s2)"
  using reset_after_take [OF assms(1-6)] by (simp only: row_def)

theorem late_reset_sends_twice_witness:
  "\<exists>\<sigma> s1 \<sigma>2 s2. cache_runs [Looks 0, Inserts 0, Looks 1, Adds 0, Adds 1, Queues 1] (cache_run_new 8 1000 0) \<sigma> \<and>
    take_pending 0 [(counter_key global_counter, global_counter, 0)] (run_cache \<sigma>) = Some ([(global_counter, 5, 5, 0)], s1) \<and>
    cache_runs [Takes, Resets 0] \<sigma> \<sigma>2 \<and>
    take_pending (run_now \<sigma>2) [(counter_key global_counter, global_counter, 0)] (run_cache \<sigma>2) =
      Some ([(global_counter, 5, 5, 0)], s2)"
proof -
  let ?g = "global_counter" and ?k = "counter_key global_counter"
  let ?A = "sample_cells [(0, sample_value 0)]"
  let ?B = "\<lambda>n. ?A\<lparr>cells := [(0, sample_value n)], cache := [(?k, 0)]\<rparr>"
  let ?Q = "(?B 5)\<lparr>the_batcher := (the_batcher ?A)\<lparr>updates := [(?k, ?g, 0)], permits := 7, priority_flush := True, bt_notified := True\<rparr>\<rparr>"
  let ?\<sigma> = "sample_run (Due ?g 0) Idle ?Q"
  note defs = sample_value_facts sample_cells_def counters_cache_build_def batcher_new_def queued_def
  have s1: "cache_step (Looks 0) (sample_run Idle Idle (sample_cells [])) (sample_run (Found ?g 2 0) Idle ?A)"
    using cache_step.miss [of "sample_run Idle Idle (sample_cells [])" 0 ?g "at 0" 0 ?A 2]
    by (simp add: cc_increase_init_def new_cell_def defs)
  have s2: "cache_step (Inserts 0) (sample_run (Found ?g 2 0) Idle ?A) (sample_run (Got ?g 2 0) Idle (?B 0))"
    using cache_step.insert [of "sample_run (Found ?g 2 0) Idle ?A" 0 ?g 2 0 "at 0"]
    by (simp add: cached_insert_def cache_insert_def defs)
  have s3: "cache_step (Looks 1) (sample_run (Got ?g 2 0) Idle (?B 0)) (sample_run (Got ?g 2 0) (Got ?g 3 0) (?B 0))"
    using cache_step.hit [of "sample_run (Got ?g 2 0) Idle (?B 0)" 1 ?g 0 3] by simp
  have s4: "cache_step (Adds 0) (sample_run (Got ?g 2 0) (Got ?g 3 0) (?B 0)) (sample_run (Due ?g 0) (Got ?g 3 0) (?B 2))"
    using cache_step.add [of "sample_run (Got ?g 2 0) (Got ?g 3 0) (?B 0)" 0 ?g 2 0 "sample_value 0"]
    by (simp add: set_cell_def defs)
  have s5: "cache_step (Adds 1) (sample_run (Due ?g 0) (Got ?g 3 0) (?B 2)) (sample_run (Due ?g 0) (Wrote ?g 0) (?B 5))"
    using cache_step.add [of "sample_run (Due ?g 0) (Got ?g 3 0) (?B 2)" 1 ?g 3 0 "sample_value 2"]
    by (simp add: set_cell_def defs)
  have s6: "cache_step (Queues 1) (sample_run (Due ?g 0) (Wrote ?g 0) (?B 5)) ?\<sigma>"
    using cache_step.queue [of "sample_run (Due ?g 0) (Wrote ?g 0) (?B 5)" 1 ?g 0 "at 0" ?Q]
    by (simp add: batcher_add_def cv_requires_fast_flush_def defs)
  have run: "cache_runs [Looks 0, Inserts 0, Looks 1, Adds 0, Adds 1, Queues 1] (cache_run_new 8 1000 0) ?\<sigma>"
    unfolding sample_run_new
    by (rule cache_runs.cons [OF s1 cache_runs.cons [OF s2 cache_runs.cons [OF s3 cache_runs.cons [OF s4 cache_runs.cons [OF s5 cache_runs.cons [OF s6 cache_runs.nil]]]]]])
  have v: "av_value (cv_value (sample_value 5)) = 5" "cv_initial (sample_value 5) = 0" by (simp_all add: sample_value_def)
  have pre: "run_callers ?\<sigma> 0 = Due ?g 0" "(?k, ?g, 0) \<in> set (updates (the_batcher (run_cache ?\<sigma>)))"
    "map_of (cells (run_cache ?\<sigma>)) 0 = Some (sample_value 5)"
    "\<not> expired_at (av_expiry (cv_value (sample_value 5))) (run_now ?\<sigma>)" "0 < av_value (cv_value (sample_value 5))"
    by (simp_all add: sample_value_facts v)
  from late_reset_sends_twice [OF pre v(2)] run show ?thesis unfolding v(1) sample_run_simps(2) by blast
qed

end
