(* ===== verification/Server.thy ===== *)
theory Server
  imports AsyncLimiter
begin

text \<open>
  The gRPC services of the server: Envoy's \<^verbatim>\<open>ShouldRateLimit\<close>
  (\<^verbatim>\<open>limitador-server/src/envoy_rls/server.rs\<close>), Kuadrant's \<^verbatim>\<open>CheckRateLimit\<close>, \<^verbatim>\<open>Report\<close>, \<^verbatim>\<open>Reserve\<close> and
  \<^verbatim>\<open>Commit\<close> (\<^verbatim>\<open>kuadrant_service.rs\<close>), and the counters they publish (\<^verbatim>\<open>prometheus_metrics.rs\<close>).

  The limiter is a blocking or an asynchronous one over the same method table.  Tracing spans are left
  out.  External are the recorder of metrics, a map from a name and labels to a count; the debug text
  of an error, \<open>dbg\<close>; and the conversion of a protobuf duration, \<open>to_duration\<close>.
\<close>

section \<open>Metrics\<close>

record 'e prometheus =
  use_limit_name_label :: bool
  custom_labels :: "(string \<times> 'e expression) list"
  default_labels :: "'e expression option"
  recorded :: "((string \<times> (string \<times> string) list) \<times> u64) list"

definition prometheus_new :: "bool \<Rightarrow> 'e expression option \<Rightarrow> 'e prometheus" where
  "prometheus_new by_name defaults =
     \<lparr>use_limit_name_label = by_name, custom_labels = [], default_labels = defaults, recorded = []\<rparr>"

definition increment :: "string \<Rightarrow> (string \<times> string) list \<Rightarrow> u64 \<Rightarrow> 'e prometheus \<Rightarrow> 'e prometheus" where
  "increment name labels n p =
     p\<lparr>recorded := AList.update (name, labels)
         ((case map_of (recorded p) (name, labels) of Some x \<Rightarrow> x | None \<Rightarrow> 0) + n) (recorded p)\<rparr>"

definition metric_labels :: "'e cel \<Rightarrow> cel_context \<Rightarrow> 'e prometheus \<Rightarrow> (string \<times> string) list" where
  "metric_labels cel ctx p =
     (let labels = List.map_filter (\<lambda>(label, e).
            (case eval cel e ctx of Inr (Some v) \<Rightarrow> Some (label, v) | _ \<Rightarrow> None)) (custom_labels p)
      in case default_labels p of
           Some d \<Rightarrow> (case eval_map cel d ctx of Inr m \<Rightarrow> m @ labels | Inl _ \<Rightarrow> labels)
         | None \<Rightarrow> labels)"

definition incr_authorized_calls :: "'e cel \<Rightarrow> string \<Rightarrow> cel_context \<Rightarrow> 'e prometheus \<Rightarrow> 'e prometheus" where
  "incr_authorized_calls cel ns ctx p =
     increment ''authorized_calls'' (metric_labels cel ctx p @ [(''limitador_namespace'', ns)]) 1 p"

definition incr_report_calls :: "'e cel \<Rightarrow> string \<Rightarrow> cel_context \<Rightarrow> 'e prometheus \<Rightarrow> 'e prometheus" where
  "incr_report_calls cel ns ctx p =
     increment ''report_calls'' (metric_labels cel ctx p @ [(''limitador_namespace'', ns)]) 1 p"

definition incr_authorized_hits :: "'e cel \<Rightarrow> string \<Rightarrow> cel_context \<Rightarrow> u64 \<Rightarrow> 'e prometheus \<Rightarrow> 'e prometheus" where
  "incr_authorized_hits cel ns ctx hits p =
     increment ''authorized_hits'' (metric_labels cel ctx p @ [(''limitador_namespace'', ns)]) hits p"

definition incr_limited_calls ::
  "'e cel \<Rightarrow> string \<Rightarrow> string option \<Rightarrow> cel_context \<Rightarrow> 'e prometheus \<Rightarrow> 'e prometheus" where
  "incr_limited_calls cel ns name ctx p =
     increment ''limited_calls''
       (metric_labels cel ctx p @ [(''limitador_namespace'', ns)]
        @ (if use_limit_name_label p then [(''limit_name'', case name of Some n \<Rightarrow> n | None \<Rightarrow> [])] else [])) 1 p"

definition set_custom_labels :: "(string \<times> 'e expression) list \<Rightarrow> 'e prometheus \<Rightarrow> 'e prometheus" where
  "set_custom_labels labels p = p\<lparr>custom_labels := labels\<rparr>"

section \<open>Requests and answers\<close>

datatype code = CodeUnknown | CodeOk | CodeOverLimit

datatype grpc_status = Unavailable string | FailedPrecondition string | Internal string | Unimplemented string

record rate_limit_request =
  domain :: string
  descriptors :: "(string \<times> string) list list"
  hits_addend :: "32 word"

record rate_limit_response =
  overall_code :: code
  response_headers_to_add :: "(string \<times> string) list"

record reserve_request =
  rq_domain :: string
  rq_descriptors :: "(string \<times> string) list list"
  rq_amount :: u64
  rq_ttl :: "(int \<times> int) option"

record reserve_response =
  rp_code :: code
  rp_reservation_id :: "string option"
  rp_reserved_amount :: u64
  rp_headers :: "(string \<times> string) list"

record commit_request =
  cq_domain :: string
  cq_descriptors :: "(string \<times> string) list list"
  cq_reservation_id :: "string option"
  cq_actual_amount :: u64

datatype rate_limit_headers = NoHeaders | DraftVersion03

definition headers_from_map :: "rate_limit_headers \<Rightarrow> (string \<times> string) list \<Rightarrow> (string \<times> string) list" where
  "headers_from_map h headers = (case h of NoHeaders \<Rightarrow> [] | DraftVersion03 \<Rightarrow> sort_key fst headers)"

text \<open>The debug text of a derived \<^verbatim>\<open>Debug\<close> is the parameter \<open>dbg\<close>.\<close>

definition show_limitador_error :: "(limitador_error \<Rightarrow> string) \<Rightarrow> limitador_error \<Rightarrow> string" where
  "show_limitador_error dbg e =
     (case e of
        StorageError _ \<Rightarrow> ''error while accessing the limits storage: '' @ dbg e
      | InterpreterError _ \<Rightarrow> ''error parsing condition: '' @ dbg e)"

definition status_from_error :: "(limitador_error \<Rightarrow> string) \<Rightarrow> limitador_error \<Rightarrow> grpc_status" where
  "status_from_error dbg e =
     (case e of
        InterpreterError _ \<Rightarrow> Internal (show_limitador_error dbg e)
      | StorageError err \<Rightarrow>
          if is_transient err then Unavailable ''Service unavailable''
          else FailedPrecondition (show_limitador_error dbg e))"

definition hash_map :: "('k \<times> 'v) list \<Rightarrow> ('k \<times> 'v) list" where
  "hash_map kvs = fold (\<lambda>(k, v). AList.update k v) kvs []"

definition context_from_descriptors :: "(string \<times> string) list list \<Rightarrow> cel_context" where
  "context_from_descriptors ds = list_binding ''descriptors'' (map hash_map ds) context_default"

text \<open>\<^verbatim>\<open>hits_addend\<close> defaults to one.\<close>

definition hits_of :: "rate_limit_request \<Rightarrow> u64" where
  "hits_of req = (if hits_addend req = 0 then 1 else ucast (hits_addend req))"

section \<open>The services\<close>

record ('s, 'e) server =
  sv_async :: bool
  sv_limiter :: "('s, 'e) rate_limiter"
  sv_metrics :: "'e prometheus"
  sv_headers :: rate_limit_headers
  sv_disable_reservations :: bool

type_synonym ('s, 'e, 'a) service = "('s, 'e) server \<Rightarrow> ((grpc_status + 'a) \<times> ('s, 'e) server) option"

definition unknown_response :: rate_limit_response where
  "unknown_response = \<lparr>overall_code = CodeUnknown, response_headers_to_add = []\<rparr>"

definition should_rate_limit ::
  "('env, 's, 'e) counter_storage \<Rightarrow> 'e cel \<Rightarrow> 'env \<Rightarrow> rate_limit_request \<Rightarrow> ('s, 'e, rate_limit_response) service" where
  "should_rate_limit cs cel env req sv =
     (if domain req = [] then Some (Inr unknown_response, sv)
      else do {
        let ns = domain req;
        let hits = hits_of req;
        let ctx = list_binding ''descriptors'' (map hash_map (descriptors req)) context_default;
        (r, rl) \<leftarrow> (if sv_async sv then async_check_rate_limited_and_update cs cel env ns ctx hits (sv_limiter sv)
          else check_rate_limited_and_update cs cel env ns ctx hits (sv_limiter sv));
        let sv = sv\<lparr>sv_limiter := rl\<rparr>;
        (case r of
           Inl e \<Rightarrow> Some (Inl (Unavailable ''Service unavailable''), sv)
         | Inr res \<Rightarrow>
             let headers = (if sv_headers sv \<noteq> NoHeaders then check_response_header res else []);
                 (answer, sv) =
                   (if limited res
                    then (CodeOverLimit,
                      sv\<lparr>sv_metrics := incr_limited_calls cel ns (result_limit_name res) ctx (sv_metrics sv)\<rparr>)
                    else (CodeOk,
                      sv\<lparr>sv_metrics := incr_authorized_hits cel ns ctx hits
                         (incr_authorized_calls cel ns ctx (sv_metrics sv))\<rparr>))
             in Some (Inr \<lparr>overall_code = answer,
                           response_headers_to_add = headers_from_map (sv_headers sv) headers\<rparr>, sv))
      })"

definition kuadrant_check_rate_limit ::
  "('env, 's, 'e) counter_storage \<Rightarrow> 'e cel \<Rightarrow> (limitador_error \<Rightarrow> string) \<Rightarrow> 'env \<Rightarrow> rate_limit_request \<Rightarrow>
   ('s, 'e, rate_limit_response) service" where
  "kuadrant_check_rate_limit cs cel dbg env req sv =
     (if domain req = [] then Some (Inr unknown_response, sv)
      else do {
        let ns = domain req;
        let ctx = context_from_descriptors (descriptors req);
        (r, rl) \<leftarrow> (if sv_async sv then async_is_rate_limited cs cel env ns ctx 1 (sv_limiter sv)
          else is_rate_limited cs cel env ns ctx 1 (sv_limiter sv));
        let sv = sv\<lparr>sv_limiter := rl\<rparr>;
        (case r of
           Inl e \<Rightarrow> Some (Inl (status_from_error dbg e), sv)
         | Inr res \<Rightarrow>
             let (answer, sv) =
                   (if limited res
                    then (CodeOverLimit,
                      sv\<lparr>sv_metrics := incr_limited_calls cel ns (result_limit_name res) ctx (sv_metrics sv)\<rparr>)
                    else (CodeOk, sv\<lparr>sv_metrics := incr_authorized_calls cel ns ctx (sv_metrics sv)\<rparr>));
                 headers = (if sv_headers sv \<noteq> NoHeaders then check_response_header res else [])
             in Some (Inr \<lparr>overall_code = answer,
                           response_headers_to_add = headers_from_map (sv_headers sv) headers\<rparr>, sv))
      })"

definition kuadrant_report ::
  "('env, 's, 'e) counter_storage \<Rightarrow> 'e cel \<Rightarrow> (limitador_error \<Rightarrow> string) \<Rightarrow> 'env \<Rightarrow> rate_limit_request \<Rightarrow>
   ('s, 'e, rate_limit_response) service" where
  "kuadrant_report cs cel dbg env req sv =
     (if domain req = [] then Some (Inr unknown_response, sv)
      else do {
        let ns = domain req;
        let hits = hits_of req;
        let ctx = context_from_descriptors (descriptors req);
        (r, rl) \<leftarrow> (if sv_async sv then async_update_counters cs cel env ns ctx hits (sv_limiter sv)
          else update_counters cs cel env ns ctx hits (sv_limiter sv));
        let sv = sv\<lparr>sv_limiter := rl\<rparr>;
        (case r of
           Inl e \<Rightarrow> Some (Inl (status_from_error dbg e), sv)
         | Inr _ \<Rightarrow>
             Some (Inr \<lparr>overall_code = CodeOk, response_headers_to_add = []\<rparr>,
               sv\<lparr>sv_metrics := incr_authorized_hits cel ns ctx hits
                  (incr_report_calls cel ns ctx (sv_metrics sv))\<rparr>))
      })"

definition kuadrant_reserve ::
  "('env, 's, 'e) counter_storage \<Rightarrow> 'e cel \<Rightarrow> (limitador_error \<Rightarrow> string) \<Rightarrow> (int \<times> int \<Rightarrow> duration option) \<Rightarrow>
   'env \<Rightarrow> reservation_id \<Rightarrow> reserve_request \<Rightarrow> ('s, 'e, reserve_response) service" where
  "kuadrant_reserve cs cel dbg to_duration env rid req sv =
     (if sv_disable_reservations sv then Some (Inl (Unimplemented ''reservations are disabled''), sv)
      else if rq_domain req = [] then
        Some (Inr \<lparr>rp_code = CodeUnknown, rp_reservation_id = None, rp_reserved_amount = 0, rp_headers = []\<rparr>, sv)
      else do {
        let ns = rq_domain req;
        let ctx = context_from_descriptors (rq_descriptors req);
        let ttl = Option.bind (rq_ttl req) to_duration;
        (r, rl) \<leftarrow> (if sv_async sv then async_reserve cs cel env rid ns ctx (rq_amount req) ttl (sv_limiter sv)
          else limiter_reserve cs cel env rid ns ctx (rq_amount req) ttl (sv_limiter sv));
        let sv = sv\<lparr>sv_limiter := rl\<rparr>;
        (case r of
           Inl e \<Rightarrow> Some (Inl (status_from_error dbg e), sv)
         | Inr res \<Rightarrow>
             let (answer, held_id, sv) =
                   (if rr_limited res
                    then (CodeOverLimit, None,
                      sv\<lparr>sv_metrics := incr_limited_calls cel ns (rr_limit_name res) ctx (sv_metrics sv)\<rparr>)
                    else (CodeOk, rr_reservation_id res,
                      sv\<lparr>sv_metrics := incr_authorized_calls cel ns ctx (sv_metrics sv)\<rparr>));
                 headers = (if sv_headers sv \<noteq> NoHeaders then reserve_response_header res else [])
             in Some (Inr \<lparr>rp_code = answer, rp_reservation_id = held_id, rp_reserved_amount = rr_amount res,
                           rp_headers = headers_from_map (sv_headers sv) headers\<rparr>, sv))
      })"

definition kuadrant_commit ::
  "('env, 's, 'e) counter_storage \<Rightarrow> 'e cel \<Rightarrow> (limitador_error \<Rightarrow> string) \<Rightarrow> 'env \<Rightarrow> commit_request \<Rightarrow>
   ('s, 'e, commit_result) service" where
  "kuadrant_commit cs cel dbg env req sv =
     (if sv_disable_reservations sv then Some (Inl (Unimplemented ''reservations are disabled''), sv)
      else if cq_domain req = [] then Some (Inr \<lparr>reservation_released = False\<rparr>, sv)
      else do {
        let ns = cq_domain req;
        let ctx = context_from_descriptors (cq_descriptors req);
        (r, rl) \<leftarrow> (if sv_async sv
          then async_commit_reservation cs cel env ns ctx (cq_reservation_id req) (cq_actual_amount req) (sv_limiter sv)
          else commit_reservation cs cel env ns ctx (cq_reservation_id req) (cq_actual_amount req) (sv_limiter sv));
        let sv = sv\<lparr>sv_limiter := rl\<rparr>;
        (case r of
           Inl e \<Rightarrow> Some (Inl (status_from_error dbg e), sv)
         | Inr res \<Rightarrow>
             Some (Inr res,
               sv\<lparr>sv_metrics := incr_authorized_hits cel ns ctx (cq_actual_amount req)
                  (incr_report_calls cel ns ctx (sv_metrics sv))\<rparr>))
      })"

end
