(* ===== verification/HttpApi.thy ===== *)
theory HttpApi
  imports Server
begin

text \<open>
  The HTTP API of the server: \<^verbatim>\<open>limitador-server/src/http_api/server.rs\<close> and the data it exchanges,
  \<^verbatim>\<open>request_types.rs\<close>.  JSON, routing and the OpenAPI description are external.
\<close>

section \<open>Data\<close>

record check_and_report_info =
  ci_namespace :: string
  ci_values :: "(string \<times> string) list"
  ci_delta :: u64
  ci_response_headers :: "string option"

record limit_vo =
  vo_id :: "string option"
  vo_namespace :: string
  vo_max_value :: u64
  vo_seconds :: u64
  vo_name :: "string option"
  vo_conditions :: "string list"
  vo_variables :: "string list"

record counter_vo =
  vo_limit :: limit_vo
  vo_set_variables :: "(string \<times> string) list"
  vo_remaining :: "u64 option"
  vo_expires_in_seconds :: "u64 option"

text \<open>The conditions and the variables of a limit come in the order of a hash set; here it is the order of
  their texts.\<close>

definition limit_vo_of :: "'e limit \<Rightarrow> limit_vo" where
  "limit_vo_of l =
     \<lparr>vo_id = limit_id l, vo_namespace = namespace l, vo_max_value = max_value l, vo_seconds = seconds l,
      vo_name = limit_name l, vo_conditions = sorted_list_of_set (conditions_set l),
      vo_variables = sorted_list_of_set (variables_set l)\<rparr>"

primrec parse_all :: "(string \<Rightarrow> parse_error + 'a) \<Rightarrow> string list \<Rightarrow> parse_error + 'a list" where
  "parse_all f [] = Inr []"
| "parse_all f (x # xs) =
     (case f x of
        Inl e \<Rightarrow> Inl e
      | Inr y \<Rightarrow> (case parse_all f xs of Inl e \<Rightarrow> Inl e | Inr ys \<Rightarrow> Inr (y # ys)))"

definition limit_of_vo :: "'e cel \<Rightarrow> limit_vo \<Rightarrow> parse_error + 'e limit" where
  "limit_of_vo cel vo =
     (case parse_all (predicate_parse cel) (vo_conditions vo) of
        Inl e \<Rightarrow> Inl e
      | Inr conds \<Rightarrow>
          (case parse_all (expression_parse cel) (vo_variables vo) of
             Inl e \<Rightarrow> Inl e
           | Inr vars \<Rightarrow>
               let l = (case vo_id vo of
                     Some i \<Rightarrow> limit_with_id i (vo_namespace vo) (vo_max_value vo) (vo_seconds vo) conds vars
                   | None \<Rightarrow> limit_new (vo_namespace vo) (vo_max_value vo) (vo_seconds vo) conds vars)
               in Inr (case vo_name vo of Some n \<Rightarrow> set_name n l | None \<Rightarrow> l)))"

definition counter_vo_of :: "'e counter \<Rightarrow> counter_vo" where
  "counter_vo_of c =
     \<lparr>vo_limit = limit_vo_of (limit c), vo_set_variables = set_variables c, vo_remaining = remaining c,
      vo_expires_in_seconds = map_option as_secs (expires_in c)\<rparr>"

section \<open>Handlers\<close>

datatype error_response = TooManyRequests | InternalServerError

definition show_error_response :: "error_response \<Rightarrow> string" where
  "show_error_response e =
     (case e of TooManyRequests \<Rightarrow> ''Too many requests'' | InternalServerError \<Rightarrow> ''Internal server error'')"

definition status_code :: "error_response \<Rightarrow> nat" where
  "status_code e = (case e of TooManyRequests \<Rightarrow> 429 | InternalServerError \<Rightarrow> 500)"

record http_response =
  hr_status :: nat
  hr_headers :: "(string \<times> string) list"

type_synonym ('s, 'e, 'a) http_handler = "('s, 'e) server \<Rightarrow> ((error_response + 'a) \<times> ('s, 'e) server) option"

definition values_context :: "(string \<times> string) list \<Rightarrow> cel_context" where
  "values_context vs = list_binding ''descriptors'' [vs] context_default"

definition http_get_limits :: "string \<Rightarrow> ('s, 'e, limit_vo list) http_handler" where
  "http_get_limits ns sv = Some (Inr (map limit_vo_of (limiter_get_limits ns (sv_limiter sv))), sv)"

definition http_get_counters ::
  "('env, 's, 'e) counter_storage \<Rightarrow> 'env \<Rightarrow> string \<Rightarrow> ('s, 'e, counter_vo list) http_handler" where
  "http_get_counters cs env ns sv = do {
     (r, rl) \<leftarrow> (if sv_async sv then async_limiter_get_counters cs env ns (sv_limiter sv)
       else limiter_get_counters cs env ns (sv_limiter sv));
     Some (case r of Inl _ \<Rightarrow> Inl InternalServerError | Inr res \<Rightarrow> Inr (map counter_vo_of res), sv\<lparr>sv_limiter := rl\<rparr>)
   }"

definition http_check ::
  "('env, 's, 'e) counter_storage \<Rightarrow> 'e cel \<Rightarrow> 'env \<Rightarrow> check_and_report_info \<Rightarrow> ('s, 'e, unit) http_handler" where
  "http_check cs cel env req sv = do {
     let ctx = values_context (ci_values req);
     (r, rl) \<leftarrow> (if sv_async sv then async_is_rate_limited cs cel env (ci_namespace req) ctx (ci_delta req) (sv_limiter sv)
       else is_rate_limited cs cel env (ci_namespace req) ctx (ci_delta req) (sv_limiter sv));
     Some (case r of
         Inl _ \<Rightarrow> Inl InternalServerError
       | Inr res \<Rightarrow> if limited res then Inl TooManyRequests else Inr (), sv\<lparr>sv_limiter := rl\<rparr>)
   }"

definition http_report ::
  "('env, 's, 'e) counter_storage \<Rightarrow> 'e cel \<Rightarrow> 'env \<Rightarrow> check_and_report_info \<Rightarrow> ('s, 'e, unit) http_handler" where
  "http_report cs cel env req sv = do {
     let ctx = values_context (ci_values req);
     (r, rl) \<leftarrow> (if sv_async sv then async_update_counters cs cel env (ci_namespace req) ctx (ci_delta req) (sv_limiter sv)
       else update_counters cs cel env (ci_namespace req) ctx (ci_delta req) (sv_limiter sv));
     Some (case r of Inl _ \<Rightarrow> Inl InternalServerError | Inr _ \<Rightarrow> Inr (), sv\<lparr>sv_limiter := rl\<rparr>)
   }"

definition add_response_header :: "string \<Rightarrow> 'e check_result \<Rightarrow> http_response \<Rightarrow> http_response" where
  "add_response_header kind res resp =
     (if kind = ''DraftVersion03'' then
        let headers = check_response_header res;
            entry = (\<lambda>name. case map_of headers name of Some v \<Rightarrow> [(name, v)] | None \<Rightarrow> [])
        in resp\<lparr>hr_headers := hr_headers resp @ entry ''X-RateLimit-Limit'' @ entry ''X-RateLimit-Remaining''
             @ (if map_of headers ''X-RateLimit-Remaining'' = None then [] else entry ''X-RateLimit-Reset'')\<rparr>
      else resp)"

definition http_check_and_report ::
  "('env, 's, 'e) counter_storage \<Rightarrow> 'e cel \<Rightarrow> 'env \<Rightarrow> check_and_report_info \<Rightarrow> ('s, 'e) server \<Rightarrow>
   (http_response \<times> ('s, 'e) server) option" where
  "http_check_and_report cs cel env req sv = do {
     let ns = ci_namespace req;
     let ctx = values_context (ci_values req);
     (r, rl) \<leftarrow> (if sv_async sv
       then async_check_rate_limited_and_update cs cel env ns ctx (ci_delta req) (sv_limiter sv)
       else check_rate_limited_and_update cs cel env ns ctx (ci_delta req) (sv_limiter sv));
     let sv = sv\<lparr>sv_limiter := rl\<rparr>;
     (case r of
        Inl _ \<Rightarrow> Some (\<lparr>hr_status = 500, hr_headers = []\<rparr>, sv)
      | Inr res \<Rightarrow>
          let (resp, sv) =
                (if limited res
                 then (\<lparr>hr_status = 429, hr_headers = []\<rparr>,
                   sv\<lparr>sv_metrics := incr_limited_calls cel ns (result_limit_name res) ctx (sv_metrics sv)\<rparr>)
                 else (\<lparr>hr_status = 200, hr_headers = []\<rparr>,
                   sv\<lparr>sv_metrics := incr_authorized_hits cel ns ctx (ci_delta req)
                      (incr_authorized_calls cel ns ctx (sv_metrics sv))\<rparr>))
          in Some (case ci_response_headers req of None \<Rightarrow> resp | Some kind \<Rightarrow> add_response_header kind res resp, sv))
   }"

end
