(* ===== verification/Config.thy ===== *)
theory Config
  imports HttpApi CachedRedis Disk Distributed
begin

text \<open>
  Configuring and starting the server: \<^verbatim>\<open>limitador-server/src/config.rs\<close> and \<^verbatim>\<open>main.rs\<close>.

  External are the command line parser, whose result is the record \<open>matches\<close> (values validated and
  defaulted by it); the environment, a function from names to values; files and their YAML; and the
  \<^verbatim>\<open>url\<close> crate.
\<close>

section \<open>Configuration\<close>

record redis_cache_configuration =
  rcc_batch_size :: nat
  rcc_flushing_period :: int
  rcc_max_counters :: nat
  rcc_response_timeout :: u64

datatype storage_configuration =
    InMemoryStorage "u64 option"
  | DiskStorage string optimize_for
  | RedisStorage string "redis_cache_configuration option"
  | DistributedStorage string "u64 option" string "string list"

record 'e configuration =
  cf_limits_file :: string
  cf_storage :: storage_configuration
  cf_rls_host :: string
  cf_rls_port :: "16 word"
  cf_http_host :: string
  cf_http_port :: "16 word"
  cf_limit_name_in_labels :: bool
  cf_metric_labels_file :: "string option"
  cf_metric_labels_default :: "'e expression option"
  cf_tracing_endpoint :: string
  cf_log_level :: "nat option"
  cf_structured_logs :: bool
  cf_rate_limit_headers :: rate_limit_headers
  cf_grpc_reflection_service :: bool
  cf_disable_reservations :: bool
  cf_max_reservation_fraction :: f64
  cf_max_reservation_ttl :: duration

definition configuration_with ::
  "storage_configuration \<Rightarrow> string \<Rightarrow> string \<Rightarrow> 16 word \<Rightarrow> string \<Rightarrow> 16 word \<Rightarrow> bool \<Rightarrow> string option \<Rightarrow>
   'e expression option \<Rightarrow> string \<Rightarrow> rate_limit_headers \<Rightarrow> bool \<Rightarrow> 'e configuration" where
  "configuration_with st limits_file rls_host rls_port http_host http_port by_name labels_file labels_default
     tracing headers reflection =
     \<lparr>cf_limits_file = limits_file, cf_storage = st, cf_rls_host = rls_host, cf_rls_port = rls_port,
      cf_http_host = http_host, cf_http_port = http_port, cf_limit_name_in_labels = by_name,
      cf_metric_labels_file = labels_file, cf_metric_labels_default = labels_default,
      cf_tracing_endpoint = tracing, cf_log_level = None, cf_structured_logs = False,
      cf_rate_limit_headers = headers, cf_grpc_reflection_service = reflection, cf_disable_reservations = False,
      cf_max_reservation_fraction = (1, 1), cf_max_reservation_ttl = from_secs 60\<rparr>"

definition rlp_address :: "'e configuration \<Rightarrow> string" where
  "rlp_address cf = cf_rls_host cf @ '':'' @ show_nat (unat (cf_rls_port cf))"

definition http_address :: "'e configuration \<Rightarrow> string" where
  "http_address cf = cf_http_host cf @ '':'' @ show_nat (unat (cf_http_port cf))"

record 'u url_crate =
  url_parse :: "string \<Rightarrow> 'u option"
  url_password :: "'u \<Rightarrow> string option"
  url_set_password :: "string \<Rightarrow> 'u \<Rightarrow> 'u option"
  url_text :: "'u \<Rightarrow> string"

definition redacted_url :: "'u url_crate \<Rightarrow> string \<Rightarrow> string" where
  "redacted_url uc url =
     (case url_parse uc url of
        None \<Rightarrow> url
      | Some u \<Rightarrow>
          if url_password uc u = None then url
          else (case url_set_password uc ''****'' u of Some u' \<Rightarrow> url_text uc u' | None \<Rightarrow> url))"

section \<open>Reading the command line and the environment\<close>

definition env_option_is_enabled :: "(string \<Rightarrow> string option) \<Rightarrow> string \<Rightarrow> bool" where
  "env_option_is_enabled var name = (case var name of Some v \<Rightarrow> v = ''1'' | None \<Rightarrow> False)"

definition storage_config_from_env ::
  "(string \<Rightarrow> nat option) \<Rightarrow> (string \<Rightarrow> int option) \<Rightarrow> (string \<Rightarrow> string option) \<Rightarrow> storage_configuration option" where
  "storage_config_from_env parse_usize parse_int var =
     (case var ''REDIS_URL'' of
        None \<Rightarrow> Some (InMemoryStorage None)
      | Some url \<Rightarrow>
          if env_option_is_enabled var ''REDIS_LOCAL_CACHE_ENABLED'' then do {
            batch \<leftarrow> parse_usize (case var ''REDIS_LOCAL_CACHE_BATCH_SIZE'' of Some v \<Rightarrow> v | None \<Rightarrow> ''100'');
            flush \<leftarrow> parse_int (case var ''REDIS_LOCAL_CACHE_FLUSHING_PERIOD_MS'' of Some v \<Rightarrow> v | None \<Rightarrow> ''1000'');
            Some (RedisStorage url (Some \<lparr>rcc_batch_size = batch, rcc_flushing_period = flush,
              rcc_max_counters = 10000, rcc_response_timeout = 350\<rparr>))
          }
          else Some (RedisStorage url None))"

datatype subcommand =
    RedisCmd string
  | DiskCmd string string
  | RedisCachedCmd string nat int nat u64
  | MemoryCmd "u64 option"
  | DistributedCmd string string "string list" "u64 option"

record 'e matches =
  m_limits_file :: string
  m_subcommand :: "subcommand option"
  m_rate_limit_headers :: string
  m_ip :: string
  m_port :: "16 word"
  m_http_ip :: string
  m_http_port :: "16 word"
  m_limit_name_in_labels :: bool
  m_custom_metric_labels :: "string option"
  m_metric_labels_default :: "'e expression option"
  m_tracing_endpoint :: string
  m_grpc_reflection_service :: bool
  m_verbosity :: nat
  m_structured_logs :: bool
  m_disable_reservations :: bool
  m_max_reservation_fraction :: f64
  m_max_reservation_ttl :: u64

definition storage_of_matches ::
  "(string \<Rightarrow> nat option) \<Rightarrow> (string \<Rightarrow> int option) \<Rightarrow> (string \<Rightarrow> string option) \<Rightarrow> 'e matches \<Rightarrow>
   storage_configuration option" where
  "storage_of_matches parse_usize parse_int var m =
     (case m_subcommand m of
        None \<Rightarrow> storage_config_from_env parse_usize parse_int var
      | Some (RedisCmd url) \<Rightarrow> Some (RedisStorage url None)
      | Some (DiskCmd path optimize) \<Rightarrow>
          if optimize = ''disk'' then Some (DiskStorage path Space)
          else if optimize = ''throughput'' then Some (DiskStorage path Throughput)
          else None
      | Some (RedisCachedCmd url batch flush mx timeout) \<Rightarrow>
          Some (RedisStorage url (Some \<lparr>rcc_batch_size = batch, rcc_flushing_period = flush,
            rcc_max_counters = mx, rcc_response_timeout = timeout\<rparr>))
      | Some (MemoryCmd sz) \<Rightarrow> Some (InMemoryStorage sz)
      | Some (DistributedCmd name listen peers sz) \<Rightarrow> Some (DistributedStorage name sz listen peers))"

definition headers_of_matches :: "'e matches \<Rightarrow> rate_limit_headers option" where
  "headers_of_matches m =
     (if m_rate_limit_headers m = ''NONE'' then Some NoHeaders
      else if m_rate_limit_headers m = ''DRAFT_VERSION_03'' then Some DraftVersion03
      else None)"

text \<open>The part of \<^verbatim>\<open>create_config\<close> after parsing; the log level is the number of the verbosity.\<close>

definition create_config ::
  "(string \<Rightarrow> nat option) \<Rightarrow> (string \<Rightarrow> int option) \<Rightarrow> (string \<Rightarrow> string option) \<Rightarrow> 'e matches \<Rightarrow>
   'e configuration option" where
  "create_config parse_usize parse_int var m = do {
     st \<leftarrow> storage_of_matches parse_usize parse_int var m;
     headers \<leftarrow> headers_of_matches m;
     let cf = configuration_with st (m_limits_file m) (m_ip m) (m_port m) (m_http_ip m) (m_http_port m)
       (m_limit_name_in_labels m \<or> env_option_is_enabled var ''LIMIT_NAME_IN_PROMETHEUS_LABELS'')
       (m_custom_metric_labels m) (m_metric_labels_default m) (m_tracing_endpoint m) headers
       (m_grpc_reflection_service m);
     if 4 < m_verbosity m then None
     else Some (cf\<lparr>cf_log_level := (if m_verbosity m = 0 then None else Some (m_verbosity m)),
       cf_structured_logs := m_structured_logs m, cf_disable_reservations := m_disable_reservations m,
       cf_max_reservation_fraction := m_max_reservation_fraction m,
       cf_max_reservation_ttl := from_secs (m_max_reservation_ttl m)\<rparr>)
   }"

section \<open>The limiter\<close>

datatype ('d, 's, 'e) limiter =
    BlockingMemory "('e in_memory, 'e) rate_limiter"
  | BlockingDisk "('d disk, 'e) rate_limiter"
  | BlockingDistributed "('e cr_storage, 'e) rate_limiter"
  | AsyncPlainRedis "('s, 'e) rate_limiter"
  | AsyncCachedRedis "(('s, 'e) cached_redis, 'e) rate_limiter"

text \<open>\<open>None\<close> is the process exiting: a storage that cannot be opened, or no size for the cache.\<close>

definition limiter_new ::
  "'d rocksdb \<Rightarrow> (string \<Rightarrow> 's option) \<Rightarrow> u64 option \<Rightarrow> 'e configuration \<Rightarrow> ('d, 's, 'e) limiter option" where
  "limiter_new db connect guess_cache_size cf = (
     let rl = \<lparr>max_fraction = cf_max_reservation_fraction cf, max_ttl = cf_max_reservation_ttl cf\<rparr>
     in case cf_storage cf of
          RedisStorage url None \<Rightarrow>
            map_option (\<lambda>s. AsyncPlainRedis (build_limiter (with_counter_storage s) rl)) (connect url)
        | RedisStorage url (Some cfg) \<Rightarrow>
            map_option (\<lambda>s. AsyncCachedRedis (build_limiter (with_counter_storage
                (cached_redis_new (rcc_max_counters cfg)
                  (from_millis (word_of_int (rcc_flushing_period cfg))) s)) rl)) (connect url)
        | InMemoryStorage sz \<Rightarrow>
            (if sz = None \<and> guess_cache_size = None then None
             else Some (BlockingMemory (build_limiter (with_counter_storage in_memory_new) rl)))
        | DistributedStorage name sz listen peers \<Rightarrow>
            (if sz = None \<and> guess_cache_size = None then None
             else Some (BlockingDistributed (build_limiter (with_counter_storage (cr_storage_new name)) rl)))
        | DiskStorage path mode \<Rightarrow>
            map_option (\<lambda>d. BlockingDisk (build_limiter (with_counter_storage d) rl)) (disk_open db path mode))"

section \<open>Limits from a file\<close>

datatype server_error = ConfigFile string | InternalError limitador_error

definition show_server_error :: "(limitador_error \<Rightarrow> string) \<Rightarrow> server_error \<Rightarrow> string" where
  "show_server_error dbg e =
     (case e of
        ConfigFile m \<Rightarrow> ''Invalid limit file: '' @ m
      | InternalError le \<Rightarrow> ''Internal error: '' @ show_limitador_error dbg le)"

text \<open>The file: what cannot be opened, what cannot be parsed, or its limits.\<close>

datatype 'a read_file = Unreadable string | Malformed string | Parsed 'a

definition load_limits_from_file ::
  "('env, 's, 'e) counter_storage \<Rightarrow> 'env \<Rightarrow> string \<Rightarrow> 'e limit list read_file \<Rightarrow> ('s, 'e) server \<Rightarrow>
   ((server_error + unit) \<times> ('s, 'e) server) option" where
  "load_limits_from_file cs env path file sv =
     (case file of
        Unreadable e \<Rightarrow> Some (Inl (ConfigFile (''Couldn't read file '' @ [CHR 39] @ path @ [CHR 39] @ '': '' @ e)), sv)
      | Malformed e \<Rightarrow> Some (Inl (ConfigFile (''Couldn't parse: '' @ e)), sv)
      | Parsed ls \<Rightarrow> do {
          (r, rl) \<leftarrow> (if sv_async sv then async_configure_with cs env ls (sv_limiter sv)
            else configure_with cs env ls (sv_limiter sv));
          Some (map_sum InternalError id r, sv\<lparr>sv_limiter := rl\<rparr>)
        })"

record server_status =
  started_at :: systime
  config_applied_at :: systime
  config_version :: u64
  config_err_since :: u64

definition status_default :: "systime \<Rightarrow> server_status" where
  "status_default now = \<lparr>started_at = now, config_applied_at = now, config_version = 0, config_err_since = 0\<rparr>"

definition config_success :: "systime \<Rightarrow> server_status \<Rightarrow> server_status" where
  "config_success now st =
     st\<lparr>config_applied_at := now, config_version := config_version st + 1, config_err_since := 0\<rparr>"

definition config_failure :: "server_status \<Rightarrow> server_status" where
  "config_failure st = st\<lparr>config_err_since := config_err_since st + 1\<rparr>"

text \<open>The task the watcher spawns when the limits file changed.\<close>

definition reload_limits ::
  "('env, 's, 'e) counter_storage \<Rightarrow> 'env \<Rightarrow> systime \<Rightarrow> string \<Rightarrow> 'e limit list read_file \<Rightarrow>
   ('s, 'e) server \<times> server_status \<Rightarrow> (('s, 'e) server \<times> server_status) option" where
  "reload_limits cs env now path file = (\<lambda>(sv, st). do {
     (r, sv) \<leftarrow> load_limits_from_file cs env path file sv;
     Some (sv, case r of Inr _ \<Rightarrow> config_success now st | Inl _ \<Rightarrow> config_failure st)
   })"

definition parse_custom_labels_file ::
  "'e cel \<Rightarrow> string \<Rightarrow> (string \<times> string) list read_file \<Rightarrow> string + (string \<times> 'e expression) list" where
  "parse_custom_labels_file cel path file =
     (case file of
        Unreadable e \<Rightarrow> Inl (''Couldn't read file '' @ [CHR 39] @ path @ [CHR 39] @ '': '' @ e)
      | Malformed e \<Rightarrow> Inl (''Couldn't parse: '' @ e)
      | Parsed labels \<Rightarrow> Inr (List.map_filter (\<lambda>(k, v).
          (case expression_parse cel v of Inr e \<Rightarrow> Some (k, e) | Inl _ \<Rightarrow> None)) labels))"

definition reload_labels ::
  "'e cel \<Rightarrow> string \<Rightarrow> (string \<times> string) list read_file \<Rightarrow> ('s, 'e) server \<Rightarrow> ('s, 'e) server" where
  "reload_labels cel path file sv =
     (case parse_custom_labels_file cel path file of
        Inr labels \<Rightarrow> sv\<lparr>sv_metrics := set_custom_labels labels (sv_metrics sv)\<rparr>
      | Inl _ \<Rightarrow> sv)"

text \<open>The flag \<^verbatim>\<open>--validate\<close>: the exit code of the process and what it prints; writing YAML is external.\<close>

definition validate_limits ::
  "(limitador_error \<Rightarrow> string) \<Rightarrow> (limit_vo list \<Rightarrow> string + string) \<Rightarrow> string \<Rightarrow> 'e limit list read_file \<Rightarrow> nat \<times> string" where
  "validate_limits dbg to_yaml path file =
     (case file of
        Parsed ls \<Rightarrow>
          (0, case to_yaml (map limit_vo_of ls) of
                Inr cfg \<Rightarrow> cfg
              | Inl e \<Rightarrow> ''Config file is valid, but can't be output: '' @ e)
      | Malformed e \<Rightarrow> (1, show_server_error dbg (ConfigFile (''Couldn't parse: '' @ e)))
      | Unreadable e \<Rightarrow> (1, show_server_error dbg
          (ConfigFile (''Couldn't read file '' @ [CHR 39] @ path @ [CHR 39] @ '': '' @ e))))"

text \<open>The start of \<^verbatim>\<open>main\<close> once the limiter exists; \<open>Inl\<close> is the process exiting with that message.\<close>

definition start_up ::
  "('env, 's, 'e) counter_storage \<Rightarrow> 'env \<Rightarrow> 'e cel \<Rightarrow> (limitador_error \<Rightarrow> string) \<Rightarrow> string \<Rightarrow> 'e limit list read_file \<Rightarrow>
   (string \<times> (string \<times> string) list read_file) option \<Rightarrow> ('s, 'e) server \<Rightarrow> (string + ('s, 'e) server) option" where
  "start_up cs env cel dbg path file labels_file sv = do {
     (r, sv) \<leftarrow> load_limits_from_file cs env path file sv;
     Some (case r of
         Inl e \<Rightarrow> Inl (''Failed to load limit file: '' @ show_server_error dbg e)
       | Inr _ \<Rightarrow>
           (case labels_file of
              None \<Rightarrow> Inr sv
            | Some (lpath, lfile) \<Rightarrow>
                (case parse_custom_labels_file cel lpath lfile of
                   Inr labels \<Rightarrow> Inr (sv\<lparr>sv_metrics := set_custom_labels labels (sv_metrics sv)\<rparr>)
                 | Inl e \<Rightarrow> Inl (''Failed to load labels file: '' @ e))))
   }"

text \<open>The callback of the watcher: which reloads an event spawns.  \<open>canonicalize\<close> reads the file system.\<close>

datatype event_kind = ModifyData | RenameBoth | CreateOther | OtherEvent

record watch_state =
  ws_limit_cfg :: string
  ws_canonical_cfg :: string
  ws_labels_cfg :: "string option"
  ws_labels_canonical :: "string option"

datatype reload = ReloadLimits | ReloadLabels

definition on_watch_event ::
  "(string \<Rightarrow> string option) \<Rightarrow> event_kind \<Rightarrow> string list \<Rightarrow> watch_state \<Rightarrow> (reload list \<times> watch_state) option" where
  "on_watch_event canonicalize kind paths w =
     (if kind = OtherEvent \<or> paths = [] then Some ([], w)
      else do {
        let location = hd paths;
        let (limits, w) =
          (case canonicalize (ws_limit_cfg w) of
             Some actual \<Rightarrow>
               if location = ws_limit_cfg w \<or> ws_canonical_cfg w \<noteq> actual
               then ([ReloadLimits], w\<lparr>ws_canonical_cfg := actual\<rparr>) else ([], w)
           | None \<Rightarrow> ([], w));
        (case ws_labels_cfg w of
           None \<Rightarrow> Some (limits, w)
         | Some labels \<Rightarrow>
             (case canonicalize labels of
                None \<Rightarrow> Some (limits, w)
              | Some actual \<Rightarrow>
                  if location = labels then
                    Some (limits @ [ReloadLabels], w\<lparr>ws_labels_canonical := Some actual\<rparr>)
                  else do {
                    known \<leftarrow> ws_labels_canonical w;
                    Some (if known \<noteq> actual
                      then (limits @ [ReloadLabels], w\<lparr>ws_labels_canonical := Some actual\<rparr>) else (limits, w))
                  }))
      })"

end
