(* ===== verification/ServiceContract.thy ===== *)
theory ServiceContract
  imports Config MemoryStore RedisStore
begin

text \<open>
  What the services do over any counter storage that keeps the contract of theory Backend, and the
  totals of the metrics they publish.
\<close>

section \<open>Totals of the metrics\<close>

definition metric_total :: "string \<Rightarrow> 'e prometheus \<Rightarrow> u64" where
  "metric_total name p = (\<Sum>((n, _), x) \<leftarrow> recorded p. if n = name then x else 0)"

lemma total_update:
  "(\<Sum>((n, _), x) \<leftarrow> AList.update (a, b) ((case map_of m (a, b) of Some x \<Rightarrow> x | None \<Rightarrow> 0) + d) m.
      if n = name then x else 0) =
   (\<Sum>((n, _), x) \<leftarrow> m. if n = name then x else 0) + (if a = name then d else (0 :: u64))"
  by (induction m) (auto simp: algebra_simps)

lemma metric_total_increment [simp]:
  "metric_total name (increment a labels d p) = metric_total name p + (if a = name then d else 0)"
  by (simp add: metric_total_def increment_def total_update)

lemma metric_totals [simp]:
  "metric_total name (incr_authorized_calls cel ns ctx p) =
     metric_total name p + (if name = ''authorized_calls'' then 1 else 0)"
  "metric_total name (incr_report_calls cel ns ctx p) =
     metric_total name p + (if name = ''report_calls'' then 1 else 0)"
  "metric_total name (incr_authorized_hits cel ns ctx hits p) =
     metric_total name p + (if name = ''authorized_hits'' then hits else 0)"
  "metric_total name (incr_limited_calls cel ns nm ctx p) =
     metric_total name p + (if name = ''limited_calls'' then 1 else 0)"
  by (auto simp: incr_authorized_calls_def incr_report_calls_def incr_authorized_hits_def incr_limited_calls_def)

section \<open>Services over a counter storage\<close>

abbreviation sv_counters :: "('s, 'e) server \<Rightarrow> 's" where
  "sv_counters sv \<equiv> counters (storage (sv_limiter sv))"

context counter_store
begin

text \<open>Envoy's call: the answer is the decision of the limiter for the hits of the request, and it is
  counted under exactly one of the two call metrics.\<close>

lemma service_decides:
  assumes "domain req \<noteq> []"
    and "counters_that_apply cel (domain req) (context_from_descriptors (descriptors req)) (sv_limiter sv) = Some (Inr ctrs)"
    and "ready env ctrs (hits_of req) (sv_counters sv)"
  shows "\<exists>resp sv'. should_rate_limit cs cel env req sv = Some (Inr resp, sv') \<and>
    overall_code resp = (if \<forall>c\<in>set ctrs. admits (used env (sv_counters sv)) (hits_of req) c
       then CodeOk else CodeOverLimit) \<and>
    (\<forall>k. keeps env k \<longrightarrow> used env (sv_counters sv') k = used env (sv_counters sv) k
       + (if overall_code resp = CodeOk \<and> k \<in> counter_key ` set ctrs then hits_of req else 0)) \<and>
    metric_total ''authorized_calls'' (sv_metrics sv') =
      metric_total ''authorized_calls'' (sv_metrics sv) + (if overall_code resp = CodeOk then 1 else 0) \<and>
    metric_total ''limited_calls'' (sv_metrics sv') =
      metric_total ''limited_calls'' (sv_metrics sv) + (if overall_code resp = CodeOk then 0 else 1) \<and>
    metric_total ''authorized_hits'' (sv_metrics sv') =
      metric_total ''authorized_hits'' (sv_metrics sv) + (if overall_code resp = CodeOk then hits_of req else 0)"
proof -
  from limiter_check_and_update [OF assms(2,3)] obtain r rl' where
    r: "check_rate_limited_and_update cs cel env (domain req) (context_from_descriptors (descriptors req))
        (hits_of req) (sv_limiter sv) = Some (Inr r, rl')"
      "limited r \<longleftrightarrow> (\<exists>c\<in>set ctrs. \<not> admits (used env (sv_counters sv)) (hits_of req) c)"
      "\<forall>k. keeps env k \<longrightarrow> used env (counters (storage rl')) k = used env (sv_counters sv) k
         + (if \<not> limited r \<and> k \<in> counter_key ` set ctrs then hits_of req else 0)"
    by (elim exE conjE) (rule that; assumption)
  note run = r(1) [unfolded context_from_descriptors_def]
  show ?thesis
  proof (cases "limited r")
    case True
    with run r(2,3) assms(1) show ?thesis
      by (simp add: should_rate_limit_def async_check_and_update Let_def)
  next
    case False
    with run r(2,3) assms(1) show ?thesis
      by (simp add: should_rate_limit_def async_check_and_update Let_def)
  qed
qed

text \<open>Kuadrant's check answers for one hit and counts nothing.\<close>

lemma service_checks:
  assumes "domain req \<noteq> []"
    and "counters_that_apply cel (domain req) (context_from_descriptors (descriptors req)) (sv_limiter sv) = Some (Inr ctrs)"
    and "ready env ctrs 1 (sv_counters sv)"
  shows "\<exists>resp sv'. kuadrant_check_rate_limit cs cel dbg env req sv = Some (Inr resp, sv') \<and>
    overall_code resp = (if \<forall>c\<in>set ctrs. admits (used env (sv_counters sv)) 1 c then CodeOk else CodeOverLimit) \<and>
    (\<forall>k. keeps env k \<longrightarrow> used env (sv_counters sv') k = used env (sv_counters sv) k) \<and>
    metric_total ''authorized_hits'' (sv_metrics sv') = metric_total ''authorized_hits'' (sv_metrics sv)"
proof -
  from limiter_check [OF assms(2,3)] obtain r rl' where
    r: "is_rate_limited cs cel env (domain req) (context_from_descriptors (descriptors req)) 1 (sv_limiter sv) = Some (Inr r, rl')"
      "limited r \<longleftrightarrow> (\<exists>c\<in>set ctrs. \<not> admits (used env (sv_counters sv)) 1 c)"
      "\<forall>k. keeps env k \<longrightarrow> used env (counters (storage rl')) k = used env (sv_counters sv) k"
    by (elim exE conjE) (rule that; assumption)
  show ?thesis
  proof (cases "limited r")
    case True
    with r assms(1) show ?thesis by (simp add: kuadrant_check_rate_limit_def async_check Let_def)
  next
    case False
    with r assms(1) show ?thesis by (simp add: kuadrant_check_rate_limit_def async_check Let_def)
  qed
qed

end

context reporting_store
begin

text \<open>A report counts its hits, whatever the limits.\<close>

lemma service_reports:
  assumes "domain req \<noteq> []" and "limits_wf (storage (sv_limiter sv))"
    and "counters_that_apply cel (domain req) (context_from_descriptors (descriptors req)) (sv_limiter sv) = Some (Inr ctrs)"
    and "ready env ctrs (hits_of req) (sv_counters sv)"
  shows "\<exists>resp sv'. kuadrant_report cs cel dbg env req sv = Some (Inr resp, sv') \<and> overall_code resp = CodeOk \<and>
    (\<forall>k. keeps env k \<longrightarrow> used env (sv_counters sv') k = used env (sv_counters sv) k
       + (if k \<in> counter_key ` set ctrs then hits_of req else 0)) \<and>
    metric_total ''report_calls'' (sv_metrics sv') = metric_total ''report_calls'' (sv_metrics sv) + 1 \<and>
    metric_total ''authorized_hits'' (sv_metrics sv') = metric_total ''authorized_hits'' (sv_metrics sv) + hits_of req"
proof -
  from limiter_report [OF assms(2-4)] obtain rl' where
    "update_counters cs cel env (domain req) (context_from_descriptors (descriptors req)) (hits_of req) (sv_limiter sv) =
       Some (Inr (), rl')"
      "\<forall>k. keeps env k \<longrightarrow> used env (counters (storage rl')) k = used env (sv_counters sv) k
         + (if k \<in> counter_key ` set ctrs then hits_of req else 0)"
    by (elim exE conjE) (rule that; assumption)
  with assms(1) show ?thesis by (simp add: kuadrant_report_def async_report Let_def)
qed

end

section \<open>Descriptions of limits\<close>

lemma parse_all_sources:
  "\<forall>x\<in>set xs. f (g x) = Inr x \<Longrightarrow> parse_all f (map g xs) = Inr xs"
  by (induction xs) simp_all

lemma sources_of: "limit_wf l \<Longrightarrow> sorted_list_of_set (variables_set l) = map source (variables l)"
  "limit_wf l \<Longrightarrow> sorted_list_of_set (conditions_set l) = map predicate_source (conditions l)"
  by (simp_all only: limit_wf_def variables_set_def conditions_set_def)
    (simp_all only: sorted_list_of_set.idem_if_sorted_distinct)

end
