(* ===== verification/ServerProperties.thy ===== *)
theory ServerProperties
  imports RedisSamples ServiceContract
begin

text \<open>The properties of the server: its gRPC and HTTP services and the reload of its limits.\<close>

section \<open>Samples\<close>

definition sample_sv :: "(string in_memory, string) server" where
  "sample_sv =
     \<lparr>sv_async = False, sv_limiter = sample_limiter, sv_metrics = prometheus_new False None,
      sv_headers = DraftVersion03, sv_disable_reservations = False\<rparr>"

definition sample_rls :: rate_limit_request where
  "sample_rls = \<lparr>domain = ''ns'', descriptors = [[(''user'', ''alice'')]], hits_addend = 0\<rparr>"

lemma sample_rls_counters:
  "counters_that_apply sample_cel (domain sample_rls) (context_from_descriptors (descriptors sample_rls))
     (sv_limiter sample_sv) = Some (Inr [global_counter])"
  by (simp add: counters_that_apply_def sample_limiter_def sample_sv_def sample_rls_def get_limits_def sample_defs applies_def
      counter_new_def resolve_variables_def has_variables_def expression_variables_def eval_def context_from_descriptors_def
      resolve_def context_default_def context_new_def list_binding_def add_variable_from_value_def for_limit_def Let_def)

lemma sample_rls_ok: "call_ok (at 0) [global_counter]" "domain sample_rls \<noteq> []" "hits_of sample_rls = 1"
  using sample_call_ok by (simp_all add: call_ok_def sample_rls_def hits_of_def)

section \<open>Services\<close>

text \<open>C21: Envoy's call over the in-memory storage answers OK exactly when every counter of the request has
  room for its hits, counts the hits on exactly these counters when it does, and shows up once: as an
  authorized call with its hits, or as a limited call.\<close>

theorem should_rate_limit_decides:
  assumes "domain req \<noteq> []"
    and "counters_that_apply cel (domain req) (context_from_descriptors (descriptors req)) (sv_limiter sv) = Some (Inr ctrs)"
    and "call_ok env ctrs"
  defines "used \<equiv> \<lambda>sv. usage (counters (storage (sv_limiter sv))) (env_now env)"
    and "count \<equiv> \<lambda>name sv. metric_total name (sv_metrics sv)"
  shows "\<exists>resp sv'. should_rate_limit (memory_storage cel) cel env req sv = Some (Inr resp, sv') \<and>
    overall_code resp =
      (if \<forall>c\<in>set ctrs. saturating_add (used sv (counter_key c)) (hits_of req) \<le> counter_max_value c
       then CodeOk else CodeOverLimit) \<and>
    (\<forall>k. \<not> env_evicts env k \<longrightarrow> used sv' k = used sv k
       + (if overall_code resp = CodeOk \<and> k \<in> counter_key ` set ctrs then hits_of req else 0)) \<and>
    count ''authorized_calls'' sv' = count ''authorized_calls'' sv + (if overall_code resp = CodeOk then 1 else 0) \<and>
    count ''limited_calls'' sv' = count ''limited_calls'' sv + (if overall_code resp = CodeOk then 0 else 1) \<and>
    count ''authorized_hits'' sv' =
      count ''authorized_hits'' sv + (if overall_code resp = CodeOk then hits_of req else 0)"
  using mem.service_decides [OF assms(1-3)] by (simp only: used_def count_def admits_def)

theorem should_rate_limit_decides_witness:
  "\<exists>resp sv'. should_rate_limit (memory_storage sample_cel) sample_cel (at 0) sample_rls sample_sv = Some (Inr resp, sv') \<and>
    overall_code resp = CodeOk \<and> metric_total ''authorized_calls'' (sv_metrics sv') = 1"
proof -
  have "saturating_add (usage (counters (storage (sv_limiter sample_sv))) (env_now (at 0)) (counter_key c)) (hits_of sample_rls)
      \<le> counter_max_value c" if "c \<in> set [global_counter]" for c
    using that by (simp add: sample_sv_def sample_empty sample_rls_ok sample_keys saturating_add_def)
  moreover have "metric_total ''authorized_calls'' (sv_metrics sample_sv) = 0"
    by (simp add: sample_sv_def prometheus_new_def metric_total_def)
  ultimately show ?thesis
    using should_rate_limit_decides [OF sample_rls_ok(2) sample_rls_counters sample_rls_ok(1)] by auto
qed

text \<open>C27: Kuadrant's check and its report split the call.  The check answers for one hit and moves no usage;
  the report adds the hits to every counter of the request, whatever the limits, and is counted as a
  report.\<close>

theorem check_then_report:
  assumes "domain req \<noteq> []" and "limits_wf (storage (sv_limiter sv))"
    and "counters_that_apply cel (domain req) (context_from_descriptors (descriptors req)) (sv_limiter sv) = Some (Inr ctrs)"
    and "call_ok env ctrs"
  defines "used \<equiv> \<lambda>sv. usage (counters (storage (sv_limiter sv))) (env_now env)"
    and "count \<equiv> \<lambda>name sv. metric_total name (sv_metrics sv)"
  shows "(\<exists>resp sv'. kuadrant_check_rate_limit (memory_storage cel) cel dbg env req sv = Some (Inr resp, sv') \<and>
      overall_code resp =
        (if \<forall>c\<in>set ctrs. saturating_add (used sv (counter_key c)) 1 \<le> counter_max_value c then CodeOk else CodeOverLimit) \<and>
      (\<forall>k. \<not> env_evicts env k \<longrightarrow> used sv' k = used sv k) \<and>
      count ''authorized_hits'' sv' = count ''authorized_hits'' sv) \<and>
    (\<exists>resp sv'. kuadrant_report (memory_storage cel) cel dbg env req sv = Some (Inr resp, sv') \<and>
      overall_code resp = CodeOk \<and>
      (\<forall>k. \<not> env_evicts env k \<longrightarrow> used sv' k = used sv k + (if k \<in> counter_key ` set ctrs then hits_of req else 0)) \<and>
      count ''report_calls'' sv' = count ''report_calls'' sv + 1 \<and>
      count ''authorized_hits'' sv' = count ''authorized_hits'' sv + hits_of req)"
  using mem.service_checks [OF assms(1,3,4), where dbg = dbg] mem.service_reports [OF assms(1-4), where dbg = dbg]
  by (simp only: used_def count_def admits_def)

theorem check_then_report_witness:
  "\<exists>resp sv'. kuadrant_report (memory_storage sample_cel) sample_cel (\<lambda>_. []) (at 0) sample_rls sample_sv = Some (Inr resp, sv') \<and>
    usage (counters (storage (sv_limiter sv'))) 0 (counter_key global_counter) = 1"
proof -
  have wf: "limits_wf (storage (sv_limiter sample_sv))" by (simp add: sample_sv_def sample_limits_wf)
  from conjunct2 [OF check_then_report [OF sample_rls_ok(2) wf sample_rls_counters sample_rls_ok(1), of "\<lambda>_. []"]]
  show ?thesis by (fastforce simp: sample_sv_def sample_empty sample_rls_ok)
qed

text \<open>C30: a limit read back from its JSON description is the limit itself, provided the interpreter parses the
  texts of its conditions and variables to what the limit holds.\<close>

theorem limit_description_round_trip:
  assumes "limit_wf l" and "\<forall>p\<in>set (conditions l). predicate_parse cel (predicate_source p) = Inr p"
    and "\<forall>v\<in>set (variables l). expression_parse cel (source v) = Inr v"
  shows "limit_of_vo cel (limit_vo_of l) = Inr l"
proof -
  note parsed = parse_all_sources [OF assms(2)] parse_all_sources [OF assms(3)]
  have "btree_set predicate_source (conditions l) = conditions l" "btree_set source (variables l) = variables l"
    using assms(1) by (simp_all only: limit_wf_def btree_set_sorted)
  then show ?thesis
    by (auto simp: limit_of_vo_def limit_vo_of_def sources_of [OF assms(1)] parsed limit_new_def
        limit_with_id_def set_name_def Let_def intro!: limit.equality split: option.split)
qed

theorem limit_description_round_trip_witness:
  "limit_of_vo sample_cel (limit_vo_of user_limit) = Inr user_limit"
  by (rule limit_description_round_trip)
    (simp add: user_limit_def, simp_all add: sample_defs expression_parse_def)

section \<open>Reloading the limits\<close>

text \<open>C22: reloading the limits file.  A file that cannot be read or parsed leaves limiter and version as they
  are and counts one failure more; a parsed file makes its limits exactly the registered ones, with the
  maxima and names that \<open>installed\<close> says (those of the file, the first entry of a key counting; in a
  namespace that had more limits than the file gives it, a limit it had before keeps the old ones),
  keeps the counters of the limits that stay, raises the version and clears the failures.\<close>

theorem reload_installs_or_keeps:
  assumes "limits_wf (storage (sv_limiter sv))" and "mem_wf (counters (storage (sv_limiter sv)))"
    and "\<not> sv_async sv"
  shows "\<exists>sv' st'. reload_limits (memory_storage cel) env now path file (sv, st) = Some (sv', st') \<and>
    (case file of
       Parsed ls \<Rightarrow>
         (\<forall>ns. installed (hset_collect limit_key (filter (\<lambda>l. namespace l = ns) ls))
            (get_limits ns (storage (sv_limiter sv))) (get_limits ns (storage (sv_limiter sv')))) \<and>
         (\<forall>k. stored (counters (storage (sv_limiter sv))) k \<noteq> None \<longrightarrow> ck_limit k \<in> limit_key ` set ls \<longrightarrow>
            stored (counters (storage (sv_limiter sv'))) k = stored (counters (storage (sv_limiter sv))) k) \<and>
         config_version st' = config_version st + 1 \<and> config_err_since st' = 0 \<and> config_applied_at st' = now
     | _ \<Rightarrow> sv' = sv \<and> config_version st' = config_version st \<and> config_applied_at st' = config_applied_at st \<and>
         config_err_since st' = config_err_since st + 1)"
proof (cases "file")
  case (Parsed ls)
  from assms obtain rl' where
    "configure_with (memory_storage cel) env ls (sv_limiter sv) = Some (Inr (), rl')"
      "\<forall>ns. installed (hset_collect limit_key (filter (\<lambda>l. namespace l = ns) ls))
         (get_limits ns (storage (sv_limiter sv))) (get_limits ns (storage rl'))"
      "\<forall>k. stored (counters (storage (sv_limiter sv))) k \<noteq> None \<longrightarrow> ck_limit k \<in> limit_key ` set ls \<longrightarrow>
         stored (counters (storage rl')) k = stored (counters (storage (sv_limiter sv))) k"
    using mem_admin.configure_all [of "sv_limiter sv" cel env ls]
    by (simp add: mem_admin.sound_def) blast
  with Parsed assms(3) show ?thesis
    by (simp add: reload_limits_def load_limits_from_file_def config_success_def)
qed (simp_all add: reload_limits_def load_limits_from_file_def config_failure_def)

theorem reload_installs_or_keeps_witness:
  "\<exists>sv' st'. reload_limits (memory_storage sample_cel) (at 0) 7 ''limits.yaml''
      (Parsed [set_max_value 99 global_limit, user_limit]) (sample_sv, status_default 0) = Some (sv', st') \<and>
    config_version st' = 1 \<and> config_err_since st' = 0 \<and>
    (\<forall>l\<in>set (get_limits ''ns'' (storage (sv_limiter sv'))).
       max_value l = (if limit_key l = limit_key global_limit then 99 else max_value user_limit))"
proof -
  let ?new = "[set_max_value 99 global_limit, user_limit]"
  have pre: "limits_wf (storage (sv_limiter sample_sv))" "mem_wf (counters (storage (sv_limiter sample_sv)))" "\<not> sv_async sample_sv"
    by (simp_all add: sample_sv_def sample_limits_wf) (simp add: sample_limiter_def mem_wf_new)
  obtain sv' st' where
    r: "reload_limits (memory_storage sample_cel) (at 0) 7 ''limits.yaml'' (Parsed ?new) (sample_sv, status_default 0) = Some (sv', st')"
    and inst: "\<forall>ns. installed (hset_collect limit_key (filter (\<lambda>l. namespace l = ns) ?new))
      (get_limits ns (storage (sv_limiter sample_sv))) (get_limits ns (storage (sv_limiter sv')))"
    and st: "config_version st' = config_version (status_default 0) + 1" "config_err_since st' = 0"
    using reload_installs_or_keeps [OF pre, of sample_cel "at 0" 7 "''limits.yaml''" "Parsed ?new" "status_default 0"]
    by auto
  have ns: "namespace global_limit = ''ns''" "namespace user_limit = ''ns''"
    "namespace (set_max_value 99 global_limit) = ''ns''" "max_value (set_max_value 99 global_limit) = 99"
    by (simp_all add: sample_defs set_max_value_def)
  have keys: "limit_key (set_max_value 99 global_limit) = limit_key global_limit" by simp
  have given: "hset_collect limit_key (filter (\<lambda>l. namespace l = ''ns'') ?new) = ?new"
    by (simp add: ns hset_collect_id keys sample_keys)
  have old: "get_limits ''ns'' (storage (sv_limiter sample_sv)) = [global_limit, user_limit]"
    by (simp add: sample_sv_def sample_limiter_def get_limits_def)
  from inst have "installed ?new [global_limit, user_limit] (get_limits ''ns'' (storage (sv_limiter sv')))"
    using given old by metis
  then have "max_value l = (if limit_key l = limit_key global_limit then 99 else max_value user_limit)"
    if "l \<in> set (get_limits ''ns'' (storage (sv_limiter sv')))" for l
    using that by (auto simp: installed_def hset_get_def keys ns split: if_splits)
  with r st show ?thesis by (auto simp: status_default_def)
qed

text \<open>A server that starts serves the limits of its file and nothing else, and it starts exactly when both
  files are well formed; a label whose expression does not parse is left out and does not stop it.\<close>

lemma start_up_decides:
  assumes "limits_wf (storage (sv_limiter sv))" and "mem_wf (counters (storage (sv_limiter sv)))"
    and "\<not> sv_async sv"
  shows "\<exists>r. start_up (memory_storage cel) env cel dbg path file labels sv = Some r \<and>
    ((\<exists>sv'. r = Inr sv') \<longleftrightarrow> (\<exists>ls. file = Parsed ls) \<and> (\<forall>p f. labels = Some (p, f) \<longrightarrow> (\<exists>kvs. f = Parsed kvs))) \<and>
    (\<forall>sv' ls ns. r = Inr sv' \<longrightarrow> file = Parsed ls \<longrightarrow>
       limit_key ` set (get_limits ns (storage (sv_limiter sv'))) = limit_key ` {l \<in> set ls. namespace l = ns})"
proof (cases "file")
  case (Parsed ls)
  from assms obtain rl' where
    "configure_with (memory_storage cel) env ls (sv_limiter sv) = Some (Inr (), rl')"
      "\<forall>ns. limit_key ` set (get_limits ns (storage rl')) = limit_key ` {l \<in> set ls. namespace l = ns}"
    using mem_admin.configure_all [of "sv_limiter sv" cel env ls] installed_keys
    by (simp add: mem_admin.sound_def) blast
  with Parsed assms(3) show ?thesis
    by (auto simp: start_up_def load_limits_from_file_def parse_custom_labels_file_def
        split: option.split read_file.split)
qed (simp_all add: start_up_def load_limits_from_file_def)

text \<open>What \<^verbatim>\<open>--validate\<close> accepts is what the server can load.\<close>

lemma validate_accepts: "fst (validate_limits dbg to_yaml path file) = 0 \<longleftrightarrow> (\<exists>ls. file = Parsed ls)"
  by (simp add: validate_limits_def split: read_file.split)

end
