(* ===== verification/SpanMetrics.thy ===== *)
theory SpanMetrics
  imports Prelude
begin

text \<open>
  Timing of tracing spans: \<^verbatim>\<open>limitador-server/src/metrics.rs\<close>.  A span of a configured group gathers the
  time spent in the spans recorded for it and hands it to the consumer of the group when it closes.

  The registry of spans is the external \<^verbatim>\<open>tracing_subscriber\<close>: a map from ids to spans with their parent
  and the two extensions the layer keeps there.  \<^verbatim>\<open>Instant\<close> is a number of nanoseconds, and a difference
  of instants is cut off at zero.  What the consumers receive is the list \<open>consumed\<close>.
\<close>

section \<open>Timings\<close>

record timings =
  idle :: u64
  busy :: u64
  last_at :: nat
  updated :: bool

definition timings_new :: "nat \<Rightarrow> timings" where
  "timings_new now = \<lparr>idle = 0, busy = 0, last_at = now, updated = False\<rparr>"

definition timings_add :: "timings \<Rightarrow> timings \<Rightarrow> timings" where
  "timings_add a b =
     \<lparr>idle = idle a + idle b, busy = busy a + busy b, last_at = max (last_at a) (last_at b),
      updated = (updated a \<or> updated b)\<rparr>"

definition timings_duration :: "timings \<Rightarrow> u64" where
  "timings_duration t = idle t + busy t"

definition since_last :: "nat \<Rightarrow> timings \<Rightarrow> u64" where
  "since_last now t = of_nat (now - last_at t)"

section \<open>The layer\<close>

type_synonym span_state = "(string \<times> timings) list"

definition state_new :: "nat \<Rightarrow> string \<Rightarrow> span_state" where
  "state_new now g = [(g, timings_new now)]"

definition state_increment :: "string \<Rightarrow> timings \<Rightarrow> span_state \<Rightarrow> span_state" where
  "state_increment g t st =
     AList.update g (case map_of st g of Some x \<Rightarrow> timings_add x t | None \<Rightarrow> t) st"

type_synonym metrics_layer = "(string \<times> string list) list"

definition gather :: "string \<Rightarrow> string list \<Rightarrow> metrics_layer \<Rightarrow> metrics_layer" where
  "gather aggregate records groups =
     (if map_of groups aggregate = None then groups @ [(aggregate, records)] else groups)"

record span =
  span_name :: string
  span_parent :: "nat option"
  span_state :: "span_state option"
  span_timings :: "timings option"

record span_registry =
  spans :: "(nat \<times> span) list"
  consumed :: "(string \<times> timings) list"

text \<open>The loop over the groups a span belongs to: is it a record of one?  A group that is not configured
  panics.\<close>

primrec recorded_in :: "metrics_layer \<Rightarrow> string \<Rightarrow> string list \<Rightarrow> bool option" where
  "recorded_in groups name [] = Some False"
| "recorded_in groups name (g # gs) = do {
     records \<leftarrow> map_of groups g;
     if name \<in> set records then Some True else recorded_in groups name gs
   }"

definition inherited_state :: "span_registry \<Rightarrow> span \<Rightarrow> span_state option" where
  "inherited_state reg sp =
     (case Option.bind (Option.bind (span_parent sp) (map_of (spans reg))) span_state of
        Some st \<Rightarrow> Some st
      | None \<Rightarrow> span_state sp)"

definition on_new_span :: "metrics_layer \<Rightarrow> nat \<Rightarrow> nat \<Rightarrow> span_registry \<Rightarrow> span_registry option" where
  "on_new_span groups now i reg = do {
     sp \<leftarrow> map_of (spans reg) i;
     let name = span_name sp;
     let st = inherited_state reg sp;
     let st = (if map_of groups name = None then st
       else (case st of
           Some st \<Rightarrow> Some (if map_of st name = None then st @ [(name, timings_new now)] else st)
         | None \<Rightarrow> Some (state_new now name)));
     is_rec \<leftarrow> (case st of Some st \<Rightarrow> recorded_in groups name (map fst st) | None \<Rightarrow> Some False);
     Some (reg\<lparr>spans := AList.update i
       (sp\<lparr>span_state := st, span_timings := (if is_rec then Some (timings_new now) else span_timings sp)\<rparr>) (spans reg)\<rparr>)
   }"

definition retime :: "(timings \<Rightarrow> timings) \<Rightarrow> nat \<Rightarrow> span_registry \<Rightarrow> span_registry" where
  "retime f i reg =
     (case map_of (spans reg) i of
        None \<Rightarrow> reg
      | Some sp \<Rightarrow> reg\<lparr>spans := AList.update i (sp\<lparr>span_timings := map_option f (span_timings sp)\<rparr>) (spans reg)\<rparr>)"

definition enter_timings :: "nat \<Rightarrow> timings \<Rightarrow> timings" where
  "enter_timings now t = t\<lparr>idle := idle t + since_last now t, last_at := now, updated := True\<rparr>"

definition exit_timings :: "nat \<Rightarrow> timings \<Rightarrow> timings" where
  "exit_timings now t = t\<lparr>busy := busy t + since_last now t, last_at := now, updated := True\<rparr>"

definition on_enter :: "nat \<Rightarrow> nat \<Rightarrow> span_registry \<Rightarrow> span_registry" where
  "on_enter now i reg = retime (enter_timings now) i reg"

definition on_exit :: "nat \<Rightarrow> nat \<Rightarrow> span_registry \<Rightarrow> span_registry" where
  "on_exit now i reg = retime (exit_timings now) i reg"

definition close_timings :: "nat \<Rightarrow> timings \<Rightarrow> timings" where
  "close_timings now t = t\<lparr>idle := idle t + since_last now t\<rparr>"

primrec add_to_groups :: "metrics_layer \<Rightarrow> string \<Rightarrow> timings \<Rightarrow> string list \<Rightarrow> span_state \<Rightarrow> span_state option" where
  "add_to_groups groups name t [] st = Some st"
| "add_to_groups groups name t (g # gs) st = do {
     records \<leftarrow> map_of groups g;
     add_to_groups groups name t gs (if name \<in> set records then state_increment g t st else st)
   }"

definition replace_state :: "span_state \<Rightarrow> nat option \<Rightarrow> (nat \<times> span) list \<Rightarrow> (nat \<times> span) list" where
  "replace_state st parent ss =
     (case parent of
        None \<Rightarrow> ss
      | Some p \<Rightarrow> (case map_of ss p of Some sp \<Rightarrow> AList.update p (sp\<lparr>span_state := Some st\<rparr>) ss | None \<Rightarrow> ss))"

definition on_close :: "metrics_layer \<Rightarrow> nat \<Rightarrow> nat \<Rightarrow> span_registry \<Rightarrow> span_registry option" where
  "on_close groups now i reg = do {
     sp \<leftarrow> map_of (spans reg) i;
     let name = span_name sp;
     let timing = map_option (close_timings now) (span_timings sp);
     let sp = sp\<lparr>span_timings := timing\<rparr>;
     (case span_state sp of
        None \<Rightarrow> Some (reg\<lparr>spans := AList.update i sp (spans reg)\<rparr>)
      | Some st \<Rightarrow> do {
          st \<leftarrow> (case timing of None \<Rightarrow> Some st | Some t \<Rightarrow> add_to_groups groups name t (map fst st) st);
          let ss = replace_state st (span_parent sp) (AList.update i (sp\<lparr>span_state := Some st\<rparr>) (spans reg));
          let out = (if map_of groups name = None then []
            else (case map_of st name of Some t \<Rightarrow> if updated t then [(name, t)] else [] | None \<Rightarrow> []));
          Some (reg\<lparr>spans := ss, consumed := consumed reg @ out\<rparr>)
        })
   }"

section \<open>Times add up\<close>

datatype moment = Enter nat | Exit nat

primrec moment_at :: "moment \<Rightarrow> nat" where
  "moment_at (Enter t) = t"
| "moment_at (Exit t) = t"

primrec move :: "moment \<Rightarrow> timings \<Rightarrow> timings" where
  "move (Enter now) t = enter_timings now t"
| "move (Exit now) t = exit_timings now t"

lemma timings_add_assoc: "timings_add (timings_add a b) c = timings_add a (timings_add b c)"
  by (simp add: timings_add_def)

lemma timings_add_commute: "timings_add a b = timings_add b a"
  by (auto simp: timings_add_def)

lemma duration_add: "timings_duration (timings_add a b) = timings_duration a + timings_duration b"
  by (simp add: timings_duration_def timings_add_def)

lemma duration_close: "timings_duration (close_timings now t) = timings_duration t + since_last now t"
  by (simp add: close_timings_def timings_duration_def ac_simps)

lemma of_nat_span: "a \<le> b \<Longrightarrow> b \<le> c \<Longrightarrow> (of_nat (b - a) :: u64) + of_nat (c - b) = of_nat (c - a)"
  by (simp flip: of_nat_add)

lemma moves_track_time:
  assumes "sorted (last_at t # map moment_at ms)" "start \<le> last_at t"
    and "timings_duration t = of_nat (last_at t - start)"
  shows "timings_duration (fold move ms t) = of_nat (last_at (fold move ms t) - start) \<and>
    last_at (fold move ms t) = last (last_at t # map moment_at ms)"
  using assms
proof (induction ms arbitrary: t)
  case (Cons m ms)
  let ?t = "move m t"
  have le: "last_at t \<le> moment_at m" using Cons.prems(1) by simp
  have l: "last_at ?t = moment_at m" by (cases m) (simp_all add: enter_timings_def exit_timings_def)
  have "timings_duration ?t = timings_duration t + of_nat (moment_at m - last_at t)"
    by (cases m) (simp_all add: enter_timings_def exit_timings_def timings_duration_def since_last_def)
  then have "timings_duration ?t = of_nat (last_at ?t - start)"
    using Cons.prems(2,3) le of_nat_span [OF Cons.prems(2) le] by (simp add: l)
  with Cons.IH [of ?t] Cons.prems le l show ?case by simp
qed simp

text \<open>Whatever enters and exits come in between, a span that closes has spent its whole life.\<close>

lemma span_time_is_lifetime:
  assumes "sorted (start # map moment_at ms @ [now])"
  shows "timings_duration (close_timings now (fold move ms (timings_new start))) = of_nat (now - start)"
proof -
  let ?t = "fold move ms (timings_new start)"
  have "sorted (last_at (timings_new start) # map moment_at ms)"
    using assms by (simp add: timings_new_def sorted_append)
  from moves_track_time [OF this, of start] have
    t: "timings_duration ?t = of_nat (last_at ?t - start)" "last_at ?t = last (start # map moment_at ms)"
    by (simp_all add: timings_new_def timings_duration_def)
  have "start \<le> last_at ?t" "last_at ?t \<le> now"
    unfolding t(2) using assms by (auto simp: sorted_append last_map)
  then have span: "(of_nat (last_at ?t - start) :: u64) + of_nat (now - last_at ?t) = of_nat (now - start)"
    by (rule of_nat_span)
  show ?thesis unfolding duration_close since_last_def t(1) span ..
qed

text \<open>Two recorded spans that are open at the same time under one aggregator: each starts from a copy of the
  parent's times and replaces them when it closes, so that the time of the first to close is lost.  One
  after the other they add up.\<close>

definition db_span :: "nat \<Rightarrow> span" where
  "db_span p = \<lparr>span_name = ''db'', span_parent = Some p, span_state = None, span_timings = None\<rparr>"

definition two_spans :: span_registry where
  "two_spans = \<lparr>spans = [(0, \<lparr>span_name = ''agg'', span_parent = None, span_state = None, span_timings = None\<rparr>),
     (1, db_span 0), (2, db_span 0)], consumed = []\<rparr>"

definition db_layer :: metrics_layer where
  "db_layer = gather ''agg'' [''db''] []"

definition gathered :: "span_registry option \<Rightarrow> u64 list option" where
  "gathered r = map_option (\<lambda>reg. map (timings_duration \<circ> snd) (consumed reg)) r"

lemma overlapping_spans_lose_time:
  "gathered (do {
     r \<leftarrow> on_new_span db_layer 0 0 two_spans;
     r \<leftarrow> on_new_span db_layer 10 1 r;
     r \<leftarrow> on_new_span db_layer 20 2 r;
     r \<leftarrow> on_close db_layer 50 1 (on_enter 10 1 r);
     r \<leftarrow> on_close db_layer 60 2 (on_enter 20 2 r);
     on_close db_layer 70 0 r
   }) = Some [40]"
  by code_simp

lemma sequential_spans_add_up:
  "gathered (do {
     r \<leftarrow> on_new_span db_layer 0 0 two_spans;
     r \<leftarrow> on_new_span db_layer 10 1 r;
     r \<leftarrow> on_close db_layer 50 1 (on_enter 10 1 r);
     r \<leftarrow> on_new_span db_layer 50 2 r;
     r \<leftarrow> on_close db_layer 90 2 (on_enter 50 2 r);
     on_close db_layer 100 0 r
   }) = Some [80]"
  by code_simp

end
