(* ===== verification/Spec2Isabelle.thy ===== *)
theory Spec2Isabelle
  imports Listing Races StorageProperties ReplicationProperties SessionProperties RedisProperties CachedProperties ServerProperties SpanMetrics "HOL-Library.Multiset"
begin

text \<open>
  Limitador is a rate limiter: a Rust library (\<^verbatim>\<open>src/limitador\<close>) and a server around it
  (\<^verbatim>\<open>src/limitador-server\<close>).  A \<^emph>\<open>limit\<close> belongs to a namespace and bounds what may be counted within a time
  window, under conditions and separately for each value of its variables.  A request is a namespace, a
  context and an amount; it gives one \<^emph>\<open>counter\<close> per limit that applies.  The limiter asks a storage to check
  these counters, to count the request on them, or both, or to hold an amount for a later commit.

  \<^bold>\<open>The parts and their theories\<close>

  \<^item> \<^emph>\<open>Vocabulary.\<close> \<open>Prelude\<close>: machine words, instants and durations, hash sets and maps, shared lemmas.
    \<open>Windows\<close>: the contract of a counter that expires (locale \<open>fixed_window\<close>).
  \<^item> \<^emph>\<open>Limits and counters.\<close> \<open>Limits\<close> (\<^verbatim>\<open>limit.rs\<close>, \<^verbatim>\<open>limit/cel.rs\<close>), \<open>Counters\<close> (\<^verbatim>\<open>counter.rs\<close>, \<^verbatim>\<open>errors.rs\<close>),
    \<open>Keys\<close> (\<^verbatim>\<open>storage/keys.rs\<close>).
  \<^item> \<^emph>\<open>The limiter.\<close> \<open>Storage\<close> and \<open>AsyncStorage\<close> (\<^verbatim>\<open>storage/mod.rs\<close>), \<open>Limiter\<close>, \<open>Configure\<close> and \<open>AsyncLimiter\<close>
    (\<^verbatim>\<open>lib.rs\<close>, \<^verbatim>\<open>reservation.rs\<close>).  A storage is a record of operations, the method table of the trait
    \<^verbatim>\<open>CounterStorage\<close>.  \<open>Backend\<close> states what the limiter relies on (locales \<open>counter_store\<close>, for storages
    that count, and \<open>reporting_store\<close>, for those that also fill in what is left) and proves the
    behaviour of the limiter once, inside them; \<open>Configure\<close> does the same for managing limits
    (\<open>administered_store\<close>).
  \<^item> \<^emph>\<open>In memory.\<close> \<open>Expiring\<close> (\<^verbatim>\<open>atomic_expiring_value.rs\<close>), \<open>Reservations\<close> (\<^verbatim>\<open>local_reservations.rs\<close>),
    \<open>InMemory\<close> (\<^verbatim>\<open>in_memory.rs\<close>); \<open>Admission\<close>, \<open>MemoryStore\<close>, \<open>Holding\<close> and \<open>Listing\<close> prove what its operations
    do, \<open>System\<close> runs it as a transition system, and \<open>Races\<close> interleaves the atomic accesses of callers.
  \<^item> \<^emph>\<open>On disk.\<close> \<open>DiskValue\<close> and \<open>Disk\<close> (\<^verbatim>\<open>storage/disk/*\<close>).
  \<^item> \<^emph>\<open>Replicated.\<close> \<open>CrCounter\<close> (\<^verbatim>\<open>cr_counter_value.rs\<close>), \<open>Distributed\<close> (\<^verbatim>\<open>distributed/mod.rs\<close>), \<open>Replication\<close> and
    \<open>Sessions\<close> (\<^verbatim>\<open>distributed/grpc/mod.rs\<close>): messages, the table of peers, the handshake and the queue of
    updates; then the tasks of a node and its steps, one attempt to connect or one message at a time; a
    panic ends the task it happens in.
  \<^item> \<^emph>\<open>In Redis.\<close> \<open>RedisScripts\<close> (\<^verbatim>\<open>redis/scripts.rs\<close>), \<open>Redis\<close> (\<^verbatim>\<open>redis_sync.rs\<close>), \<open>AsyncRedis\<close> (\<^verbatim>\<open>redis_async.rs\<close>),
    \<open>CountersCache\<close> (\<^verbatim>\<open>counters_cache.rs\<close>), \<open>CachedRedis\<close> (\<^verbatim>\<open>redis_cached.rs\<close>); \<open>RedisStore\<close>, \<open>RedisReserve\<close>,
    \<open>WriteBehind\<close> and \<open>CachedStore\<close> hold their proofs, and \<open>CacheRaces\<close> interleaves the accesses of callers and
    of the flush to the cache.
  \<^item> \<^emph>\<open>The server.\<close> \<open>Server\<close> (\<^verbatim>\<open>envoy_rls/*\<close>, \<^verbatim>\<open>prometheus_metrics.rs\<close>), \<open>HttpApi\<close> (\<^verbatim>\<open>http_api/*\<close>), \<open>Config\<close>
    (\<^verbatim>\<open>config.rs\<close>, \<^verbatim>\<open>main.rs\<close>), \<open>SpanMetrics\<close> (\<^verbatim>\<open>metrics.rs\<close>); \<open>ServiceContract\<close> holds their proofs.
  \<^item> \<^emph>\<open>Properties.\<close> This theory and \<open>StorageProperties\<close>, \<open>ReplicationProperties\<close>, \<open>SessionProperties\<close>,
    \<open>RedisProperties\<close>, \<open>CachedProperties\<close>, \<open>ServerProperties\<close>; \<open>Samples\<close>, \<open>StorageSamples\<close> and \<open>RedisSamples\<close> hold the
    concrete data of their witnesses.

  \<^bold>\<open>How code is modelled\<close>

  A function that changes state takes the state and returns the new one; behind it, \<^verbatim>\<open>Result\<close> is a sum with
  the error on the left, and a panic (an \<^verbatim>\<open>unwrap\<close>, an \<^verbatim>\<open>expect\<close>, an index or an addition of times out of
  range) is \<open>None\<close>.  \<^verbatim>\<open>u64\<close> is \<^typ>\<open>64 word\<close> and wraps around where the code does not saturate.  Hash maps
  are association lists in some order; an operation whose result depends on the order is stated for the
  order of the list.  An \<^verbatim>\<open>async\<close> function is the function it waits for.  What a call reads of its
  surroundings, the clock, the evictions of a cache, the failures of an exchange, is an argument \<open>env\<close>.
  Code outside the repository is a parameter: the CEL interpreter (\<open>cel\<close>), the serialisers (\<open>cd\<close>), RocksDB
  (\<open>db\<close>), the Redis server with its Lua numbers (\<open>rd\<close>), the channels of tokio and tonic (\<open>put\<close>, \<open>room\<close>),
  files and YAML (\<open>read_file\<close>).  What is assumed of one is a named predicate (\<open>redis_laws\<close>, \<open>rocksdb_laws\<close> and
  the like) that the samples show to be satisfiable.

  \<^bold>\<open>What is proved\<close>

  \<^item> \<^emph>\<open>Admission.\<close> A checked update is admitted exactly when every counter has room, and then counts on
    exactly those: over memory (C1, with what is left in C7), disk (C9), a replica (C11), Redis (C12) and the
    local cache of Redis (C14), from the one theorem in \<open>reporting_store\<close> and the interpretations.  In every
    sequential run usage stays within the limit (C2); with racing callers it exceeds it by at most one delta
    for each caller but one (C23).  A sequence of additions refines the fixed window (C8).
  \<^item> \<^emph>\<open>Reservations.\<close> All or nothing, in memory (C4) and in Redis (C13); never above the limit (C3);
    committing (C5) and releasing (C28).
  \<^item> \<^emph>\<open>Managing limits.\<close> Reconfiguration (C6) and reloading files (C22), with which maxima and names are installed:
    in a namespace that loses limits the others keep theirs; listing (C34), when a limit applies (C36).
  \<^item> \<^emph>\<open>Replication.\<close> Convergence of replicas (C10), delivery by re-synchronisation (C17, C31), the queue of
    updates (C33), the table of sessions and the task that reconnects (C16), when two nodes that dial each
    other keep the same session (C19), and three faults: a session that hangs for good (C18), a disconnect
    that is never recognised (C37), and counts of an ended window that come back (C32).
  \<^item> \<^emph>\<open>Write-behind.\<close> No write of a cached counter disappears unaccounted (C15, with the loss of C38), an
    unsent write stays where a flush finds it, whatever the interleaving (C20), a flush reconciles (C26);
    a reset that comes late makes writes count twice (C39).
  \<^item> \<^emph>\<open>Services.\<close> Envoy's and Kuadrant's calls (C21, C27), the headers (C35).
  \<^item> \<^emph>\<open>Agreement and formats.\<close> Asynchronous and synchronous limiter (C24) and Redis storages (C25), with where
    they differ; reading back keys and descriptions (C29, C30).

  \<^bold>\<open>Bounds\<close>

  No loop is cut off by fuel.  Two loops need not end in general and are partial functions whose value \<open>None\<close>
  is not returning: the compare-and-swap loop of \<^verbatim>\<open>merge\<close>, where other
  writers may interfere with every attempt, proved to return once an attempt is left alone, and \<^verbatim>\<open>match_for_io_error\<close>, proved
  not to.  The premises \<open>ready\<close> of the storages ask for instants and windows whose sum fits the clock
  (\<open>in_time\<close>) and, where code adds without saturating, for sums below \<open>2 ^ 64\<close> (for Redis below \<open>2 ^ 63\<close>, its
  integers); outside them the code wraps or panics, and the definitions say so.

  \<^bold>\<open>Not modelled\<close>

  Opening connections and servers (the Redis pools and connection managers, the builder of the cached
  storage, the tonic and actix servers, the request-id middleware, trace propagation), the description
  of the command line for \<^verbatim>\<open>clap\<close> and the set-up of logging are calls into other crates without a result the
  program computes on.  \<^verbatim>\<open>guess_cache_size\<close> asks the machine and is a parameter.  Gauges and histograms of the
  cache are write-only.  Protobuf types are generated by the build; the messages the services use are
  records of \<open>Server\<close> and \<open>Replication\<close>.  Capacities of caches appear only as evictions that may happen at any
  time.  Futures that are dropped half-way and the weak memory of the processor are outside the model: \<open>Races\<close>
  and \<open>CacheRaces\<close> interleave sequentially consistent accesses.
\<close>

section \<open>Checking and counting\<close>

text \<open>C1: over the in-memory storage, a checked update of a request is admitted exactly when every
  counter of the request has room for the delta.  If it is admitted, every counter of the request grows
  by the delta and no other counter moves; if it is not, no counter moves.  The registered limits stay.\<close>

theorem checked_update_decides:
  assumes "counters_that_apply cel ns ctx rl = Some (Inr ctrs)" and "call_ok env ctrs"
  defines "s \<equiv> counters (storage rl)"
  shows "\<exists>r rl'. check_rate_limited_and_update (memory_storage cel) cel env ns ctx delta rl = Some (Inr r, rl') \<and>
    (limited r \<longleftrightarrow> (\<exists>c\<in>set ctrs.
       counter_max_value c < saturating_add (usage s (env_now env) (counter_key c)) delta)) \<and>
    (\<forall>k. \<not> env_evicts env k \<longrightarrow> usage (counters (storage rl')) (env_now env) k =
       usage s (env_now env) k + (if \<not> limited r \<and> k \<in> counter_key ` set ctrs then delta else 0)) \<and>
    limits (storage rl') = limits (storage rl)"
  using mem.limiter_check_and_update [OF assms(1,2), of cel delta]
  by (simp add: s_def admits_def not_le)

theorem checked_update_decides_witness:
  "counters_that_apply sample_cel ''ns'' sample_ctx sample_limiter = Some (Inr [global_counter, user_counter]) \<and>
   call_ok (at 0) [global_counter, user_counter] \<and>
   (\<exists>r rl'. check_rate_limited_and_update (memory_storage sample_cel) sample_cel (at 0) ''ns'' sample_ctx 2
        sample_limiter = Some (Inr r, rl') \<and>
      \<not> limited r \<and> usage (counters (storage rl')) 0 (counter_key user_counter) = 2)"
proof -
  obtain r rl' where
    r: "check_rate_limited_and_update (memory_storage sample_cel) sample_cel (at 0) ''ns'' sample_ctx 2
        sample_limiter = Some (Inr r, rl')"
      "limited r \<longleftrightarrow> (\<exists>c\<in>set [global_counter, user_counter]. counter_max_value c
         < saturating_add (usage (counters (storage sample_limiter)) (env_now (at 0)) (counter_key c)) 2)"
      "\<forall>k. \<not> env_evicts (at 0) k \<longrightarrow> usage (counters (storage rl')) (env_now (at 0)) k =
         usage (counters (storage sample_limiter)) (env_now (at 0)) k
         + (if \<not> limited r \<and> k \<in> counter_key ` set [global_counter, user_counter] then 2 else 0)"
    using checked_update_decides [OF sample_counters sample_call_ok, of 2]
    by (elim exE conjE) (rule that; assumption)
  have "\<not> limited r" using r(2) by (simp add: sample_empty sample_keys saturating_add_def)
  then show ?thesis
    using r(1) r(3) [THEN spec, of "counter_key user_counter"] sample_counters sample_call_ok
    by (auto simp: sample_empty)
qed

text \<open>C2: whatever sequence of checked updates, reservations, releases, deletions, clock ticks and cache
  evictions runs on an empty in-memory storage, no counter is ever above the maximum of its limit; only
  a report, which does not check, can take it there.\<close>

theorem usage_never_over_limit:
  assumes "mem_run cap evs (system_new t) \<sigma>" and "as_micros t < 2 ^ 64"
    and "\<forall>ev\<in>set evs. \<nexists>c d. ev = Report c d"
  shows "unat (usage (sys_mem \<sigma>) (sys_now \<sigma>) k) \<le> cap k"
  using run_within_caps [OF assms] by (simp add: within_caps_def)

theorem usage_never_over_limit_witness:
  "\<exists>\<sigma>. mem_run sample_cap [CheckAndUpdate [global_counter, user_counter] 3, Tick 1000] (system_new 0) \<sigma> \<and>
     unat (usage (sys_mem \<sigma>) (sys_now \<sigma>) (counter_key user_counter)) \<le> 3"
proof -
  obtain r m where "check_and_update (at 0) [global_counter, user_counter] 3 in_memory_new = Some (r, m)"
    using check_and_update_admitted [OF sample_call_ok, of in_memory_new 3]
      check_and_update_denied [OF sample_call_ok, of in_memory_new 3] by fastforce
  then have "mem_run sample_cap [CheckAndUpdate [global_counter, user_counter] 3, Tick 1000]
      (system_new 0) \<lparr>sys_mem = m, sys_now = 1000\<rparr>"
    using mem_step.check_and_update [of "system_new 0" _ sample_cap 3 r m] sample_capped sample_call_ok
      mem_step.tick [of "\<lparr>sys_mem = m, sys_now = 0\<rparr>" 1000 sample_cap]
    by (auto simp: mem_run_simps system_new_def as_micros_def)
  with usage_never_over_limit [OF this, of "counter_key user_counter"] show ?thesis
    by (auto simp: sample_cap_def as_micros_def)
qed

text \<open>C3: the same for the amounts held: in every run, reports included, the reservations outstanding
  against a counter never add up to more than the maximum of its limit, provided the sums that the
  reservations of the run compare do not wrap around: for every counter a reservation is made on, twice its
  maximum, all that was reported to it and the amount asked for stay below \<open>2 ^ 64\<close>.  The check of a
  reservation adds usage, hold and amount with a plain \<open>+\<close>, so without the bound it can admit anything.\<close>

theorem holds_never_over_limit:
  assumes "mem_run cap evs (system_new t) \<sigma>" and "as_micros t < 2 ^ 64"
    and "\<forall>cs rid amt hold ttl. Reserve cs rid amt hold ttl \<in> set evs \<longrightarrow>
      (\<forall>c\<in>set cs. 2 * cap (counter_key c) + reported evs (counter_key c) + unat amt < 2 ^ 64)"
  shows "held (reservations (sys_mem \<sigma>)) k (sys_now \<sigma>) \<le> cap k"
proof -
  have "reserve_room cap (reported evs) ev" if "ev \<in> set evs" for ev
    using assms(3) that unfolding reserve_room_def by (cases ev) (simp_all, blast)
  then show ?thesis using run_holds_within [OF assms(1,2)] by (simp add: holds_within_caps_def)
qed

theorem holds_never_over_limit_witness:
  "\<exists>\<sigma>. mem_run sample_cap [Report user_counter 5, Reserve [global_counter, user_counter] ''r'' 2 2 1000, Tick 500]
      (system_new 0) \<sigma> \<and>
     held (reservations (sys_mem \<sigma>)) (counter_key user_counter) (sys_now \<sigma>) \<le> 3"
proof -
  let ?evs = "[Report user_counter 5, Reserve [global_counter, user_counter] ''r'' 2 2 1000, Tick 500]"
  have ok: "call_ok (at 0) [global_counter, user_counter]"
    using sample_call_ok by (simp add: sample_limiter_def)
  obtain m where m: "update_counter (at 0) user_counter 5 in_memory_new = Some m"
    using update_counter_bumped [of "at 0" user_counter 5 in_memory_new] ok by (auto simp: call_ok_def)
  have small: "unat (usage m 0 k) + held (reservations m) k 0 + unat (2 :: u64) < 2 ^ 64" for k
    using report_usage [OF _ m, of k] reservations_kept(2) [OF m] ok sample_empty sample_nothing_held
    by (auto simp: call_ok_def sample_limiter_def split: if_splits)
  have res: "reserve_ok (at 0) [global_counter, user_counter] 2 2 1000 m"
    using ok small by (simp add: reserve_ok_def systime_add_def)
  then obtain r m' where r: "reserve (at 0) [global_counter, user_counter] ''r'' 2 2 1000 m = Some (r, m')"
    using reserve_result [OF res, of "''r''"] by blast
  have run: "mem_run sample_cap ?evs (system_new 0) \<lparr>sys_mem = m', sys_now = 500\<rparr>"
  proof -
    have "mem_step sample_cap (Report user_counter 5) (system_new 0) \<lparr>sys_mem = m, sys_now = 0\<rparr>"
      using mem_step.report [of "system_new 0" user_counter sample_cap 5 m] sample_capped ok m
      by (simp add: system_new_def call_ok_def capped_def)
    moreover have "mem_step sample_cap (Reserve [global_counter, user_counter] ''r'' 2 2 1000)
        \<lparr>sys_mem = m, sys_now = 0\<rparr> \<lparr>sys_mem = m', sys_now = 0\<rparr>"
      using mem_step.reserve [of "\<lparr>sys_mem = m, sys_now = 0\<rparr>" "[global_counter, user_counter]" 2 2 1000
          sample_cap "''r''" r m'] sample_capped ok r
      by (simp add: systime_add_def)
    moreover have "mem_step sample_cap (Tick 500) \<lparr>sys_mem = m', sys_now = 0\<rparr> \<lparr>sys_mem = m', sys_now = 500\<rparr>"
      using mem_step.tick [of "\<lparr>sys_mem = m', sys_now = 0\<rparr>" 500 sample_cap] by (simp add: as_micros_def)
    ultimately show ?thesis by (auto simp: mem_run_simps)
  qed
  have "held (reservations (sys_mem \<lparr>sys_mem = m', sys_now = 500\<rparr>)) (counter_key user_counter)
      (sys_now \<lparr>sys_mem = m', sys_now = 500\<rparr>) \<le> sample_cap (counter_key user_counter)"
    by (rule holds_never_over_limit [OF run])
      (auto simp: as_micros_def sample_cap_def reports_def)
  with run show ?thesis by (auto simp: sample_cap_def)
qed

section \<open>Reserving and committing\<close>

text \<open>C4: a reservation over the in-memory storage is admitted exactly when, for every counter of the
  request, the usage, what is already held and the whole amount asked for fit in the maximum together.
  What is then held is the clamped amount, never more than asked for, on every counter of the request
  and on no other; a refused reservation holds nothing, and neither moves a usage.\<close>

theorem reservation_all_or_nothing:
  fixes amt :: u64 and ttl :: "duration option"
  assumes "counters_that_apply cel ns ctx rl = Some (Inr ctrs)" and "ctrs \<noteq> []"
  defines "s \<equiv> counters (storage rl)"
    and "hold \<equiv> clamp_hold (max_fraction (reservation_limits rl)) ctrs amt"
    and "life \<equiv> clamp_ttl (max_ttl (reservation_limits rl)) ttl"
  assumes "reserve_ok env ctrs amt hold life s" and "0 < life"
  shows "\<exists>r rl'. limiter_reserve (memory_storage cel) cel env rid ns ctx amt ttl rl = Some (Inr r, rl') \<and>
    (rr_limited r \<longleftrightarrow> (\<exists>c\<in>set ctrs. unat (counter_max_value c)
       < unat (usage s (env_now env) (counter_key c))
         + held (reservations s) (counter_key c) (env_now env) + unat amt)) \<and>
    rr_amount r \<le> amt \<and> (rr_limited r \<longrightarrow> rr_amount r = 0) \<and>
    (rr_reservation_id r \<noteq> None \<longleftrightarrow> 0 < rr_amount r) \<and>
    (\<forall>k. \<not> env_evicts env k \<longrightarrow>
       held (reservations (counters (storage rl'))) k (env_now env) = held (reservations s) k (env_now env)
         + (if k \<in> counter_key ` set ctrs then unat (rr_amount r) else 0) \<and>
       usage (counters (storage rl')) (env_now env) k = usage s (env_now env) k)"
proof -
  obtain r rl' where
    run: "limiter_reserve (memory_storage cel) cel env rid ns ctx amt ttl rl = Some (Inr r, rl')"
    and lim: "rr_limited r \<longleftrightarrow> (\<exists>c\<in>set ctrs. \<not> has_room env amt s c)"
    and rid: "rr_reservation_id r = (if \<not> rr_limited r \<and> 0 < hold then Some rid else None)"
    and amount: "rr_amount r = (if rr_limited r then 0 else hold)"
    and use: "\<forall>k. \<not> env_evicts env k \<longrightarrow>
      usage (counters (storage rl')) (env_now env) k = usage s (env_now env) k"
    and holds: "0 < life \<longrightarrow> (\<forall>k. \<not> env_evicts env k \<longrightarrow>
       held (reservations (counters (storage rl'))) k (env_now env) = held (reservations s) k (env_now env)
         + (if k \<in> counter_key ` set ctrs then unat (rr_amount r) else 0))"
    using limiter_reserve_result [OF assms(1,2) assms(6) [unfolded s_def hold_def life_def], of rid]
    unfolding s_def [symmetric] hold_def [symmetric] life_def [symmetric]
    by (elim exE conjE) (rule that; assumption)
  have "rr_amount r \<le> amt" using amount by (simp add: hold_def clamp_hold_le(1))
  with run lim rid amount use holds assms(7) show ?thesis
    by (intro exI [of _ r] exI [of _ rl']) (auto simp: has_room_def not_le)
qed

theorem reservation_all_or_nothing_witness:
  "reserve_ok (at 0) [global_counter, user_counter] 2
      (clamp_hold (max_fraction (reservation_limits sample_limiter)) [global_counter, user_counter] 2)
      (clamp_ttl (max_ttl (reservation_limits sample_limiter)) None) (counters (storage sample_limiter)) \<and>
   (\<exists>r rl'. limiter_reserve (memory_storage sample_cel) sample_cel (at 0) ''r'' ''ns'' sample_ctx 2 None
      sample_limiter = Some (Inr r, rl') \<and> \<not> rr_limited r)"
proof -
  have ok: "reserve_ok (at 0) [global_counter, user_counter] 2
      (clamp_hold (max_fraction (reservation_limits sample_limiter)) [global_counter, user_counter] 2)
      (clamp_ttl (max_ttl (reservation_limits sample_limiter)) None) (counters (storage sample_limiter))"
    using sample_call_ok clamp_hold_le(1) [of _ "[global_counter, user_counter]" 2]
    by (simp add: reserve_ok_def sample_empty sample_nothing_held)
      (simp add: systime_add_def clamp_ttl_def sample_limiter_def reservation_limits_default_def from_secs_def)
  have pos: "0 < clamp_ttl (max_ttl (reservation_limits sample_limiter)) None"
    by (simp add: clamp_ttl_def sample_limiter_def reservation_limits_default_def from_secs_def)
  from reservation_all_or_nothing [OF sample_counters _ ok pos, of "''r''"] ok show ?thesis
    by (auto simp: sample_empty sample_nothing_held sample_keys)
qed

text \<open>C5: committing counts the actual amount on every counter of the request, whatever became of the
  reservation, and drops every hold of that reservation on them while leaving the others; the answer
  says whether some counter of the request still had an entry of it.\<close>

theorem commit_counts_and_releases:
  assumes "counters_that_apply cel ns ctx rl = Some (Inr ctrs)" and "ctrs \<noteq> []" and "call_ok env ctrs"
  defines "s \<equiv> counters (storage rl)"
  shows "\<exists>s'. commit_reservation (memory_storage cel) cel env ns ctx (Some rid) actual rl =
      Some (Inr \<lparr>reservation_released =
              (\<exists>c\<in>set ctrs. rid \<in> entry_ids (reservations s) (counter_key c) (env_now env))\<rparr>,
            rl\<lparr>storage := (storage rl)\<lparr>counters := s'\<rparr>\<rparr>) \<and>
    (\<forall>k. \<not> env_evicts env k \<longrightarrow> usage s' (env_now env) k =
       usage s (env_now env) k + (if k \<in> counter_key ` set ctrs then actual else 0)) \<and>
    (\<forall>k t. env_now env \<le> t \<longrightarrow> live_entries (reservations s') k t =
       (if k \<in> counter_key ` set ctrs
        then filter (\<lambda>e. reservation_id e \<noteq> rid) (live_entries (reservations s) k t)
        else live_entries (reservations s) k t))"
  unfolding s_def by (rule commit_result [OF assms(1-3)])

theorem commit_counts_and_releases_witness:
  "call_ok (at 0) [global_counter, user_counter] \<and>
   (\<exists>s'. commit_reservation (memory_storage sample_cel) sample_cel (at 0) ''ns'' sample_ctx (Some ''r'') 7
      sample_limiter = Some (Inr \<lparr>reservation_released = False\<rparr>,
        sample_limiter\<lparr>storage := (storage sample_limiter)\<lparr>counters := s'\<rparr>\<rparr>) \<and>
      usage s' 0 (counter_key user_counter) = 7)"
proof -
  have none: "entry_ids (reservations (counters (storage sample_limiter))) k t = {}" for k t
    by (simp add: entry_ids_def registry_get_def sample_limiter_def in_memory_new_def registry_new_def)
  obtain s' where
    s': "commit_reservation (memory_storage sample_cel) sample_cel (at 0) ''ns'' sample_ctx (Some ''r'') 7
        sample_limiter = Some (Inr \<lparr>reservation_released = (\<exists>c\<in>set [global_counter, user_counter].
          ''r'' \<in> entry_ids (reservations (counters (storage sample_limiter))) (counter_key c) (env_now (at 0)))\<rparr>,
        sample_limiter\<lparr>storage := (storage sample_limiter)\<lparr>counters := s'\<rparr>\<rparr>)"
      "\<forall>k. \<not> env_evicts (at 0) k \<longrightarrow> usage s' (env_now (at 0)) k =
         usage (counters (storage sample_limiter)) (env_now (at 0)) k
         + (if k \<in> counter_key ` set [global_counter, user_counter] then 7 else 0)"
    using commit_counts_and_releases [OF sample_counters list.distinct(2) sample_call_ok, of "''r''" 7]
    by (elim exE conjE) (rule that; assumption)
  from s' sample_call_ok show ?thesis
    using s'(2) [THEN spec, of "counter_key user_counter"] by (auto simp: none sample_empty)
qed

section \<open>Answers to the client\<close>

text \<open>C7: on admission, the remaining budget reported for every counter of the request is what is left
  of its limit after the update, so it agrees with what the next request will find.\<close>

theorem remaining_after_update:
  assumes "counters_that_apply cel ns ctx rl = Some (Inr ctrs)" and "call_ok env ctrs"
    and "check_rate_limited_and_update (memory_storage cel) cel env ns ctx delta rl = Some (Inr r, rl')"
    and "\<not> limited r"
    and "\<forall>c\<in>set ctrs. unat (usage (counters (storage rl)) (env_now env) (counter_key c)) + unat delta < 2 ^ 64"
  shows "list_all2 (\<lambda>c c'. counter_key c' = counter_key c \<and> remaining c' =
      Some (saturating_sub (counter_max_value c) (usage (counters (storage rl')) (env_now env) (counter_key c))))
    ctrs (result_counters r)"
  using assms by (rule mem.limiter_remaining_after_update)

theorem remaining_after_update_witness:
  "\<exists>r rl'. check_rate_limited_and_update (memory_storage sample_cel) sample_cel (at 0) ''ns'' sample_ctx 2
      sample_limiter = Some (Inr r, rl') \<and>
    list_all2 (\<lambda>c c'. counter_key c' = counter_key c \<and> remaining c' =
        Some (saturating_sub (counter_max_value c) (usage (counters (storage rl')) 0 (counter_key c))))
      [global_counter, user_counter] (result_counters r)"
proof -
  have u: "\<forall>c\<in>set [global_counter, user_counter].
      unat (usage (counters (storage sample_limiter)) (env_now (at 0)) (counter_key c)) + unat (2 :: u64) < 2 ^ 64"
    by (simp add: sample_empty)
  obtain r rl' where
    r: "check_rate_limited_and_update (memory_storage sample_cel) sample_cel (at 0) ''ns'' sample_ctx 2
        sample_limiter = Some (Inr r, rl')" "\<not> limited r"
    using mem.limiter_check_and_update [OF sample_counters sample_call_ok, of sample_cel 2]
    by (auto simp: sample_empty admits_def sample_keys saturating_add_def)
  from remaining_after_update [OF sample_counters sample_call_ok r u] r(1) show ?thesis by auto
qed

text \<open>A check without update answers as a checked update would, and moves no counter.\<close>

lemma check_moves_nothing:
  assumes "counters_that_apply cel ns ctx rl = Some (Inr ctrs)" and "call_ok env ctrs"
  defines "s \<equiv> counters (storage rl)"
  shows "\<exists>r rl'. is_rate_limited (memory_storage cel) cel env ns ctx delta rl = Some (Inr r, rl') \<and>
    (limited r \<longleftrightarrow> (\<exists>c\<in>set ctrs.
       counter_max_value c < saturating_add (usage s (env_now env) (counter_key c)) delta)) \<and>
    (\<forall>k. \<not> env_evicts env k \<longrightarrow> usage (counters (storage rl')) (env_now env) k = usage s (env_now env) k) \<and>
    limits (storage rl') = limits (storage rl)"
  using mem.limiter_check [OF assms(1,2), of cel delta] by (auto simp: s_def admits_def not_le)

lemma check_moves_nothing_sample:
  "call_ok (at 0) [global_counter, user_counter] \<and>
   (\<exists>r rl'. is_rate_limited (memory_storage sample_cel) sample_cel (at 0) ''ns'' sample_ctx 4 sample_limiter =
      Some (Inr r, rl') \<and> limited r \<and> usage (counters (storage rl')) 0 (counter_key user_counter) = 0)"
  using check_moves_nothing [OF sample_counters sample_call_ok, of 4] sample_call_ok
  by (auto simp: sample_empty sample_keys saturating_add_def)

text \<open>A report is never refused: it adds its delta to every counter of the request, past the limit if
  need be, and to no other.\<close>

lemma report_counts:
  assumes "limits_wf (storage rl)" and "counters_that_apply cel ns ctx rl = Some (Inr ctrs)"
    and "call_ok env ctrs"
  shows "\<exists>rl'. update_counters (memory_storage cel) cel env ns ctx delta rl = Some (Inr (), rl') \<and>
    limits (storage rl') = limits (storage rl) \<and>
    (\<forall>k. \<not> env_evicts env k \<longrightarrow> usage (counters (storage rl')) (env_now env) k =
       usage (counters (storage rl)) (env_now env) k + (if k \<in> counter_key ` set ctrs then delta else 0))"
  using assms by (rule mem.limiter_report)

lemma report_counts_sample:
  "\<exists>rl'. update_counters (memory_storage sample_cel) sample_cel (at 0) ''ns'' sample_ctx 50 sample_limiter =
      Some (Inr (), rl') \<and> usage (counters (storage rl')) 0 (counter_key user_counter) = 50"
proof -
  obtain rl' where
    "update_counters (memory_storage sample_cel) sample_cel (at 0) ''ns'' sample_ctx 50 sample_limiter =
      Some (Inr (), rl')"
    "\<forall>k. \<not> env_evicts (at 0) k \<longrightarrow> usage (counters (storage rl')) (env_now (at 0)) k =
       usage (counters (storage sample_limiter)) (env_now (at 0)) k
       + (if k \<in> counter_key ` set [global_counter, user_counter] then 50 else 0)"
    using report_counts [OF sample_limits_wf sample_counters sample_call_ok, of 50]
    by (elim exE conjE) (rule that; assumption)
  then show ?thesis by (auto simp: sample_empty)
qed

text \<open>C35: the counters behind the response headers are put in order of what they have left, so the
  first, whose maximum, remaining budget and reset are reported, is a most restrictive one; the limit
  header goes on with the maximum, window and name of every counter, in that order.\<close>

theorem headers_most_restrictive:
  "response_headers_for cs = (sorted_cs, headers) \<Longrightarrow>
   mset sorted_cs = mset cs \<and> sorted (map effective_remaining sorted_cs) \<and>
   (cs \<noteq> [] \<longrightarrow> (\<exists>c\<in>set cs. (\<forall>d\<in>set cs. effective_remaining c \<le> effective_remaining d) \<and>
      map_of headers ''X-RateLimit-Limit'' = Some (show_u64 (counter_max_value c) @ concat (map limit_text sorted_cs)) \<and>
      map_of headers ''X-RateLimit-Remaining'' = Some (show_u64 (effective_remaining c)) \<and>
      map_of headers ''X-RateLimit-Reset'' = map_option (\<lambda>d. show_u64 (as_secs d)) (expires_in c)))"
proof (intro conjI impI)
  assume r: "response_headers_for cs = (sorted_cs, headers)"
  then have s: "sorted_cs = sort_key effective_remaining cs"
    by (simp add: response_headers_for_def Let_def)
  show "mset sorted_cs = mset cs" "sorted (map effective_remaining sorted_cs)" by (simp_all add: s)
  assume "cs \<noteq> []"
  then obtain c rest where c: "sort_key effective_remaining cs = c # rest"
    by (metis list.exhaust set_empty set_sort)
  have set: "set (c # rest) = set cs" using set_sort [of effective_remaining cs] by (simp only: c)
  have "sorted (map effective_remaining (c # rest))" unfolding c [symmetric] by simp
  then have "\<forall>d\<in>set cs. effective_remaining c \<le> effective_remaining d" unfolding set [symmetric] by simp
  moreover have "map_of headers ''X-RateLimit-Limit'' = Some (show_u64 (counter_max_value c) @ concat (map limit_text sorted_cs))"
    "map_of headers ''X-RateLimit-Remaining'' = Some (show_u64 (effective_remaining c))"
    "map_of headers ''X-RateLimit-Reset'' = map_option (\<lambda>d. show_u64 (as_secs d)) (expires_in c)"
    using r by (auto simp: response_headers_for_def c Let_def split: option.splits)
  moreover have "c \<in> set cs" using set by auto
  ultimately show "\<exists>c\<in>set cs. (\<forall>d\<in>set cs. effective_remaining c \<le> effective_remaining d) \<and>
      map_of headers ''X-RateLimit-Limit'' = Some (show_u64 (counter_max_value c) @ concat (map limit_text sorted_cs)) \<and>
      map_of headers ''X-RateLimit-Remaining'' = Some (show_u64 (effective_remaining c)) \<and>
      map_of headers ''X-RateLimit-Reset'' = map_option (\<lambda>d. show_u64 (as_secs d)) (expires_in c)" by blast
qed

theorem headers_most_restrictive_witness:
  "sorted (map effective_remaining (fst (response_headers_for [global_counter, user_counter]))) \<and>
   mset (fst (response_headers_for [global_counter, user_counter])) = {#global_counter, user_counter#}"
  using headers_most_restrictive [of "[global_counter, user_counter]"
      "fst (response_headers_for [global_counter, user_counter])"
      "snd (response_headers_for [global_counter, user_counter])"]
  by simp

section \<open>Limits\<close>

text \<open>The order, the equality and the hash of limits agree: comparing two limits gives a linear order,
  two limits compare equal exactly when they are equal, and then they have the same hash.\<close>

lemma limit_order_consistent:
  "(limit_cmp a b = Equal \<longleftrightarrow> limit_eq a b) \<and> (limit_eq a b \<longrightarrow> limit_hash a = limit_hash b) \<and>
   (limit_cmp a b = Less \<longleftrightarrow> limit_cmp b a = Greater) \<and>
   (limit_cmp a b = Less \<longrightarrow> limit_cmp b c = Less \<longrightarrow> limit_cmp a c = Less)"
  by (auto simp: limit_cmp_key limit_eq_key limit_hash_key)

lemma limit_order_consistent_sample:
  "limit_hash global_limit = limit_hash (set_max_value 99 global_limit)"
  using limit_order_consistent [of global_limit "set_max_value 99 global_limit" global_limit]
  by (simp add: limit_eq_key)

text \<open>C36: a limit applies to a request exactly when all its conditions hold and every variable it
  needs is bound; when the test of a condition fails with an error, and all conditions before it
  hold, deciding whether the limit applies panics instead of reporting the error.\<close>

theorem applies_decides:
  "(applies cel l c = Some True \<longleftrightarrow>
     (\<forall>p\<in>set (conditions l). predicate_test cel p (for_limit (for_limit c l) l) = Inr True) \<and>
     (\<forall>v\<in>set (variables l). set (expression_variables cel v) \<subseteq> ctx_variables c)) \<and>
   (applies cel l c = None \<longleftrightarrow>
     (\<exists>ps p qs e. conditions l = ps @ p # qs \<and>
        (\<forall>q\<in>set ps. predicate_test cel q (for_limit (for_limit c l) l) = Inr True) \<and>
        predicate_test cel p (for_limit (for_limit c l) l) = Inl e))"
  using applies_iff applies_panics_iff by blast

theorem applies_decides_witness:
  "applies sample_cel user_limit sample_ctx = Some True \<and> applies sample_cel user_limit context_default \<noteq> Some True"
  using applies_decides [of sample_cel user_limit sample_ctx] applies_decides [of sample_cel user_limit context_default]
  by (simp add: sample_defs expression_variables_def context_from_def context_new_def context_default_def
      add_variable_from_value_def)

section \<open>Managing limits\<close>

text \<open>C6: a reconfiguration.  Afterwards every namespace has exactly the given limits, the first of a key
  counting, with the maxima and names that \<open>installed\<close> says: the given ones, except in a namespace that
  had more limits than are given for it, where a limit that was there before keeps its old maximum and
  name.  The counters of every limit that stays keep their values.\<close>

theorem configure_installs:
  assumes "limits_wf (storage rl)" and "mem_wf (counters (storage rl))"
  shows "\<exists>rl'. configure_with (memory_storage cel) env ls rl = Some (Inr (), rl') \<and>
    limits_wf (storage rl') \<and> mem_wf (counters (storage rl')) \<and>
    (\<forall>ns. limit_key ` set (get_limits ns (storage rl')) = limit_key ` {l \<in> set ls. namespace l = ns}) \<and>
    (\<forall>ns. installed (hset_collect limit_key (filter (\<lambda>l. namespace l = ns) ls))
       (get_limits ns (storage rl)) (get_limits ns (storage rl'))) \<and>
    (\<forall>k. stored (counters (storage rl)) k \<noteq> None \<longrightarrow> ck_limit k \<in> limit_key ` set ls \<longrightarrow>
       stored (counters (storage rl')) k = stored (counters (storage rl)) k)"
  using mem_admin.configure_all [of rl cel env ls] assms installed_keys
  by (simp add: mem_admin.sound_def) blast

text \<open>A reconfiguration that drops one of two limits and raises the maximum of the other does not apply the
  new maximum: the old 10 stays.\<close>

theorem configure_installs_witness:
  "\<exists>rl'. configure_with (memory_storage sample_cel) (at 0) [set_max_value 99 global_limit] sample_limiter = Some (Inr (), rl') \<and>
    limit_key ` set (get_limits ''ns'' (storage rl')) = {limit_key global_limit} \<and>
    (\<forall>l\<in>set (get_limits ''ns'' (storage rl')). max_value l = 10)"
proof -
  let ?new = "set_max_value 99 global_limit"
  have wf: "mem_wf (counters (storage sample_limiter))" by (simp add: sample_limiter_def mem_wf_new)
  have ns: "namespace ?new = ''ns''" "max_value global_limit = 10" by (simp_all add: sample_defs set_max_value_def)
  have keys: "limit_key ?new = limit_key global_limit" by simp
  obtain rl' where r: "configure_with (memory_storage sample_cel) (at 0) [?new] sample_limiter = Some (Inr (), rl')"
    "\<forall>ns. installed (hset_collect limit_key (filter (\<lambda>l. namespace l = ns) [?new]))
       (get_limits ns (storage sample_limiter)) (get_limits ns (storage rl'))"
    using configure_installs [OF sample_limits_wf wf, of sample_cel "at 0" "[?new]"]
    by (elim exE conjE) (rule that; assumption)
  have "hset_collect limit_key (filter (\<lambda>l. namespace l = ''ns'') [?new]) = [?new]"
    by (simp add: ns hset_collect_id)
  moreover have "get_limits ''ns'' (storage sample_limiter) = [global_limit, user_limit]"
    by (simp add: sample_limiter_def get_limits_def)
  ultimately have "installed [?new] [global_limit, user_limit] (get_limits ''ns'' (storage rl'))"
    using r(2) by metis
  then have only: "limit_key ` set (get_limits ''ns'' (storage rl')) = {limit_key global_limit}"
    and from_old: "\<forall>l\<in>set (get_limits ''ns'' (storage rl')). \<exists>u.
      hset_get limit_key (limit_key l) [global_limit, user_limit, ?new] = Some u \<and> max_value l = max_value u"
    by (auto simp: installed_def keys)
  have "max_value l = 10" if l: "l \<in> set (get_limits ''ns'' (storage rl'))" for l
  proof -
    have "limit_key l = limit_key global_limit" using only l by blast
    with bspec [OF from_old l] show ?thesis by (simp add: hset_get_def ns)
  qed
  with r(1) only show ?thesis by blast
qed

text \<open>Adding a limit that its namespace does not have and deleting it again leaves the registered limits
  as they were, drops the counters of that limit and keeps all others.\<close>

lemma add_delete_round_trip:
  assumes "limits_wf (storage rl)" and "mem_wf (counters (storage rl))"
    and "limit_key l \<notin> limit_key ` set (get_limits (namespace l) (storage rl))"
  shows "\<exists>rl1 rl2. limiter_add_limit (memory_storage cel) env l rl = Some (True, rl1) \<and>
    limiter_delete_limit (memory_storage cel) env l rl1 = Some (Inr (), rl2) \<and>
    (\<forall>ns. limit_key ` set (get_limits ns (storage rl2)) = limit_key ` set (get_limits ns (storage rl))) \<and>
    (\<forall>k. stored (counters (storage rl)) k \<noteq> None \<longrightarrow> ck_limit k \<noteq> limit_key l \<longrightarrow>
       stored (counters (storage rl2)) k = stored (counters (storage rl)) k) \<and>
    (\<forall>k. ck_limit k = limit_key l \<longrightarrow> stored (counters (storage rl2)) k = None)"
proof -
  have sound: "mem_admin.sound rl" using assms(1,2) by (simp add: mem_admin.sound_def)
  obtain b rl1 where
    a: "limiter_add_limit (memory_storage cel) env l rl = Some (b, rl1)" "mem_admin.sound rl1"
      "b \<longleftrightarrow> limit_key l \<notin> mem_admin.registered rl (namespace l)"
      "\<forall>ns. mem_admin.registered rl1 ns = mem_admin.registered rl ns \<union> (if ns = namespace l then {limit_key l} else {})"
      "\<forall>k. stored (counters (storage rl)) k \<noteq> None \<longrightarrow>
         stored (counters (storage rl1)) k = stored (counters (storage rl)) k"
    using mem_admin.add_one [OF sound, of cel env l] by (elim exE conjE) (rule that; assumption)
  obtain rl2 where
    d: "limiter_delete_limit (memory_storage cel) env l rl1 = Some (Inr (), rl2)"
      "\<forall>ns. set (get_limits ns (storage rl2)) =
         {x \<in> set (get_limits ns (storage rl1)). limit_key x \<noteq> limit_key l}"
      "\<forall>k. stored (counters (storage rl2)) k =
         (if ck_limit k = limit_key l then None else stored (counters (storage rl1)) k)"
    using mem_admin.delete_one [OF a(2), of cel env l] by (elim exE conjE) (rule that; assumption)
  have "limit_key ` set (get_limits ns (storage rl2)) = limit_key ` set (get_limits ns (storage rl))" for ns
  proof -
    have other: "limit_key l \<notin> limit_key ` set (get_limits ns (storage rl))"
      using assms(3) limits_wf_get(2) [OF assms(1)] limit_key_fields(1) by (cases "ns = namespace l") fastforce+
    have "limit_key ` set (get_limits ns (storage rl2)) =
        limit_key ` set (get_limits ns (storage rl1)) - {limit_key l}" using d(2) by auto
    with a(4) [THEN spec, of ns] other show ?thesis
      by (cases "ns = namespace l") (simp_all add: mem_admin.registered_def)
  qed
  with a d assms(3) show ?thesis by (auto simp: mem_admin.registered_def)
qed

lemma add_delete_round_trip_sample:
  "\<exists>rl1 rl2. limiter_add_limit (memory_storage sample_cel) (at 0) (limit_new ''ns'' 1 1 [] []) sample_limiter =
      Some (True, rl1) \<and>
    limiter_delete_limit (memory_storage sample_cel) (at 0) (limit_new ''ns'' 1 1 [] []) rl1 = Some (Inr (), rl2)"
proof -
  have wf: "mem_wf (counters (storage sample_limiter))" by (simp add: sample_limiter_def mem_wf_new)
  have key: "limit_key (limit_new ''ns'' 1 1 [] [] :: string limit) = LimitKey ''ns'' 1 [] []"
    "namespace (limit_new ''ns'' 1 1 [] [] :: string limit) = ''ns''"
    by (simp_all add: limit_key_def limit_new_def btree_set_def)
  have "limit_key (limit_new ''ns'' 1 1 [] [] :: string limit) \<notin> limit_key ` set (get_limits
      (namespace (limit_new ''ns'' 1 1 [] [] :: string limit)) (storage sample_limiter))"
    by (auto simp: sample_limiter_def get_limits_def key sample_keys)
  from add_delete_round_trip [OF sample_limits_wf wf this, of sample_cel "at 0"] show ?thesis by blast
qed

text \<open>C24: the asynchronous limiter against the synchronous one, over the same storage.  Checking, reporting,
  checking and updating, reserving, committing, deleting one limit or those of a namespace, and listing
  limits and namespaces give the same answers and the same states.  Adding a limit gives the same answer
  and the same limits, but never tells the counter storage; so adding and reconfiguring are the same
  where \<open>add_counter\<close> does nothing.  Listing counters is the same for a namespace that has been given
  limits; for another the synchronous one answers with none and the asynchronous one asks the storage.\<close>

theorem async_agrees:
  "async_is_rate_limited cs cel env ns ctx delta rl = is_rate_limited cs cel env ns ctx delta rl \<and>
   async_update_counters cs cel env ns ctx delta rl = update_counters cs cel env ns ctx delta rl \<and>
   async_check_rate_limited_and_update cs cel env ns ctx delta rl =
     check_rate_limited_and_update cs cel env ns ctx delta rl \<and>
   async_reserve cs cel env rid ns ctx amt ttl rl = limiter_reserve cs cel env rid ns ctx amt ttl rl \<and>
   async_commit_reservation cs cel env ns ctx held_id actual rl =
     commit_reservation cs cel env ns ctx held_id actual rl \<and>
   async_limiter_delete_limit cs env l rl = limiter_delete_limit cs env l rl \<and>
   async_limiter_delete_limits cs env ns rl = limiter_delete_limits cs env ns rl \<and>
   async_limiter_get_limits ns rl = limiter_get_limits ns rl \<and>
   async_limiter_get_namespaces rl = get_namespaces (storage rl) \<and>
   (\<forall>b rl'. limiter_add_limit cs env l rl = Some (b, rl') \<longrightarrow>
      fst (async_limiter_add_limit l rl) = b \<and>
      limits (storage (snd (async_limiter_add_limit l rl))) = limits (storage rl')) \<and>
   counters (storage (snd (async_limiter_add_limit l rl))) = counters (storage rl) \<and>
   ((\<forall>l s. cs_add_counter cs env l s = Some (Inr (), s)) \<longrightarrow>
      limiter_add_limit cs env l rl = Some (async_limiter_add_limit l rl) \<and>
      async_configure_with cs env ls rl = configure_with cs env ls rl) \<and>
   (if ns \<in> set (get_namespaces (storage rl)) then
      async_limiter_get_counters cs env ns rl = limiter_get_counters cs env ns rl
    else limiter_get_counters cs env ns rl = Some (Inr [], rl))"
  using async_add_limits(1) [of cs env l rl] async_get_counters_same [of ns rl cs env] no_namespace_no_counters [of ns rl cs env]
  by (simp add: async_check async_report async_check_and_update async_reserve_same async_commit_same
      async_delete_limits_same async_add_limits(2) async_add_same async_configure_same)

theorem async_agrees_witness:
  "async_limiter_get_counters (memory_storage sample_cel) (at 0) ''ns'' sample_limiter =
     limiter_get_counters (memory_storage sample_cel) (at 0) ''ns'' sample_limiter \<and>
   async_configure_with (async_redis_storage sample_redis ''script'' sample_cel sample_codec) sample_redis_env
       [user_limit] sample_redis_limiter =
     configure_with (async_redis_storage sample_redis ''script'' sample_cel sample_codec) sample_redis_env
       [user_limit] sample_redis_limiter"
proof -
  have "''ns'' \<in> set (get_namespaces (storage sample_limiter))"
    by (simp add: sample_limiter_def get_namespaces_def)
  moreover have "\<forall>l s. cs_add_counter (async_redis_storage sample_redis ''script'' sample_cel sample_codec)
      sample_redis_env l s = Some (Inr (), s)"
    by (simp add: async_redis_storage_def)
  ultimately show ?thesis
    using async_agrees [of "memory_storage sample_cel" sample_cel "at 0" "''ns''" sample_ctx 1 sample_limiter
        "''r''" 1 None None 1 user_limit "[user_limit]"]
      async_agrees [of "async_redis_storage sample_redis ''script'' sample_cel sample_codec" sample_cel
        sample_redis_env "''ns''" sample_ctx 1 sample_redis_limiter "''r''" 1 None None 1 user_limit "[user_limit]"]
    by presburger
qed

section \<open>The in-memory storage\<close>

text \<open>C34: listing the counters of a set of limits gives, once each, exactly the stored counters of their
  namespaces whose window is still open, with what is left and the time to the end of the window.\<close>

theorem counters_listed:
  assumes "mem_wf s"
  shows "\<exists>res. get_counters cel env ls s = Some res \<and> distinct (map counter_key res) \<and>
    counter_key ` set res = {k. lk_namespace (ck_limit k) \<in> namespace ` set ls \<and>
       (\<exists>v. stored s k = Some v \<and> 0 < value_ttl (env_now env) v)} \<and>
    (\<forall>c\<in>set res. \<exists>v. stored s (counter_key c) = Some v \<and>
       remaining c = Some (saturating_sub (counter_max_value c) (value_at v (env_now env))) \<and>
       expires_in c = Some (value_ttl (env_now env) v))"
  using assms by (rule get_counters_result)

theorem counters_listed_witness:
  "\<exists>res. get_counters sample_cel (at 0) [user_limit]
      (in_memory_new\<lparr>qualified_counters := [(counter_key user_counter, (user_counter, value_new 1 60000))]\<rparr>) = Some res \<and>
    counter_key ` set res = {counter_key user_counter}"
proof -
  let ?s = "in_memory_new\<lparr>qualified_counters := [(counter_key user_counter, (user_counter, value_new 1 60000))]\<rparr> :: string in_memory"
  have "limit user_counter = user_limit" by (simp add: user_counter_def)
  then have wf: "mem_wf ?s" by (simp add: mem_wf_def in_memory_new_def qualified_entry_def is_qualified_key sample_keys)
  have "stored ?s k = (if k = counter_key user_counter then Some (value_new 1 60000) else None)" for k
    by (simp add: stored_def in_memory_new_def sample_keys)
  moreover have "0 < value_ttl 0 (value_new 1 60000)"
    by (simp add: value_ttl_def value_new_def expiry_new_def expiry_ttl_def since_epoch_def as_micros_def from_micros_def
        duration_since_or_zero_def)
  ultimately have "{k. lk_namespace (ck_limit k) \<in> namespace ` set [user_limit] \<and>
      (\<exists>v. stored ?s k = Some v \<and> 0 < value_ttl (env_now (at 0)) v)} = {counter_key user_counter}"
    by (auto simp: sample_keys user_limit_def limit_new_def)
  with counters_listed [OF wf, of sample_cel "at 0" "[user_limit]"] show ?thesis by metis
qed

text \<open>Clearing the in-memory storage leaves every counter with variables, and every reservation, in
  place.\<close>

lemma clear_leaves_qualified:
  assumes "ck_variables k \<noteq> []"
  shows "stored (clear s) k = stored s k \<and> reservations (clear s) = reservations s"
  using assms by (simp add: clear_def stored_def)

lemma clear_leaves_qualified_sample:
  "\<exists>s :: string in_memory. stored (clear s) (counter_key user_counter) \<noteq> None"
proof -
  let ?s = "in_memory_new\<lparr>qualified_counters := [(counter_key user_counter, (user_counter, value_new 1 60))]\<rparr>"
  have k: "ck_variables (counter_key user_counter) \<noteq> []" by (simp add: sample_keys)
  have "stored ?s (counter_key user_counter) \<noteq> None" by (simp add: stored_def sample_keys)
  with clear_leaves_qualified [OF k, of ?s] show ?thesis by metis
qed

section \<open>Expiring values\<close>

text \<open>C8: a sequence of additions to the counter of the in-memory storage refines the fixed window: the
  counter opens a window at the first addition after the previous one is over, adds inside it and
  keeps its end, as long as the clock and the sums stay in the 64-bit range.\<close>

theorem atomic_value_refines_window:
  assumes "\<forall>(t, d)\<in>set evs. window_fits ttl t"
    and "unat (av_value v) + delta_total evs < 2 ^ 64"
  shows "\<exists>v'. fold_panic (\<lambda>(t, d) v. map_option snd (value_update d ttl t v)) evs v = Some v' \<and>
    \<lparr>ws_deadline = unat (expiry (av_expiry v')), ws_total = unat (av_value v')\<rparr> =
      fold (ws_step (as_micros ttl)) (map (\<lambda>(t, d). (unat (since_epoch t), unat d)) evs)
        \<lparr>ws_deadline = unat (expiry (av_expiry v)), ws_total = unat (av_value v)\<rparr>"
  using aw.run_refines [OF assms] unfolding aw.abs_def aw.events_def .

theorem atomic_value_refines_window_witness:
  "\<exists>v'. fold_panic (\<lambda>(t, d) v. map_option snd (value_update d 5000 t v)) [(0, 1), (1000, 2)] value_default = Some v'"
proof -
  have fits: "\<forall>(t, d)\<in>set [(0, 1), (1000, 2)]. window_fits 5000 t"
    by (simp add: window_fits_def since_epoch_def as_micros_def)
  have sum: "unat (av_value value_default) + delta_total [(0, 1), (1000, 2)] < 2 ^ 64"
    by (simp add: value_default_def)
  from atomic_value_refines_window [OF fits sum] show ?thesis by blast
qed

section \<open>Reservations in the registry\<close>

text \<open>C28: reserving under a fresh id and releasing that id restores what was held on every counter.\<close>

theorem reserve_release_round_trip:
  assumes "request_ok ctrs vts req reg" and "request_in_time vts req"
    and "\<forall>(v, w)\<in>set vts. 0 < w" and "\<forall>k. req_id req \<notin> entry_ids reg k (req_now req)"
    and "\<forall>k. \<not> ev k" and "registry_reserve ev ctrs vts req reg = Some (a, ctrs', reg')"
  shows "live_entries (snd (registry_release (req_now req) ctrs (req_id req) reg')) k (req_now req)
    = live_entries reg k (req_now req)"
  using assms by (rule reserve_release_restores)

theorem reserve_release_round_trip_witness:
  "\<exists>a counters' reg'. registry_reserve (\<lambda>_. False) [user_counter] [(0, 60)] sample_request [] = Some (a, counters', reg') \<and>
     live_entries (snd (registry_release 0 [user_counter] ''r'' reg')) (counter_key user_counter) 0 = []"
proof -
  have ok: "request_ok [user_counter] [(0, 60)] sample_request []"
    "request_in_time [(0, 60)] sample_request" "\<forall>(v, w)\<in>set [(0 :: u64, 60 :: duration)]. 0 < w"
    "\<forall>k. req_id sample_request \<notin> entry_ids [] k (req_now sample_request)"
    by (simp_all add: request_ok_def request_in_time_def sample_request_def held_def live_entries_def
        registry_get_def systime_add_def entry_ids_def)
  have "registry_reserve (\<lambda>_. False) [user_counter] [(0, 60)] sample_request [] \<noteq> None"
    by (simp add: registry_reserve_def sample_request_def systime_add_def Let_def split: option.split)
  then obtain a ctrs' reg' where
    run: "registry_reserve (\<lambda>_. False) [user_counter] [(0, 60)] sample_request [] = Some (a, ctrs', reg')"
    by auto
  from reserve_release_round_trip [OF ok _ run, of "counter_key user_counter"] run show ?thesis
    by (simp add: live_entries_def registry_get_def sample_request_def)
qed

text \<open>The sum that decides a reservation wraps around: a request whose amount exceeds every limit by
  far is admitted when usage and amount add up to more than the largest 64-bit integer.\<close>

lemma reservation_sum_wraps:
  "\<exists>counters' reg'. registry_reserve (\<lambda>_. False) [user_counter] [(2, 60)]
      (sample_request\<lparr>check_amount := - 2\<rparr>) [] = Some (AuthOk, counters', reg') \<and>
    unat (counter_max_value user_counter) < unat (- 2 :: u64)"
  by (simp add: registry_reserve_def sample_request_def outstanding_def registry_get_def first_limited_def
      systime_add_def sample_keys)

section \<open>Callers that race\<close>

text \<open>C23: when \<open>n\<close> callers check and update one counter of an open window at the same time, every
  interleaving of their loads and additions leaves it at most \<open>n - 1\<close> deltas above its maximum.\<close>

theorem race_overshoot_bounded:
  assumes "(race_step mx ttl d now)\<^sup>*\<^sup>* (race_start n v0 e) r"
    and "\<forall>i<n. now i < e" and "unat v0 + (\<Sum>i<n. unat (d i)) < 2 ^ 64" and "unat v0 \<le> unat mx"
    and "\<forall>i<n. d i = x"
  shows "unat (cell_value r) \<le> unat mx + (n - 1) * unat x"
  using assms by (rule overshoot_bound)

theorem race_overshoot_bounded_witness:
  "\<exists>r. (race_step 10 60 (\<lambda>_. 1) (\<lambda>_. 50))\<^sup>*\<^sup>* (race_start 2 9 100) r \<and> unat (cell_value r) = 11 \<and>
    unat (cell_value r) \<le> unat (10 :: u64) + (2 - 1) * unat (1 :: u64)"
proof -
  let ?r = "added 2 2 (9 + of_nat 2 * 1) 100"
  have run: "(race_step 10 60 (\<lambda>_. 1) (\<lambda>_. 50))\<^sup>*\<^sup>* (race_start 2 9 100) ?r" by (rule overshoot_reached) simp_all
  have "unat (cell_value ?r) \<le> unat (10 :: u64) + (2 - 1) * unat (1 :: u64)"
    by (rule race_overshoot_bounded [OF run]) simp_all
  with run show ?thesis by (intro exI [of _ ?r]) (simp add: added_def)
qed

text \<open>The overshoot happens: callers that all read the counter before any of them adds are all
  admitted although only one delta fits.\<close>

lemma race_overshoots:
  assumes "\<forall>i<n. now i < e" and "\<forall>i<n. d i = x" and "unat v + unat x \<le> unat mx"
  shows "(race_step mx ttl d now)\<^sup>*\<^sup>* (race_start n v e)
    \<lparr>cell_value = v + of_nat n * x, cell_expiry = e, callers = (\<lambda>i. if i < n then Updated else Denied)\<rparr>"
proof -
  have "added n n (v + of_nat n * x) e =
      \<lparr>cell_value = v + of_nat n * x, cell_expiry = e, callers = (\<lambda>i. if i < n then Updated else Denied)\<rparr>"
    by (auto simp: added_def)
  with overshoot_reached [OF assms, of ttl] show ?thesis by simp
qed

text \<open>At the end of a window a report can be lost: the caller that opens the new window stores its
  delta over one that was added to the new window in between, and both calls return.\<close>

lemma race_loses_report:
  assumes "e \<le> now 0" and "now 1 < now 0 + ttl"
  shows "(race_step mx ttl d now)\<^sup>*\<^sup>* (report_start v e)
    \<lparr>cell_value = d 0, cell_expiry = now 0 + ttl, callers = (\<lambda>i. if i < 2 then Updated else Denied)\<rparr>"
  using assms by (rule report_lost)

lemma race_loses_report_sample:
  "(race_step 10 60 (\<lambda>i. if i = 0 then 1 else 5) (\<lambda>_. 100))\<^sup>*\<^sup>* (report_start 9 100)
     \<lparr>cell_value = 1, cell_expiry = 160, callers = (\<lambda>i. if i < 2 then Updated else Denied)\<rparr>"
  using race_loses_report [of 100 "\<lambda>_. 100" 60 10 "\<lambda>i. if i = 0 then 1 else 5" 9] by simp

end
